(* ===== verification/Prelude.thy ===== *)
theory Prelude
  imports Main "HOL-Library.Word"
begin

section \<open>Shared types, arithmetic and byte encodings\<close>

text \<open>
  What every component of the AgentPay model shares: the machine integers of the
  Rust sources, the result type, checked and saturating arithmetic, the
  little-endian encoders of the wire formats, decimal parsing, and the small
  string functions the gateway applies to resource paths and tokens.

  Conventions.
  \<^item> \<open>u8\<close>, \<open>u16\<close>, \<open>u32\<close>, \<open>u64\<close> are words of that width, compared
    unsigned; \<open>i64\<close> is a 64-bit word read through \<open>sint\<close>.
  \<^item> \<open>[u8; 32]\<close> (public keys, digests), \<open>[u8; 64]\<close> (signatures) and
    \<open>[u8; 16]\<close> (session ids) are words of 256, 512 and 128 bits: byte \<open>i\<close>
    of the array is bits \<open>8 i\<close> to \<open>8 i + 7\<close>, and \<open>to_le_bytes\<close> lists
    the bytes in array order. The width is thus part of the type, as it is in Rust.
  \<^item> \<open>Result<T, E>\<close> is \<open>E + T\<close> with \<open>Err\<close> for \<open>Inl\<close>.
  \<^item> A Rust string is a HOL \<open>string\<close>, whose characters are the code points
    up to U+00FF; \<open>utf8\<close> gives the bytes that \<open>as_bytes\<close> returns.
\<close>

named_theorems ap_defs \<open>unfolding equations of the operations of the model\<close>

type_synonym u8 = "8 word"
type_synonym u16 = "16 word"
type_synonym u32 = "32 word"
type_synonym u64 = "64 word"
type_synonym i64 = "64 word"
type_synonym bytes = "u8 list"
type_synonym pubkey = "256 word"
type_synonym hash32 = "256 word"
type_synonym sig64 = "512 word"
type_synonym id16 = "128 word"
type_synonym ('a, 'e) result = "'e + 'a"

abbreviation Ok :: "'a \<Rightarrow> ('a, 'e) result" where
  "Ok \<equiv> Inr"

abbreviation Err :: "'e \<Rightarrow> ('a, 'e) result" where
  "Err \<equiv> Inl"

subsection \<open>Results\<close>

fun traverse :: "('a \<Rightarrow> ('b, 'e) result) \<Rightarrow> 'a list \<Rightarrow> ('b list, 'e) result" where
  \<comment> \<open>\<open>iter().map(f).collect::<Result<Vec<_>, _>>()\<close>: the first error wins\<close>
  "traverse f [] = Ok []"
| "traverse f (x # xs) =
     (case f x of Err e \<Rightarrow> Err e | Ok y \<Rightarrow>
      case traverse f xs of Err e \<Rightarrow> Err e | Ok ys \<Rightarrow> Ok (y # ys))"

lemma traverse_Ok: "(\<And>x. x \<in> set xs \<Longrightarrow> f x = Ok (g x)) \<Longrightarrow> traverse f xs = Ok (map g xs)"
  by (induction xs) auto

lemma traverse_total: "(\<And>x. x \<in> set xs \<Longrightarrow> \<exists>y. f x = Ok y) \<Longrightarrow> \<exists>ys. traverse f xs = Ok ys"
  by (induction xs) fastforce+

lemma traverse_append:
  "traverse f (xs @ ys) = (case traverse f xs of Err e \<Rightarrow> Err e | Ok as \<Rightarrow>
     case traverse f ys of Err e \<Rightarrow> Err e | Ok bs \<Rightarrow> Ok (as @ bs))"
  by (induction xs) (auto split: sum.splits)

lemma traverse_OkD: "traverse f xs = Ok ys \<Longrightarrow> length ys = length xs \<and> (\<forall>i < length xs. f (xs ! i) = Ok (ys ! i))"
proof (induction xs arbitrary: ys)
  case (Cons x xs)
  then obtain y ys' where "f x = Ok y" "traverse f xs = Ok ys'" "ys = y # ys'"
    by (auto split: sum.splits)
  then show ?case using Cons.IH by (auto simp: nth_Cons split: nat.splits)
qed simp

lemma find_map: "(\<And>x. P (f x) = P x) \<Longrightarrow> find P (map f xs) = map_option f (find P xs)"
  by (induction xs) auto
lemma find_append: "find P (xs @ ys) = (case find P xs of None \<Rightarrow> find P ys | Some x \<Rightarrow> Some x)"
  by (induction xs) auto

subsection \<open>Invariants of step relations\<close>

text \<open>
  The one induction every reachability argument of the development uses: a predicate
  each step keeps holds in every state reachable from one that has it.
\<close>

locale preserved =
  fixes step :: "'s \<Rightarrow> 's \<Rightarrow> bool" and inv :: "'s \<Rightarrow> bool"
  assumes step_keeps: "step s t \<Longrightarrow> inv s \<Longrightarrow> inv t"
begin

lemma reach_keeps: "step\<^sup>*\<^sup>* s t \<Longrightarrow> inv s \<Longrightarrow> inv t"
  by (induction rule: rtranclp_induct) (auto intro: step_keeps)

lemma reach_keeps_backwards: "step\<^sup>*\<^sup>* s t \<Longrightarrow> \<not> inv t \<Longrightarrow> \<not> inv s"
  using reach_keeps by blast

end

subsection \<open>Checked and saturating arithmetic\<close>

definition checked_add_u64 :: "u64 \<Rightarrow> u64 \<Rightarrow> u64 option" where
  "checked_add_u64 a b = (if unat a + unat b < 2 ^ 64 then Some (a + b) else None)"

definition checked_sub_u64 :: "u64 \<Rightarrow> u64 \<Rightarrow> u64 option" where
  "checked_sub_u64 a b = (if b \<le> a then Some (a - b) else None)"

definition saturating_sub_u64 :: "u64 \<Rightarrow> u64 \<Rightarrow> u64" where
  "saturating_sub_u64 a b = (if b \<le> a then a - b else 0)"

definition saturating_add_u64 :: "u64 \<Rightarrow> u64 \<Rightarrow> u64" where
  "saturating_add_u64 a b = (if unat a + unat b < 2 ^ 64 then a + b else - 1)"

definition checked_add_i64 :: "i64 \<Rightarrow> i64 \<Rightarrow> i64 option" where
  "checked_add_i64 a b =
     (if - (2 ^ 63) \<le> sint a + sint b \<and> sint a + sint b < 2 ^ 63 then Some (a + b) else None)"

definition checked_sub_i64 :: "i64 \<Rightarrow> i64 \<Rightarrow> i64 option" where
  "checked_sub_i64 a b =
     (if - (2 ^ 63) \<le> sint a - sint b \<and> sint a - sint b < 2 ^ 63 then Some (a - b) else None)"

definition i64_max :: i64 where
  "i64_max = 2 ^ 63 - 1"

lemma unat_u64_less: "unat (x :: u64) < 2 ^ 64"
  using unsigned_less [of x, where ?'a = nat] by simp

lemma checked_add_u64_Some:
  "checked_add_u64 a b = Some c \<longleftrightarrow> unat a + unat b < 2 ^ 64 \<and> c = a + b"
  by (auto simp: checked_add_u64_def)

lemma checked_add_u64_unat:
  "checked_add_u64 a b = Some c \<Longrightarrow> unat c = unat a + unat b"
  by (auto simp: checked_add_u64_def unat_word_ariths split: if_splits)

lemma unat_add_u64: "unat (a :: u64) + unat b < 2 ^ 64 \<Longrightarrow> unat (a + b) = unat a + unat b"
  by (rule checked_add_u64_unat) (simp add: checked_add_u64_Some)

lemma checked_sub_u64_Some:
  "checked_sub_u64 a b = Some c \<longleftrightarrow> b \<le> a \<and> c = a - b"
  by (auto simp: checked_sub_u64_def)

lemma checked_sub_u64_unat:
  "checked_sub_u64 a b = Some c \<Longrightarrow> unat c = unat a - unat b"
  by (auto simp: checked_sub_u64_def unat_sub split: if_splits)

lemma i64_range: "- (2 ^ 63) \<le> sint (x :: i64)" "sint (x :: i64) < 2 ^ 63"
  using sint_greater_eq [of x] sint_less [of x] by simp_all

lemma sint_add_in_range:
  assumes "- (2 ^ 63) \<le> sint a + sint (b :: i64)" and "sint a + sint b < 2 ^ 63"
  shows "sint (a + b) = sint a + sint b"
  using assms by (simp add: sint_word_ariths signed_take_bit_int_eq_self)

lemma sint_sub_in_range:
  assumes "- (2 ^ 63) \<le> sint a - sint (b :: i64)" and "sint a - sint b < 2 ^ 63"
  shows "sint (a - b) = sint a - sint b"
  using assms by (simp add: sint_word_ariths signed_take_bit_int_eq_self)

lemma checked_add_i64_sint:
  "checked_add_i64 a b = Some c \<Longrightarrow> sint c = sint a + sint b"
  by (auto simp: checked_add_i64_def intro: sint_add_in_range split: if_splits)

lemma checked_sub_i64_sint:
  "checked_sub_i64 a b = Some c \<Longrightarrow> sint c = sint a - sint b"
  by (auto simp: checked_sub_i64_def intro: sint_sub_in_range split: if_splits)

lemma sint_small:
  fixes v :: "64 word"
  assumes "unat v < 2 ^ 63"
  shows "sint v = int (unat v)"
proof -
  have u: "uint v = int (unat v)" by (rule uint_nat)
  have "int (unat v) < int (2 ^ 63)" using assms by (simp only: of_nat_less_iff)
  then have "uint v < 2 ^ 63" unfolding u by simp
  moreover have "- (2 ^ 63) \<le> uint v" by (rule order_trans [OF _ uint_ge_0]) simp
  ultimately have "signed_take_bit 63 (uint v) = uint v" by (intro signed_take_bit_int_eq_self)
  moreover have "sint v = signed_take_bit 63 (uint v)" using sint_uint [of v] by simp
  ultimately show ?thesis using u by linarith
qed

lemma sint_nonneg: "0 \<le> sint (v :: 64 word) \<longleftrightarrow> unat v < 2 ^ 63"
proof
  assume a: "0 \<le> sint v"
  have "uint (word_of_int (sint v) :: 64 word) = sint v mod 2 ^ 64" using uint_word_of_int[of "sint v", where 'a = 64] by simp
  moreover have "sint v mod 2 ^ 64 = sint v" using a i64_range(2) [of v] by (intro mod_pos_pos_trivial) simp_all
  ultimately have "uint v = sint v" by simp
  then have e: "int (unat v) = sint v" by (rule trans [OF uint_nat [symmetric]])
  have "int (unat v) < int (2 ^ 63)" unfolding e using i64_range(2) [of v] by simp
  then show "unat v < 2 ^ 63" by (simp only: of_nat_less_iff)
next
  assume "unat v < 2 ^ 63"
  then show "0 \<le> sint v" using sint_small by simp
qed
lemma sint_i64_max: "sint i64_max = 2 ^ 63 - 1"
  by (simp add: i64_max_def)

subsection \<open>Little-endian byte encodings\<close>

text \<open>
  \<open>to_le_bytes n w\<close> is the list of the \<open>n\<close> low bytes of \<open>w\<close>, least significant
  first (Rust's \<open>to_le_bytes\<close>, and \<open>as_ref\<close> of a byte array);
  \<open>from_le_bytes\<close> is its inverse.
\<close>

primrec to_le_bytes :: "nat \<Rightarrow> 'a::len word \<Rightarrow> bytes" where
  "to_le_bytes 0 w = []"
| "to_le_bytes (Suc n) w = ucast w # to_le_bytes n (drop_bit 8 w)"

primrec from_le_bytes :: "bytes \<Rightarrow> 'a::len word" where
  "from_le_bytes [] = 0"
| "from_le_bytes (b # bs) = or (ucast b) (push_bit 8 (from_le_bytes bs))"

lemma length_to_le_bytes [simp]: "length (to_le_bytes n w) = n"
  by (induction n arbitrary: w) simp_all

lemma from_to_le_bytes_take:
  "from_le_bytes (to_le_bytes n w) = take_bit (8 * n) (w :: 'a::len word)"
proof (induction n arbitrary: w)
  case 0
  then show ?case by simp
next
  case (Suc n)
  show ?case
    by (rule bit_word_eqI)
      (auto simp: Suc bit_simps not_less)
qed

lemma from_to_le_bytes [simp]:
  "LENGTH('a) \<le> 8 * n \<Longrightarrow> from_le_bytes (to_le_bytes n w) = (w :: 'a::len word)"
  by (simp add: from_to_le_bytes_take take_bit_word_eq_self)

lemma to_le_bytes_inject:
  fixes v w :: "'a::len word"
  assumes "LENGTH('a) \<le> 8 * n"
  shows "to_le_bytes n v = to_le_bytes n w \<longleftrightarrow> v = w"
  using assms by (metis from_to_le_bytes)

lemma bit_from_le_bytes:
  "bit (from_le_bytes bs :: 'a::len word) k \<Longrightarrow> k < 8 * length bs"
proof (induction bs arbitrary: k)
  case Nil
  then show ?case by simp
next
  case (Cons b bs)
  then show ?case
    by (auto simp: bit_simps dest: bit_imp_le_length) (use bit_imp_le_length [of b k] in force)
qed

lemma drop_bit_from_le_bytes:
  assumes "8 * length (b # bs) \<le> LENGTH('a)"
  shows "drop_bit 8 (from_le_bytes (b # bs) :: 'a::len word) = from_le_bytes bs"
  using assms by (intro bit_word_eqI) (auto simp: bit_simps dest: bit_from_le_bytes bit_imp_le_length)

lemma to_from_le_bytes [simp]:
  assumes "8 * n \<le> LENGTH('a)" and "length bs = n"
  shows "to_le_bytes n (from_le_bytes bs :: 'a::len word) = bs"
  using assms
proof (induction n arbitrary: bs)
  case 0
  then show ?case by simp
next
  case (Suc n)
  then obtain b bs' where bs: "bs = b # bs'" "length bs' = n"
    by (auto simp: length_Suc_conv)
  have "ucast (from_le_bytes bs :: 'a word) = b"
    using Suc.prems bs by (intro bit_word_eqI) (auto simp: bit_simps)
  moreover have "drop_bit 8 (from_le_bytes bs :: 'a word) = from_le_bytes bs'"
    using Suc.prems bs by (simp only: drop_bit_from_le_bytes)
  ultimately show ?case using Suc bs by simp
qed

subsection \<open>Strings\<close>

text \<open>
  UTF-8 of the code points a HOL character can be; Unicode \<open>White_Space\<close> in that
  range, which is what \<open>str::trim\<close> strips.
\<close>

definition utf8_char :: "char \<Rightarrow> bytes" where
  "utf8_char c = (let n = (of_char c :: nat) in
     if n < 128 then [of_nat n] else [192 + of_nat (n div 64), 128 + of_nat (n mod 64)])"

definition utf8 :: "string \<Rightarrow> bytes" where
  "utf8 s = concat (map utf8_char s)"

definition is_whitespace :: "char \<Rightarrow> bool" where
  "is_whitespace c = (let n = (of_char c :: nat) in
     9 \<le> n \<and> n \<le> 13 \<or> n = 32 \<or> n = 133 \<or> n = 160)"

definition trim_start_matches :: "(char \<Rightarrow> bool) \<Rightarrow> string \<Rightarrow> string" where
  "trim_start_matches p s = dropWhile p s"

definition trim_end_matches :: "(char \<Rightarrow> bool) \<Rightarrow> string \<Rightarrow> string" where
  "trim_end_matches p s = rev (dropWhile p (rev s))"

definition trim_matches :: "(char \<Rightarrow> bool) \<Rightarrow> string \<Rightarrow> string" where
  "trim_matches p s = trim_end_matches p (trim_start_matches p s)"

definition trim :: "string \<Rightarrow> string" where
  "trim s = trim_matches is_whitespace s"

subsection \<open>Decimal integers\<close>

text \<open>
  \<open>str::parse\<close> for unsigned and signed integers: an optional sign (\<open>-\<close> for the
  signed types only), at least one digit, nothing else, no overflow.
\<close>

definition digit_of :: "char \<Rightarrow> nat option" where
  "digit_of c = (let n = (of_char c :: nat) in
     if 48 \<le> n \<and> n \<le> 57 then Some (n - 48) else None)"

fun parse_digits :: "nat \<Rightarrow> string \<Rightarrow> nat option" where
  "parse_digits acc [] = Some acc"
| "parse_digits acc (c # cs) =
     (case digit_of c of None \<Rightarrow> None | Some d \<Rightarrow> parse_digits (10 * acc + d) cs)"

definition parse_nat :: "string \<Rightarrow> nat option" where
  "parse_nat s = (if s = [] then None else parse_digits 0 s)"

definition strip_plus :: "string \<Rightarrow> string" where
  "strip_plus s = (case s of [] \<Rightarrow> [] | c # cs \<Rightarrow> if c = CHR ''+'' then cs else s)"

definition parse_u64 :: "string \<Rightarrow> u64 option" where
  "parse_u64 s = (case parse_nat (strip_plus s) of
     None \<Rightarrow> None | Some n \<Rightarrow> if n < 2 ^ 64 then Some (of_nat n) else None)"

definition parse_i64 :: "string \<Rightarrow> i64 option" where
  "parse_i64 s =
     (if s \<noteq> [] \<and> hd s = CHR ''-'' then
        (case parse_nat (tl s) of
           None \<Rightarrow> None | Some n \<Rightarrow> if n \<le> 2 ^ 63 then Some (- of_nat n) else None)
      else
        (case parse_nat (strip_plus s) of
           None \<Rightarrow> None | Some n \<Rightarrow> if n < 2 ^ 63 then Some (of_nat n) else None))"

definition digit_char :: "nat \<Rightarrow> char" where
  "digit_char d = char_of (48 + d)"

fun show_nat :: "nat \<Rightarrow> string" where
  "show_nat n = (if n < 10 then [digit_char n] else show_nat (n div 10) @ [digit_char (n mod 10)])"

declare show_nat.simps [simp del]

definition show_u64 :: "u64 \<Rightarrow> string" where
  "show_u64 w = show_nat (unat w)"

lemma digit_of_digit_char: "d < 10 \<Longrightarrow> digit_of (digit_char d) = Some d"
  by (simp add: digit_of_def digit_char_def)

lemma parse_digits_append:
  "parse_digits acc (xs @ ys) =
     (case parse_digits acc xs of None \<Rightarrow> None | Some a \<Rightarrow> parse_digits a ys)"
  by (induction acc xs rule: parse_digits.induct) (auto split: option.splits)

lemma show_nat_nonempty [simp]: "show_nat n \<noteq> []"
  by (subst show_nat.simps) simp

lemma hd_show_nat_digit: "\<exists>d < 10. hd (show_nat n) = digit_char d"
proof (induction n rule: show_nat.induct)
  case (1 n)
  then show ?case
    by (auto simp: show_nat.simps [of n] hd_append)
qed

lemma digit_char_not_sign: "d < 10 \<Longrightarrow> digit_char d \<noteq> CHR ''+'' \<and> digit_char d \<noteq> CHR ''-''"
proof -
  assume "d < 10"
  then have "digit_of (digit_char d) \<noteq> None" by (simp add: digit_of_digit_char)
  moreover have "digit_of (CHR ''+'') = None" and "digit_of (CHR ''-'') = None"
    by (simp_all add: digit_of_def)
  ultimately show ?thesis by auto
qed

lemma parse_digits_show_nat: "parse_digits 0 (show_nat n) = Some n"
proof (induction n rule: show_nat.induct)
  case (1 n)
  show ?case
  proof (cases "n < 10")
    case True
    then show ?thesis by (simp add: show_nat.simps [of n] digit_of_digit_char)
  next
    case False
    then show ?thesis
      using 1 by (simp add: show_nat.simps [of n] parse_digits_append digit_of_digit_char)
  qed
qed

lemma strip_plus_show_nat [simp]: "strip_plus (show_nat n) = show_nat n"
  using hd_show_nat_digit [of n]
  by (auto simp: strip_plus_def split: list.splits) (metis digit_char_not_sign)

lemma parse_nat_show_nat [simp]: "parse_nat (show_nat n) = Some n"
  by (simp add: parse_nat_def parse_digits_show_nat)

lemma parse_show_u64 [simp]: "parse_u64 (show_u64 w) = Some w"
  using unsigned_less [of w, where ?'a = nat] by (simp add: parse_u64_def show_u64_def)

lemma parse_digits_only_digits:
  "parse_digits acc s = Some n \<Longrightarrow> \<forall>c \<in> set s. digit_of c \<noteq> None"
  by (induction acc s rule: parse_digits.induct) (auto split: option.splits)

lemma dropWhile_hd: "dropWhile p xs = ys \<Longrightarrow> ys = [] \<or> \<not> p (hd ys)"
  using hd_dropWhile by blast

lemma of_char_less_256: "(of_char c :: nat) < 256"
  by (metis mod_less_divisor of_char_mod_256 zero_less_numeral)

lemma of_nat_u8_eq: "(of_nat n :: u8) = of_nat m \<longleftrightarrow> n mod 256 = m mod 256"
  by (simp add: word_of_nat_eq_iff take_bit_eq_mod)

lemma u8_of_nat_inj: "n < 256 \<Longrightarrow> m < 256 \<Longrightarrow> (of_nat n :: u8) = of_nat m \<longleftrightarrow> n = m"
  by (simp add: of_nat_u8_eq)

definition utf8_code :: "nat \<Rightarrow> bytes" where
  "utf8_code n = (if n < 128 then [of_nat n] else [of_nat (192 + n div 64), of_nat (128 + n mod 64)])"

lemma utf8_char_code: "utf8_char c = utf8_code (of_char c)"
  by (simp add: utf8_char_def utf8_code_def Let_def)

lemma utf8_code_inj_prefix:
  assumes "n < 256" and "m < 256" and "utf8_code n @ xs = utf8_code m @ ys"
  shows "n = m \<and> xs = ys"
proof -
  have d: "192 + n div 64 < 256" "192 + m div 64 < 256" "128 + n mod 64 < 256" "128 + m mod 64 < 256"
    using assms by auto
  have big: "n \<noteq> 192 + m div 64" if "n < 128" for n m :: nat using that by simp
  show ?thesis
  proof (cases "n < 128"; cases "m < 128")
    assume "\<not> n < 128" "\<not> m < 128"
    then have "n div 64 = m div 64 \<and> n mod 64 = m mod 64 \<and> xs = ys"
      using assms d unfolding utf8_code_def by (simp only: if_False append.simps list.inject u8_of_nat_inj) simp
    then show ?thesis by (metis div_mult_mod_eq)
  qed (use assms d big in \<open>auto simp: utf8_code_def u8_of_nat_inj simp del: of_nat_add\<close>)
qed

lemma utf8_char_inj_prefix:
  "utf8_char c @ xs = utf8_char d @ ys \<Longrightarrow> c = d \<and> xs = ys"
  using utf8_code_inj_prefix [OF of_char_less_256 of_char_less_256, of c xs d ys]
  by (simp add: utf8_char_code)

lemma utf8_inject [simp]: "utf8 s = utf8 t \<longleftrightarrow> s = t"
proof
  assume "utf8 s = utf8 t"
  then show "s = t"
  proof (induction s arbitrary: t)
    case Nil
    then show ?case
      by (cases t) (auto simp: utf8_def utf8_char_def Let_def split: if_splits)
  next
    case (Cons c s)
    then obtain d t' where t: "t = d # t'"
      by (cases t) (auto simp: utf8_def utf8_char_def Let_def split: if_splits)
    with Cons.prems have "utf8_char c @ utf8 s = utf8_char d @ utf8 t'"
      by (simp add: utf8_def)
    then show ?case using Cons.IH t utf8_char_inj_prefix by blast
  qed
qed simp

definition show_i64 :: "i64 \<Rightarrow> string" where
  "show_i64 w = (if sint w < 0 then CHR ''-'' # show_nat (nat (- sint w)) else show_nat (nat (sint w)))"

lemma parse_show_i64 [simp]: "parse_i64 (show_i64 w) = Some w"
proof (cases "sint w < 0")
  case True
  have "nat (- sint w) \<le> 2 ^ 63" using i64_range(1) [of w] by (simp add: nat_le_iff)
  moreover have "- (of_nat (nat (- sint w))) = w" using True by simp
  ultimately show ?thesis using True by (simp add: parse_i64_def show_i64_def)
next
  case False
  have "nat (sint w) < 2 ^ 63" using i64_range(2) [of w] False by (simp add: nat_less_iff)
  moreover have "of_nat (nat (sint w)) = w" using False by simp
  moreover have "hd (show_nat (nat (sint w))) \<noteq> CHR ''-''"
    using hd_show_nat_digit digit_char_not_sign by metis
  ultimately show ?thesis using False by (simp add: parse_i64_def show_i64_def)
qed

subsection \<open>Code outside the repository\<close>

text \<open>
  The third-party functions the sources call, as one record of parameters: base58
  text of keys (\<open>solana_pubkey\<close>, \<open>bs58\<close>), SHA-256 (\<open>sha2\<close>,
  \<open>solana_sha256_hasher\<close>), Ed25519 (\<open>ed25519_dalek\<close>: whether a key is a
  curve point, and \<open>verify_strict\<close>), and Solana's program-derived addresses. Each
  definition that uses one takes the record as its argument \<open>X\<close>; what a theorem
  needs of it is a hypothesis of that theorem.
\<close>

record externals =
  pk_parse :: "string \<Rightarrow> pubkey option"
  pk_show :: "pubkey \<Rightarrow> string"
  bs58_decode :: "string \<Rightarrow> bytes option"
  sha256 :: "bytes \<Rightarrow> hash32"
  verifying_key :: "pubkey \<Rightarrow> bool"
  verify_strict :: "pubkey \<Rightarrow> bytes \<Rightarrow> sig64 \<Rightarrow> bool"
  create_pda :: "bytes list \<Rightarrow> pubkey \<Rightarrow> pubkey option"
  find_pda :: "bytes list \<Rightarrow> pubkey \<Rightarrow> pubkey \<times> u8"

definition pk_text_law :: "externals \<Rightarrow> bool" where
  \<comment> \<open>the base58 text of a key parses back to that key, and has at most 44 characters\<close>
  "pk_text_law X \<longleftrightarrow> (\<forall>k. pk_parse X (pk_show X k) = Some k \<and> length (pk_show X k) \<le> 44)"

lemma pk_text_lawD [simp]: "pk_text_law X \<Longrightarrow> pk_parse X (pk_show X k) = Some k"
  by (simp add: pk_text_law_def)

lemma pk_text_length [simp]: "pk_text_law X \<Longrightarrow> length (pk_show X k) \<le> 44"
  by (simp add: pk_text_law_def)

lemma pk_show_inject: "pk_text_law X \<Longrightarrow> pk_show X k = pk_show X k' \<longleftrightarrow> k = k'"
  by (metis pk_text_lawD option.inject)

text \<open>
  What Solana documents of program-derived addresses: \<open>find_program_address\<close> returns
  the address that \<open>create_program_address\<close> gives for the seeds with the bump appended.
\<close>

definition pda_law :: "externals \<Rightarrow> bool" where
  "pda_law X \<longleftrightarrow> (\<forall>seeds p k b. find_pda X seeds p = (k, b) \<longrightarrow> seeds \<noteq> [] \<longrightarrow>
     create_pda X (seeds @ [[b]]) p = Some k)"

text \<open>
  A concrete instance, for the witnesses: keys print as their 32 bytes, and an address
  is told by the length of its first seed.
\<close>

definition demo_externals :: externals where
  "demo_externals = \<lparr>
     pk_parse = (\<lambda>s. if length s = 32 then Some (from_le_bytes (map of_char s)) else None),
     pk_show = (\<lambda>k. map (\<lambda>b. char_of (unat b)) (to_le_bytes 32 k)),
     bs58_decode = (\<lambda>s. Some (map of_char s)),
     sha256 = (\<lambda>bs. from_le_bytes (take 32 (rev bs))),
     verifying_key = (\<lambda>_. True),
     verify_strict = (\<lambda>k m s. from_le_bytes (take 8 (drop 49 m)) = (ucast s :: u64)),
     create_pda = (\<lambda>seeds p. Some (of_nat (length (hd seeds)))),
     find_pda = (\<lambda>seeds p. (of_nat (length (hd seeds)), 255))\<rparr>"

lemma demo_pda: "pda_law demo_externals"
  by (auto simp: pda_law_def demo_externals_def hd_append)

lemma bytes_of_chars: "map of_char (map (\<lambda>b. char_of (unat b)) bs) = (bs :: bytes)"
proof -
  have "of_char (char_of (unat b)) = b" for b :: u8
  proof -
    have "of_char (char_of (unat b)) = (of_nat (of_char (char_of (unat b) :: char)) :: u8)"
      by (simp only: of_nat_of_char)
    also have "\<dots> = b" using unsigned_less [of b, where ?'a = nat] by simp
    finally show ?thesis .
  qed
  then show ?thesis by (simp add: comp_def)
qed

lemma demo_pk_text: "pk_text_law demo_externals"
  using bytes_of_chars by (simp add: pk_text_law_def demo_externals_def)

end
