(* ===== verification/Claim.thy ===== *)
theory Claim
  imports Prelude
begin

section \<open>Claims: canonical encoding, wire decoding, signature check\<close>

text \<open>
  \<open>gateway/src/claim.rs\<close> and \<open>gateway/src/verify.rs\<close>. A claim is a
  cumulative amount an agent owes on one session; its 73 signing bytes are what the
  agent signs and what the on-chain Ed25519 precompile verifies. The encoder fills a
  fixed buffer at hard-coded offsets; the lemmas show that this is the plain
  concatenation of its fixed-width fields, hence injective. Decoding a wire claim
  takes the base58 decoders of the parameter record \<open>externals\<close>.
\<close>

subsection \<open>The canonical bytes\<close>

definition CLAIM_DOMAIN :: bytes where
  "CLAIM_DOMAIN = utf8 ''agentpay:claim:v1''"

definition CLAIM_MESSAGE_LEN :: nat where
  "CLAIM_MESSAGE_LEN = 17 + 32 + 8 + 8 + 8"

definition CLOCK_SKEW_TOLERANCE_SECS :: i64 where
  "CLOCK_SKEW_TOLERANCE_SECS = 30"

definition OFF_DOMAIN :: nat where "OFF_DOMAIN = 0"
definition OFF_SESSION :: nat where "OFF_SESSION = 17"
definition OFF_CUMULATIVE :: nat where "OFF_CUMULATIVE = 49"
definition OFF_NONCE :: nat where "OFF_NONCE = 57"
definition OFF_EXPIRY :: nat where "OFF_EXPIRY = 65"

lemmas claim_offsets = OFF_DOMAIN_def OFF_SESSION_def OFF_CUMULATIVE_def OFF_NONCE_def
  OFF_EXPIRY_def CLAIM_MESSAGE_LEN_def

record claim =
  cl_session :: pubkey
  cl_cumulative_amount :: u64
  cl_nonce :: u64
  cl_expires_at :: i64

definition copy_slice :: "nat \<Rightarrow> nat \<Rightarrow> bytes \<Rightarrow> bytes \<Rightarrow> bytes" where
  \<comment> \<open>\<open>buf[lo..hi].copy_from_slice(src)\<close>, with \<open>length src = hi - lo\<close>\<close>
  "copy_slice lo hi src buf = take lo buf @ src @ drop hi buf"

definition signing_bytes :: "claim \<Rightarrow> bytes" where
  "signing_bytes c =
     (let buf = replicate CLAIM_MESSAGE_LEN 0;
          buf = copy_slice OFF_DOMAIN OFF_SESSION CLAIM_DOMAIN buf;
          buf = copy_slice OFF_SESSION OFF_CUMULATIVE (to_le_bytes 32 (cl_session c)) buf;
          buf = copy_slice OFF_CUMULATIVE OFF_NONCE (to_le_bytes 8 (cl_cumulative_amount c)) buf;
          buf = copy_slice OFF_NONCE OFF_EXPIRY (to_le_bytes 8 (cl_nonce c)) buf
      in copy_slice OFF_EXPIRY CLAIM_MESSAGE_LEN (to_le_bytes 8 (cl_expires_at c)) buf)"

definition is_expired :: "claim \<Rightarrow> i64 \<Rightarrow> bool" where
  "is_expired c now =
     (case checked_add_i64 (cl_expires_at c) CLOCK_SKEW_TOLERANCE_SECS of
        Some limit \<Rightarrow> sint now > sint limit
      | None \<Rightarrow> False)"

subsection \<open>The wire form\<close>

record claim_wire =
  cw_session :: string
  cw_cumulative_amount :: string
  cw_nonce :: string
  cw_expires_at :: string
  cw_signature :: string

datatype claim_decode_error =
  DecSession | DecCumulativeAmount | DecNonce | DecExpiresAt | DecSignature

definition decode :: "externals \<Rightarrow> claim_wire \<Rightarrow> (claim \<times> sig64, claim_decode_error) result" where
  "decode X w =
     (case pk_parse X (cw_session w) of None \<Rightarrow> Err DecSession | Some session \<Rightarrow>
      case parse_u64 (cw_cumulative_amount w) of None \<Rightarrow> Err DecCumulativeAmount | Some cumulative \<Rightarrow>
      case parse_u64 (cw_nonce w) of None \<Rightarrow> Err DecNonce | Some nonce \<Rightarrow>
      case parse_i64 (cw_expires_at w) of None \<Rightarrow> Err DecExpiresAt | Some expires \<Rightarrow>
      case bs58_decode X (cw_signature w) of None \<Rightarrow> Err DecSignature | Some sig_bytes \<Rightarrow>
      if length sig_bytes \<noteq> 64 then Err DecSignature
      else Ok (\<lparr>cl_session = session, cl_cumulative_amount = cumulative, cl_nonce = nonce,
                cl_expires_at = expires\<rparr>, from_le_bytes sig_bytes))"

subsection \<open>The signature check\<close>

datatype signature_verdict = Valid | Invalid

definition verify_claim_signature ::
    "externals \<Rightarrow> pubkey \<Rightarrow> claim \<Rightarrow> sig64 \<Rightarrow> signature_verdict" where
  "verify_claim_signature X agent c sig =
     (if \<not> verifying_key X agent then Invalid
      else if verify_strict X agent (signing_bytes c) sig then Valid else Invalid)"

subsection \<open>The encoding is the concatenation of its fields\<close>

lemma length_CLAIM_DOMAIN [simp]: "length CLAIM_DOMAIN = 17"
  by (simp add: CLAIM_DOMAIN_def utf8_def utf8_char_def)

lemma copy_slice_append:
  assumes "length pre = lo" and "length src = hi - lo" and "lo \<le> hi" and "length rest = n - lo"
  shows "copy_slice lo hi src (pre @ rest) = (pre @ src) @ drop (hi - lo) rest"
  using assms by (simp add: copy_slice_def)

lemma signing_bytes_concat:
  "signing_bytes c = CLAIM_DOMAIN @ to_le_bytes 32 (cl_session c)
     @ to_le_bytes 8 (cl_cumulative_amount c) @ to_le_bytes 8 (cl_nonce c)
     @ to_le_bytes 8 (cl_expires_at c)"
  by (simp add: signing_bytes_def copy_slice_def claim_offsets Let_def)

lemma length_signing_bytes [simp]: "length (signing_bytes c) = 73"
  by (simp add: signing_bytes_concat)

lemma claim_fields_inject:
  fixes s s' :: pubkey and a a' n n' :: u64 and e e' :: i64
  shows "CLAIM_DOMAIN @ to_le_bytes 32 s @ to_le_bytes 8 a @ to_le_bytes 8 n @ to_le_bytes 8 e
       = CLAIM_DOMAIN @ to_le_bytes 32 s' @ to_le_bytes 8 a' @ to_le_bytes 8 n' @ to_le_bytes 8 e'
     \<longleftrightarrow> s = s' \<and> a = a' \<and> n = n' \<and> e = e'"
  by (simp add: to_le_bytes_inject)

lemma is_expired_iff:
  "is_expired c now \<longleftrightarrow> sint (cl_expires_at c) + 30 < 2 ^ 63 \<and> sint (cl_expires_at c) + 30 < sint now"
proof (cases "checked_add_i64 (cl_expires_at c) CLOCK_SKEW_TOLERANCE_SECS")
  case None
  then show ?thesis
    using i64_range [of "cl_expires_at c"]
    by (auto simp: is_expired_def checked_add_i64_def CLOCK_SKEW_TOLERANCE_SECS_def split: if_splits)
next
  case (Some limit)
  then have "sint limit = sint (cl_expires_at c) + 30"
    by (auto dest: checked_add_i64_sint simp: CLOCK_SKEW_TOLERANCE_SECS_def)
  then show ?thesis
    using Some i64_range [of limit] by (auto simp: is_expired_def)
qed

text \<open>
  C28. The claim encoding is injective: two claims have the same signing bytes exactly
  when they are the same claim, so one signature never covers two claims.
\<close>

theorem signing_bytes_injective:
  "signing_bytes c = signing_bytes c' \<longleftrightarrow> c = c'"
  using claim_fields_inject
  by (cases c; cases c') (simp add: signing_bytes_concat)

end
