(* ===== verification/Escrow.thy ===== *)
theory Escrow
  imports Claim
begin

section \<open>The on-chain escrow program\<close>

text \<open>
  \<open>programs/agentpay/src/lib.rs\<close>: the accounts, the three instruction handlers
  \<open>open_session\<close>, \<open>settle_session\<close> and \<open>refund_session\<close> with their
  Anchor account constraints, and the introspection of the Ed25519 precompile.

  The state \<open>chain\<close> holds the accounts the program reads or writes: the session
  accounts, the settlement receipts, the token accounts, the mints, and the log of
  emitted events. A handler maps a state, a transaction and its accounts to a new
  state or an error; an error leaves the state as it was, as a failed transaction does.

  Outside this repository, and so parameters: the SPL token program's
  \<open>transfer_checked\<close> and the system program's \<open>create_account\<close> (record
  \<open>runtime\<close>), PDA derivation and SHA-256 (record \<open>externals\<close>).
\<close>

subsection \<open>Constants, accounts, errors, events\<close>

definition MAX_SESSION_DURATION_SECS :: i64 where
  "MAX_SESSION_DURATION_SECS = 30 * 24 * 60 * 60"

definition SESSION_SEED :: bytes where "SESSION_SEED = utf8 ''session''"
definition VAULT_SEED :: bytes where "VAULT_SEED = utf8 ''vault''"
definition SETTLEMENT_SEED :: bytes where "SETTLEMENT_SEED = utf8 ''settlement''"

record session =
  ses_agent :: pubkey
  ses_provider :: pubkey
  ses_settlement_authority :: pubkey
  ses_mint :: pubkey
  ses_vault :: pubkey
  ses_deposited_total :: u64
  ses_cumulative_settled :: u64
  ses_refunded_total :: u64
  ses_expires_at :: i64
  ses_session_id :: id16
  ses_bump :: u8
  ses_vault_bump :: u8
  ses_is_settled :: bool

record settlement_record =
  sr_session :: pubkey
  sr_claim_hash :: hash32
  sr_merkle_root :: hash32
  sr_settled_at :: i64
  sr_settled_amount :: u64
  sr_bump :: u8

datatype record_account =
    SystemOwned u64  \<comment> \<open>not created yet; the lamports it already holds\<close>
  | ForeignOwned pubkey  \<comment> \<open>owned by another program\<close>
  | ProgramOwned "settlement_record option"
      \<comment> \<open>owned by this program; \<open>None\<close> when the data is not a \<open>SettlementRecord\<close>\<close>

record token_account =
  ta_mint :: pubkey
  ta_owner :: pubkey
  ta_amount :: u64
  ta_frozen :: bool

type_synonym token_store = "pubkey \<rightharpoonup> token_account"

datatype event =
    SessionOpened pubkey pubkey pubkey pubkey pubkey u64 i64
  | SessionSettled pubkey pubkey u64 u64 hash32 i64
  | SessionRefunded pubkey pubkey u64 bool i64

record chain =
  ch_sessions :: "pubkey \<rightharpoonup> session"
  ch_records :: "pubkey \<Rightarrow> record_account"
  ch_tokens :: token_store
  ch_mints :: "pubkey \<rightharpoonup> u8"
  ch_events :: "event list"

datatype agentpay_error =
    ZeroDeposit | ExpiryInPast | ExpiryTooDistant | SessionExpired | ClaimExpired
  | ClaimNotMonotonic | ClaimExceedsDeposit | PayoutExceedsDeposit | UnauthorizedSettler
  | SettlementRecordInvalid | UnauthorizedRefund | SessionStillActive | NothingToRefund
  | MintMismatch | VaultMismatch | TokenAccountOwnerMismatch | MissingEd25519Instruction
  | MalformedEd25519Instruction | Ed25519IndirectReference | ClaimSignerMismatch
  | ClaimMessageMismatch | ArithmeticOverflow

datatype program_error =
    AgentPayError agentpay_error
  | AccountNotSigner | AccountNotInitialized | AccountAlreadyInUse | ConstraintSeeds
  | ConstraintAddress | ConstraintMut | InstructionFallbackNotFound | TokenProgramError | SystemProgramError

subsection \<open>Transactions and the runtime\<close>

record account_meta =
  am_pubkey :: pubkey
  am_is_signer :: bool
  am_is_writable :: bool

record instruction =
  ix_program_id :: pubkey
  ix_accounts :: "account_meta list"
  ix_data :: bytes

record txn =
  tx_now :: i64  \<comment> \<open>\<open>Clock::get()?.unix_timestamp\<close>\<close>
  tx_signers :: "pubkey list"
  tx_instructions :: "instruction list"
  tx_current_index :: nat  \<comment> \<open>the index of the instruction being executed\<close>

record transfer_args =
  tr_from :: pubkey
  tr_mint :: pubkey
  tr_to :: pubkey
  tr_authority :: pubkey
  tr_amount :: u64
  tr_decimals :: u8

record runtime =
  rt_program_id :: pubkey
  rt_ed25519_program :: pubkey
  rt_instructions_sysvar :: pubkey
  rt_transfer_checked :: "token_store \<Rightarrow> transfer_args \<Rightarrow> token_store option"
  rt_minimum_balance :: "nat \<Rightarrow> u64"
  rt_create_account :: "pubkey \<Rightarrow> u64 \<Rightarrow> u64 \<Rightarrow> nat \<Rightarrow> bool"
    \<comment> \<open>payer, lamports the new account already holds, lamports, space: whether it succeeds\<close>

subsection \<open>The claim message and the Ed25519 precompile\<close>

definition build_claim_message :: "pubkey \<Rightarrow> u64 \<Rightarrow> u64 \<Rightarrow> i64 \<Rightarrow> bytes" where
  "build_claim_message session cumulative_amount nonce claim_expires_at =
     CLAIM_DOMAIN @ to_le_bytes 32 session @ to_le_bytes 8 cumulative_amount
       @ to_le_bytes 8 nonce @ to_le_bytes 8 claim_expires_at"

definition slice :: "nat \<Rightarrow> nat \<Rightarrow> 'a list \<Rightarrow> 'a list" where
  \<comment> \<open>\<open>&data[lo..hi]\<close>, for \<open>lo \<le> hi \<le> length data\<close>\<close>
  "slice lo hi data = take (hi - lo) (drop lo data)"

definition read_u16 :: "bytes \<Rightarrow> nat \<Rightarrow> u16" where
  "read_u16 data at = from_le_bytes [data ! at, data ! (at + 1)]"

definition U16_MAX :: u16 where "U16_MAX = 65535"

text \<open>
  \<open>verify_ed25519_claim\<close>. The three \<open>checked_add\<close>s are on \<open>usize\<close> values
  read from 16-bit fields, so they never overflow and are plain sums here.
\<close>

definition verify_ed25519_claim ::
    "runtime \<Rightarrow> txn \<Rightarrow> pubkey \<Rightarrow> bytes \<Rightarrow> (unit, program_error) result" where
  "verify_ed25519_claim R tx expected_signer expected_message =
     (let current_index = tx_current_index tx in
      if \<not> current_index > 0 then Err (AgentPayError MissingEd25519Instruction)
      else if \<not> current_index - 1 < length (tx_instructions tx)
      then Err (AgentPayError MissingEd25519Instruction)
      else let ix = tx_instructions tx ! (current_index - 1) in
      if ix_program_id ix \<noteq> rt_ed25519_program R
      then Err (AgentPayError MissingEd25519Instruction)
      else let data = ix_data ix in
      if \<not> length data \<ge> 16 then Err (AgentPayError MalformedEd25519Instruction)
      else if data ! 0 \<noteq> 1 then Err (AgentPayError MalformedEd25519Instruction)
      else if data ! 1 \<noteq> 0 then Err (AgentPayError MalformedEd25519Instruction)
      else let signature_offset = unat (read_u16 data 2);
               signature_ix_index = read_u16 data 4;
               public_key_offset = unat (read_u16 data 6);
               public_key_ix_index = read_u16 data 8;
               message_offset = unat (read_u16 data 10);
               message_size = unat (read_u16 data 12);
               message_ix_index = read_u16 data 14 in
      if \<not> (signature_ix_index = U16_MAX \<and> public_key_ix_index = U16_MAX
            \<and> message_ix_index = U16_MAX)
      then Err (AgentPayError Ed25519IndirectReference)
      else if message_size \<noteq> length expected_message
      then Err (AgentPayError ClaimMessageMismatch)
      else let sig_end = signature_offset + 64;
               key_end = public_key_offset + 32;
               msg_end = message_offset + message_size in
      if \<not> (sig_end \<le> length data \<and> key_end \<le> length data \<and> msg_end \<le> length data)
      then Err (AgentPayError MalformedEd25519Instruction)
      else if slice public_key_offset key_end data \<noteq> to_le_bytes 32 expected_signer
      then Err (AgentPayError ClaimSignerMismatch)
      else if slice message_offset msg_end data \<noteq> expected_message
      then Err (AgentPayError ClaimMessageMismatch)
      else Ok ())"

subsection \<open>Opening a session\<close>

definition session_seeds :: "pubkey \<Rightarrow> pubkey \<Rightarrow> id16 \<Rightarrow> bytes list" where
  "session_seeds agent provider session_id =
     [SESSION_SEED, to_le_bytes 32 agent, to_le_bytes 32 provider, to_le_bytes 16 session_id]"

definition vault_seeds :: "pubkey \<Rightarrow> bytes list" where
  "vault_seeds session_key = [VAULT_SEED, to_le_bytes 32 session_key]"

definition settlement_seeds :: "pubkey \<Rightarrow> bytes list" where
  "settlement_seeds session_key = [SETTLEMENT_SEED, to_le_bytes 32 session_key]"

record open_accounts =
  oa_agent :: pubkey
  oa_provider :: pubkey
  oa_mint :: pubkey
  oa_session :: pubkey
  oa_vault :: pubkey
  oa_agent_token_account :: pubkey

definition account_free :: "chain \<Rightarrow> pubkey \<Rightarrow> bool" where
  \<comment> \<open>what \<open>init\<close> needs of an address: no program owns an account there\<close>
  "account_free c a \<longleftrightarrow> ch_sessions c a = None \<and> ch_tokens c a = None \<and> ch_mints c a = None
     \<and> (case ch_records c a of SystemOwned _ \<Rightarrow> True | _ \<Rightarrow> False)"

text \<open>
  \<open>#[derive(Accounts)] OpenSession\<close>: the constraints, and the creation of the
  vault by \<open>init\<close> (an empty token account of this mint, owned by the session).
  The result is the token store with the vault in it, and the two bumps.
\<close>

definition open_session_accounts ::
    "externals \<Rightarrow> runtime \<Rightarrow> chain \<Rightarrow> txn \<Rightarrow> open_accounts \<Rightarrow> id16
      \<Rightarrow> (token_store \<times> u8 \<times> u8, program_error) result" where
  "open_session_accounts X R c tx a session_id =
     (if oa_agent a \<notin> set (tx_signers tx) then Err AccountNotSigner
      else if ch_mints c (oa_mint a) = None then Err AccountNotInitialized
      else let (session_key, bump) =
             find_pda X (session_seeds (oa_agent a) (oa_provider a) session_id) (rt_program_id R) in
      if oa_session a \<noteq> session_key then Err ConstraintSeeds
      else if \<not> account_free c session_key then Err AccountAlreadyInUse
      else let (vault, vault_bump) = find_pda X (vault_seeds session_key) (rt_program_id R) in
      if oa_vault a \<noteq> vault then Err ConstraintSeeds
      else if vault = session_key \<or> \<not> account_free c vault then Err AccountAlreadyInUse
      else case ch_tokens c (oa_agent_token_account a) of
        None \<Rightarrow> Err AccountNotInitialized
      | Some ata \<Rightarrow>
          if ta_mint ata \<noteq> oa_mint a then Err (AgentPayError MintMismatch)
          else if ta_owner ata \<noteq> oa_agent a then Err (AgentPayError TokenAccountOwnerMismatch)
          else Ok ((ch_tokens c)(vault \<mapsto> \<lparr>ta_mint = oa_mint a, ta_owner = session_key,
                      ta_amount = 0, ta_frozen = False\<rparr>), bump, vault_bump))"

definition open_session ::
    "externals \<Rightarrow> runtime \<Rightarrow> chain \<Rightarrow> txn \<Rightarrow> open_accounts \<Rightarrow> id16 \<Rightarrow> u64 \<Rightarrow> i64 \<Rightarrow> pubkey
      \<Rightarrow> (chain, program_error) result" where
  "open_session X R c tx a session_id deposit_amount expires_at settlement_authority =
     (case open_session_accounts X R c tx a session_id of
        Err e \<Rightarrow> Err e
      | Ok (tokens, bump, vault_bump) \<Rightarrow>
      let now = tx_now tx in
      if \<not> deposit_amount > 0 then Err (AgentPayError ZeroDeposit)
      else if \<not> sint expires_at > sint now then Err (AgentPayError ExpiryInPast)
      else case checked_sub_i64 expires_at now of
        None \<Rightarrow> Err (AgentPayError ArithmeticOverflow)
      | Some duration \<Rightarrow>
      if \<not> sint duration \<le> sint MAX_SESSION_DURATION_SECS
      then Err (AgentPayError ExpiryTooDistant)
      else let session = \<lparr>
             ses_agent = oa_agent a, ses_provider = oa_provider a,
             ses_settlement_authority = settlement_authority, ses_mint = oa_mint a,
             ses_vault = oa_vault a, ses_deposited_total = deposit_amount,
             ses_cumulative_settled = 0, ses_refunded_total = 0, ses_expires_at = expires_at,
             ses_session_id = session_id, ses_bump = bump, ses_vault_bump = vault_bump,
             ses_is_settled = False\<rparr> in
      case rt_transfer_checked R tokens \<lparr>tr_from = oa_agent_token_account a,
             tr_mint = oa_mint a, tr_to = oa_vault a, tr_authority = oa_agent a,
             tr_amount = deposit_amount, tr_decimals = the (ch_mints c (oa_mint a))\<rparr> of
        None \<Rightarrow> Err TokenProgramError
      | Some tokens' \<Rightarrow>
          Ok (c\<lparr>ch_sessions := (ch_sessions c)(oa_session a \<mapsto> session),
                ch_tokens := tokens',
                ch_events := ch_events c @ [SessionOpened (oa_session a) (oa_agent a)
                  (oa_provider a) settlement_authority (oa_mint a) deposit_amount expires_at]\<rparr>))"

subsection \<open>Settling\<close>

record settle_accounts =
  sa_settler :: pubkey
  sa_session :: pubkey
  sa_settlement_record :: pubkey
  sa_vault :: pubkey
  sa_provider_token_account :: pubkey
  sa_mint :: pubkey
  sa_instructions_sysvar :: pubkey

text \<open>
  The \<open>session\<close> account of \<open>SettleSession\<close> and \<open>RefundSession\<close>: it must be
  an initialised \<open>Session\<close>, sit at the PDA of its own fields, and name the mint
  and the vault that were passed.
\<close>

definition load_session_account ::
    "externals \<Rightarrow> runtime \<Rightarrow> chain \<Rightarrow> pubkey \<Rightarrow> pubkey \<Rightarrow> pubkey \<Rightarrow> (session, program_error) result"
  where
  "load_session_account X R c session_key mint vault =
     (case ch_sessions c session_key of
        None \<Rightarrow> Err AccountNotInitialized
      | Some s \<Rightarrow>
          if create_pda X (session_seeds (ses_agent s) (ses_provider s) (ses_session_id s)
               @ [[ses_bump s]]) (rt_program_id R) \<noteq> Some session_key
          then Err ConstraintSeeds
          else if ses_mint s \<noteq> mint then Err (AgentPayError MintMismatch)
          else if ses_vault s \<noteq> vault then Err (AgentPayError VaultMismatch)
          else Ok s)"

definition check_vault_account ::
    "externals \<Rightarrow> runtime \<Rightarrow> chain \<Rightarrow> pubkey \<Rightarrow> session \<Rightarrow> pubkey \<Rightarrow> (unit, program_error) result" where
  "check_vault_account X R c session_key s vault =
     (if ch_tokens c vault = None then Err AccountNotInitialized
      else if create_pda X (vault_seeds session_key @ [[ses_vault_bump s]]) (rt_program_id R)
              \<noteq> Some vault
      then Err ConstraintSeeds else Ok ())"

definition check_payee_account ::
    "chain \<Rightarrow> pubkey \<Rightarrow> pubkey \<Rightarrow> pubkey \<Rightarrow> (unit, program_error) result" where
  "check_payee_account c account mint payee =
     (case ch_tokens c account of
        None \<Rightarrow> Err AccountNotInitialized
      | Some ta \<Rightarrow>
          if ta_mint ta \<noteq> mint then Err (AgentPayError MintMismatch)
          else if ta_owner ta \<noteq> payee then Err (AgentPayError TokenAccountOwnerMismatch)
          else Ok ())"

text \<open>\<open>#[derive(Accounts)] SettleSession\<close>; the result is the session and the record's bump.\<close>

definition settle_session_accounts ::
    "externals \<Rightarrow> runtime \<Rightarrow> chain \<Rightarrow> txn \<Rightarrow> settle_accounts \<Rightarrow> (session \<times> u8, program_error) result"
  where
  "settle_session_accounts X R c tx a =
     (if sa_settler a \<notin> set (tx_signers tx) then Err AccountNotSigner
      else case load_session_account X R c (sa_session a) (sa_mint a) (sa_vault a) of
        Err e \<Rightarrow> Err e
      | Ok s \<Rightarrow>
      let (record_key, record_bump) =
        find_pda X (settlement_seeds (sa_session a)) (rt_program_id R) in
      if sa_settlement_record a \<noteq> record_key then Err ConstraintSeeds
      else case check_vault_account X R c (sa_session a) s (sa_vault a) of
        Err e \<Rightarrow> Err e
      | Ok _ \<Rightarrow>
      case check_payee_account c (sa_provider_token_account a) (sa_mint a) (ses_provider s) of
        Err e \<Rightarrow> Err e
      | Ok _ \<Rightarrow>
      if ch_mints c (sa_mint a) = None then Err AccountNotInitialized
      else if sa_instructions_sysvar a \<noteq> rt_instructions_sysvar R then Err ConstraintAddress
      else Ok (s, record_bump))"

text \<open>
  The receipt: created when the account is still owned by the system program,
  otherwise it must be a \<open>SettlementRecord\<close> of this program for this session. The
  system program's \<open>create_account\<close> sees the lamports the address already holds.
\<close>

definition RECORD_SPACE :: nat where
  "RECORD_SPACE = 8 + (32 + 32 + 32 + 8 + 8 + 1)"

definition advance_record ::
    "runtime \<Rightarrow> record_account \<Rightarrow> pubkey \<Rightarrow> pubkey \<Rightarrow> u8 \<Rightarrow> (settlement_record, program_error) result"
  where
  "advance_record R info settler session_key record_bump =
     (case info of
        SystemOwned held \<Rightarrow>
          if rt_create_account R settler held (rt_minimum_balance R RECORD_SPACE) RECORD_SPACE
          then Ok \<lparr>sr_session = session_key, sr_claim_hash = 0, sr_merkle_root = 0,
                   sr_settled_at = 0, sr_settled_amount = 0, sr_bump = record_bump\<rparr>
          else Err SystemProgramError
      | ForeignOwned _ \<Rightarrow> Err (AgentPayError SettlementRecordInvalid)
      | ProgramOwned data \<Rightarrow>
          (case data of
             None \<Rightarrow> Err (AgentPayError SettlementRecordInvalid)
           | Some existing \<Rightarrow>
               if sr_session existing \<noteq> session_key
               then Err (AgentPayError SettlementRecordInvalid)
               else Ok existing))"

definition settle_checks ::
    "runtime \<Rightarrow> txn \<Rightarrow> pubkey \<Rightarrow> pubkey \<Rightarrow> session \<Rightarrow> u64 \<Rightarrow> u64 \<Rightarrow> i64 \<Rightarrow> (u64, program_error) result"
  where
  \<comment> \<open>everything \<open>settle_session\<close> checks before it moves money; the result is the delta\<close>
  "settle_checks R tx settler session_key s cumulative_amount nonce claim_expires_at =
     (let now = tx_now tx in
      if \<not> (settler = ses_settlement_authority s \<or> settler = ses_provider s)
      then Err (AgentPayError UnauthorizedSettler)
      else case checked_add_i64 (ses_expires_at s) CLOCK_SKEW_TOLERANCE_SECS of
        None \<Rightarrow> Err (AgentPayError ArithmeticOverflow)
      | Some session_limit \<Rightarrow>
      if \<not> sint now \<le> sint session_limit then Err (AgentPayError SessionExpired)
      else case checked_add_i64 claim_expires_at CLOCK_SKEW_TOLERANCE_SECS of
        None \<Rightarrow> Err (AgentPayError ArithmeticOverflow)
      | Some claim_limit \<Rightarrow>
      if \<not> sint now \<le> sint claim_limit then Err (AgentPayError ClaimExpired)
      else if \<not> cumulative_amount > ses_cumulative_settled s
      then Err (AgentPayError ClaimNotMonotonic)
      else if \<not> cumulative_amount \<le> ses_deposited_total s
      then Err (AgentPayError ClaimExceedsDeposit)
      else case verify_ed25519_claim R tx (ses_agent s)
             (build_claim_message session_key cumulative_amount nonce claim_expires_at) of
        Err e \<Rightarrow> Err e
      | Ok _ \<Rightarrow>
      case checked_sub_u64 cumulative_amount (ses_cumulative_settled s) of
        None \<Rightarrow> Err (AgentPayError ArithmeticOverflow)
      | Some delta \<Rightarrow>
      case checked_add_u64 cumulative_amount (ses_refunded_total s) of
        None \<Rightarrow> Err (AgentPayError ArithmeticOverflow)
      | Some settled_plus_refunded \<Rightarrow>
      if \<not> settled_plus_refunded \<le> ses_deposited_total s
      then Err (AgentPayError PayoutExceedsDeposit)
      else Ok delta)"

definition settle_session ::
    "externals \<Rightarrow> runtime \<Rightarrow> chain \<Rightarrow> txn \<Rightarrow> settle_accounts \<Rightarrow> u64 \<Rightarrow> u64 \<Rightarrow> i64 \<Rightarrow> hash32
      \<Rightarrow> (chain, program_error) result" where
  "settle_session X R c tx a cumulative_amount nonce claim_expires_at merkle_root =
     (case settle_session_accounts X R c tx a of
        Err e \<Rightarrow> Err e
      | Ok (s, record_bump) \<Rightarrow>
      let now = tx_now tx; session_key = sa_session a;
          expected = build_claim_message session_key cumulative_amount nonce claim_expires_at in
      case settle_checks R tx (sa_settler a) session_key s cumulative_amount nonce claim_expires_at of
        Err e \<Rightarrow> Err e
      | Ok delta \<Rightarrow>
      case rt_transfer_checked R (ch_tokens c) \<lparr>tr_from = sa_vault a, tr_mint = sa_mint a,
             tr_to = sa_provider_token_account a, tr_authority = session_key,
             tr_amount = delta, tr_decimals = the (ch_mints c (sa_mint a))\<rparr> of
        None \<Rightarrow> Err TokenProgramError
      | Some tokens' \<Rightarrow>
      let s' = s\<lparr>ses_cumulative_settled := cumulative_amount, ses_is_settled := True\<rparr> in
      case advance_record R (ch_records c (sa_settlement_record a)) (sa_settler a) session_key
             record_bump of
        Err e \<Rightarrow> Err e
      | Ok rec \<Rightarrow>
      let rec' = rec\<lparr>sr_claim_hash := sha256 X expected, sr_merkle_root := merkle_root,
                     sr_settled_at := now, sr_settled_amount := cumulative_amount,
                     sr_bump := record_bump\<rparr> in
      Ok (c\<lparr>ch_sessions := (ch_sessions c)(session_key \<mapsto> s'),
            ch_records := (ch_records c)(sa_settlement_record a := ProgramOwned (Some rec')),
            ch_tokens := tokens',
            ch_events := ch_events c @ [SessionSettled session_key (ses_provider s)
              cumulative_amount delta merkle_root now]\<rparr>))"

subsection \<open>Refunding\<close>

record refund_accounts =
  ra_caller :: pubkey
  ra_session :: pubkey
  ra_vault :: pubkey
  ra_agent_token_account :: pubkey
  ra_mint :: pubkey

definition refund_session_accounts ::
    "externals \<Rightarrow> runtime \<Rightarrow> chain \<Rightarrow> txn \<Rightarrow> refund_accounts \<Rightarrow> (session, program_error) result" where
  "refund_session_accounts X R c tx a =
     (if ra_caller a \<notin> set (tx_signers tx) then Err AccountNotSigner
      else case load_session_account X R c (ra_session a) (ra_mint a) (ra_vault a) of
        Err e \<Rightarrow> Err e
      | Ok s \<Rightarrow>
      case check_vault_account X R c (ra_session a) s (ra_vault a) of
        Err e \<Rightarrow> Err e
      | Ok _ \<Rightarrow>
      case check_payee_account c (ra_agent_token_account a) (ra_mint a) (ses_agent s) of
        Err e \<Rightarrow> Err e
      | Ok _ \<Rightarrow>
      if ch_mints c (ra_mint a) = None then Err AccountNotInitialized else Ok s)"

definition refund_checks :: "txn \<Rightarrow> pubkey \<Rightarrow> session \<Rightarrow> (bool \<times> u64, program_error) result" where
  \<comment> \<open>everything \<open>refund_session\<close> checks; the result is \<open>expired\<close> and \<open>remaining\<close>\<close>
  "refund_checks tx caller s =
     (case checked_add_i64 (ses_expires_at s) CLOCK_SKEW_TOLERANCE_SECS of
        None \<Rightarrow> Err (AgentPayError ArithmeticOverflow)
      | Some limit \<Rightarrow>
      let expired = sint (tx_now tx) > sint limit in
      if \<not> expired \<and> caller \<noteq> ses_agent s then Err (AgentPayError UnauthorizedRefund)
      else if \<not> expired \<and> \<not> ses_is_settled s then Err (AgentPayError SessionStillActive)
      else case checked_sub_u64 (ses_deposited_total s) (ses_cumulative_settled s) of
        None \<Rightarrow> Err (AgentPayError ArithmeticOverflow)
      | Some unsettled \<Rightarrow>
      case checked_sub_u64 unsettled (ses_refunded_total s) of
        None \<Rightarrow> Err (AgentPayError ArithmeticOverflow)
      | Some remaining \<Rightarrow>
      if \<not> remaining > 0 then Err (AgentPayError NothingToRefund)
      else Ok (expired, remaining))"

definition refund_session ::
    "externals \<Rightarrow> runtime \<Rightarrow> chain \<Rightarrow> txn \<Rightarrow> refund_accounts \<Rightarrow> (chain, program_error) result" where
  "refund_session X R c tx a =
     (case refund_session_accounts X R c tx a of
        Err e \<Rightarrow> Err e
      | Ok s \<Rightarrow>
      let session_key = ra_session a in
      case refund_checks tx (ra_caller a) s of
        Err e \<Rightarrow> Err e
      | Ok (expired, remaining) \<Rightarrow>
      case rt_transfer_checked R (ch_tokens c) \<lparr>tr_from = ra_vault a, tr_mint = ra_mint a,
             tr_to = ra_agent_token_account a, tr_authority = session_key,
             tr_amount = remaining, tr_decimals = the (ch_mints c (ra_mint a))\<rparr> of
        None \<Rightarrow> Err TokenProgramError
      | Some tokens' \<Rightarrow>
      case checked_add_u64 (ses_refunded_total s) remaining of
        None \<Rightarrow> Err (AgentPayError ArithmeticOverflow)
      | Some refunded \<Rightarrow>
      Ok (c\<lparr>ch_sessions := (ch_sessions c)(session_key \<mapsto> s\<lparr>ses_refunded_total := refunded\<rparr>),
            ch_tokens := tokens',
            ch_events := ch_events c @ [SessionRefunded session_key (ses_agent s) remaining
              expired (tx_now tx)]\<rparr>))"

end
