(* ===== verification/Settle.thy ===== *)
theory Settle
  imports Escrow
begin

section \<open>Assembling the settlement transaction\<close>

text \<open>
  \<open>gateway/src/settle.rs\<close>: the gateway's side of settlement, which writes the
  Ed25519 precompile instruction and the \<open>settle_session\<close> instruction that the
  program of theory \<open>Escrow\<close> reads. The lemmas show that the two sides agree: the
  program's \<open>verify_ed25519_claim\<close> accepts what \<open>build_ed25519_instruction\<close>
  writes, and the accounts and arguments Anchor decodes are the ones the gateway meant.
  The RPC node is a parameter (record \<open>rpc_node\<close>).
\<close>

datatype settle_error = Rpc string | MintNotFound pubkey

definition anchor_discriminator :: "externals \<Rightarrow> string \<Rightarrow> bytes" where
  "anchor_discriminator X instruction_name =
     take 8 (to_le_bytes 32 (sha256 X (utf8 (''global:'' @ instruction_name))))"

definition derive_vault :: "externals \<Rightarrow> pubkey \<Rightarrow> pubkey \<Rightarrow> pubkey \<times> u8" where
  "derive_vault X program_id session = find_pda X [VAULT_SEED, to_le_bytes 32 session] program_id"

definition derive_settlement_record :: "externals \<Rightarrow> pubkey \<Rightarrow> pubkey \<Rightarrow> pubkey \<times> u8" where
  "derive_settlement_record X program_id session =
     find_pda X [SETTLEMENT_SEED, to_le_bytes 32 session] program_id"

record solana_ids =
  id_associated_token_program :: pubkey
  id_system_program :: pubkey

definition derive_associated_token_account ::
    "externals \<Rightarrow> solana_ids \<Rightarrow> pubkey \<Rightarrow> pubkey \<Rightarrow> pubkey \<Rightarrow> pubkey" where
  "derive_associated_token_account X I owner token_program mint =
     fst (find_pda X [to_le_bytes 32 owner, to_le_bytes 32 token_program, to_le_bytes 32 mint]
       (id_associated_token_program I))"

definition ED25519_HEADER_LEN :: nat where "ED25519_HEADER_LEN = 16"
definition ED25519_PUBKEY_OFFSET :: u16 where "ED25519_PUBKEY_OFFSET = 16"
definition ED25519_SIGNATURE_OFFSET :: u16 where "ED25519_SIGNATURE_OFFSET = 48"
definition ED25519_MESSAGE_OFFSET :: u16 where "ED25519_MESSAGE_OFFSET = 112"
definition ED25519_SELF_REF :: u16 where "ED25519_SELF_REF = 65535"

lemmas ed25519_layout = ED25519_HEADER_LEN_def ED25519_PUBKEY_OFFSET_def
  ED25519_SIGNATURE_OFFSET_def ED25519_MESSAGE_OFFSET_def ED25519_SELF_REF_def

definition build_ed25519_instruction :: "runtime \<Rightarrow> pubkey \<Rightarrow> sig64 \<Rightarrow> bytes \<Rightarrow> instruction" where
  "build_ed25519_instruction R signer signature message =
     (let data = [1, 0]
        @ to_le_bytes 2 ED25519_SIGNATURE_OFFSET @ to_le_bytes 2 ED25519_SELF_REF
        @ to_le_bytes 2 ED25519_PUBKEY_OFFSET @ to_le_bytes 2 ED25519_SELF_REF
        @ to_le_bytes 2 ED25519_MESSAGE_OFFSET @ to_le_bytes 2 (of_nat (length message) :: u16)
        @ to_le_bytes 2 ED25519_SELF_REF
        @ to_le_bytes 32 signer @ to_le_bytes 64 signature @ message
      in \<lparr>ix_program_id = rt_ed25519_program R, ix_accounts = [], ix_data = data\<rparr>)"

definition meta_new :: "pubkey \<Rightarrow> bool \<Rightarrow> account_meta" where
  "meta_new k signer = \<lparr>am_pubkey = k, am_is_signer = signer, am_is_writable = True\<rparr>"

definition meta_new_readonly :: "pubkey \<Rightarrow> bool \<Rightarrow> account_meta" where
  "meta_new_readonly k signer = \<lparr>am_pubkey = k, am_is_signer = signer, am_is_writable = False\<rparr>"

definition build_settle_instruction ::
    "externals \<Rightarrow> runtime \<Rightarrow> solana_ids \<Rightarrow> pubkey \<Rightarrow> pubkey \<Rightarrow> pubkey \<Rightarrow> pubkey \<Rightarrow> pubkey \<Rightarrow> pubkey
      \<Rightarrow> pubkey \<Rightarrow> pubkey \<Rightarrow> claim \<Rightarrow> hash32 \<Rightarrow> instruction" where
  "build_settle_instruction X R I program_id settler session settlement_record vault
       provider_token_account mint token_program c merkle_root =
     (let data = anchor_discriminator X ''settle_session''
        @ to_le_bytes 8 (cl_cumulative_amount c) @ to_le_bytes 8 (cl_nonce c)
        @ to_le_bytes 8 (cl_expires_at c) @ to_le_bytes 32 merkle_root
      in \<lparr>ix_program_id = program_id,
          ix_accounts = [
            meta_new settler True,
            meta_new session False,
            meta_new settlement_record False,
            meta_new vault False,
            meta_new provider_token_account False,
            meta_new_readonly mint False,
            meta_new_readonly (rt_instructions_sysvar R) False,
            meta_new_readonly token_program False,
            meta_new_readonly (id_system_program I) False],
          ix_data = data\<rparr>)"

record settlement_outcome =
  so_signature :: string
  so_cumulative_amount :: u64
  so_nonce :: u64
  so_token_program :: pubkey
  so_provider_token_account :: pubkey
  so_settlement_record :: pubkey

record rpc_node =
  rpc_mint_owner :: "pubkey \<Rightarrow> pubkey option"
    \<comment> \<open>the owner of a mint account, \<open>None\<close> when the read fails\<close>
  rpc_latest_blockhash :: "string + hash32"
  rpc_send_and_confirm :: "instruction list \<Rightarrow> pubkey list \<Rightarrow> hash32 \<Rightarrow> string + string"
    \<comment> \<open>instructions, signers, blockhash: an error or the transaction signature\<close>

definition settlement_instructions ::
    "externals \<Rightarrow> runtime \<Rightarrow> solana_ids \<Rightarrow> pubkey \<Rightarrow> pubkey \<Rightarrow> pubkey \<Rightarrow> pubkey \<Rightarrow> pubkey \<Rightarrow> pubkey
      \<Rightarrow> claim \<Rightarrow> sig64 \<Rightarrow> pubkey \<Rightarrow> hash32 \<Rightarrow> instruction list" where
  \<comment> \<open>the transaction's instructions: the precompile immediately before \<open>settle_session\<close>\<close>
  "settlement_instructions X R I program_id settler_key provider session mint token_program
       c signature agent merkle_root =
     (let vault = fst (derive_vault X program_id session);
          settlement_record = fst (derive_settlement_record X program_id session);
          provider_token_account = derive_associated_token_account X I provider token_program mint;
          message = signing_bytes c
      in [build_ed25519_instruction R agent signature message,
          build_settle_instruction X R I program_id settler_key session settlement_record vault
            provider_token_account mint token_program c merkle_root])"

definition submit_settlement ::
    "externals \<Rightarrow> runtime \<Rightarrow> solana_ids \<Rightarrow> rpc_node \<Rightarrow> pubkey \<Rightarrow> pubkey \<Rightarrow> pubkey \<Rightarrow> pubkey \<Rightarrow> pubkey
      \<Rightarrow> claim \<Rightarrow> sig64 \<Rightarrow> pubkey \<Rightarrow> hash32 \<Rightarrow> (settlement_outcome, settle_error) result" where
  "submit_settlement X R I rpc program_id settler_key provider session mint c signature agent
       merkle_root =
     (case rpc_mint_owner rpc mint of
        None \<Rightarrow> Err (MintNotFound mint)
      | Some token_program \<Rightarrow>
      case rpc_latest_blockhash rpc of
        Err e \<Rightarrow> Err (Rpc e)
      | Ok blockhash \<Rightarrow>
      case rpc_send_and_confirm rpc (settlement_instructions X R I program_id settler_key provider
             session mint token_program c signature agent merkle_root) [settler_key] blockhash of
        Err e \<Rightarrow> Err (Rpc e)
      | Ok sig \<Rightarrow> Ok \<lparr>
          so_signature = sig, so_cumulative_amount = cl_cumulative_amount c, so_nonce = cl_nonce c,
          so_token_program = token_program,
          so_provider_token_account =
            derive_associated_token_account X I provider token_program mint,
          so_settlement_record = fst (derive_settlement_record X program_id session)\<rparr>)"

subsection \<open>What the program makes of it\<close>

text \<open>
  Anchor matches the accounts of an instruction to the struct \<open>SettleSession\<close> by
  position, and decodes the arguments after the eight discriminator bytes in order.
\<close>

definition settle_accounts_of :: "instruction \<Rightarrow> settle_accounts" where
  "settle_accounts_of ix = (let k = (\<lambda>i. am_pubkey (ix_accounts ix ! i)) in \<lparr>
     sa_settler = k 0, sa_session = k 1, sa_settlement_record = k 2, sa_vault = k 3,
     sa_provider_token_account = k 4, sa_mint = k 5, sa_instructions_sysvar = k 6\<rparr>)"

definition settle_args_of :: "instruction \<Rightarrow> u64 \<times> u64 \<times> i64 \<times> hash32" where
  "settle_args_of ix = (let d = ix_data ix in
     (from_le_bytes (slice 8 16 d), from_le_bytes (slice 16 24 d),
      from_le_bytes (slice 24 32 d), from_le_bytes (slice 32 64 d)))"

lemma build_claim_message_signing_bytes:
  "build_claim_message s amt nonce exp = signing_bytes \<lparr>cl_session = s,
     cl_cumulative_amount = amt, cl_nonce = nonce, cl_expires_at = exp\<rparr>"
  by (simp add: build_claim_message_def signing_bytes_concat)

lemma le_bytes_u16: "to_le_bytes 2 (w :: u16) = [ucast w, ucast (drop_bit 8 w)]"
  by (simp add: numeral_2_eq_2)

lemma from_le_bytes_u16 [simp]:
  "from_le_bytes [ucast w, ucast (drop_bit 8 w)] = (w :: u16)"
  using from_to_le_bytes [of 2 w] by (simp add: le_bytes_u16 del: from_le_bytes.simps)

lemma ed25519_data:
  "ix_data (build_ed25519_instruction R signer signature message) =
     [1, 0, 48, 0, 255, 255, 16, 0, 255, 255, 112, 0,
      ucast (of_nat (length message) :: u16), ucast (drop_bit 8 (of_nat (length message) :: u16)),
      255, 255] @ to_le_bytes 32 signer @ to_le_bytes 64 signature @ message"
  by (simp add: build_ed25519_instruction_def ed25519_layout le_bytes_u16)

text \<open>The instruction the gateway writes is the one the program accepts.\<close>

lemma verify_accepts_built_instruction:
  assumes "tx_current_index tx = Suc i" and "i < length (tx_instructions tx)"
    and "tx_instructions tx ! i = build_ed25519_instruction R signer signature message"
    and "length message < 65536"
  shows "verify_ed25519_claim R tx signer message = Ok ()"
proof -
  define w where "w = (of_nat (length message) :: u16)"
  have w: "unat w = length message"
    using assms(4) by (simp add: w_def unat_of_nat take_bit_eq_mod)
  let ?h = "[1, 0, 48, 0, 255, 255, 16, 0, 255, 255, 112, 0, ucast w, ucast (drop_bit 8 w), 255, 255] :: bytes"
  let ?d = "?h @ to_le_bytes 32 signer @ to_le_bytes 64 signature @ message"
  have ix: "ix_data (tx_instructions tx ! i) = ?d"
    "ix_program_id (tx_instructions tx ! i) = rt_ed25519_program R"
    unfolding assms(3) ed25519_data w_def by (simp_all add: build_ed25519_instruction_def)
  have r: "read_u16 ?d 2 = 48" "read_u16 ?d 4 = U16_MAX" "read_u16 ?d 6 = 16" "read_u16 ?d 8 = U16_MAX"
    "read_u16 ?d 10 = 112" "read_u16 ?d 14 = U16_MAX"
    by (simp_all add: read_u16_def U16_MAX_def nth_Cons_numeral)
  have rw: "read_u16 ?d 12 = w"
    by (simp add: read_u16_def nth_Cons_numeral del: from_le_bytes.simps)
  have sl: "slice 16 48 ?d = to_le_bytes 32 signer" "slice 112 (112 + length message) ?d = message"
    by (simp_all add: slice_def)
  show ?thesis
    unfolding verify_ed25519_claim_def Let_def
    by (simp add: assms(1,2) ix r rw w sl del: append_Cons append.simps)
      (simp)
qed

lemma length_anchor_discriminator [simp]: "length (anchor_discriminator X n) = 8"
  by (simp add: anchor_discriminator_def)

lemma slice_append:
  assumes "length xs = lo" and "length ys = hi - lo"
  shows "slice lo hi (xs @ ys @ zs) = ys"
  using assms by (simp add: slice_def)

text \<open>The accounts and arguments Anchor decodes are the ones the gateway encoded.\<close>

lemma build_settle_instruction_decodes:
  assumes "ix = build_settle_instruction X R I program_id settler session record_key vault
             pta mint token_program c root"
  shows "settle_accounts_of ix = \<lparr>sa_settler = settler, sa_session = session,
           sa_settlement_record = record_key, sa_vault = vault, sa_provider_token_account = pta,
           sa_mint = mint, sa_instructions_sysvar = rt_instructions_sysvar R\<rparr>"
    and "settle_args_of ix = (cl_cumulative_amount c, cl_nonce c, cl_expires_at c, root)"
proof -
  let ?d = "anchor_discriminator X ''settle_session''"
  let ?a = "to_le_bytes 8 (cl_cumulative_amount c)" and ?n = "to_le_bytes 8 (cl_nonce c)"
  let ?e = "to_le_bytes 8 (cl_expires_at c)" and ?r = "to_le_bytes 32 root"
  have ix: "ix_data ix = ?d @ ?a @ ?n @ ?e @ ?r"
    by (simp add: assms build_settle_instruction_def)
  have "slice 8 16 (ix_data ix) = ?a"
    unfolding ix by (rule slice_append) simp_all
  moreover have "slice 16 24 (ix_data ix) = ?n"
    using slice_append [of "?d @ ?a" 16 ?n 24 "?e @ ?r"] by (simp add: ix)
  moreover have "slice 24 32 (ix_data ix) = ?e"
    using slice_append [of "?d @ ?a @ ?n" 24 ?e 32 ?r] by (simp add: ix)
  moreover have "slice 32 64 (ix_data ix) = ?r"
    using slice_append [of "?d @ ?a @ ?n @ ?e" 32 ?r 64 "[]"] by (simp add: ix)
  ultimately show "settle_args_of ix = (cl_cumulative_amount c, cl_nonce c, cl_expires_at c, root)"
    by (simp add: settle_args_of_def Let_def)
  show "settle_accounts_of ix = \<lparr>sa_settler = settler, sa_session = session,
           sa_settlement_record = record_key, sa_vault = vault, sa_provider_token_account = pta,
           sa_mint = mint, sa_instructions_sysvar = rt_instructions_sysvar R\<rparr>"
    by (simp add: assms settle_accounts_of_def build_settle_instruction_def meta_new_def
        meta_new_readonly_def Let_def nth_Cons_numeral)
qed

end
