(* ===== verification/Escrow_Safety.thy ===== *)
theory Escrow_Safety
  imports Settle
begin

section \<open>What the escrow program guarantees\<close>

text \<open>
  The theorems about \<open>Escrow\<close>: inversion lemmas of the three handlers, the
  step relation of the program interleaved with everybody else's transactions, the
  invariants of its reachable states, and the properties that rest on them.
\<close>

subsection \<open>Inversion of the handlers\<close>

lemma load_session_account_Ok:
  "load_session_account X R c k mint vault = Ok s \<longleftrightarrow>
     ch_sessions c k = Some s
   \<and> create_pda X (session_seeds (ses_agent s) (ses_provider s) (ses_session_id s) @ [[ses_bump s]])
       (rt_program_id R) = Some k
   \<and> ses_mint s = mint \<and> ses_vault s = vault"
  by (auto simp: load_session_account_def split: option.splits if_splits)

lemma check_vault_account_Ok:
  "check_vault_account X R c k s vault = Ok u \<longleftrightarrow>
     ch_tokens c vault \<noteq> None
   \<and> create_pda X (vault_seeds k @ [[ses_vault_bump s]]) (rt_program_id R) = Some vault"
  by (auto simp: check_vault_account_def)

lemma check_payee_account_Ok:
  "check_payee_account c acct mint payee = Ok u \<longleftrightarrow>
     (\<exists>ta. ch_tokens c acct = Some ta \<and> ta_mint ta = mint \<and> ta_owner ta = payee)"
  by (auto simp: check_payee_account_def split: option.splits)

lemma settle_session_accounts_Ok:
  "settle_session_accounts X R c tx a = Ok (s, rb) \<longleftrightarrow>
     sa_settler a \<in> set (tx_signers tx)
   \<and> load_session_account X R c (sa_session a) (sa_mint a) (sa_vault a) = Ok s
   \<and> find_pda X (settlement_seeds (sa_session a)) (rt_program_id R) = (sa_settlement_record a, rb)
   \<and> check_vault_account X R c (sa_session a) s (sa_vault a) = Ok ()
   \<and> check_payee_account c (sa_provider_token_account a) (sa_mint a) (ses_provider s) = Ok ()
   \<and> ch_mints c (sa_mint a) \<noteq> None
   \<and> sa_instructions_sysvar a = rt_instructions_sysvar R"
  by (auto simp: settle_session_accounts_def split: sum.splits prod.splits if_splits)

lemma settle_checks_Ok:
  "settle_checks R tx settler k s amt nonce exp = Ok d \<longleftrightarrow>
     (settler = ses_settlement_authority s \<or> settler = ses_provider s)
   \<and> (\<exists>l. checked_add_i64 (ses_expires_at s) CLOCK_SKEW_TOLERANCE_SECS = Some l
          \<and> sint (tx_now tx) \<le> sint l)
   \<and> (\<exists>l. checked_add_i64 exp CLOCK_SKEW_TOLERANCE_SECS = Some l \<and> sint (tx_now tx) \<le> sint l)
   \<and> ses_cumulative_settled s < amt \<and> amt \<le> ses_deposited_total s
   \<and> verify_ed25519_claim R tx (ses_agent s) (build_claim_message k amt nonce exp) = Ok ()
   \<and> d = amt - ses_cumulative_settled s
   \<and> unat amt + unat (ses_refunded_total s) \<le> unat (ses_deposited_total s)"
proof -
  have "unat amt + unat (ses_refunded_total s) \<le> unat (ses_deposited_total s) \<longleftrightarrow>
      (\<exists>t. checked_add_u64 amt (ses_refunded_total s) = Some t \<and> t \<le> ses_deposited_total s)"
    (is "?L \<longleftrightarrow> ?R")
  proof
    assume ?L
    moreover have "unat (ses_deposited_total s) < 2 ^ 64" by (rule unat_u64_less)
    ultimately have "checked_add_u64 amt (ses_refunded_total s) = Some (amt + ses_refunded_total s)"
      by (simp add: checked_add_u64_def)
    with \<open>?L\<close> show ?R by (auto dest: checked_add_u64_unat simp: word_le_nat_alt)
  next
    assume ?R
    then show ?L by (auto dest: checked_add_u64_unat simp: word_le_nat_alt)
  qed
  then show ?thesis
    unfolding settle_checks_def Let_def
    by (auto simp: checked_sub_u64_def split: option.splits if_splits sum.splits)
qed

lemma settle_session_Ok:
  "settle_session X R c tx a amt nonce exp root = Ok c' \<longleftrightarrow>
     (\<exists>s rb d T' rec.
        settle_session_accounts X R c tx a = Ok (s, rb)
      \<and> settle_checks R tx (sa_settler a) (sa_session a) s amt nonce exp = Ok d
      \<and> rt_transfer_checked R (ch_tokens c) \<lparr>tr_from = sa_vault a, tr_mint = sa_mint a,
             tr_to = sa_provider_token_account a, tr_authority = sa_session a,
             tr_amount = d, tr_decimals = the (ch_mints c (sa_mint a))\<rparr> = Some T'
      \<and> advance_record R (ch_records c (sa_settlement_record a)) (sa_settler a) (sa_session a) rb = Ok rec
      \<and> c' = c\<lparr>ch_sessions := (ch_sessions c)(sa_session a \<mapsto>
                   s\<lparr>ses_cumulative_settled := amt, ses_is_settled := True\<rparr>),
            ch_records := (ch_records c)(sa_settlement_record a := ProgramOwned (Some
              (rec\<lparr>sr_claim_hash := sha256 X (build_claim_message (sa_session a) amt nonce exp),
                     sr_merkle_root := root, sr_settled_at := tx_now tx,
                     sr_settled_amount := amt, sr_bump := rb\<rparr>))),
            ch_tokens := T',
            ch_events := ch_events c @ [SessionSettled (sa_session a) (ses_provider s)
              amt d root (tx_now tx)]\<rparr>)"
  unfolding settle_session_def Let_def
  by (auto split: sum.splits option.splits prod.splits)

lemma refund_session_accounts_Ok:
  "refund_session_accounts X R c tx a = Ok s \<longleftrightarrow>
     ra_caller a \<in> set (tx_signers tx)
   \<and> load_session_account X R c (ra_session a) (ra_mint a) (ra_vault a) = Ok s
   \<and> check_vault_account X R c (ra_session a) s (ra_vault a) = Ok ()
   \<and> check_payee_account c (ra_agent_token_account a) (ra_mint a) (ses_agent s) = Ok ()
   \<and> ch_mints c (ra_mint a) \<noteq> None"
  by (auto simp: refund_session_accounts_def split: sum.splits if_splits)

lemma refund_checks_Ok:
  "refund_checks tx caller s = Ok (expired, r) \<longleftrightarrow>
     (\<exists>l. checked_add_i64 (ses_expires_at s) CLOCK_SKEW_TOLERANCE_SECS = Some l
          \<and> (expired \<longleftrightarrow> sint l < sint (tx_now tx)))
   \<and> (expired \<or> caller = ses_agent s \<and> ses_is_settled s)
   \<and> unat (ses_cumulative_settled s) + unat (ses_refunded_total s) < unat (ses_deposited_total s)
   \<and> r = ses_deposited_total s - ses_cumulative_settled s - ses_refunded_total s"
  unfolding refund_checks_def Let_def
  by (auto simp: checked_sub_u64_def word_le_nat_alt word_less_nat_alt unat_sub split: option.splits if_splits)

lemma refund_session_Ok:
  "refund_session X R c tx a = Ok c' \<longleftrightarrow>
     (\<exists>s expired r T' refunded.
        refund_session_accounts X R c tx a = Ok s
      \<and> refund_checks tx (ra_caller a) s = Ok (expired, r)
      \<and> rt_transfer_checked R (ch_tokens c) \<lparr>tr_from = ra_vault a, tr_mint = ra_mint a,
             tr_to = ra_agent_token_account a, tr_authority = ra_session a,
             tr_amount = r, tr_decimals = the (ch_mints c (ra_mint a))\<rparr> = Some T'
      \<and> checked_add_u64 (ses_refunded_total s) r = Some refunded
      \<and> c' = c\<lparr>ch_sessions := (ch_sessions c)(ra_session a \<mapsto> s\<lparr>ses_refunded_total := refunded\<rparr>),
            ch_tokens := T',
            ch_events := ch_events c @ [SessionRefunded (ra_session a) (ses_agent s) r
              expired (tx_now tx)]\<rparr>)"
  unfolding refund_session_def Let_def
  by (auto split: sum.splits option.splits prod.splits)

lemma open_session_accounts_Ok:
  "open_session_accounts X R c tx a sid = Ok (T, b, vb) \<longleftrightarrow>
     oa_agent a \<in> set (tx_signers tx) \<and> ch_mints c (oa_mint a) \<noteq> None
   \<and> find_pda X (session_seeds (oa_agent a) (oa_provider a) sid) (rt_program_id R) = (oa_session a, b)
   \<and> account_free c (oa_session a)
   \<and> find_pda X (vault_seeds (oa_session a)) (rt_program_id R) = (oa_vault a, vb)
   \<and> oa_vault a \<noteq> oa_session a \<and> account_free c (oa_vault a)
   \<and> (\<exists>ta. ch_tokens c (oa_agent_token_account a) = Some ta \<and> ta_mint ta = oa_mint a
          \<and> ta_owner ta = oa_agent a)
   \<and> T = (ch_tokens c)(oa_vault a \<mapsto> \<lparr>ta_mint = oa_mint a, ta_owner = oa_session a,
            ta_amount = 0, ta_frozen = False\<rparr>)"
  by (auto simp: open_session_accounts_def split: option.splits prod.splits if_splits)

definition new_session :: "open_accounts \<Rightarrow> id16 \<Rightarrow> u64 \<Rightarrow> i64 \<Rightarrow> pubkey \<Rightarrow> u8 \<Rightarrow> u8 \<Rightarrow> session" where
  "new_session a sid dep exp auth b vb = \<lparr>
     ses_agent = oa_agent a, ses_provider = oa_provider a, ses_settlement_authority = auth,
     ses_mint = oa_mint a, ses_vault = oa_vault a, ses_deposited_total = dep,
     ses_cumulative_settled = 0, ses_refunded_total = 0, ses_expires_at = exp,
     ses_session_id = sid, ses_bump = b, ses_vault_bump = vb, ses_is_settled = False\<rparr>"

lemma new_session_simps [simp]:
  "ses_agent (new_session a sid dep exp auth b vb) = oa_agent a"
  "ses_provider (new_session a sid dep exp auth b vb) = oa_provider a"
  "ses_settlement_authority (new_session a sid dep exp auth b vb) = auth"
  "ses_mint (new_session a sid dep exp auth b vb) = oa_mint a"
  "ses_vault (new_session a sid dep exp auth b vb) = oa_vault a"
  "ses_deposited_total (new_session a sid dep exp auth b vb) = dep"
  "ses_cumulative_settled (new_session a sid dep exp auth b vb) = 0"
  "ses_refunded_total (new_session a sid dep exp auth b vb) = 0"
  "ses_expires_at (new_session a sid dep exp auth b vb) = exp"
  "ses_is_settled (new_session a sid dep exp auth b vb) = False"
  "ses_session_id (new_session a sid dep exp auth b vb) = sid"
  "ses_bump (new_session a sid dep exp auth b vb) = b"
  "ses_vault_bump (new_session a sid dep exp auth b vb) = vb"
  by (simp_all add: new_session_def)

lemma open_session_Ok:
  "open_session X R c tx a sid dep exp auth = Ok c' \<longleftrightarrow>
     (\<exists>T b vb T'.
        open_session_accounts X R c tx a sid = Ok (T, b, vb)
      \<and> 0 < dep \<and> sint (tx_now tx) < sint exp
      \<and> (\<exists>d. checked_sub_i64 exp (tx_now tx) = Some d \<and> sint d \<le> sint MAX_SESSION_DURATION_SECS)
      \<and> rt_transfer_checked R T \<lparr>tr_from = oa_agent_token_account a,
             tr_mint = oa_mint a, tr_to = oa_vault a, tr_authority = oa_agent a,
             tr_amount = dep, tr_decimals = the (ch_mints c (oa_mint a))\<rparr> = Some T'
      \<and> c' = c\<lparr>ch_sessions := (ch_sessions c)(oa_session a \<mapsto> new_session a sid dep exp auth b vb),
            ch_tokens := T',
            ch_events := ch_events c @ [SessionOpened (oa_session a) (oa_agent a)
              (oa_provider a) auth (oa_mint a) dep exp]\<rparr>)"
  unfolding open_session_def Let_def new_session_def
  by (auto split: sum.splits option.splits prod.splits if_splits)

subsection \<open>The programs the escrow calls\<close>

text \<open>
  What the SPL token program documents of \<open>transfer_checked\<close>. A successful transfer
  debits the source and credits the destination by the amount, changes nothing else,
  and never overdraws or overflows; a transfer between two unfrozen accounts of the
  mint, authorised by the source's owner and covered by its balance, succeeds. The
  system program documents that \<open>create_account\<close> refuses an address that already
  holds lamports.
\<close>

definition spl_effect_law :: "runtime \<Rightarrow> bool" where
  "spl_effect_law R \<longleftrightarrow> (\<forall>T t T'. rt_transfer_checked R T t = Some T' \<longrightarrow>
     (\<exists>a b. T (tr_from t) = Some a \<and> T (tr_to t) = Some b \<and> tr_amount t \<le> ta_amount a
        \<and> (if tr_from t = tr_to t then T' = T
           else unat (ta_amount b) + unat (tr_amount t) < 2 ^ 64
              \<and> T' = T(tr_from t \<mapsto> a\<lparr>ta_amount := ta_amount a - tr_amount t\<rparr>,
                       tr_to t \<mapsto> b\<lparr>ta_amount := ta_amount b + tr_amount t\<rparr>))))"

definition spl_progress_law :: "runtime \<Rightarrow> bool" where
  "spl_progress_law R \<longleftrightarrow> (\<forall>T t a b.
     T (tr_from t) = Some a \<and> T (tr_to t) = Some b \<and> tr_from t \<noteq> tr_to t
   \<and> ta_owner a = tr_authority t \<and> ta_mint a = tr_mint t \<and> ta_mint b = tr_mint t
   \<and> \<not> ta_frozen a \<and> \<not> ta_frozen b \<and> tr_amount t \<le> ta_amount a
   \<and> unat (ta_amount b) + unat (tr_amount t) < 2 ^ 64 \<longrightarrow>
   (\<exists>T'. rt_transfer_checked R T t = Some T'))"

definition create_account_law :: "runtime \<Rightarrow> bool" where
  "create_account_law R \<longleftrightarrow>
     (\<forall>payer held lamports space. rt_create_account R payer held lamports space \<longrightarrow> held = 0)"

lemma spl_account:
  assumes "spl_effect_law R" and "rt_transfer_checked R T t = Some T'" and "T p = Some v"
  shows "\<exists>v'. T' p = Some v' \<and> ta_mint v' = ta_mint v \<and> ta_owner v' = ta_owner v
    \<and> unat (ta_amount v) \<le> unat (ta_amount v') + (if p = tr_from t then unat (tr_amount t) else 0)"
proof -
  from assms(1) [unfolded spl_effect_law_def, rule_format, OF assms(2)]
  obtain a b where ab: "T (tr_from t) = Some a" "T (tr_to t) = Some b" "tr_amount t \<le> ta_amount a"
    and e: "if tr_from t = tr_to t then T' = T
           else unat (ta_amount b) + unat (tr_amount t) < 2 ^ 64
              \<and> T' = T(tr_from t \<mapsto> a\<lparr>ta_amount := ta_amount a - tr_amount t\<rparr>,
                       tr_to t \<mapsto> b\<lparr>ta_amount := ta_amount b + tr_amount t\<rparr>)"
    by (elim exE conjE)
  show ?thesis
  proof (cases "tr_from t = tr_to t")
    case True
    then show ?thesis using e assms(3) by simp
  next
    case False
    with e have T': "T' = T(tr_from t \<mapsto> a\<lparr>ta_amount := ta_amount a - tr_amount t\<rparr>,
                       tr_to t \<mapsto> b\<lparr>ta_amount := ta_amount b + tr_amount t\<rparr>)"
      and o: "unat (ta_amount b) + unat (tr_amount t) < 2 ^ 64" by simp_all
    have "unat (ta_amount a - tr_amount t) = unat (ta_amount a) - unat (tr_amount t)"
      using ab by (simp add: unat_sub)
    moreover have "unat (ta_amount b + tr_amount t) = unat (ta_amount b) + unat (tr_amount t)"
      using o by (rule unat_add_u64)
    ultimately show ?thesis
      using T' ab assms(3) False
      by (cases "p = tr_to t"; cases "p = tr_from t") simp_all
  qed
qed

subsection \<open>The program among other transactions\<close>

text \<open>
  A step is one successful instruction of the program, or anything other programs do
  to the accounts it depends on. Other programs cannot write the program's own
  accounts, cannot debit or close a token account whose owner is one of its PDAs
  (only this program signs for them), and can send lamports to any address.
\<close>

definition others :: "chain \<Rightarrow> chain \<Rightarrow> bool" where
  "others c c' \<longleftrightarrow>
     ch_sessions c' = ch_sessions c \<and> ch_events c' = ch_events c
   \<and> (\<forall>m d. ch_mints c m = Some d \<longrightarrow> ch_mints c' m = Some d)
   \<and> (\<forall>k. case ch_records c k of
          SystemOwned l \<Rightarrow> (\<exists>l'. l \<le> l' \<and> ch_records c' k = SystemOwned l')
        | r \<Rightarrow> ch_records c' k = r)
   \<and> (\<forall>k s v. ch_sessions c k = Some s \<and> ch_tokens c (ses_vault s) = Some v \<longrightarrow>
        (\<exists>v'. ch_tokens c' (ses_vault s) = Some v' \<and> ta_mint v' = ta_mint v
            \<and> ta_owner v' = ta_owner v \<and> ta_amount v \<le> ta_amount v'))"

definition no_pda_signs :: "chain \<Rightarrow> txn \<Rightarrow> bool" where
  \<comment> \<open>session addresses are off the curve: no private key signs for them\<close>
  "no_pda_signs c tx \<longleftrightarrow> (\<forall>k \<in> set (tx_signers tx). ch_sessions c k = None)"

inductive chain_step :: "externals \<Rightarrow> runtime \<Rightarrow> chain \<Rightarrow> chain \<Rightarrow> bool" for X R where
  Open: "no_pda_signs c tx \<Longrightarrow> open_session X R c tx a sid dep exp auth = Ok c'
    \<Longrightarrow> chain_step X R c c'"
| Settle: "settle_session X R c tx b amt nonce exp root = Ok c' \<Longrightarrow> chain_step X R c c'"
| Refund: "refund_session X R c tx r = Ok c' \<Longrightarrow> chain_step X R c c'"
| Others: "others c c' \<Longrightarrow> chain_step X R c c'"

inductive_cases chain_stepE: "chain_step X R c c'"

definition genesis :: "chain \<Rightarrow> bool" where
  "genesis c \<longleftrightarrow> ch_sessions c = Map.empty \<and> ch_events c = []"

subsection \<open>Solvency\<close>

definition session_solvent :: "chain \<Rightarrow> pubkey \<Rightarrow> session \<Rightarrow> bool" where
  "session_solvent c k s \<longleftrightarrow>
     unat (ses_cumulative_settled s) + unat (ses_refunded_total s) \<le> unat (ses_deposited_total s)
   \<and> (case ch_tokens c (ses_vault s) of
        None \<Rightarrow> False
      | Some v \<Rightarrow> ta_mint v = ses_mint s \<and> ta_owner v = k
          \<and> unat (ses_deposited_total s)
              \<le> unat (ta_amount v) + unat (ses_cumulative_settled s) + unat (ses_refunded_total s))"

definition solvent :: "chain \<Rightarrow> bool" where
  "solvent c \<longleftrightarrow>
     (\<forall>k s. ch_sessions c k = Some s \<longrightarrow> session_solvent c k s)
   \<and> (\<forall>k s k' s'. ch_sessions c k = Some s \<longrightarrow> ch_sessions c k' = Some s' \<longrightarrow>
        ses_vault s = ses_vault s' \<longrightarrow> k = k')"

lemma solventD: "solvent c \<Longrightarrow> ch_sessions c k = Some s \<Longrightarrow> session_solvent c k s"
  by (simp add: solvent_def)

lemma solvent_vaults:
  "solvent c \<Longrightarrow> ch_sessions c k = Some s \<Longrightarrow> ch_sessions c k' = Some s' \<Longrightarrow>
     ses_vault s = ses_vault s' \<Longrightarrow> k = k'"
  by (simp add: solvent_def)

lemma session_solvent_mono:
  assumes "session_solvent c k s"
    and "\<And>v. ch_tokens c (ses_vault s) = Some v \<Longrightarrow> \<exists>v'. ch_tokens c' (ses_vault s) = Some v'
          \<and> ta_mint v' = ta_mint v \<and> ta_owner v' = ta_owner v \<and> unat (ta_amount v) \<le> unat (ta_amount v')"
  shows "session_solvent c' k s"
  using assms unfolding session_solvent_def by (fastforce split: option.splits)

text \<open>
  One lemma for the two paying handlers: a transfer of \<open>d\<close> out of a session's own
  vault, booked on that session as settled or refunded, keeps every session solvent.
\<close>

lemma solvent_payout:
  assumes inv: "solvent c" and law: "spl_effect_law R" and s: "ch_sessions c k = Some s"
    and t: "rt_transfer_checked R (ch_tokens c) t = Some T'" "tr_from t = ses_vault s"
    and same: "ses_vault s' = ses_vault s" "ses_mint s' = ses_mint s"
      "ses_deposited_total s' = ses_deposited_total s"
    and booked: "unat (ses_cumulative_settled s') + unat (ses_refunded_total s')
      = unat (ses_cumulative_settled s) + unat (ses_refunded_total s) + unat (tr_amount t)"
    and bound: "unat (ses_cumulative_settled s') + unat (ses_refunded_total s')
      \<le> unat (ses_deposited_total s)"
    and c': "ch_sessions c' = (ch_sessions c)(k \<mapsto> s')" "ch_tokens c' = T'"
  shows "solvent c'"
proof -
  have own: "session_solvent c' k s'"
  proof -
    from solventD [OF inv s] obtain v where v: "ch_tokens c (ses_vault s) = Some v"
      "ta_mint v = ses_mint s" "ta_owner v = k"
      "unat (ses_deposited_total s)
         \<le> unat (ta_amount v) + unat (ses_cumulative_settled s) + unat (ses_refunded_total s)"
      by (auto simp: session_solvent_def split: option.splits)
    from spl_account [OF law t(1) v(1)] t(2) obtain v' where "T' (ses_vault s) = Some v'"
      "ta_mint v' = ta_mint v" "ta_owner v' = ta_owner v"
      "unat (ta_amount v) \<le> unat (ta_amount v') + unat (tr_amount t)" by auto
    then show ?thesis using v booked bound c' same by (simp add: session_solvent_def)
  qed
  have other: "session_solvent c' k' s2" if "k' \<noteq> k" "ch_sessions c k' = Some s2" for k' s2
  proof (rule session_solvent_mono [OF solventD [OF inv that(2)]])
    fix v assume v: "ch_tokens c (ses_vault s2) = Some v"
    have "ses_vault s2 \<noteq> tr_from t" using solvent_vaults [OF inv that(2) s] that(1) t(2) by auto
    then show "\<exists>v'. ch_tokens c' (ses_vault s2) = Some v' \<and> ta_mint v' = ta_mint v
        \<and> ta_owner v' = ta_owner v \<and> unat (ta_amount v) \<le> unat (ta_amount v')"
      using spl_account [OF law t(1) v] c' by simp
  qed
  have "k1 = k2" if "ch_sessions c' k1 = Some s1" "ch_sessions c' k2 = Some s2"
    "ses_vault s1 = ses_vault s2" for k1 k2 s1 s2
    using that c' same s solvent_vaults [OF inv] by (auto split: if_splits)
  moreover have "session_solvent c' k1 s1" if "ch_sessions c' k1 = Some s1" for k1 s1
    using that c' own other by (auto split: if_splits)
  ultimately show ?thesis unfolding solvent_def by blast
qed

lemma solvent_settle:
  assumes "solvent c" and "spl_effect_law R"
    and "settle_session X R c tx b amt nonce exp root = Ok c'"
  shows "solvent c'"
proof -
  from assms(3) obtain s rb d T' rec where
    acc: "settle_session_accounts X R c tx b = Ok (s, rb)"
    and chk: "settle_checks R tx (sa_settler b) (sa_session b) s amt nonce exp = Ok d"
    and tr: "rt_transfer_checked R (ch_tokens c) \<lparr>tr_from = sa_vault b, tr_mint = sa_mint b,
             tr_to = sa_provider_token_account b, tr_authority = sa_session b,
             tr_amount = d, tr_decimals = the (ch_mints c (sa_mint b))\<rparr> = Some T'"
    and c': "ch_sessions c' = (ch_sessions c)(sa_session b \<mapsto>
               s\<lparr>ses_cumulative_settled := amt, ses_is_settled := True\<rparr>)" "ch_tokens c' = T'"
    by (auto simp: settle_session_Ok)
  have s: "ch_sessions c (sa_session b) = Some s" "ses_vault s = sa_vault b"
    using acc by (auto simp: settle_session_accounts_Ok load_session_account_Ok)
  have "unat amt = unat (ses_cumulative_settled s) + unat d"
    using chk by (auto simp: settle_checks_Ok unat_sub word_less_nat_alt order_less_imp_le)
  then show ?thesis
    by (intro solvent_payout [OF assms(1,2) s(1) tr _ _ _ _ _ _ c'])
      (use chk s in \<open>auto simp: settle_checks_Ok\<close>)
qed

lemma solvent_refund:
  assumes "solvent c" and "spl_effect_law R" and "refund_session X R c tx a = Ok c'"
  shows "solvent c'"
proof -
  from assms(3) obtain s e r T' f where
    acc: "refund_session_accounts X R c tx a = Ok s"
    and chk: "refund_checks tx (ra_caller a) s = Ok (e, r)"
    and tr: "rt_transfer_checked R (ch_tokens c) \<lparr>tr_from = ra_vault a, tr_mint = ra_mint a,
             tr_to = ra_agent_token_account a, tr_authority = ra_session a,
             tr_amount = r, tr_decimals = the (ch_mints c (ra_mint a))\<rparr> = Some T'"
    and f: "checked_add_u64 (ses_refunded_total s) r = Some f"
    and c': "ch_sessions c' = (ch_sessions c)(ra_session a \<mapsto> s\<lparr>ses_refunded_total := f\<rparr>)"
      "ch_tokens c' = T'"
    by (auto simp: refund_session_Ok)
  have s: "ch_sessions c (ra_session a) = Some s" "ses_vault s = ra_vault a"
    using acc by (auto simp: refund_session_accounts_Ok load_session_account_Ok)
  have "unat r = unat (ses_deposited_total s) - unat (ses_cumulative_settled s)
      - unat (ses_refunded_total s)"
    using chk by (auto simp: refund_checks_Ok unat_sub word_le_nat_alt)
  then show ?thesis
    by (intro solvent_payout [OF assms(1,2) s(1) tr _ _ _ _ _ _ c'])
      (use chk s checked_add_u64_unat [OF f] in \<open>auto simp: refund_checks_Ok\<close>)
qed

lemma solvent_open:
  assumes inv: "solvent c" and law: "spl_effect_law R" and pda: "no_pda_signs c tx"
    and op: "open_session X R c tx a sid dep exp auth = Ok c'"
  shows "solvent c'"
proof -
  from op obtain T b vb T' where
    acc: "open_session_accounts X R c tx a sid = Ok (T, b, vb)"
    and tr: "rt_transfer_checked R T \<lparr>tr_from = oa_agent_token_account a,
             tr_mint = oa_mint a, tr_to = oa_vault a, tr_authority = oa_agent a,
             tr_amount = dep, tr_decimals = the (ch_mints c (oa_mint a))\<rparr> = Some T'"
    and c': "ch_sessions c' = (ch_sessions c)(oa_session a \<mapsto> new_session a sid dep exp auth b vb)"
      "ch_tokens c' = T'"
    by (auto simp: open_session_Ok)
  from acc obtain ta where ta: "ch_tokens c (oa_agent_token_account a) = Some ta" "ta_owner ta = oa_agent a"
    and free: "ch_tokens c (oa_vault a) = None" "ch_sessions c (oa_session a) = None"
    and T: "T = (ch_tokens c)(oa_vault a \<mapsto> \<lparr>ta_mint = oa_mint a, ta_owner = oa_session a,
            ta_amount = 0, ta_frozen = False\<rparr>)"
    and agent: "ch_sessions c (oa_agent a) = None"
    using pda by (auto simp: open_session_accounts_Ok account_free_def no_pda_signs_def)
  have ne: "oa_agent_token_account a \<noteq> oa_vault a" using ta free by auto
  have vault': "T' (oa_vault a) = Some \<lparr>ta_mint = oa_mint a, ta_owner = oa_session a,
      ta_amount = dep, ta_frozen = False\<rparr>"
    using law [unfolded spl_effect_law_def, rule_format, OF tr] ne T by auto
  have own: "session_solvent c' (oa_session a) (new_session a sid dep exp auth b vb)"
    by (simp add: session_solvent_def c' vault')
  have old: "session_solvent c' k s \<and> ses_vault s \<noteq> oa_vault a" if s: "ch_sessions c k = Some s" for k s
  proof
    have solv: "session_solvent c k s" using inv s by (rule solventD)
    then show ne': "ses_vault s \<noteq> oa_vault a" using free by (auto simp: session_solvent_def)
    show "session_solvent c' k s"
    proof (rule session_solvent_mono [OF solv])
      fix v assume v: "ch_tokens c (ses_vault s) = Some v"
      then have "ta_owner v = k" using solv by (simp add: session_solvent_def)
      then have "ses_vault s \<noteq> oa_agent_token_account a" using ta v agent s by auto
      then show "\<exists>v'. ch_tokens c' (ses_vault s) = Some v' \<and> ta_mint v' = ta_mint v
          \<and> ta_owner v' = ta_owner v \<and> unat (ta_amount v) \<le> unat (ta_amount v')"
        using spl_account [OF law tr, of "ses_vault s" v] v T ne' c' by simp
    qed
  qed
  have "k1 = k2" if "ch_sessions c' k1 = Some s1" "ch_sessions c' k2 = Some s2"
    "ses_vault s1 = ses_vault s2" for k1 k2 s1 s2
  proof (cases "k1 = oa_session a"; cases "k2 = oa_session a")
    assume "k1 \<noteq> oa_session a" "k2 \<noteq> oa_session a"
    then show ?thesis using that c' solvent_vaults [OF inv, of k1 s1 k2 s2] by simp
  next
    assume "k1 = oa_session a" "k2 \<noteq> oa_session a"
    then have "s1 = new_session a sid dep exp auth b vb" "ch_sessions c k2 = Some s2"
      using that c' by simp_all
    then show ?thesis using that(3) old [of k2 s2] by simp
  next
    assume "k1 \<noteq> oa_session a" "k2 = oa_session a"
    then have "s2 = new_session a sid dep exp auth b vb" "ch_sessions c k1 = Some s1"
      using that c' by simp_all
    then show ?thesis using that(3) old [of k1 s1] by simp
  qed simp
  moreover have "session_solvent c' k1 s1" if "ch_sessions c' k1 = Some s1" for k1 s1
    using that c' own old by (auto split: if_splits)
  ultimately show ?thesis unfolding solvent_def by blast
qed

lemma solvent_others:
  assumes "solvent c" and "others c c'"
  shows "solvent c'"
proof -
  have "session_solvent c' k s" if s: "ch_sessions c k = Some s" for k s
  proof (rule session_solvent_mono [OF solventD [OF assms(1) s]])
    fix v assume "ch_tokens c (ses_vault s) = Some v"
    then show "\<exists>v'. ch_tokens c' (ses_vault s) = Some v' \<and> ta_mint v' = ta_mint v
          \<and> ta_owner v' = ta_owner v \<and> unat (ta_amount v) \<le> unat (ta_amount v')"
      using assms(2) s unfolding others_def word_le_nat_alt by blast
  qed
  then show ?thesis using assms unfolding solvent_def others_def by metis
qed

interpretation solvency: preserved "chain_step X R" "\<lambda>c. spl_effect_law R \<longrightarrow> solvent c" for X R
  by unfold_locales
    (auto elim!: chain_stepE intro: solvent_open solvent_settle solvent_refund solvent_others)

lemma reachable_solvent:
  assumes "genesis c\<^sub>0" and "spl_effect_law R" and "(chain_step X R)\<^sup>*\<^sup>* c\<^sub>0 c"
  shows "solvent c"
proof -
  have "solvent c\<^sub>0" using assms(1) by (simp add: genesis_def solvent_def)
  then show ?thesis using solvency.reach_keeps [OF assms(3)] assms(2) by blast
qed

subsection \<open>The ledger of emitted events\<close>

definition paid_out :: "pubkey \<Rightarrow> event list \<Rightarrow> nat" where
  "paid_out k es = sum_list (map (\<lambda>e. case e of
     SessionSettled k' _ _ transferred _ _ \<Rightarrow> if k' = k then unat transferred else 0
   | _ \<Rightarrow> 0) es)"

definition paid_back :: "pubkey \<Rightarrow> event list \<Rightarrow> nat" where
  "paid_back k es = sum_list (map (\<lambda>e. case e of
     SessionRefunded k' _ amount _ _ \<Rightarrow> if k' = k then unat amount else 0
   | _ \<Rightarrow> 0) es)"

lemma ledger_append [simp]:
  "paid_out k (es @ fs) = paid_out k es + paid_out k fs"
  "paid_back k (es @ fs) = paid_back k es + paid_back k fs"
  by (simp_all add: paid_out_def paid_back_def)

definition ledger_agrees :: "chain \<Rightarrow> bool" where
  "ledger_agrees c \<longleftrightarrow> (\<forall>k. case ch_sessions c k of
     None \<Rightarrow> paid_out k (ch_events c) = 0 \<and> paid_back k (ch_events c) = 0
   | Some s \<Rightarrow> paid_out k (ch_events c) = unat (ses_cumulative_settled s)
       \<and> paid_back k (ch_events c) = unat (ses_refunded_total s)
       \<and> (ses_is_settled s \<longleftrightarrow> ses_cumulative_settled s \<noteq> 0))"

lemma ledger_settle:
  assumes "ledger_agrees c" and "settle_session X R c tx b amt nonce exp root = Ok c'"
  shows "ledger_agrees c'"
proof -
  from assms(2) obtain s rb d T' rec where
    acc: "settle_session_accounts X R c tx b = Ok (s, rb)"
    and chk: "settle_checks R tx (sa_settler b) (sa_session b) s amt nonce exp = Ok d"
    and c': "ch_sessions c' = (ch_sessions c)(sa_session b \<mapsto>
               s\<lparr>ses_cumulative_settled := amt, ses_is_settled := True\<rparr>)"
      "ch_events c' = ch_events c @ [SessionSettled (sa_session b) (ses_provider s) amt d root (tx_now tx)]"
    by (auto simp: settle_session_Ok)
  have "ch_sessions c (sa_session b) = Some s"
    using acc by (auto simp: settle_session_accounts_Ok load_session_account_Ok)
  moreover have "unat amt = unat (ses_cumulative_settled s) + unat d" "amt \<noteq> 0"
    using chk by (auto simp: settle_checks_Ok unat_sub word_less_nat_alt order_less_imp_le)
  ultimately show ?thesis
    using assms(1) by (force simp: ledger_agrees_def c' paid_out_def paid_back_def split: option.splits)
qed

lemma ledger_refund:
  assumes "ledger_agrees c" and "refund_session X R c tx a = Ok c'"
  shows "ledger_agrees c'"
proof -
  from assms(2) obtain s e r f where
    acc: "refund_session_accounts X R c tx a = Ok s"
    and f: "checked_add_u64 (ses_refunded_total s) r = Some f"
    and c': "ch_sessions c' = (ch_sessions c)(ra_session a \<mapsto> s\<lparr>ses_refunded_total := f\<rparr>)"
      "ch_events c' = ch_events c @ [SessionRefunded (ra_session a) (ses_agent s) r e (tx_now tx)]"
    by (auto simp: refund_session_Ok)
  have "ch_sessions c (ra_session a) = Some s"
    using acc by (auto simp: refund_session_accounts_Ok load_session_account_Ok)
  then show ?thesis
    using assms(1) checked_add_u64_unat [OF f]
    by (force simp: ledger_agrees_def c' paid_out_def paid_back_def split: option.splits)
qed

lemma ledger_open:
  assumes "ledger_agrees c" and "open_session X R c tx a sid dep exp auth = Ok c'"
  shows "ledger_agrees c'"
proof -
  from assms(2) obtain b vb where
    free: "ch_sessions c (oa_session a) = None"
    and c': "ch_sessions c' = (ch_sessions c)(oa_session a \<mapsto> new_session a sid dep exp auth b vb)"
      "ch_events c' = ch_events c @ [SessionOpened (oa_session a) (oa_agent a)
              (oa_provider a) auth (oa_mint a) dep exp]"
    by (auto simp: open_session_Ok open_session_accounts_Ok account_free_def)
  then show ?thesis
    using assms(1) by (force simp: ledger_agrees_def paid_out_def paid_back_def split: option.splits)
qed

lemma others_same:
  assumes "others c c'"
  shows "ch_sessions c' = ch_sessions c" and "ch_events c' = ch_events c"
  using assms by (simp_all add: others_def)

lemma ledger_others: "ledger_agrees c \<Longrightarrow> others c c' \<Longrightarrow> ledger_agrees c'"
  unfolding ledger_agrees_def by (simp add: others_same cong: option.case_cong)

interpretation ledger: preserved "chain_step X R" ledger_agrees for X R
  by unfold_locales
    (auto elim!: chain_stepE intro: ledger_open ledger_settle ledger_refund ledger_others)

lemma reachable_ledger:
  assumes "genesis c\<^sub>0" and "(chain_step X R)\<^sup>*\<^sup>* c\<^sub>0 c"
  shows "ledger_agrees c"
  using assms ledger.reach_keeps [OF assms(2)]
  by (simp add: genesis_def ledger_agrees_def paid_out_def paid_back_def)

subsection \<open>What never changes, what only grows, what is final\<close>

definition session_terms :: "session \<Rightarrow>
    pubkey \<times> pubkey \<times> pubkey \<times> pubkey \<times> pubkey \<times> u64 \<times> i64 \<times> id16 \<times> u8 \<times> u8" where
  "session_terms s = (ses_agent s, ses_provider s, ses_settlement_authority s, ses_mint s,
     ses_vault s, ses_deposited_total s, ses_expires_at s, ses_session_id s, ses_bump s,
     ses_vault_bump s)"

definition continues :: "session \<Rightarrow> session \<Rightarrow> bool" where
  "continues s s' \<longleftrightarrow> session_terms s' = session_terms s
     \<and> ses_cumulative_settled s \<le> ses_cumulative_settled s'
     \<and> unat (ses_refunded_total s) \<le> unat (ses_refunded_total s')"

lemma settle_session_at:
  assumes "settle_session X R c tx b amt nonce exp root = Ok c'"
    and "ch_sessions c k = Some s"
  shows "ch_sessions c' k = Some s \<or>
    k = sa_session b \<and> ses_cumulative_settled s < amt
      \<and> unat amt + unat (ses_refunded_total s) \<le> unat (ses_deposited_total s)
      \<and> ch_sessions c' k = Some (s\<lparr>ses_cumulative_settled := amt, ses_is_settled := True\<rparr>)"
  using assms
  by (cases "k = sa_session b")
    (auto simp: settle_session_Ok settle_session_accounts_Ok load_session_account_Ok settle_checks_Ok)

lemma refund_session_at:
  assumes "refund_session X R c tx a = Ok c'" and "ch_sessions c k = Some s"
  shows "ch_sessions c' k = Some s \<or>
    k = ra_session a
      \<and> unat (ses_cumulative_settled s) + unat (ses_refunded_total s) < unat (ses_deposited_total s)
      \<and> (\<exists>f. unat f = unat (ses_deposited_total s) - unat (ses_cumulative_settled s)
           \<and> ch_sessions c' k = Some (s\<lparr>ses_refunded_total := f\<rparr>))"
proof -
  from assms(1) obtain s1 e r f where
    acc: "refund_session_accounts X R c tx a = Ok s1"
    and chk: "refund_checks tx (ra_caller a) s1 = Ok (e, r)"
    and f: "checked_add_u64 (ses_refunded_total s1) r = Some f"
    and c': "ch_sessions c' = (ch_sessions c)(ra_session a \<mapsto> s1\<lparr>ses_refunded_total := f\<rparr>)"
    by (auto simp: refund_session_Ok)
  have s1: "ch_sessions c (ra_session a) = Some s1"
    using acc by (auto simp: refund_session_accounts_Ok load_session_account_Ok)
  have "unat r = unat (ses_deposited_total s1) - unat (ses_cumulative_settled s1)
      - unat (ses_refunded_total s1)"
    using chk by (auto simp: refund_checks_Ok unat_sub word_le_nat_alt)
  then show ?thesis
    using s1 assms(2) c' chk checked_add_u64_unat [OF f]
    by (cases "k = ra_session a") (auto simp: refund_checks_Ok)
qed

lemma open_session_at:
  assumes "open_session X R c tx a sid dep exp auth = Ok c'" and "ch_sessions c k = Some s"
  shows "ch_sessions c' k = Some s"
  using assms by (auto simp: open_session_Ok open_session_accounts_Ok account_free_def)

interpretation terms: preserved "chain_step X R"
  "\<lambda>c. \<exists>s'. ch_sessions c k = Some s' \<and> continues s s'" for X R k s
proof (unfold_locales, elim exE conjE)
  fix c c' s' assume step: "chain_step X R c c'" and s': "ch_sessions c k = Some s'" "continues s s'"
  show "\<exists>s'. ch_sessions c' k = Some s' \<and> continues s s'"
    using step
  proof (cases rule: chain_step.cases)
    case Settle
    show ?thesis
      using settle_session_at [OF Settle s'(1)] s'
      by (auto simp: continues_def session_terms_def)
  next
    case Refund
    show ?thesis
      using refund_session_at [OF Refund s'(1)] s'
      by (auto simp: continues_def session_terms_def)
  next
    case Open
    then show ?thesis using open_session_at s' by blast
  next
    case Others
    then show ?thesis using s' by (simp add: others_same)
  qed
qed

definition fully_paid :: "session \<Rightarrow> bool" where
  "fully_paid s \<longleftrightarrow>
     unat (ses_cumulative_settled s) + unat (ses_refunded_total s) = unat (ses_deposited_total s)"

lemma fully_paid_settle_fails:
  "ch_sessions c k = Some s \<Longrightarrow> fully_paid s \<Longrightarrow> sa_session b = k \<Longrightarrow>
     settle_session X R c tx b amt nonce exp root \<noteq> Ok c'"
  by (auto simp: settle_session_Ok settle_session_accounts_Ok load_session_account_Ok
      settle_checks_Ok fully_paid_def word_less_nat_alt)

lemma fully_paid_refund_fails:
  "ch_sessions c k = Some s \<Longrightarrow> fully_paid s \<Longrightarrow> ra_session a = k \<Longrightarrow>
     refund_session X R c tx a \<noteq> Ok c'"
  by (auto simp: refund_session_Ok refund_session_accounts_Ok load_session_account_Ok
      refund_checks_Ok fully_paid_def)

interpretation closed: preserved "chain_step X R"
  "\<lambda>c. ch_sessions c k = Some s \<and> fully_paid s" for X R k s
proof (unfold_locales, elim conjE)
  fix c c' assume step: "chain_step X R c c'" and s: "ch_sessions c k = Some s" "fully_paid s"
  show "ch_sessions c' k = Some s \<and> fully_paid s"
    using step
  proof (cases rule: chain_step.cases)
    case Settle
    then show ?thesis
      using settle_session_at [OF Settle s(1)] fully_paid_settle_fails [OF s] s(2) by blast
  next
    case Refund
    then show ?thesis
      using refund_session_at [OF Refund s(1)] fully_paid_refund_fails [OF s] s(2) by blast
  next
    case Open
    then show ?thesis using open_session_at s by blast
  next
    case Others
    then show ?thesis using s by (simp add: others_same)
  qed
qed

lemma refund_closes:
  assumes "refund_session X R c tx a = Ok c'" and "ch_sessions c (ra_session a) = Some s"
  shows "\<exists>s'. ch_sessions c' (ra_session a) = Some s' \<and> fully_paid s'"
proof -
  from assms(1) obtain s1 r f e where
    acc: "refund_session_accounts X R c tx a = Ok s1"
    and chk: "refund_checks tx (ra_caller a) s1 = Ok (e, r)"
    and f: "checked_add_u64 (ses_refunded_total s1) r = Some f"
    and c': "ch_sessions c' = (ch_sessions c)(ra_session a \<mapsto> s1\<lparr>ses_refunded_total := f\<rparr>)"
    by (auto simp: refund_session_Ok)
  have "unat r = unat (ses_deposited_total s1) - unat (ses_cumulative_settled s1)
      - unat (ses_refunded_total s1)"
    using chk by (auto simp: refund_checks_Ok unat_sub word_le_nat_alt)
  then show ?thesis
    using c' chk checked_add_u64_unat [OF f] by (auto simp: fully_paid_def refund_checks_Ok)
qed

subsection \<open>The receipt account\<close>

definition receipt_key :: "externals \<Rightarrow> runtime \<Rightarrow> pubkey \<Rightarrow> pubkey" where
  "receipt_key X R k = fst (find_pda X (settlement_seeds k) (rt_program_id R))"

definition holds_lamports :: "record_account \<Rightarrow> bool" where
  "holds_lamports r = (case r of SystemOwned l \<Rightarrow> l \<noteq> 0 | _ \<Rightarrow> False)"

lemma prefunded_settle_fails:
  assumes "create_account_law R" and "holds_lamports (ch_records c (receipt_key X R (sa_session b)))"
  shows "settle_session X R c tx b amt nonce exp root \<noteq> Ok c'"
proof
  assume "settle_session X R c tx b amt nonce exp root = Ok c'"
  then obtain rb rec where
    "find_pda X (settlement_seeds (sa_session b)) (rt_program_id R) = (sa_settlement_record b, rb)"
    "advance_record R (ch_records c (sa_settlement_record b)) (sa_settler b) (sa_session b) rb = Ok rec"
    by (auto simp: settle_session_Ok settle_session_accounts_Ok)
  then show False
    using assms by (auto simp: receipt_key_def holds_lamports_def advance_record_def
        create_account_law_def split: record_account.splits if_splits)
qed

lemma settle_keeps_prefunded:
  assumes "create_account_law R" and "holds_lamports (ch_records c p)"
    and "settle_session X R c tx b amt nonce exp root = Ok c'"
  shows "ch_records c' p = ch_records c p"
proof -
  have "sa_settlement_record b = receipt_key X R (sa_session b)"
    using assms(3) by (auto simp: settle_session_Ok settle_session_accounts_Ok receipt_key_def)
  moreover have "p \<noteq> receipt_key X R (sa_session b)"
    using prefunded_settle_fails [OF assms(1)] assms(2,3) by blast
  ultimately show ?thesis using assms(3) by (auto simp: settle_session_Ok)
qed

lemma others_keep_prefunded:
  assumes "others c c'" and "holds_lamports (ch_records c p)"
  shows "holds_lamports (ch_records c' p)"
proof -
  from assms(2) obtain l where l: "ch_records c p = SystemOwned l" "l \<noteq> 0"
    by (auto simp: holds_lamports_def split: record_account.splits)
  from assms(1) have "case ch_records c p of
          SystemOwned l \<Rightarrow> (\<exists>l'. l \<le> l' \<and> ch_records c' p = SystemOwned l')
        | r \<Rightarrow> ch_records c' p = r" by (simp add: others_def)
  with l obtain l' where "l \<le> l'" "ch_records c' p = SystemOwned l'" by auto
  then show ?thesis using l(2) by (auto simp: holds_lamports_def)
qed

interpretation prefunded: preserved "chain_step X R"
  "\<lambda>c. create_account_law R \<longrightarrow> holds_lamports (ch_records c p)" for X R p
proof (unfold_locales, rule impI)
  fix c c' assume step: "chain_step X R c c'" and law: "create_account_law R"
    and pre: "create_account_law R \<longrightarrow> holds_lamports (ch_records c p)"
  then have h: "holds_lamports (ch_records c p)" by simp
  show "holds_lamports (ch_records c' p)"
    using step
  proof (cases rule: chain_step.cases)
    case Settle
    then show ?thesis using settle_keeps_prefunded [OF law h Settle] h by simp
  next
    case Refund
    then show ?thesis using h by (auto simp: refund_session_Ok)
  next
    case Open
    then show ?thesis using h by (auto simp: open_session_Ok)
  next
    case Others
    then show ?thesis using others_keep_prefunded h by blast
  qed
qed

end
