(* ===== verification/Escrow_Props.thy ===== *)
theory Escrow_Props
  imports Escrow_Safety
begin

section \<open>Properties of the escrow program\<close>

text \<open>
  The properties of the on-chain program, over the step relation and the invariants of
  \<open>Escrow_Safety\<close>, with a concrete chain on which each of them is exercised.
\<close>

subsection \<open>Where a session's accounts are\<close>

definition addressed :: "externals \<Rightarrow> runtime \<Rightarrow> chain \<Rightarrow> bool" where
  "addressed X R c \<longleftrightarrow> (\<forall>k s. ch_sessions c k = Some s \<longrightarrow>
     find_pda X (session_seeds (ses_agent s) (ses_provider s) (ses_session_id s)) (rt_program_id R)
       = (k, ses_bump s)
   \<and> find_pda X (vault_seeds k) (rt_program_id R) = (ses_vault s, ses_vault_bump s)
   \<and> ch_mints c (ses_mint s) \<noteq> None)"

lemma addressed_update:
  assumes "addressed X R c" and "ch_sessions c k = Some s" and "session_terms s' = session_terms s"
    and "ch_sessions c' = (ch_sessions c)(k \<mapsto> s')" and "ch_mints c' = ch_mints c"
  shows "addressed X R c'"
  using assms unfolding addressed_def session_terms_def by auto

lemma addressed_open:
  assumes "addressed X R c" and "open_session X R c tx a sid dep exp auth = Ok c'"
  shows "addressed X R c'"
proof -
  from assms(2) obtain b vb where
    new: "find_pda X (session_seeds (oa_agent a) (oa_provider a) sid) (rt_program_id R) = (oa_session a, b)"
      "find_pda X (vault_seeds (oa_session a)) (rt_program_id R) = (oa_vault a, vb)"
      "ch_mints c (oa_mint a) \<noteq> None"
    and c': "ch_sessions c' = (ch_sessions c)(oa_session a \<mapsto> new_session a sid dep exp auth b vb)"
      "ch_mints c' = ch_mints c"
    by (auto simp: open_session_Ok open_session_accounts_Ok)
  show ?thesis using assms(1) new unfolding addressed_def c' by simp
qed

lemma addressed_settle:
  assumes "addressed X R c" and "settle_session X R c tx b amt nonce exp root = Ok c'"
  shows "addressed X R c'"
proof -
  from assms(2) obtain s where "ch_sessions c (sa_session b) = Some s"
    "ch_sessions c' = (ch_sessions c)(sa_session b \<mapsto>
        s\<lparr>ses_cumulative_settled := amt, ses_is_settled := True\<rparr>)" "ch_mints c' = ch_mints c"
    by (auto simp: settle_session_Ok settle_session_accounts_Ok load_session_account_Ok)
  then show ?thesis by (intro addressed_update [OF assms(1)]) (auto simp: session_terms_def)
qed

lemma addressed_refund:
  assumes "addressed X R c" and "refund_session X R c tx a = Ok c'"
  shows "addressed X R c'"
proof -
  from assms(2) obtain s f where "ch_sessions c (ra_session a) = Some s"
    "ch_sessions c' = (ch_sessions c)(ra_session a \<mapsto> s\<lparr>ses_refunded_total := f\<rparr>)"
    "ch_mints c' = ch_mints c"
    by (auto simp: refund_session_Ok refund_session_accounts_Ok load_session_account_Ok)
  then show ?thesis by (intro addressed_update [OF assms(1)]) (auto simp: session_terms_def)
qed

lemma addressed_others: "addressed X R c \<Longrightarrow> others c c' \<Longrightarrow> addressed X R c'"
  unfolding addressed_def others_def by fastforce

interpretation addressing: preserved "chain_step X R" "addressed X R" for X R
  by unfold_locales
    (auto elim!: chain_stepE
      intro: addressed_open addressed_settle addressed_refund addressed_others)

lemma reachable_addressed:
  assumes "genesis c\<^sub>0" and "(chain_step X R)\<^sup>*\<^sup>* c\<^sub>0 c"
  shows "addressed X R c"
  using assms addressing.reach_keeps [OF assms(2)] by (simp add: genesis_def addressed_def)

lemma seeds_nonempty: "session_seeds a p i \<noteq> []" "vault_seeds k \<noteq> []" "settlement_seeds k \<noteq> []"
  by (simp_all add: session_seeds_def vault_seeds_def settlement_seeds_def)

lemma load_session_account_reachable:
  assumes "addressed X R c" and "pda_law X" and "ch_sessions c k = Some s"
  shows "load_session_account X R c k (ses_mint s) (ses_vault s) = Ok s"
    and "ch_tokens c (ses_vault s) \<noteq> None \<Longrightarrow> check_vault_account X R c k s (ses_vault s) = Ok ()"
  using assms
  by (auto simp: load_session_account_Ok check_vault_account_Ok addressed_def pda_law_def seeds_nonempty)

subsection \<open>A chain to exercise the program on\<close>

text \<open>
  One mint, an agent (key 1) holding 1000 of its tokens, a provider (key 2) with an
  empty account, and a token and system program that behave as documented.
\<close>

definition demo_transfer :: "token_store \<Rightarrow> transfer_args \<Rightarrow> token_store option" where
  "demo_transfer T t = (case T (tr_from t) of None \<Rightarrow> None | Some a \<Rightarrow>
     case T (tr_to t) of None \<Rightarrow> None | Some b \<Rightarrow>
       if ta_owner a \<noteq> tr_authority t \<or> ta_mint a \<noteq> tr_mint t \<or> ta_mint b \<noteq> tr_mint t
          \<or> ta_frozen a \<or> ta_frozen b \<or> \<not> tr_amount t \<le> ta_amount a then None
       else if tr_from t = tr_to t then Some T
       else if \<not> unat (ta_amount b) + unat (tr_amount t) < 2 ^ 64 then None
       else Some (T(tr_from t \<mapsto> a\<lparr>ta_amount := ta_amount a - tr_amount t\<rparr>,
                    tr_to t \<mapsto> b\<lparr>ta_amount := ta_amount b + tr_amount t\<rparr>)))"

definition demo_runtime :: runtime where
  "demo_runtime = \<lparr>rt_program_id = 100, rt_ed25519_program = 101, rt_instructions_sysvar = 102,
     rt_transfer_checked = demo_transfer, rt_minimum_balance = (\<lambda>_. 1),
     rt_create_account = (\<lambda>_ held _ _. held = 0)\<rparr>"

lemma demo_laws:
  "spl_effect_law demo_runtime" "spl_progress_law demo_runtime" "create_account_law demo_runtime"
proof -
  show "spl_effect_law demo_runtime"
    unfolding spl_effect_law_def demo_runtime_def demo_transfer_def
    by (auto split: option.splits if_splits)
  show "spl_progress_law demo_runtime"
    unfolding spl_progress_law_def demo_runtime_def demo_transfer_def by auto
  show "create_account_law demo_runtime"
    by (simp add: create_account_law_def demo_runtime_def)
qed

definition demo_token :: "pubkey \<Rightarrow> u64 \<Rightarrow> token_account" where
  "demo_token owner amount =
     \<lparr>ta_mint = 50, ta_owner = owner, ta_amount = amount, ta_frozen = False\<rparr>"

definition demo_chain\<^sub>0 :: chain where
  "demo_chain\<^sub>0 = \<lparr>ch_sessions = Map.empty, ch_records = (\<lambda>_. SystemOwned 0),
     ch_tokens = [11 \<mapsto> demo_token 1 1000, 32 \<mapsto> demo_token 2 0], ch_mints = [50 \<mapsto> 6],
     ch_events = []\<rparr>"

definition demo_open :: open_accounts where
  "demo_open = \<lparr>oa_agent = 1, oa_provider = 2, oa_mint = 50, oa_session = 7, oa_vault = 5,
     oa_agent_token_account = 11\<rparr>"

definition demo_session :: session where
  "demo_session = \<lparr>ses_agent = 1, ses_provider = 2, ses_settlement_authority = 3, ses_mint = 50,
     ses_vault = 5, ses_deposited_total = 100, ses_cumulative_settled = 0, ses_refunded_total = 0,
     ses_expires_at = 2000, ses_session_id = 9, ses_bump = 255, ses_vault_bump = 255,
     ses_is_settled = False\<rparr>"

definition demo_chain\<^sub>1 :: chain where
  "demo_chain\<^sub>1 = \<lparr>ch_sessions = [7 \<mapsto> demo_session], ch_records = (\<lambda>_. SystemOwned 0),
     ch_tokens = [11 \<mapsto> demo_token 1 900, 32 \<mapsto> demo_token 2 0, 5 \<mapsto> demo_token 7 100],
     ch_mints = [50 \<mapsto> 6], ch_events = [SessionOpened 7 1 2 3 50 100 2000]\<rparr>"

definition demo_txn :: "i64 \<Rightarrow> pubkey \<Rightarrow> txn" where
  "demo_txn now signer = \<lparr>tx_now = now, tx_signers = [signer], tx_instructions = [],
     tx_current_index = 0\<rparr>"

lemma demo_seed_lengths [simp]:
  "length SESSION_SEED = 7" "length VAULT_SEED = 5" "length SETTLEMENT_SEED = 10"
  by (simp_all add: SESSION_SEED_def VAULT_SEED_def SETTLEMENT_SEED_def utf8_def utf8_char_def)

lemma demo_pdas [simp]:
  "find_pda demo_externals (session_seeds a p i) prog = (7, 255)"
  "find_pda demo_externals (vault_seeds k) prog = (5, 255)"
  "find_pda demo_externals (settlement_seeds k) prog = (10, 255)"
  "create_pda demo_externals (session_seeds a p i @ x) prog = Some 7"
  "create_pda demo_externals (vault_seeds k @ x) prog = Some 5"
  by (simp_all add: demo_externals_def session_seeds_def vault_seeds_def settlement_seeds_def)

lemma demo_opened:
  "open_session demo_externals demo_runtime demo_chain\<^sub>0 (demo_txn 1000 1) demo_open 9 100 2000 3
     = Ok demo_chain\<^sub>1"
proof -
  have "open_session_accounts demo_externals demo_runtime demo_chain\<^sub>0 (demo_txn 1000 1) demo_open 9
      = Ok ([11 \<mapsto> demo_token 1 1000, 32 \<mapsto> demo_token 2 0, 5 \<mapsto> demo_token 7 0], 255, 255)"
    by (simp add: open_session_accounts_def demo_open_def demo_chain\<^sub>0_def demo_txn_def
        account_free_def demo_token_def fun_upd_twist)
  then show ?thesis
    by (simp add: open_session_def demo_txn_def demo_open_def demo_runtime_def demo_transfer_def
        demo_chain\<^sub>0_def demo_chain\<^sub>1_def demo_session_def demo_token_def checked_sub_i64_def
        MAX_SESSION_DURATION_SECS_def fun_upd_twist)
qed

lemma demo_reach: "(chain_step demo_externals demo_runtime)\<^sup>*\<^sup>* demo_chain\<^sub>0 demo_chain\<^sub>1"
proof -
  have "no_pda_signs demo_chain\<^sub>0 (demo_txn 1000 1)"
    by (simp add: no_pda_signs_def demo_chain\<^sub>0_def)
  then show ?thesis using chain_step.Open [OF _ demo_opened] by blast
qed

lemma demo_genesis: "genesis demo_chain\<^sub>0"
  by (simp add: genesis_def demo_chain\<^sub>0_def)

definition demo_ids :: solana_ids where
  "demo_ids = \<lparr>id_associated_token_program = 103, id_system_program = 104\<rparr>"

definition demo_claim :: claim where
  "demo_claim = \<lparr>cl_session = 7, cl_cumulative_amount = 40, cl_nonce = 1, cl_expires_at = 2000\<rparr>"

definition demo_settle_txn :: txn where
  "demo_settle_txn = \<lparr>tx_now = 1500, tx_signers = [3],
     tx_instructions = settlement_instructions demo_externals demo_runtime demo_ids 100 3 2 7 50 200
       demo_claim 40 1 77,
     tx_current_index = 1\<rparr>"

definition demo_settle :: settle_accounts where
  "demo_settle = \<lparr>sa_settler = 3, sa_session = 7, sa_settlement_record = 10, sa_vault = 5,
     sa_provider_token_account = 32, sa_mint = 50, sa_instructions_sysvar = 102\<rparr>"

definition demo_chain\<^sub>2 :: chain where
  "demo_chain\<^sub>2 = demo_chain\<^sub>1\<lparr>
     ch_sessions := [7 \<mapsto> demo_session\<lparr>ses_cumulative_settled := 40, ses_is_settled := True\<rparr>],
     ch_records := (\<lambda>_. SystemOwned 0)(10 := ProgramOwned (Some \<lparr>sr_session = 7,
       sr_claim_hash = sha256 demo_externals (signing_bytes demo_claim), sr_merkle_root = 77,
       sr_settled_at = 1500, sr_settled_amount = 40, sr_bump = 255\<rparr>)),
     ch_tokens := [11 \<mapsto> demo_token 1 900, 32 \<mapsto> demo_token 2 40, 5 \<mapsto> demo_token 7 60],
     ch_events := [SessionOpened 7 1 2 3 50 100 2000, SessionSettled 7 2 40 40 77 1500]\<rparr>"

lemma demo_claim_message: "build_claim_message 7 40 1 2000 = signing_bytes demo_claim"
  by (simp add: build_claim_message_signing_bytes demo_claim_def)

lemma demo_settle_verified:
  "verify_ed25519_claim demo_runtime demo_settle_txn 1 (signing_bytes demo_claim) = Ok ()"
  by (rule verify_accepts_built_instruction [where i = 0])
    (simp_all add: demo_settle_txn_def settlement_instructions_def Let_def)

lemma demo_settled:
  "settle_session demo_externals demo_runtime demo_chain\<^sub>1 demo_settle_txn demo_settle 40 1 2000 77
     = Ok demo_chain\<^sub>2"
proof -
  have acc: "settle_session_accounts demo_externals demo_runtime demo_chain\<^sub>1 demo_settle_txn demo_settle
      = Ok (demo_session, 255)"
    by (simp add: settle_session_accounts_def load_session_account_def check_vault_account_def
        check_payee_account_def demo_settle_def demo_settle_txn_def demo_chain\<^sub>1_def demo_session_def
        demo_runtime_def demo_token_def)
  have chk: "settle_checks demo_runtime demo_settle_txn 3 7 demo_session 40 1 2000 = Ok 40"
    unfolding settle_checks_Ok demo_claim_message
    by (simp add: demo_session_def demo_settle_verified)
      (simp add: demo_settle_txn_def checked_add_i64_def CLOCK_SKEW_TOLERANCE_SECS_def)
  have tr: "rt_transfer_checked demo_runtime (ch_tokens demo_chain\<^sub>1)
      \<lparr>tr_from = 5, tr_mint = 50, tr_to = 32, tr_authority = 7, tr_amount = 40,
       tr_decimals = the (ch_mints demo_chain\<^sub>1 50)\<rparr>
      = Some [11 \<mapsto> demo_token 1 900, 32 \<mapsto> demo_token 2 40, 5 \<mapsto> demo_token 7 60]"
    by (simp add: demo_runtime_def demo_transfer_def demo_chain\<^sub>1_def demo_token_def fun_upd_twist)
  have rec: "advance_record demo_runtime (ch_records demo_chain\<^sub>1 10) 3 7 255
      = Ok \<lparr>sr_session = 7, sr_claim_hash = 0, sr_merkle_root = 0, sr_settled_at = 0,
            sr_settled_amount = 0, sr_bump = 255\<rparr>"
    by (simp add: advance_record_def demo_runtime_def demo_chain\<^sub>1_def)
  have "tx_now demo_settle_txn = 1500" by (simp add: demo_settle_txn_def)
  then show ?thesis
    unfolding settle_session_def acc
    by (simp add: demo_settle_def chk tr rec demo_claim_message)
      (simp add: demo_chain\<^sub>1_def demo_chain\<^sub>2_def demo_session_def)
qed

lemma demo_reach\<^sub>2: "(chain_step demo_externals demo_runtime)\<^sup>*\<^sup>* demo_chain\<^sub>0 demo_chain\<^sub>2"
  using demo_reach chain_step.Settle [OF demo_settled] by simp

lemma demo_chain\<^sub>1_session: "ch_sessions demo_chain\<^sub>1 7 = Some demo_session"
  by (simp add: demo_chain\<^sub>1_def)

subsection \<open>Money in, money out\<close>

text \<open>
  C1. Solvency. In every state the program can reach, each session has paid out no more
  than its deposit, and its own vault, of the session's mint and under the session's
  authority, still covers everything the session has not paid out.
\<close>

theorem escrow_solvency:
  assumes "genesis c\<^sub>0" and "spl_effect_law R" and "(chain_step X R)\<^sup>*\<^sup>* c\<^sub>0 c"
    and "ch_sessions c k = Some s"
  shows "unat (ses_cumulative_settled s) + unat (ses_refunded_total s) \<le> unat (ses_deposited_total s)
    \<and> (\<exists>v. ch_tokens c (ses_vault s) = Some v \<and> ta_mint v = ses_mint s \<and> ta_owner v = k
      \<and> unat (ses_deposited_total s) - unat (ses_cumulative_settled s) - unat (ses_refunded_total s)
          \<le> unat (ta_amount v))"
  using solventD [OF reachable_solvent [OF assms(1-3)] assms(4)]
  by (auto simp: session_solvent_def split: option.splits)

theorem escrow_solvency_witness:
  "\<exists>v. ch_tokens demo_chain\<^sub>1 5 = Some v \<and> ta_owner v = 7 \<and> 100 \<le> unat (ta_amount v)"
  using escrow_solvency [OF demo_genesis demo_laws(1) demo_reach demo_chain\<^sub>1_session]
  by (auto simp: demo_session_def)

text \<open>
  The event log is a faithful ledger. In every reachable state the amounts a session
  reports as transferred to its provider add up to its \<open>cumulative_settled\<close>, the
  amounts reported as refunded to its \<open>refunded_total\<close>, both together never exceed
  the deposit, and the session is flagged settled exactly when it has paid something.
\<close>

theorem event_ledger_faithful:
  assumes "genesis c\<^sub>0" and "spl_effect_law R" and "(chain_step X R)\<^sup>*\<^sup>* c\<^sub>0 c"
    and "ch_sessions c k = Some s"
  shows "paid_out k (ch_events c) = unat (ses_cumulative_settled s)
     \<and> paid_back k (ch_events c) = unat (ses_refunded_total s)
     \<and> paid_out k (ch_events c) + paid_back k (ch_events c) \<le> unat (ses_deposited_total s)
     \<and> (ses_is_settled s \<longleftrightarrow> paid_out k (ch_events c) \<noteq> 0)"
  using reachable_ledger [OF assms(1,3)] assms(4)
    solventD [OF reachable_solvent [OF assms(1-3)] assms(4)]
  by (auto simp: ledger_agrees_def session_solvent_def unat_eq_0 unat_gt_0 split: option.splits
      dest!: spec [of _ k])

theorem event_ledger_faithful_witness:
  "paid_out 7 (ch_events demo_chain\<^sub>1) = 0 \<and> \<not> ses_is_settled demo_session"
  using event_ledger_faithful [OF demo_genesis demo_laws(1) demo_reach demo_chain\<^sub>1_session]
  by (simp add: demo_session_def)

subsection \<open>Settlement\<close>

lemma settle_session_facts:
  assumes "settle_session X R c tx b amt nonce exp root = Ok c'"
    and "ch_sessions c (sa_session b) = Some s"
  obtains T' where
    "sa_settler b \<in> set (tx_signers tx)"
    "sa_settler b = ses_settlement_authority s \<or> sa_settler b = ses_provider s"
    "ses_vault s = sa_vault b" "ses_mint s = sa_mint b"
    "check_payee_account c (sa_provider_token_account b) (sa_mint b) (ses_provider s) = Ok ()"
    "sint (tx_now tx) \<le> sint (ses_expires_at s) + 30" "sint (tx_now tx) \<le> sint exp + 30"
    "ses_cumulative_settled s < amt" "amt \<le> ses_deposited_total s"
    "verify_ed25519_claim R tx (ses_agent s) (build_claim_message (sa_session b) amt nonce exp) = Ok ()"
    "rt_transfer_checked R (ch_tokens c) \<lparr>tr_from = sa_vault b, tr_mint = sa_mint b,
             tr_to = sa_provider_token_account b, tr_authority = sa_session b,
             tr_amount = amt - ses_cumulative_settled s,
             tr_decimals = the (ch_mints c (sa_mint b))\<rparr> = Some T'"
    "ch_tokens c' = T'"
    "ch_sessions c' = (ch_sessions c)(sa_session b \<mapsto>
        s\<lparr>ses_cumulative_settled := amt, ses_is_settled := True\<rparr>)"
proof -
  from assms(1) obtain s1 rb d T' rec where
    acc: "settle_session_accounts X R c tx b = Ok (s1, rb)"
    and chk: "settle_checks R tx (sa_settler b) (sa_session b) s1 amt nonce exp = Ok d"
    and tr: "rt_transfer_checked R (ch_tokens c) \<lparr>tr_from = sa_vault b, tr_mint = sa_mint b,
             tr_to = sa_provider_token_account b, tr_authority = sa_session b,
             tr_amount = d, tr_decimals = the (ch_mints c (sa_mint b))\<rparr> = Some T'"
    and c': "ch_tokens c' = T'" "ch_sessions c' = (ch_sessions c)(sa_session b \<mapsto>
               s1\<lparr>ses_cumulative_settled := amt, ses_is_settled := True\<rparr>)"
    by (auto simp: settle_session_Ok)
  have s1: "s1 = s"
    using acc assms(2) by (simp add: settle_session_accounts_Ok load_session_account_Ok)
  have d: "d = amt - ses_cumulative_settled s"
    using chk s1 by (simp add: settle_checks_Ok)
  from chk obtain l l' where
    l: "checked_add_i64 (ses_expires_at s) CLOCK_SKEW_TOLERANCE_SECS = Some l" "sint (tx_now tx) \<le> sint l"
    and l': "checked_add_i64 exp CLOCK_SKEW_TOLERANCE_SECS = Some l'" "sint (tx_now tx) \<le> sint l'"
    by (auto simp: settle_checks_Ok s1)
  have "sint l = sint (ses_expires_at s) + 30" "sint l' = sint exp + 30"
    using checked_add_i64_sint [OF l(1)] checked_add_i64_sint [OF l'(1)]
    by (simp_all add: CLOCK_SKEW_TOLERANCE_SECS_def)
  moreover note acc [unfolded settle_session_accounts_Ok load_session_account_Ok s1]
    chk [unfolded settle_checks_Ok s1]
  ultimately show ?thesis
    using that [of T'] tr [unfolded d] c' [unfolded s1] l(2) l'(2) by simp
qed

lemma settle_moves:
  assumes "spl_effect_law R" and "settle_session X R c tx b amt nonce exp root = Ok c'"
    and "ch_sessions c (sa_session b) = Some s" and "ses_vault s \<noteq> sa_provider_token_account b"
  shows "\<exists>v p. ch_tokens c (ses_vault s) = Some v
     \<and> ch_tokens c (sa_provider_token_account b) = Some p \<and> ta_owner p = ses_provider s
     \<and> unat (amt - ses_cumulative_settled s) = unat amt - unat (ses_cumulative_settled s)
     \<and> unat (amt - ses_cumulative_settled s) \<le> unat (ta_amount v)
     \<and> unat (ta_amount p) + unat (amt - ses_cumulative_settled s) < 2 ^ 64
     \<and> ch_tokens c' = (ch_tokens c)
         (ses_vault s \<mapsto> v\<lparr>ta_amount := ta_amount v - (amt - ses_cumulative_settled s)\<rparr>,
          sa_provider_token_account b \<mapsto>
            p\<lparr>ta_amount := ta_amount p + (amt - ses_cumulative_settled s)\<rparr>)
     \<and> ch_sessions c' = (ch_sessions c)(sa_session b \<mapsto>
         s\<lparr>ses_cumulative_settled := amt, ses_is_settled := True\<rparr>)"
proof -
  let ?d = "amt - ses_cumulative_settled s"
  from settle_session_facts [OF assms(2,3)] obtain T' where f:
    "ses_vault s = sa_vault b" "ses_mint s = sa_mint b" "ses_cumulative_settled s < amt"
    "check_payee_account c (sa_provider_token_account b) (sa_mint b) (ses_provider s) = Ok ()"
    "rt_transfer_checked R (ch_tokens c) \<lparr>tr_from = sa_vault b, tr_mint = sa_mint b,
             tr_to = sa_provider_token_account b, tr_authority = sa_session b,
             tr_amount = ?d, tr_decimals = the (ch_mints c (sa_mint b))\<rparr> = Some T'"
    "ch_tokens c' = T'"
    "ch_sessions c' = (ch_sessions c)(sa_session b \<mapsto>
        s\<lparr>ses_cumulative_settled := amt, ses_is_settled := True\<rparr>)" by blast
  from f(4) obtain p where p: "ch_tokens c (sa_provider_token_account b) = Some p"
    "ta_owner p = ses_provider s" by (auto simp: check_payee_account_Ok)
  have "unat ?d = unat amt - unat (ses_cumulative_settled s)"
    using f(3) by (simp add: unat_sub order_less_imp_le)
  moreover obtain v where "ch_tokens c (sa_vault b) = Some v" "?d \<le> ta_amount v"
    "unat (ta_amount p) + unat ?d < 2 ^ 64" "T' = (ch_tokens c)
         (sa_vault b \<mapsto> v\<lparr>ta_amount := ta_amount v - ?d\<rparr>,
          sa_provider_token_account b \<mapsto> p\<lparr>ta_amount := ta_amount p + ?d\<rparr>)"
    using assms(1) [unfolded spl_effect_law_def, rule_format, OF f(5)] assms(4) p f(1) by auto
  ultimately show ?thesis using f p by (simp add: word_le_nat_alt)
qed

text \<open>
  C2. A settlement pays exactly what is owed, to the provider only. When it succeeds, the
  destination belongs to the session's provider, the session's vault is debited and the
  destination credited by the claim's amount less what was settled before, no other token
  account and no other session changes, and the session records the claim's amount.
\<close>

theorem settle_pays_exactly:
  assumes "genesis c\<^sub>0" and "spl_effect_law R" and "(chain_step X R)\<^sup>*\<^sup>* c\<^sub>0 c"
    and "settle_session X R c tx b amt nonce exp root = Ok c'"
    and "ch_sessions c (sa_session b) = Some s" and "ses_provider s \<noteq> sa_session b"
  shows "\<exists>v p. ch_tokens c (ses_vault s) = Some v
     \<and> ch_tokens c (sa_provider_token_account b) = Some p \<and> ta_owner p = ses_provider s
     \<and> unat (amt - ses_cumulative_settled s) = unat amt - unat (ses_cumulative_settled s)
     \<and> unat (amt - ses_cumulative_settled s) \<le> unat (ta_amount v)
     \<and> ch_tokens c' = (ch_tokens c)
         (ses_vault s \<mapsto> v\<lparr>ta_amount := ta_amount v - (amt - ses_cumulative_settled s)\<rparr>,
          sa_provider_token_account b \<mapsto>
            p\<lparr>ta_amount := ta_amount p + (amt - ses_cumulative_settled s)\<rparr>)
     \<and> ch_sessions c' = (ch_sessions c)(sa_session b \<mapsto>
         s\<lparr>ses_cumulative_settled := amt, ses_is_settled := True\<rparr>)"
proof -
  obtain p where p: "ch_tokens c (sa_provider_token_account b) = Some p" "ta_owner p = ses_provider s"
    using settle_session_facts [OF assms(4,5)] by (auto simp: check_payee_account_Ok)
  obtain v where v: "ch_tokens c (ses_vault s) = Some v" "ta_owner v = sa_session b"
    using solventD [OF reachable_solvent [OF assms(1-3)] assms(5)]
    by (auto simp: session_solvent_def split: option.splits)
  have "ses_vault s \<noteq> sa_provider_token_account b" using p v assms(6) by auto
  from settle_moves [OF assms(2,4,5) this] show ?thesis by auto
qed

lemma demo_settle_session: "ch_sessions demo_chain\<^sub>1 (sa_session demo_settle) = Some demo_session"
  by (simp add: demo_chain\<^sub>1_def demo_settle_def)

theorem settle_pays_exactly_witness:
  "\<exists>v p. ch_tokens demo_chain\<^sub>1 5 = Some v \<and> ch_tokens demo_chain\<^sub>1 32 = Some p \<and> ta_owner p = 2
     \<and> ch_tokens demo_chain\<^sub>2 = (ch_tokens demo_chain\<^sub>1)
         (5 \<mapsto> v\<lparr>ta_amount := ta_amount v - 40\<rparr>, 32 \<mapsto> p\<lparr>ta_amount := ta_amount p + 40\<rparr>)"
  using settle_pays_exactly [OF demo_genesis demo_laws(1) demo_reach demo_settled demo_settle_session]
  by (simp add: demo_session_def demo_settle_def) blast

text \<open>
  The Ed25519 precompile, as Solana documents it: a transaction executes only if every
  precompile instruction in it verified, and an instruction of one signature whose three
  regions lie in its own data verifies the signature, key and message found there.
\<close>

definition self_contained :: "bytes \<Rightarrow> bool" where
  "self_contained d \<longleftrightarrow> 16 \<le> length d \<and> d ! 0 = 1
     \<and> read_u16 d 4 = U16_MAX \<and> read_u16 d 8 = U16_MAX \<and> read_u16 d 14 = U16_MAX
     \<and> unat (read_u16 d 2) + 64 \<le> length d \<and> unat (read_u16 d 6) + 32 \<le> length d
     \<and> unat (read_u16 d 10) + unat (read_u16 d 12) \<le> length d"

definition precompile_law :: "runtime \<Rightarrow> (pubkey \<Rightarrow> bytes \<Rightarrow> sig64 \<Rightarrow> bool) \<Rightarrow> txn \<Rightarrow> bool" where
  "precompile_law R ed tx \<longleftrightarrow> (\<forall>ix \<in> set (tx_instructions tx). ix_program_id ix = rt_ed25519_program R \<longrightarrow>
     self_contained (ix_data ix) \<longrightarrow>
     (let d = ix_data ix; so = unat (read_u16 d 2); ko = unat (read_u16 d 6);
          mo = unat (read_u16 d 10); ms = unat (read_u16 d 12)
      in ed (from_le_bytes (slice ko (ko + 32) d)) (slice mo (mo + ms) d)
            (from_le_bytes (slice so (so + 64) d))))"

lemma verify_ed25519_claim_signed:
  assumes "verify_ed25519_claim R tx signer message = Ok ()" and "precompile_law R ed tx"
  shows "\<exists>sig. ed signer message sig"
proof -
  define i where "i = tx_current_index tx - 1"
  define d where "d = ix_data (tx_instructions tx ! i)"
  have v: "i < length (tx_instructions tx)"
    "ix_program_id (tx_instructions tx ! i) = rt_ed25519_program R" "self_contained d"
    "slice (unat (read_u16 d 6)) (unat (read_u16 d 6) + 32) d = to_le_bytes 32 signer"
    "slice (unat (read_u16 d 10)) (unat (read_u16 d 10) + unat (read_u16 d 12)) d = message"
    using assms(1)
    by (auto simp: verify_ed25519_claim_def Let_def self_contained_def d_def i_def split: if_splits)
  have "ed (from_le_bytes (to_le_bytes 32 signer)) message
      (from_le_bytes (slice (unat (read_u16 d 2)) (unat (read_u16 d 2) + 64) d))"
    using assms(2) v nth_mem [OF v(1)] unfolding precompile_law_def d_def Let_def by metis
  then show ?thesis by auto
qed

text \<open>
  C3. Only the agent's own signature moves money. A settlement that succeeds was signed
  by the session's settlement authority or its provider, neither the session nor the claim
  had expired by more than the skew tolerance, the amount exceeds what was settled and
  stays within the deposit, and the agent signed exactly these claim bytes: session,
  amount, nonce and expiry.
\<close>

theorem settle_needs_agent_signature:
  assumes "settle_session X R c tx b amt nonce exp root = Ok c'"
    and "ch_sessions c (sa_session b) = Some s" and "precompile_law R ed tx"
  shows "sa_settler b \<in> set (tx_signers tx)
     \<and> (sa_settler b = ses_settlement_authority s \<or> sa_settler b = ses_provider s)
     \<and> sint (tx_now tx) \<le> sint (ses_expires_at s) + 30 \<and> sint (tx_now tx) \<le> sint exp + 30
     \<and> ses_cumulative_settled s < amt \<and> amt \<le> ses_deposited_total s
     \<and> (\<exists>sig. ed (ses_agent s) (signing_bytes \<lparr>cl_session = sa_session b,
           cl_cumulative_amount = amt, cl_nonce = nonce, cl_expires_at = exp\<rparr>) sig)"
  using settle_session_facts [OF assms(1,2)] verify_ed25519_claim_signed [OF _ assms(3)]
  unfolding build_claim_message_signing_bytes by metis

definition demo_ed25519 :: "pubkey \<Rightarrow> bytes \<Rightarrow> sig64 \<Rightarrow> bool" where
  "demo_ed25519 key message sig \<longleftrightarrow> key = 1 \<and> length message = 73"

lemma demo_precompile: "precompile_law demo_runtime demo_ed25519 demo_settle_txn"
proof -
  have w: "unat (read_u16 (ix_data (build_ed25519_instruction demo_runtime 1 40 m)) 6) = 16"
    "unat (read_u16 (ix_data (build_ed25519_instruction demo_runtime 1 40 m)) 10) = 112" for m
    by (simp_all add: ed25519_data read_u16_def nth_Cons_numeral)
  have l: "unat (read_u16 (ix_data (build_ed25519_instruction demo_runtime 1 40 m)) 12) = 73"
    if "length m = 73" for m
    by (simp add: ed25519_data read_u16_def nth_Cons_numeral that)
  have "slice 16 48 (ix_data (build_ed25519_instruction demo_runtime 1 40 m)) = to_le_bytes 32 (1 :: pubkey)"
    "length (slice 112 185 (ix_data (build_ed25519_instruction demo_runtime 1 40 m))) = 73"
    if "length m = 73" for m
    using that by (simp_all add: ed25519_data slice_def)
  then show ?thesis
    by (simp add: precompile_law_def demo_settle_txn_def settlement_instructions_def Let_def w l
        demo_ed25519_def)
      (simp add: build_settle_instruction_def demo_runtime_def)
qed

theorem settle_needs_agent_signature_witness:
  "\<exists>sig. demo_ed25519 (ses_agent demo_session) (signing_bytes demo_claim) sig"
  using settle_needs_agent_signature [OF demo_settled demo_settle_session demo_precompile]
  by (simp add: demo_claim_def demo_settle_def)

text \<open>
  The terms of a session are immutable. Whatever transactions follow, a session keeps
  its agent, provider, settlement authority, mint, vault, deposit, expiry, id and bumps,
  and what it has settled and refunded never decreases.
\<close>

theorem session_terms_immutable:
  assumes "(chain_step X R)\<^sup>*\<^sup>* c c'" and "ch_sessions c k = Some s"
  shows "\<exists>s'. ch_sessions c' k = Some s' \<and> session_terms s' = session_terms s
     \<and> ses_cumulative_settled s \<le> ses_cumulative_settled s'
     \<and> ses_refunded_total s \<le> ses_refunded_total s'"
proof -
  have "continues s s" by (simp add: continues_def)
  then show ?thesis
    using terms.reach_keeps [OF assms(1), of k s] assms(2)
    by (auto simp: continues_def word_le_nat_alt)
qed

lemma demo_step\<^sub>2: "(chain_step demo_externals demo_runtime)\<^sup>*\<^sup>* demo_chain\<^sub>1 demo_chain\<^sub>2"
  using chain_step.Settle [OF demo_settled] by simp

theorem session_terms_immutable_witness:
  "\<exists>s'. ch_sessions demo_chain\<^sub>2 7 = Some s' \<and> session_terms s' = session_terms demo_session"
  using session_terms_immutable [OF demo_step\<^sub>2 demo_chain\<^sub>1_session] by blast

text \<open>
  C29. A claim settles at most once. After a settlement for \<open>amt\<close> no later transaction,
  in any continuation, can settle that session for \<open>amt\<close> or less.
\<close>

theorem settlement_not_replayable:
  assumes "settle_session X R c tx b amt nonce exp root = Ok c'"
    and "(chain_step X R)\<^sup>*\<^sup>* c' c''" and "amt' \<le> amt" and "sa_session b' = sa_session b"
  shows "settle_session X R c'' tx' b' amt' nonce' exp' root' \<noteq> Ok c'''"
proof
  assume replay: "settle_session X R c'' tx' b' amt' nonce' exp' root' = Ok c'''"
  from assms(1) obtain s where s: "ch_sessions c' (sa_session b) =
      Some (s\<lparr>ses_cumulative_settled := amt, ses_is_settled := True\<rparr>)"
    by (auto simp: settle_session_Ok)
  have "continues s s" for s by (simp add: continues_def)
  with terms.reach_keeps [OF assms(2), of "sa_session b"] s obtain s' where
    s': "ch_sessions c'' (sa_session b') = Some s'" "amt \<le> ses_cumulative_settled s'"
    by (fastforce simp: continues_def assms(4))
  have "ses_cumulative_settled s' < amt'"
    using settle_session_facts [OF replay s'(1)] by blast
  then show False using s'(2) assms(3) by auto
qed

theorem settlement_not_replayable_witness:
  "settle_session demo_externals demo_runtime demo_chain\<^sub>2 demo_settle_txn demo_settle 40 1 2000 77
     \<noteq> Ok demo_chain\<^sub>2"
  using settlement_not_replayable [OF demo_settled rtranclp.rtrancl_refl order_refl refl] .

subsection \<open>Refunds\<close>

lemma refund_session_facts:
  assumes "refund_session X R c tx a = Ok c'"
    and "ch_sessions c (ra_session a) = Some s"
  obtains r where
    "ra_caller a \<in> set (tx_signers tx)"
    "sint (ses_expires_at s) + 30 < sint (tx_now tx)
       \<or> ra_caller a = ses_agent s \<and> ses_is_settled s"
    "ses_vault s = ra_vault a" "ses_mint s = ra_mint a"
    "check_payee_account c (ra_agent_token_account a) (ra_mint a) (ses_agent s) = Ok ()"
    "r = ses_deposited_total s - ses_cumulative_settled s - ses_refunded_total s"
    "unat r = unat (ses_deposited_total s) - unat (ses_cumulative_settled s)
       - unat (ses_refunded_total s)" "0 < unat r"
    "rt_transfer_checked R (ch_tokens c) \<lparr>tr_from = ra_vault a, tr_mint = ra_mint a,
             tr_to = ra_agent_token_account a, tr_authority = ra_session a,
             tr_amount = r, tr_decimals = the (ch_mints c (ra_mint a))\<rparr> = Some (ch_tokens c')"
proof -
  from assms(1) obtain s1 e r f where
    acc: "refund_session_accounts X R c tx a = Ok s1"
    and chk: "refund_checks tx (ra_caller a) s1 = Ok (e, r)"
    and tr: "rt_transfer_checked R (ch_tokens c) \<lparr>tr_from = ra_vault a, tr_mint = ra_mint a,
             tr_to = ra_agent_token_account a, tr_authority = ra_session a,
             tr_amount = r, tr_decimals = the (ch_mints c (ra_mint a))\<rparr> = Some (ch_tokens c')"
    by (auto simp: refund_session_Ok)
  have s1: "s1 = s"
    using acc assms(2) by (simp add: refund_session_accounts_Ok load_session_account_Ok)
  from chk obtain l where "checked_add_i64 (ses_expires_at s) CLOCK_SKEW_TOLERANCE_SECS = Some l"
    "e \<longleftrightarrow> sint l < sint (tx_now tx)" by (auto simp: refund_checks_Ok s1)
  then have "e \<longleftrightarrow> sint (ses_expires_at s) + 30 < sint (tx_now tx)"
    by (auto dest!: checked_add_i64_sint simp: CLOCK_SKEW_TOLERANCE_SECS_def)
  moreover have "unat r = unat (ses_deposited_total s) - unat (ses_cumulative_settled s)
       - unat (ses_refunded_total s)"
    using chk by (auto simp: refund_checks_Ok s1 unat_sub word_le_nat_alt)
  ultimately show ?thesis
    using that [of r] tr acc [unfolded refund_session_accounts_Ok load_session_account_Ok s1]
      chk [unfolded refund_checks_Ok s1] by simp
qed

text \<open>
  C30. Refunds return the whole remainder to the agent, and only when allowed. A refund
  that succeeds happened after the session's expiry, or was signed by the agent after a
  settlement; it moves everything not yet paid out from the session's vault to a token
  account owned by the agent, and nothing else.
\<close>

theorem refund_pays_agent_only:
  assumes "genesis c\<^sub>0" and "spl_effect_law R" and "(chain_step X R)\<^sup>*\<^sup>* c\<^sub>0 c"
    and "refund_session X R c tx a = Ok c'"
    and "ch_sessions c (ra_session a) = Some s" and "ses_agent s \<noteq> ra_session a"
  shows "(sint (ses_expires_at s) + 30 < sint (tx_now tx)
       \<or> ra_caller a = ses_agent s \<and> ra_caller a \<in> set (tx_signers tx) \<and> ses_is_settled s)
     \<and> (\<exists>r v p. unat r = unat (ses_deposited_total s) - unat (ses_cumulative_settled s)
            - unat (ses_refunded_total s) \<and> 0 < unat r
         \<and> ch_tokens c (ses_vault s) = Some v \<and> r \<le> ta_amount v
         \<and> ch_tokens c (ra_agent_token_account a) = Some p \<and> ta_owner p = ses_agent s
         \<and> ch_tokens c' = (ch_tokens c)(ses_vault s \<mapsto> v\<lparr>ta_amount := ta_amount v - r\<rparr>,
              ra_agent_token_account a \<mapsto> p\<lparr>ta_amount := ta_amount p + r\<rparr>))"
proof -
  from refund_session_facts [OF assms(4,5)] obtain r where f:
    "ra_caller a \<in> set (tx_signers tx)"
    "sint (ses_expires_at s) + 30 < sint (tx_now tx)
       \<or> ra_caller a = ses_agent s \<and> ses_is_settled s"
    "ses_vault s = ra_vault a"
    "check_payee_account c (ra_agent_token_account a) (ra_mint a) (ses_agent s) = Ok ()"
    "unat r = unat (ses_deposited_total s) - unat (ses_cumulative_settled s)
       - unat (ses_refunded_total s)" "0 < unat r"
    "rt_transfer_checked R (ch_tokens c) \<lparr>tr_from = ra_vault a, tr_mint = ra_mint a,
             tr_to = ra_agent_token_account a, tr_authority = ra_session a,
             tr_amount = r, tr_decimals = the (ch_mints c (ra_mint a))\<rparr> = Some (ch_tokens c')"
    by metis
  from f(4) obtain p where p: "ch_tokens c (ra_agent_token_account a) = Some p"
    "ta_owner p = ses_agent s" by (auto simp: check_payee_account_Ok)
  from solventD [OF reachable_solvent [OF assms(1-3)] assms(5)] obtain v
    where v: "ch_tokens c (ses_vault s) = Some v" "ta_owner v = ra_session a"
    by (auto simp: session_solvent_def split: option.splits)
  have ne: "ra_vault a \<noteq> ra_agent_token_account a" using p v assms(6) f(3) by auto
  have "r \<le> ta_amount v \<and> ch_tokens c' = (ch_tokens c)
         (ra_vault a \<mapsto> v\<lparr>ta_amount := ta_amount v - r\<rparr>,
          ra_agent_token_account a \<mapsto> p\<lparr>ta_amount := ta_amount p + r\<rparr>)"
    using assms(2) [unfolded spl_effect_law_def, rule_format, OF f(7)] ne v p f(3) by simp
  then show ?thesis using f(1,2,3,5,6) p v(1) by metis
qed

definition demo_refund :: refund_accounts where
  "demo_refund = \<lparr>ra_caller = 8, ra_session = 7, ra_vault = 5, ra_agent_token_account = 11,
     ra_mint = 50\<rparr>"

lemma demo_refund_ok:
  "\<exists>c'. refund_session demo_externals demo_runtime demo_chain\<^sub>2 (demo_txn 3000 8) demo_refund = Ok c'"
proof -
  let ?s = "demo_session\<lparr>ses_cumulative_settled := 40, ses_is_settled := True\<rparr>"
  have acc: "refund_session_accounts demo_externals demo_runtime demo_chain\<^sub>2 (demo_txn 3000 8) demo_refund
      = Ok ?s"
    by (simp add: refund_session_accounts_def load_session_account_def check_vault_account_def
        check_payee_account_def demo_refund_def demo_txn_def demo_chain\<^sub>1_def demo_chain\<^sub>2_def
        demo_session_def demo_runtime_def demo_token_def)
  have chk: "refund_checks (demo_txn 3000 8) 8 ?s = Ok (True, 60)"
    by (simp add: refund_checks_def demo_session_def demo_txn_def checked_add_i64_def
        CLOCK_SKEW_TOLERANCE_SECS_def checked_sub_u64_def)
  have tr: "rt_transfer_checked demo_runtime (ch_tokens demo_chain\<^sub>2)
      \<lparr>tr_from = 5, tr_mint = 50, tr_to = 11, tr_authority = 7, tr_amount = 60,
       tr_decimals = the (ch_mints demo_chain\<^sub>2 50)\<rparr>
      = Some [11 \<mapsto> demo_token 1 960, 32 \<mapsto> demo_token 2 40, 5 \<mapsto> demo_token 7 0]"
    by (simp add: demo_runtime_def demo_transfer_def demo_chain\<^sub>2_def demo_chain\<^sub>1_def demo_token_def
        fun_upd_twist)
  have "checked_add_u64 (ses_refunded_total ?s) 60 = Some 60"
    by (simp add: demo_session_def checked_add_u64_def)
  then show ?thesis
    unfolding refund_session_def acc by (simp add: demo_refund_def chk tr)
qed

lemma demo_refund_session:
  "ch_sessions demo_chain\<^sub>2 (ra_session demo_refund)
     = Some (demo_session\<lparr>ses_cumulative_settled := 40, ses_is_settled := True\<rparr>)"
  by (simp add: demo_chain\<^sub>2_def demo_refund_def)

theorem refund_pays_agent_only_witness:
  "\<exists>c' r v p. refund_session demo_externals demo_runtime demo_chain\<^sub>2 (demo_txn 3000 8) demo_refund
       = Ok c' \<and> unat r = (60 :: nat) \<and> ch_tokens demo_chain\<^sub>2 5 = Some v
     \<and> ch_tokens demo_chain\<^sub>2 11 = Some p
     \<and> ch_tokens c' = (ch_tokens demo_chain\<^sub>2)(5 \<mapsto> v\<lparr>ta_amount := ta_amount v - r\<rparr>,
          11 \<mapsto> p\<lparr>ta_amount := ta_amount p + r\<rparr>)"
proof -
  obtain c' where c': "refund_session demo_externals demo_runtime demo_chain\<^sub>2 (demo_txn 3000 8)
      demo_refund = Ok c'" using demo_refund_ok by blast
  have "ses_agent (demo_session\<lparr>ses_cumulative_settled := 40, ses_is_settled := True\<rparr>)
      \<noteq> ra_session demo_refund" by (simp add: demo_session_def demo_refund_def)
  from refund_pays_agent_only [OF demo_genesis demo_laws(1) demo_reach\<^sub>2 c' demo_refund_session this]
  obtain r v p where "unat r = (60 :: nat)" "ch_tokens demo_chain\<^sub>2 5 = Some v"
    "ch_tokens demo_chain\<^sub>2 11 = Some p"
    "ch_tokens c' = (ch_tokens demo_chain\<^sub>2)(5 \<mapsto> v\<lparr>ta_amount := ta_amount v - r\<rparr>,
        11 \<mapsto> p\<lparr>ta_amount := ta_amount p + r\<rparr>)"
    by (auto simp: demo_session_def demo_refund_def)
  with c' show ?thesis by blast
qed

text \<open>
  A refund is final. Once a session has been refunded its account never changes again,
  and in every continuation each later settlement and each later refund of it fails.
\<close>

theorem refund_is_final:
  assumes "refund_session X R c tx a = Ok c'" and "(chain_step X R)\<^sup>*\<^sup>* c' c''"
    and "sa_session b = ra_session a" and "ra_session a' = ra_session a"
  shows "ch_sessions c'' (ra_session a) = ch_sessions c' (ra_session a)
     \<and> settle_session X R c'' tx' b amt nonce exp root \<noteq> Ok d
     \<and> refund_session X R c'' tx' a' \<noteq> Ok d"
proof -
  obtain s where "ch_sessions c (ra_session a) = Some s"
    using assms(1) by (auto simp: refund_session_Ok refund_session_accounts_Ok load_session_account_Ok)
  from refund_closes [OF assms(1) this] obtain s' where
    s': "ch_sessions c' (ra_session a) = Some s'" "fully_paid s'" by blast
  from closed.reach_keeps [OF assms(2)] s' have "ch_sessions c'' (ra_session a) = Some s'" by blast
  then show ?thesis
    using s' fully_paid_settle_fails fully_paid_refund_fails assms(3,4) by metis
qed

theorem refund_is_final_witness:
  "\<exists>c'. refund_session demo_externals demo_runtime demo_chain\<^sub>2 (demo_txn 3000 8) demo_refund = Ok c'
     \<and> refund_session demo_externals demo_runtime c' (demo_txn 3000 8) demo_refund \<noteq> Ok c'"
proof -
  obtain c' where c': "refund_session demo_externals demo_runtime demo_chain\<^sub>2 (demo_txn 3000 8)
      demo_refund = Ok c'" using demo_refund_ok by blast
  have "sa_session demo_settle = ra_session demo_refund"
    by (simp add: demo_settle_def demo_refund_def)
  from refund_is_final [OF c' rtranclp.rtrancl_refl this refl] c'
  show ?thesis by blast
qed

text \<open>
  Two token accounts between which a transfer goes through: both unfrozen and of the
  mint, distinct, and the destination not about to overflow.
\<close>

definition transfer_ready :: "chain \<Rightarrow> pubkey \<Rightarrow> pubkey \<Rightarrow> pubkey \<Rightarrow> nat \<Rightarrow> bool" where
  "transfer_ready c vault dest owner amount \<longleftrightarrow> vault \<noteq> dest \<and>
     (case (ch_tokens c vault, ch_tokens c dest) of
        (Some v, Some p) \<Rightarrow> \<not> ta_frozen v \<and> \<not> ta_frozen p \<and> ta_mint p = ta_mint v
          \<and> ta_owner p = owner \<and> unat (ta_amount p) + amount < 2 ^ 64
      | _ \<Rightarrow> False)"

lemma transfer_ready_succeeds:
  assumes "spl_progress_law R" and "session_solvent c k s"
    and "transfer_ready c (ses_vault s) dest owner (unat amount)"
    and "unat amount + unat (ses_cumulative_settled s) + unat (ses_refunded_total s)
           \<le> unat (ses_deposited_total s)"
  shows "\<exists>T'. rt_transfer_checked R (ch_tokens c) \<lparr>tr_from = ses_vault s, tr_mint = ses_mint s,
      tr_to = dest, tr_authority = k, tr_amount = amount, tr_decimals = d\<rparr> = Some T'"
    and "check_payee_account c dest (ses_mint s) owner = Ok ()"
proof -
  from assms(2,3) obtain v p where
    vp: "ch_tokens c (ses_vault s) = Some v" "ch_tokens c dest = Some p" "ses_vault s \<noteq> dest"
      "\<not> ta_frozen v" "\<not> ta_frozen p" "ta_mint p = ta_mint v" "ta_owner p = owner"
      "unat (ta_amount p) + unat amount < 2 ^ 64" "ta_mint v = ses_mint s" "ta_owner v = k"
      "unat (ses_deposited_total s)
         \<le> unat (ta_amount v) + unat (ses_cumulative_settled s) + unat (ses_refunded_total s)"
    by (auto simp: transfer_ready_def session_solvent_def split: option.splits)
  then have "amount \<le> ta_amount v" using assms(4) by (simp add: word_le_nat_alt)
  then show "\<exists>T'. rt_transfer_checked R (ch_tokens c) \<lparr>tr_from = ses_vault s, tr_mint = ses_mint s,
      tr_to = dest, tr_authority = k, tr_amount = amount, tr_decimals = d\<rparr> = Some T'"
    by (intro assms(1) [unfolded spl_progress_law_def, rule_format, of _ _ v p])
      (use vp in simp)
  show "check_payee_account c dest (ses_mint s) owner = Ok ()"
    using vp by (simp add: check_payee_account_Ok)
qed

text \<open>
  C31. Recovery needs nobody's cooperation. Once a session has expired, any signer can
  refund it: as long as something is left and the agent's token account can receive it,
  the refund succeeds, in whatever reachable state the chain is.
\<close>

theorem expired_refund_succeeds:
  assumes "genesis c\<^sub>0" and "spl_effect_law R" and "(chain_step X R)\<^sup>*\<^sup>* c\<^sub>0 c"
    and "spl_progress_law R" and "pda_law X"
    and "ch_sessions c k = Some s"
    and "sint (ses_expires_at s) + 30 < sint (tx_now tx)" and "caller \<in> set (tx_signers tx)"
    and "unat (ses_cumulative_settled s) + unat (ses_refunded_total s) < unat (ses_deposited_total s)"
    and "transfer_ready c (ses_vault s) ata (ses_agent s)
      (unat (ses_deposited_total s) - unat (ses_cumulative_settled s) - unat (ses_refunded_total s))"
  shows "\<exists>c'. refund_session X R c tx \<lparr>ra_caller = caller, ra_session = k, ra_vault = ses_vault s,
      ra_agent_token_account = ata, ra_mint = ses_mint s\<rparr> = Ok c'"
proof -
  let ?a = "\<lparr>ra_caller = caller, ra_session = k, ra_vault = ses_vault s,
      ra_agent_token_account = ata, ra_mint = ses_mint s\<rparr>"
  define r where "r = ses_deposited_total s - ses_cumulative_settled s - ses_refunded_total s"
  have r: "unat r = unat (ses_deposited_total s) - unat (ses_cumulative_settled s)
      - unat (ses_refunded_total s)"
    using assms(9) by (simp add: r_def unat_sub word_le_nat_alt)
  have solv: "session_solvent c k s"
    using solventD [OF reachable_solvent [OF assms(1-3)] assms(6)] .
  have addr: "addressed X R c" using reachable_addressed [OF assms(1,3)] .
  from transfer_ready_succeeds [OF assms(4) solv, of ata "ses_agent s" r] assms(9,10) r
  obtain T' where tr: "rt_transfer_checked R (ch_tokens c) \<lparr>tr_from = ses_vault s,
      tr_mint = ses_mint s, tr_to = ata, tr_authority = k, tr_amount = r,
      tr_decimals = the (ch_mints c (ses_mint s))\<rparr> = Some T'"
    and payee: "check_payee_account c ata (ses_mint s) (ses_agent s) = Ok ()" by fastforce
  have acc: "refund_session_accounts X R c tx ?a = Ok s"
    using load_session_account_reachable [OF addr assms(5,6)] addr assms(6,8) payee solv
    by (auto simp: refund_session_accounts_Ok addressed_def session_solvent_def split: option.splits)
  have "\<exists>l. checked_add_i64 (ses_expires_at s) CLOCK_SKEW_TOLERANCE_SECS = Some l \<and> sint l < sint (tx_now tx)"
  proof -
    have "checked_add_i64 (ses_expires_at s) CLOCK_SKEW_TOLERANCE_SECS
        = Some (ses_expires_at s + CLOCK_SKEW_TOLERANCE_SECS)"
      using assms(7) i64_range [of "tx_now tx"] i64_range [of "ses_expires_at s"]
      by (simp add: checked_add_i64_def CLOCK_SKEW_TOLERANCE_SECS_def)
    then show ?thesis
      using checked_add_i64_sint assms(7) by (fastforce simp: CLOCK_SKEW_TOLERANCE_SECS_def)
  qed
  then have chk: "refund_checks tx (ra_caller ?a) s = Ok (True, r)"
    using assms(9) by (simp add: refund_checks_Ok r_def)
  have "checked_add_u64 (ses_refunded_total s) r = Some (ses_refunded_total s + r)"
    using r assms(9) unat_u64_less [of "ses_deposited_total s"] by (simp add: checked_add_u64_def)
  then show ?thesis unfolding refund_session_Ok using acc chk tr by auto
qed

theorem expired_refund_succeeds_witness:
  "\<exists>c'. refund_session demo_externals demo_runtime demo_chain\<^sub>1 (demo_txn 3000 8) demo_refund = Ok c'"
proof -
  have "sint (ses_expires_at demo_session) + 30 < sint (tx_now (demo_txn 3000 8))"
    "8 \<in> set (tx_signers (demo_txn 3000 8))"
    "unat (ses_cumulative_settled demo_session) + unat (ses_refunded_total demo_session)
       < unat (ses_deposited_total demo_session)"
    "transfer_ready demo_chain\<^sub>1 (ses_vault demo_session) 11 (ses_agent demo_session)
      (unat (ses_deposited_total demo_session) - unat (ses_cumulative_settled demo_session)
        - unat (ses_refunded_total demo_session))"
    by (simp_all add: demo_session_def demo_txn_def transfer_ready_def demo_chain\<^sub>1_def demo_token_def)
  from expired_refund_succeeds [OF demo_genesis demo_laws(1) demo_reach demo_laws(2) demo_pda
      demo_chain\<^sub>1_session this]
  show ?thesis by (simp add: demo_refund_def demo_session_def)
qed

text \<open>
  C36. The receipt can be used to block a session. If the receipt's address holds any
  lamports before the first settlement (anybody can send them there), the program's
  \<open>create_account\<close> fails, so no settlement of that session ever succeeds, in any
  continuation and for any claim; the deposit can only go back to the agent.
\<close>

theorem prefunded_receipt_blocks_settlement:
  assumes "create_account_law R" and "holds_lamports (ch_records c (receipt_key X R k))"
    and "(chain_step X R)\<^sup>*\<^sup>* c c'" and "sa_session b = k"
  shows "settle_session X R c' tx b amt nonce exp root \<noteq> Ok c''"
proof -
  have "holds_lamports (ch_records c' (receipt_key X R k))"
    using prefunded.reach_keeps [OF assms(3), of "receipt_key X R k"] assms(1,2) by blast
  then show ?thesis using prefunded_settle_fails [OF assms(1)] assms(4) by blast
qed

theorem prefunded_receipt_blocks_settlement_witness:
  "settle_session demo_externals demo_runtime (demo_chain\<^sub>1\<lparr>ch_records := (\<lambda>_. SystemOwned 1)\<rparr>)
     demo_settle_txn demo_settle 40 1 2000 77 \<noteq> Ok demo_chain\<^sub>2"
proof -
  have "holds_lamports (ch_records (demo_chain\<^sub>1\<lparr>ch_records := (\<lambda>_. SystemOwned 1)\<rparr>)
      (receipt_key demo_externals demo_runtime (sa_session demo_settle)))"
    by (simp add: holds_lamports_def)
  from prefunded_receipt_blocks_settlement [OF demo_laws(3) this rtranclp.rtrancl_refl refl]
  show ?thesis .
qed

subsection \<open>The gateway's transaction goes through\<close>

definition receipt_usable :: "runtime \<Rightarrow> record_account \<Rightarrow> pubkey \<Rightarrow> pubkey \<Rightarrow> bool" where
  "receipt_usable R r settler k = (case r of
     SystemOwned l \<Rightarrow> rt_create_account R settler l (rt_minimum_balance R RECORD_SPACE) RECORD_SPACE
   | ProgramOwned (Some rec) \<Rightarrow> sr_session rec = k
   | _ \<Rightarrow> False)"

lemma receipt_usable_Ok: "receipt_usable R r settler k \<Longrightarrow> \<exists>rec. advance_record R r settler k rb = Ok rec"
  by (auto simp: receipt_usable_def advance_record_def split: record_account.splits option.splits)

definition run_settle :: "externals \<Rightarrow> runtime \<Rightarrow> chain \<Rightarrow> txn \<Rightarrow> (chain, program_error) result" where
  \<comment> \<open>the current instruction of a transaction: dispatched by its program and discriminator, its first
     account marked as signer and the first five as writable (the \<open>mut\<close> of the account struct),
     decoded and executed as \<open>settle_session\<close>\<close>
  "run_settle X R c tx = (let ix = tx_instructions tx ! tx_current_index tx in
     if ix_program_id ix \<noteq> rt_program_id R \<or> take 8 (ix_data ix) \<noteq> anchor_discriminator X ''settle_session''
     then Err InstructionFallbackNotFound
     else if length (ix_accounts ix) < 9 \<or> \<not> am_is_signer (ix_accounts ix ! 0) then Err AccountNotSigner
     else if \<not> list_all am_is_writable (take 5 (ix_accounts ix)) then Err ConstraintMut
     else case settle_args_of ix of (amt, nonce, exp, root) \<Rightarrow>
       settle_session X R c tx (settle_accounts_of ix) amt nonce exp root)"

lemma built_settle_dispatched:
  assumes "ix = build_settle_instruction X R I program_id settler session settlement_record vault
      provider_token_account mint token_program c merkle_root"
  shows "ix_program_id ix = program_id" and "take 8 (ix_data ix) = anchor_discriminator X ''settle_session''"
    and "\<not> length (ix_accounts ix) < 9" and "am_is_signer (ix_accounts ix ! 0)"
    and "list_all am_is_writable (take 5 (ix_accounts ix))"
  by (simp_all add: assms build_settle_instruction_def anchor_discriminator_def meta_new_def)

lemma not_expired_limit:
  assumes "sint (e :: i64) + 30 < 2 ^ 63" and "sint now \<le> sint e + 30"
  shows "\<exists>l. checked_add_i64 e CLOCK_SKEW_TOLERANCE_SECS = Some l \<and> sint now \<le> sint l"
proof -
  have "checked_add_i64 e CLOCK_SKEW_TOLERANCE_SECS = Some (e + CLOCK_SKEW_TOLERANCE_SECS)"
    using assms i64_range [of e] by (simp add: checked_add_i64_def CLOCK_SKEW_TOLERANCE_SECS_def)
  then show ?thesis
    using checked_add_i64_sint assms(2) by (fastforce simp: CLOCK_SKEW_TOLERANCE_SECS_def)
qed

lemma built_settlement_runs:
  assumes "genesis c\<^sub>0" and "spl_effect_law R" and "(chain_step X R)\<^sup>*\<^sup>* c\<^sub>0 c"
    and "spl_progress_law R" and "pda_law X"
    and s: "ch_sessions c (cl_session cl) = Some s"
    and tx: "tx_instructions tx = settlement_instructions X R I (rt_program_id R) settler
        (ses_provider s) (cl_session cl) (ses_mint s) token_program cl sig (ses_agent s) root"
      "tx_current_index tx = 1" "settler \<in> set (tx_signers tx)"
    and who: "settler = ses_settlement_authority s \<or> settler = ses_provider s"
    and live: "sint (ses_expires_at s) + 30 < 2 ^ 63" "sint (tx_now tx) \<le> sint (ses_expires_at s) + 30"
      "sint (cl_expires_at cl) + 30 < 2 ^ 63" "sint (tx_now tx) \<le> sint (cl_expires_at cl) + 30"
    and amount: "ses_cumulative_settled s < cl_cumulative_amount cl"
      "unat (cl_cumulative_amount cl) + unat (ses_refunded_total s) \<le> unat (ses_deposited_total s)"
    and receipt: "receipt_usable R (ch_records c (receipt_key X R (cl_session cl))) settler (cl_session cl)"
    and payee: "transfer_ready c (ses_vault s)
      (derive_associated_token_account X I (ses_provider s) token_program (ses_mint s))
      (ses_provider s) (unat (cl_cumulative_amount cl) - unat (ses_cumulative_settled s))"
  shows "\<exists>c' b. run_settle X R c tx = Ok c'
    \<and> settle_session X R c tx b (cl_cumulative_amount cl) (cl_nonce cl) (cl_expires_at cl) root = Ok c'
    \<and> sa_session b = cl_session cl
    \<and> sa_provider_token_account b = derive_associated_token_account X I (ses_provider s) token_program (ses_mint s)
    \<and> ch_sessions c' (cl_session cl)
      = Some (s\<lparr>ses_cumulative_settled := cl_cumulative_amount cl, ses_is_settled := True\<rparr>)"
proof -
  let ?k = "cl_session cl" and ?amt = "cl_cumulative_amount cl"
  let ?pta = "derive_associated_token_account X I (ses_provider s) token_program (ses_mint s)"
  define d where "d = ?amt - ses_cumulative_settled s"
  have d: "unat d = unat ?amt - unat (ses_cumulative_settled s)"
    using amount(1) by (simp add: d_def unat_sub order_less_imp_le)
  have lt: "unat (ses_cumulative_settled s) < unat ?amt" using amount(1) by (simp add: word_less_nat_alt)
  have solv: "session_solvent c ?k s" using solventD [OF reachable_solvent [OF assms(1-3)] s] .
  have addr: "addressed X R c" using reachable_addressed [OF assms(1,3)] .
  have vault: "fst (derive_vault X (rt_program_id R) ?k) = ses_vault s"
    using addr s by (auto simp: addressed_def derive_vault_def vault_seeds_def)
  have rkey: "fst (derive_settlement_record X (rt_program_id R) ?k) = receipt_key X R ?k"
    by (simp add: receipt_key_def derive_settlement_record_def settlement_seeds_def)
  define ix where "ix = tx_instructions tx ! 1"
  have ix: "ix = build_settle_instruction X R I (rt_program_id R) settler ?k (receipt_key X R ?k)
      (ses_vault s) ?pta (ses_mint s) token_program cl root"
    unfolding ix_def tx(1) by (simp add: settlement_instructions_def Let_def vault rkey)
  have ed: "verify_ed25519_claim R tx (ses_agent s) (signing_bytes cl) = Ok ()"
    by (rule verify_accepts_built_instruction [where i = 0])
      (simp_all add: tx settlement_instructions_def Let_def)
  have msg: "build_claim_message ?k ?amt (cl_nonce cl) (cl_expires_at cl) = signing_bytes cl"
    by (simp add: build_claim_message_def signing_bytes_concat)
  have chk: "settle_checks R tx settler ?k s ?amt (cl_nonce cl) (cl_expires_at cl) = Ok d"
    unfolding settle_checks_Ok msg using who not_expired_limit [OF live(1,2)]
      not_expired_limit [OF live(3,4)] amount ed by (simp add: d_def word_le_nat_alt)
  from transfer_ready_succeeds [OF assms(4) solv, of ?pta "ses_provider s" d] payee d amount(2) lt
  obtain T' where tr: "rt_transfer_checked R (ch_tokens c) \<lparr>tr_from = ses_vault s,
      tr_mint = ses_mint s, tr_to = ?pta, tr_authority = ?k, tr_amount = d,
      tr_decimals = the (ch_mints c (ses_mint s))\<rparr> = Some T'"
    and pay: "check_payee_account c ?pta (ses_mint s) (ses_provider s) = Ok ()" by fastforce
  have acc: "settle_session_accounts X R c tx (settle_accounts_of ix)
      = Ok (s, snd (find_pda X (settlement_seeds ?k) (rt_program_id R)))"
    using load_session_account_reachable [OF addr assms(5) s] addr s tx(3) pay solv
    by (auto simp: settle_session_accounts_Ok build_settle_instruction_decodes [OF ix] addressed_def
        session_solvent_def receipt_key_def split: option.splits)
  obtain rec where "advance_record R (ch_records c (receipt_key X R ?k)) settler ?k
      (snd (find_pda X (settlement_seeds ?k) (rt_program_id R))) = Ok rec"
    using receipt_usable_Ok [OF receipt] by blast
  with acc chk tr obtain c' where c': "settle_session X R c tx (settle_accounts_of ix) ?amt (cl_nonce cl) (cl_expires_at cl) root
      = Ok c'" "ch_sessions c' ?k = Some (s\<lparr>ses_cumulative_settled := ?amt, ses_is_settled := True\<rparr>)"
    unfolding settle_session_Ok by (auto simp: build_settle_instruction_decodes(1) [OF ix])
  have "run_settle X R c tx = Ok c'"
    unfolding run_settle_def Let_def tx(2) ix_def [symmetric] using c'(1) built_settle_dispatched [OF ix]
    by (simp add: build_settle_instruction_decodes(2) [OF ix])
  then show ?thesis using c' by (auto simp: build_settle_instruction_decodes(1) [OF ix] intro!: exI [of _ "settle_accounts_of ix"])
qed

text \<open>
  C4. What the gateway submits, the program executes. The two-instruction transaction
  that \<open>submit_settlement\<close> assembles for a claim of the session, signed by the
  settlement authority or the provider, is decoded to the same claim and succeeds
  whenever the claim is unexpired, above what is settled and within what is left, the
  receipt is usable and the provider's associated token account can be paid.
\<close>

theorem gateway_settlement_succeeds:
  assumes "genesis c\<^sub>0" and "spl_effect_law R" and "(chain_step X R)\<^sup>*\<^sup>* c\<^sub>0 c"
    and "spl_progress_law R" and "pda_law X"
    and s: "ch_sessions c (cl_session cl) = Some s"
    and tx: "tx_instructions tx = settlement_instructions X R I (rt_program_id R) settler
        (ses_provider s) (cl_session cl) (ses_mint s) token_program cl sig (ses_agent s) root"
      "tx_current_index tx = 1" "settler \<in> set (tx_signers tx)"
    and who: "settler = ses_settlement_authority s \<or> settler = ses_provider s"
    and live: "sint (ses_expires_at s) + 30 < 2 ^ 63" "sint (tx_now tx) \<le> sint (ses_expires_at s) + 30"
      "sint (cl_expires_at cl) + 30 < 2 ^ 63" "sint (tx_now tx) \<le> sint (cl_expires_at cl) + 30"
    and amount: "ses_cumulative_settled s < cl_cumulative_amount cl"
      "unat (cl_cumulative_amount cl) + unat (ses_refunded_total s) \<le> unat (ses_deposited_total s)"
    and receipt: "receipt_usable R (ch_records c (receipt_key X R (cl_session cl))) settler (cl_session cl)"
    and payee: "transfer_ready c (ses_vault s)
      (derive_associated_token_account X I (ses_provider s) token_program (ses_mint s))
      (ses_provider s) (unat (cl_cumulative_amount cl) - unat (ses_cumulative_settled s))"
  shows "\<exists>c'. run_settle X R c tx = Ok c' \<and> ch_sessions c' (cl_session cl)
      = Some (s\<lparr>ses_cumulative_settled := cl_cumulative_amount cl, ses_is_settled := True\<rparr>)"
  using built_settlement_runs [OF assms] by blast

lemma demo_run_conditions:
  "ch_sessions demo_chain\<^sub>1 (cl_session demo_claim) = Some demo_session"
  "tx_instructions demo_settle_txn = settlement_instructions demo_externals demo_runtime demo_ids
     (rt_program_id demo_runtime) 3 (ses_provider demo_session) (cl_session demo_claim)
     (ses_mint demo_session) 200 demo_claim 40 (ses_agent demo_session) 77"
  "tx_current_index demo_settle_txn = 1" "3 \<in> set (tx_signers demo_settle_txn)"
  "3 = ses_settlement_authority demo_session \<or> 3 = ses_provider demo_session"
  "sint (ses_expires_at demo_session) + 30 < 2 ^ 63"
  "sint (tx_now demo_settle_txn) \<le> sint (ses_expires_at demo_session) + 30"
  "sint (cl_expires_at demo_claim) + 30 < 2 ^ 63"
  "sint (tx_now demo_settle_txn) \<le> sint (cl_expires_at demo_claim) + 30"
  "ses_cumulative_settled demo_session < cl_cumulative_amount demo_claim"
  "unat (cl_cumulative_amount demo_claim) + unat (ses_refunded_total demo_session)
     \<le> unat (ses_deposited_total demo_session)"
  "receipt_usable demo_runtime (ch_records demo_chain\<^sub>1 (receipt_key demo_externals demo_runtime
     (cl_session demo_claim))) 3 (cl_session demo_claim)"
  "transfer_ready demo_chain\<^sub>1 (ses_vault demo_session)
     (derive_associated_token_account demo_externals demo_ids (ses_provider demo_session) 200
       (ses_mint demo_session))
     (ses_provider demo_session)
     (unat (cl_cumulative_amount demo_claim) - unat (ses_cumulative_settled demo_session))"
  by (simp_all add: demo_chain\<^sub>1_def demo_claim_def demo_session_def demo_settle_txn_def
      receipt_usable_def transfer_ready_def demo_token_def derive_associated_token_account_def)
    (simp_all add: demo_runtime_def demo_externals_def)

theorem gateway_settlement_succeeds_witness:
  "\<exists>c'. run_settle demo_externals demo_runtime demo_chain\<^sub>1 demo_settle_txn = Ok c'"
  using gateway_settlement_succeeds [OF demo_genesis demo_laws(1) demo_reach demo_laws(2) demo_pda
      demo_run_conditions] by blast

end
