(* ===== verification/Session_Store.thy ===== *)
theory Session_Store
  imports Claim
begin

section \<open>Session state and the claim high-water mark\<close>

text \<open>
  \<open>gateway/src/state.rs\<close>: the session record, the ordering rules
  \<open>evaluate_claim\<close>, the \<open>SessionStore\<close> trait as the locale
  \<open>session_store\<close>, and the in-memory store as its first instance (the Postgres
  store of theory \<open>Pg_Store\<close> is the second). What a client of any store may rely on
  is proved once in the locale: along every sequence of operations the accepted deltas of
  a session add up to its high-water mark, which never exceeds the deposit.
\<close>

record signed_claim =
  sc_claim :: claim
  sc_signature :: sig64

record session_record =
  sr_key :: pubkey
  sr_agent :: pubkey
  sr_provider :: pubkey
  sr_mint :: pubkey
  sr_deposited_total :: u64
  sr_expires_at :: i64
  sr_cumulative_accepted :: u64
  sr_last_nonce :: "u64 option"
  sr_highest_claim :: "signed_claim option"
  sr_is_settled :: bool
  sr_chain_verified :: bool

definition session_record_new ::
    "pubkey \<Rightarrow> pubkey \<Rightarrow> pubkey \<Rightarrow> pubkey \<Rightarrow> u64 \<Rightarrow> i64 \<Rightarrow> session_record" where
  "session_record_new session agent provider mint deposited_total expires_at = \<lparr>
     sr_key = session, sr_agent = agent, sr_provider = provider, sr_mint = mint,
     sr_deposited_total = deposited_total, sr_expires_at = expires_at,
     sr_cumulative_accepted = 0, sr_last_nonce = None, sr_highest_claim = None,
     sr_is_settled = False, sr_chain_verified = False\<rparr>"

definition verified_on_chain :: "session_record \<Rightarrow> session_record" where
  "verified_on_chain r = r\<lparr>sr_chain_verified := True\<rparr>"

datatype claim_rejection =
  RejSessionExpired | RejSessionSettled | RejNotMonotonic | RejNonceNotMonotonic | RejExceedsDeposit

record claim_accepted =
  ca_cumulative_amount :: u64
  ca_previous_cumulative :: u64
  ca_delta :: u64
  ca_nonce :: u64

datatype store_error = Unavailable | AlreadyOpen | Unknown

definition evaluate_claim ::
    "session_record \<Rightarrow> claim \<Rightarrow> i64 \<Rightarrow> (claim_accepted, claim_rejection) result" where
  "evaluate_claim r c now =
     (if sr_is_settled r then Err RejSessionSettled
      else let limit = (case checked_add_i64 (sr_expires_at r) CLOCK_SKEW_TOLERANCE_SECS of
                          Some l \<Rightarrow> l | None \<Rightarrow> i64_max) in
      if sint now > sint limit then Err RejSessionExpired
      else if cl_cumulative_amount c \<le> sr_cumulative_accepted r then Err RejNotMonotonic
      else if (case sr_last_nonce r of Some ln \<Rightarrow> cl_nonce c \<le> ln | None \<Rightarrow> False)
      then Err RejNonceNotMonotonic
      else if cl_cumulative_amount c > sr_deposited_total r then Err RejExceedsDeposit
      else case checked_sub_u64 (cl_cumulative_amount c) (sr_cumulative_accepted r) of
        None \<Rightarrow> Err RejNotMonotonic
      | Some delta \<Rightarrow> Ok \<lparr>
          ca_cumulative_amount = cl_cumulative_amount c,
          ca_previous_cumulative = sr_cumulative_accepted r,
          ca_delta = delta, ca_nonce = cl_nonce c\<rparr>)"

definition advance :: "session_record \<Rightarrow> claim \<Rightarrow> sig64 \<Rightarrow> session_record" where
  \<comment> \<open>the update of \<open>admit_claim\<close> on acceptance\<close>
  "advance r c sig = r\<lparr>sr_cumulative_accepted := cl_cumulative_amount c,
     sr_last_nonce := Some (cl_nonce c),
     sr_highest_claim := Some \<lparr>sc_claim = c, sc_signature = sig\<rparr>\<rparr>"

type_synonym admit_result = "((claim_accepted, claim_rejection) result, store_error) result"

subsection \<open>The in-memory store\<close>

record mem_store =
  ms_inner :: "pubkey \<rightharpoonup> session_record"
  ms_poisoned :: bool

definition mem_new :: mem_store where
  "mem_new = \<lparr>ms_inner = Map.empty, ms_poisoned = False\<rparr>"

definition mem_open :: "session_record \<Rightarrow> mem_store \<Rightarrow> (unit, store_error) result \<times> mem_store" where
  "mem_open r m =
     (if ms_poisoned m then (Err Unavailable, m)
      else if ms_inner m (sr_key r) \<noteq> None then (Err AlreadyOpen, m)
      else (Ok (), m\<lparr>ms_inner := (ms_inner m)(sr_key r \<mapsto> r)\<rparr>))"

definition mem_get :: "pubkey \<Rightarrow> mem_store \<Rightarrow> (session_record, store_error) result" where
  "mem_get k m =
     (if ms_poisoned m then Err Unavailable
      else case ms_inner m k of None \<Rightarrow> Err Unknown | Some r \<Rightarrow> Ok r)"

definition mem_admit_claim :: "claim \<Rightarrow> sig64 \<Rightarrow> i64 \<Rightarrow> mem_store \<Rightarrow> admit_result \<times> mem_store" where
  "mem_admit_claim c sig now m =
     (if ms_poisoned m then (Err Unavailable, m)
      else case ms_inner m (cl_session c) of
        None \<Rightarrow> (Err Unknown, m)
      | Some r \<Rightarrow>
          (case evaluate_claim r c now of
             Ok accepted \<Rightarrow>
               (Ok (Ok accepted), m\<lparr>ms_inner := (ms_inner m)(cl_session c \<mapsto>
                  r\<lparr>sr_cumulative_accepted := ca_cumulative_amount accepted,
                    sr_last_nonce := Some (ca_nonce accepted),
                    sr_highest_claim := Some \<lparr>sc_claim = c, sc_signature = sig\<rparr>\<rparr>)\<rparr>)
           | Err rejection \<Rightarrow> (Ok (Err rejection), m)))"

definition mem_mark_settled :: "pubkey \<Rightarrow> mem_store \<Rightarrow> (unit, store_error) result \<times> mem_store" where
  "mem_mark_settled k m =
     (if ms_poisoned m then (Err Unavailable, m)
      else case ms_inner m k of
        None \<Rightarrow> (Err Unknown, m)
      | Some r \<Rightarrow> (Ok (), m\<lparr>ms_inner := (ms_inner m)(k \<mapsto> r\<lparr>sr_is_settled := True\<rparr>)\<rparr>))"

definition mem_mark_chain_verified :: "pubkey \<Rightarrow> mem_store \<Rightarrow> (unit, store_error) result \<times> mem_store" where
  "mem_mark_chain_verified k m =
     (if ms_poisoned m then (Err Unavailable, m)
      else case ms_inner m k of
        None \<Rightarrow> (Err Unknown, m)
      | Some r \<Rightarrow> (Ok (), m\<lparr>ms_inner := (ms_inner m)(k \<mapsto> r\<lparr>sr_chain_verified := True\<rparr>)\<rparr>))"

subsection \<open>The ordering rules\<close>

lemma session_live_iff:
  "\<not> sint (now :: i64) > sint (case checked_add_i64 e CLOCK_SKEW_TOLERANCE_SECS of Some l \<Rightarrow> l | None \<Rightarrow> i64_max)
     \<longleftrightarrow> sint now \<le> sint e + 30"
proof (cases "checked_add_i64 e CLOCK_SKEW_TOLERANCE_SECS")
  case None
  then have "2 ^ 63 \<le> sint e + 30"
    using i64_range [of e] by (auto simp: checked_add_i64_def CLOCK_SKEW_TOLERANCE_SECS_def split: if_splits)
  then show ?thesis using None i64_range(2) [of now] by (simp add: sint_i64_max)
next
  case (Some l)
  then show ?thesis by (auto dest!: checked_add_i64_sint simp: CLOCK_SKEW_TOLERANCE_SECS_def)
qed

lemma evaluate_claim_Ok:
  "evaluate_claim r c now = Ok a \<longleftrightarrow>
     \<not> sr_is_settled r \<and> sint now \<le> sint (sr_expires_at r) + 30
   \<and> sr_cumulative_accepted r < cl_cumulative_amount c
   \<and> (\<forall>ln. sr_last_nonce r = Some ln \<longrightarrow> ln < cl_nonce c)
   \<and> cl_cumulative_amount c \<le> sr_deposited_total r
   \<and> a = \<lparr>ca_cumulative_amount = cl_cumulative_amount c,
          ca_previous_cumulative = sr_cumulative_accepted r,
          ca_delta = cl_cumulative_amount c - sr_cumulative_accepted r, ca_nonce = cl_nonce c\<rparr>"
  unfolding evaluate_claim_def Let_def session_live_iff [symmetric]
  by (auto simp: checked_sub_u64_def not_le not_less split: option.splits)

text \<open>
  The ordering rules, branch by branch. A claim is admitted exactly when the session is
  unsettled and within its expiry plus the tolerance, the amount is strictly above the
  high-water mark and within the deposit, and the nonce is strictly above the last one;
  otherwise the rejection names the first rule broken, in the order settled, expired,
  amount, nonce, deposit.
\<close>

theorem evaluate_claim_exact:
  "evaluate_claim r c now =
     (if sr_is_settled r then Err RejSessionSettled
      else if sint (sr_expires_at r) + 30 < sint now then Err RejSessionExpired
      else if cl_cumulative_amount c \<le> sr_cumulative_accepted r then Err RejNotMonotonic
      else if \<exists>ln. sr_last_nonce r = Some ln \<and> cl_nonce c \<le> ln then Err RejNonceNotMonotonic
      else if sr_deposited_total r < cl_cumulative_amount c then Err RejExceedsDeposit
      else Ok \<lparr>ca_cumulative_amount = cl_cumulative_amount c,
             ca_previous_cumulative = sr_cumulative_accepted r,
             ca_delta = cl_cumulative_amount c - sr_cumulative_accepted r, ca_nonce = cl_nonce c\<rparr>)"
  using session_live_iff [of "sr_expires_at r" now]
  unfolding evaluate_claim_def Let_def
  by (auto simp: checked_sub_u64_def not_le split: option.splits)

subsection \<open>The store contract\<close>

definition fresh_record :: "session_record \<Rightarrow> bool" where
  "fresh_record r \<longleftrightarrow> sr_cumulative_accepted r = 0 \<and> sr_last_nonce r = None
     \<and> sr_highest_claim r = None \<and> \<not> sr_is_settled r"

definition record_ok :: "pubkey \<Rightarrow> session_record \<Rightarrow> bool" where
  "record_ok k r \<longleftrightarrow> sr_key r = k \<and> sr_cumulative_accepted r \<le> sr_deposited_total r
     \<and> (case sr_highest_claim r of
          None \<Rightarrow> sr_cumulative_accepted r = 0 \<and> sr_last_nonce r = None
        | Some sc \<Rightarrow> cl_session (sc_claim sc) = k
            \<and> cl_cumulative_amount (sc_claim sc) = sr_cumulative_accepted r
            \<and> sr_last_nonce r = Some (cl_nonce (sc_claim sc)))"

datatype store_op =
    OpOpen session_record
  | OpAdmit claim sig64 i64
  | OpSettled pubkey
  | OpVerified pubkey

fun run_store ::
    "(session_record \<Rightarrow> 's \<Rightarrow> (unit, store_error) result \<times> 's)
      \<Rightarrow> (claim \<Rightarrow> sig64 \<Rightarrow> i64 \<Rightarrow> 's \<Rightarrow> admit_result \<times> 's)
      \<Rightarrow> (pubkey \<Rightarrow> 's \<Rightarrow> (unit, store_error) result \<times> 's)
      \<Rightarrow> (pubkey \<Rightarrow> 's \<Rightarrow> (unit, store_error) result \<times> 's)
      \<Rightarrow> store_op list \<Rightarrow> 's \<Rightarrow> (claim \<times> claim_accepted) list \<times> 's" where
  \<comment> \<open>a sequence of operations on a store, and the claims it accepted on the way\<close>
  "run_store opn admit settled verified [] s = ([], s)"
| "run_store opn admit settled verified (op # ops) s =
     (case op of
        OpOpen r \<Rightarrow> run_store opn admit settled verified ops (snd (opn r s))
      | OpAdmit c sig now \<Rightarrow>
          (let (res, s') = admit c sig now s; (log, s'') = run_store opn admit settled verified ops s'
           in ((case res of Ok (Ok a) \<Rightarrow> [(c, a)] | _ \<Rightarrow> []) @ log, s''))
      | OpSettled k \<Rightarrow> run_store opn admit settled verified ops (snd (settled k s))
      | OpVerified k \<Rightarrow> run_store opn admit settled verified ops (snd (verified k s)))"

definition log_of :: "pubkey \<Rightarrow> (claim \<times> claim_accepted) list \<Rightarrow> (claim \<times> claim_accepted) list" where
  "log_of k log = filter (\<lambda>(c, a). cl_session c = k) log"

definition total_delta :: "(claim \<times> claim_accepted) list \<Rightarrow> nat" where
  "total_delta log = sum_list (map (\<lambda>(c, a). unat (ca_delta a)) log)"

fun ladder :: "u64 \<Rightarrow> u64 option \<Rightarrow> (claim \<times> claim_accepted) list \<Rightarrow> u64 \<Rightarrow> u64 option \<Rightarrow> bool" where
  \<comment> \<open>amounts and nonces strictly increase, each delta is measured from the one before\<close>
  "ladder amount nonce [] amount' nonce' = (amount' = amount \<and> nonce' = nonce)"
| "ladder amount nonce ((c, a) # log) amount' nonce' =
     (amount < cl_cumulative_amount c \<and> (\<forall>n. nonce = Some n \<longrightarrow> n < cl_nonce c)
      \<and> ca_previous_cumulative a = amount \<and> ca_cumulative_amount a = cl_cumulative_amount c
      \<and> ca_delta a = cl_cumulative_amount c - amount \<and> ca_nonce a = cl_nonce c
      \<and> ladder (cl_cumulative_amount c) (Some (cl_nonce c)) log amount' nonce')"

lemma ladder_append:
  "ladder a n l a1 n1 \<Longrightarrow> ladder a1 n1 l' a2 n2 \<Longrightarrow> ladder a n (l @ l') a2 n2"
  by (induction a n l a1 n1 rule: ladder.induct) auto

lemma ladder_total: "ladder a n l a' n' \<Longrightarrow> unat a' = unat a + total_delta l"
  by (induction a n l a' n' rule: ladder.induct)
    (auto simp: total_delta_def unat_sub word_less_nat_alt order_less_imp_le)

lemma ladder_increasing:
  "ladder a n l a' n' \<Longrightarrow> sorted_wrt (<) (map (\<lambda>(c, _). cl_cumulative_amount c) l)
     \<and> sorted_wrt (<) (map (\<lambda>(c, _). cl_nonce c) l)
     \<and> (\<forall>(c, _) \<in> set l. a < cl_cumulative_amount c \<and> (\<forall>m. n = Some m \<longrightarrow> m < cl_nonce c))"
  by (induction a n l a' n' rule: ladder.induct) (auto intro: order.strict_trans)

definition mark :: "session_record option \<Rightarrow> u64" where
  "mark v = (case v of None \<Rightarrow> 0 | Some r \<Rightarrow> sr_cumulative_accepted r)"

definition mark_nonce :: "session_record option \<Rightarrow> u64 option" where
  "mark_nonce v = (case v of None \<Rightarrow> None | Some r \<Rightarrow> sr_last_nonce r)"

definition record_terms :: "session_record \<Rightarrow> pubkey \<times> pubkey \<times> pubkey \<times> pubkey \<times> u64 \<times> i64" where
  "record_terms r = (sr_key r, sr_agent r, sr_provider r, sr_mint r, sr_deposited_total r,
     sr_expires_at r)"

definition progress :: "pubkey \<Rightarrow> session_record option \<Rightarrow> session_record option
    \<Rightarrow> (claim \<times> claim_accepted) list \<Rightarrow> bool" where
  \<comment> \<open>how a session evolves while the claims in \<open>log\<close> are accepted for it\<close>
  "progress k v v' log \<longleftrightarrow> ((\<forall>r. v = Some r \<longrightarrow> record_ok k r) \<longrightarrow>
     ladder (mark v) (mark_nonce v) log (mark v') (mark_nonce v')
   \<and> (\<forall>r'. v' = Some r' \<longrightarrow> record_ok k r')
   \<and> (\<forall>r. v = Some r \<longrightarrow> (\<exists>r'. v' = Some r' \<and> record_terms r' = record_terms r
        \<and> (sr_is_settled r \<longrightarrow> sr_is_settled r' \<and> log = []))))"

lemma progress_refl: "progress k v v []"
  by (simp add: progress_def)

lemma progress_trans: "progress k v1 v2 l1 \<Longrightarrow> progress k v2 v3 l2 \<Longrightarrow> progress k v1 v3 (l1 @ l2)"
proof -
  assume p1: "progress k v1 v2 l1" and p2: "progress k v2 v3 l2"
  show ?thesis
    unfolding progress_def
  proof (intro impI conjI allI)
    assume ok: "\<forall>r. v1 = Some r \<longrightarrow> record_ok k r"
    note q1 = mp [OF p1 [unfolded progress_def] ok]
    have ok2: "\<forall>r. v2 = Some r \<longrightarrow> record_ok k r" using q1 by (elim conjE)
    note q2 = mp [OF p2 [unfolded progress_def] ok2]
    show "ladder (mark v1) (mark_nonce v1) (l1 @ l2) (mark v3) (mark_nonce v3)"
      by (rule ladder_append [OF conjunct1 [OF q1] conjunct1 [OF q2]])
    show "record_ok k r'" if "v3 = Some r'" for r' using q2 that by blast
    show "\<exists>r'. v3 = Some r' \<and> record_terms r' = record_terms r
        \<and> (sr_is_settled r \<longrightarrow> sr_is_settled r' \<and> l1 @ l2 = [])" if r: "v1 = Some r" for r
    proof -
      obtain r2 where r2: "v2 = Some r2" "record_terms r2 = record_terms r"
        "sr_is_settled r \<longrightarrow> sr_is_settled r2 \<and> l1 = []" using q1 r by blast
      obtain r3 where "v3 = Some r3" "record_terms r3 = record_terms r2"
        "sr_is_settled r2 \<longrightarrow> sr_is_settled r3 \<and> l2 = []" using q2 r2(1) by blast
      then show ?thesis using r2 by auto
    qed
  qed
qed

lemma progress_flag:
  assumes "record_terms r' = record_terms r" and "sr_cumulative_accepted r' = sr_cumulative_accepted r"
    and "sr_last_nonce r' = sr_last_nonce r" and "sr_highest_claim r' = sr_highest_claim r"
    and "sr_is_settled r \<Longrightarrow> sr_is_settled r'"
  shows "progress k (Some r) (Some r') []"
proof -
  have "record_ok k r \<Longrightarrow> record_ok k r'"
    using assms by (cases "sr_highest_claim r") (auto simp: record_ok_def record_terms_def)
  then show ?thesis using assms by (auto simp: progress_def mark_def mark_nonce_def)
qed

lemma progress_open: "fresh_record r \<Longrightarrow> sr_key r = k \<Longrightarrow> progress k None (Some r) []"
  by (auto simp: progress_def record_ok_def mark_def mark_nonce_def fresh_record_def)

lemma progress_admit:
  assumes "evaluate_claim r c now = Ok a" and "cl_session c = k"
  shows "progress k (Some r) (Some (advance r c sig)) [(c, a)]"
  using assms
  by (auto simp: progress_def record_ok_def mark_def mark_nonce_def evaluate_claim_Ok advance_def
      record_terms_def)

locale session_store =
  fixes view :: "'s \<Rightarrow> pubkey \<rightharpoonup> session_record"
    and inv :: "'s \<Rightarrow> bool"
    and opn :: "session_record \<Rightarrow> 's \<Rightarrow> (unit, store_error) result \<times> 's"
    and get :: "pubkey \<Rightarrow> 's \<Rightarrow> (session_record, store_error) result"
    and admit :: "claim \<Rightarrow> sig64 \<Rightarrow> i64 \<Rightarrow> 's \<Rightarrow> admit_result \<times> 's"
    and settled :: "pubkey \<Rightarrow> 's \<Rightarrow> (unit, store_error) result \<times> 's"
    and verified :: "pubkey \<Rightarrow> 's \<Rightarrow> (unit, store_error) result \<times> 's"
  assumes opn_inv: "inv s \<Longrightarrow> fresh_record r \<Longrightarrow> inv (snd (opn r s))"
    and admit_inv: "inv s \<Longrightarrow> inv (snd (admit c sig now s))"
    and settled_inv: "inv s \<Longrightarrow> inv (snd (settled k s))"
    and verified_inv: "inv s \<Longrightarrow> inv (snd (verified k s))"
    and opn_view: "inv s \<Longrightarrow> fresh_record r \<Longrightarrow> opn r s = (res, s') \<Longrightarrow>
      (if res = Ok () then view s (sr_key r) = None \<and> view s' = (view s)(sr_key r \<mapsto> r)
       else view s' = view s)"
    and get_view: "inv s \<Longrightarrow> get k s = Ok r \<Longrightarrow> view s k = Some r"
    and admit_view: "inv s \<Longrightarrow> admit c sig now s = (ares, s') \<Longrightarrow>
      (case ares of
         Ok (Ok a) \<Rightarrow> (\<exists>r. view s (cl_session c) = Some r \<and> evaluate_claim r c now = Ok a
             \<and> view s' = (view s)(cl_session c \<mapsto> advance r c sig))
       | _ \<Rightarrow> view s' = view s)"
    and settled_view: "inv s \<Longrightarrow> settled k s = (res, s') \<Longrightarrow>
      view s' = view s \<or> (\<exists>r. view s k = Some r \<and> view s' = (view s)(k \<mapsto> r\<lparr>sr_is_settled := True\<rparr>))"
    and verified_view: "inv s \<Longrightarrow> verified k s = (res, s') \<Longrightarrow>
      view s' = view s \<or> (\<exists>r. view s k = Some r \<and> view s' = (view s)(k \<mapsto> r\<lparr>sr_chain_verified := True\<rparr>))"
begin

lemma admit_progress:
  assumes "inv s" and "admit c sig now s = (ares, s')"
  shows "progress k (view s k) (view s' k) (log_of k (case ares of Ok (Ok a) \<Rightarrow> [(c, a)] | _ \<Rightarrow> []))"
  using admit_view [OF assms]
  by (auto simp: log_of_def progress_refl intro: progress_admit split: sum.splits)

lemma opn_progress:
  assumes "inv s" and "fresh_record r"
  shows "progress k (view s k) (view (snd (opn r s)) k) []"
  using opn_view [OF assms, of "fst (opn r s)" "snd (opn r s)"] assms(2)
  by (auto simp: progress_refl intro: progress_open split: if_splits)

lemma settled_progress: "inv s \<Longrightarrow> progress k (view s k) (view (snd (settled k' s)) k) []"
  using settled_view [of s k' "fst (settled k' s)" "snd (settled k' s)"]
  by (auto simp: progress_refl record_terms_def intro!: progress_flag)

lemma verified_progress: "inv s \<Longrightarrow> progress k (view s k) (view (snd (verified k' s)) k) []"
  using verified_view [of s k' "fst (verified k' s)" "snd (verified k' s)"]
  by (auto simp: progress_refl record_terms_def intro!: progress_flag)

lemma run_progress:
  assumes "inv s" and "\<forall>r. OpOpen r \<in> set ops \<longrightarrow> fresh_record r"
    and "run_store opn admit settled verified ops s = (log, s')"
  shows "inv s' \<and> progress k (view s k) (view s' k) (log_of k log)"
  using assms
proof (induction ops arbitrary: s log)
  case Nil
  then show ?case by (simp add: log_of_def progress_refl)
next
  case (Cons op ops)
  have fresh: "\<forall>r. OpOpen r \<in> set ops \<longrightarrow> fresh_record r" using Cons.prems(2) by simp
  show ?case
  proof (cases op)
    case (OpOpen r)
    then have "fresh_record r" using Cons.prems(2) by simp
    with OpOpen show ?thesis
      using Cons.IH [OF opn_inv [OF Cons.prems(1)] fresh] opn_progress [OF Cons.prems(1)] Cons.prems(3)
      by simp (metis append_Nil progress_trans)
  next
    case (OpAdmit c sig now)
    obtain ares s1 where a: "admit c sig now s = (ares, s1)" by fastforce
    obtain l2 where l2: "run_store opn admit settled verified ops s1 = (l2, s')"
      "log = (case ares of Ok (Ok a) \<Rightarrow> [(c, a)] | _ \<Rightarrow> []) @ l2"
      using Cons.prems(3) OpAdmit a by (auto split: prod.splits)
    have "inv s1" using admit_inv [OF Cons.prems(1), of c sig now] a by simp
    with Cons.IH [OF this fresh l2(1)] admit_progress [OF Cons.prems(1) a] show ?thesis
      unfolding l2(2) log_of_def filter_append by (metis progress_trans log_of_def)
  next
    case (OpSettled k')
    then show ?thesis
      using Cons.IH [OF settled_inv [OF Cons.prems(1)] fresh] settled_progress [OF Cons.prems(1)]
        Cons.prems(3) by simp (metis append_Nil progress_trans)
  next
    case (OpVerified k')
    then show ?thesis
      using Cons.IH [OF verified_inv [OF Cons.prems(1)] fresh] verified_progress [OF Cons.prems(1)]
        Cons.prems(3) by simp (metis append_Nil progress_trans)
  qed
qed

text \<open>
  From an empty store: the deltas accepted for a session add up to its high-water mark,
  within its deposit; amounts and nonces strictly increase; and the claim kept for
  settlement is the last one accepted.
\<close>

lemma run_accounts:
  assumes "inv s" and "view s = Map.empty" and "\<forall>r. OpOpen r \<in> set ops \<longrightarrow> fresh_record r"
    and "run_store opn admit settled verified ops s = (log, s')" and "view s' k = Some r"
  shows "total_delta (log_of k log) = unat (sr_cumulative_accepted r)
     \<and> sr_cumulative_accepted r \<le> sr_deposited_total r
     \<and> sorted_wrt (<) (map (\<lambda>(c, _). cl_cumulative_amount c) (log_of k log))
     \<and> sorted_wrt (<) (map (\<lambda>(c, _). cl_nonce c) (log_of k log))
     \<and> record_ok k r"
proof -
  have p: "progress k None (Some r) (log_of k log)"
    using run_progress [OF assms(1,3,4), of k] assms(2,5) by simp
  then have l: "ladder 0 None (log_of k log) (sr_cumulative_accepted r) (sr_last_nonce r)"
    and "record_ok k r"
    by (auto simp: progress_def mark_def mark_nonce_def)
  then show ?thesis
    using ladder_total [OF l] ladder_increasing [OF l] by (auto simp: record_ok_def)
qed

end

subsection \<open>The in-memory store is a session store\<close>

interpretation mem: session_store ms_inner "\<lambda>_. True" mem_open mem_get mem_admit_claim
  mem_mark_settled mem_mark_chain_verified
  by unfold_locales
    (auto simp: mem_open_def mem_get_def mem_admit_claim_def mem_mark_settled_def
      mem_mark_chain_verified_def advance_def evaluate_claim_Ok split: if_splits option.splits sum.splits)

text \<open>
  No claim buys twice. Along any sequence of operations on a new in-memory store, in
  any interleaving of sessions, the deltas accepted for a session add up to its high-water
  mark and stay within its deposit, and the accepted amounts and nonces strictly increase,
  so a repeated or older claim is never accepted again; the claim kept for settlement is
  the one at the mark.
\<close>

theorem mem_store_accounts:
  assumes "\<forall>r. OpOpen r \<in> set ops \<longrightarrow> fresh_record r"
    and "run_store mem_open mem_admit_claim mem_mark_settled mem_mark_chain_verified ops mem_new
      = (log, m)"
    and "ms_inner m k = Some r"
  shows "total_delta (log_of k log) = unat (sr_cumulative_accepted r)
     \<and> sr_cumulative_accepted r \<le> sr_deposited_total r
     \<and> sorted_wrt (<) (map (\<lambda>(c, _). cl_cumulative_amount c) (log_of k log))
     \<and> sorted_wrt (<) (map (\<lambda>(c, _). cl_nonce c) (log_of k log))
     \<and> record_ok k r"
  using assms by (intro mem.run_accounts [of mem_new]) (simp_all add: mem_new_def)

definition demo_record :: session_record where
  "demo_record = session_record_new 7 1 2 50 100 2000"

definition demo_claim_of :: "u64 \<Rightarrow> u64 \<Rightarrow> claim" where
  "demo_claim_of amount nonce = \<lparr>cl_session = 7, cl_cumulative_amount = amount, cl_nonce = nonce,
     cl_expires_at = 2000\<rparr>"

definition demo_ops :: "store_op list" where
  "demo_ops = [OpOpen demo_record, OpAdmit (demo_claim_of 40 2) 0 1500,
     OpAdmit (demo_claim_of 40 2) 0 1500, OpAdmit (demo_claim_of 70 3) 0 1500]"

theorem mem_store_accounts_witness:
  "\<exists>log m r. run_store mem_open mem_admit_claim mem_mark_settled mem_mark_chain_verified demo_ops mem_new
      = (log, m) \<and> length (log_of 7 log) = 2 \<and> ms_inner m 7 = Some r \<and> sr_cumulative_accepted r = 70
     \<and> total_delta (log_of 7 log) = 70"
proof -
  obtain log m where run: "run_store mem_open mem_admit_claim mem_mark_settled mem_mark_chain_verified
      demo_ops mem_new = (log, m)" by fastforce
  have fresh: "\<forall>r. OpOpen r \<in> set demo_ops \<longrightarrow> fresh_record r"
    by (simp add: demo_ops_def fresh_record_def demo_record_def session_record_new_def)
  have ev: "log = [(demo_claim_of 40 2, \<lparr>ca_cumulative_amount = 40, ca_previous_cumulative = 0,
        ca_delta = 40, ca_nonce = 2\<rparr>), (demo_claim_of 70 3, \<lparr>ca_cumulative_amount = 70,
        ca_previous_cumulative = 40, ca_delta = 30, ca_nonce = 3\<rparr>)]"
    "\<exists>r. ms_inner m 7 = Some r \<and> sr_cumulative_accepted r = 70"
    using run
    by (auto simp: demo_ops_def mem_open_def mem_new_def demo_record_def session_record_new_def
        mem_admit_claim_def demo_claim_of_def evaluate_claim_def checked_add_i64_def
        CLOCK_SKEW_TOLERANCE_SECS_def checked_sub_u64_def)
  then obtain r where r: "ms_inner m 7 = Some r" "sr_cumulative_accepted r = 70" by blast
  from mem_store_accounts [OF fresh run r(1)] r(2) have "total_delta (log_of 7 log) = 70" by simp
  moreover have "length (log_of 7 log) = 2" by (simp add: ev(1) log_of_def demo_claim_of_def)
  ultimately show ?thesis using run r by blast
qed

end
