(* ===== verification/Evidence.thy ===== *)
theory Evidence
  imports Prelude
begin

section \<open>The evidence log: hash chain and Merkle tree\<close>

text \<open>
  \<open>gateway/src/evidence.rs\<close>. The hash function is the parameter \<open>sha256\<close>
  of \<open>externals\<close>. Nothing is assumed of it for functional behaviour (every
  proof the tree hands out verifies); the binding results assume only that it has no
  collision among the finitely many preimages that actually occur in the logs, trees and
  proofs compared, never that it is injective.
\<close>

definition GENESIS_PREV_HASH :: hash32 where "GENESIS_PREV_HASH = 0"
definition EMPTY_ROOT :: hash32 where "EMPTY_ROOT = 0"

datatype decision =
  Allowed | NotMonotonic | NonceNotMonotonic | ExceedsDeposit | DSessionExpired

fun as_str :: "decision \<Rightarrow> string" where
  "as_str Allowed = ''ALLOWED''"
| "as_str NotMonotonic = ''ERR_CLAIM_NOT_MONOTONIC''"
| "as_str NonceNotMonotonic = ''ERR_NONCE_NOT_MONOTONIC''"
| "as_str ExceedsDeposit = ''ERR_CLAIM_EXCEEDS_DEPOSIT''"
| "as_str DSessionExpired = ''ERR_SESSION_EXPIRED''"

definition parse_decision :: "string \<Rightarrow> decision option" where
  "parse_decision s =
     (if s = ''ALLOWED'' then Some Allowed
      else if s = ''ERR_CLAIM_NOT_MONOTONIC'' then Some NotMonotonic
      else if s = ''ERR_NONCE_NOT_MONOTONIC'' then Some NonceNotMonotonic
      else if s = ''ERR_CLAIM_EXCEEDS_DEPOSIT'' then Some ExceedsDeposit
      else if s = ''ERR_SESSION_EXPIRED'' then Some DSessionExpired
      else None)"

definition is_allowed :: "decision \<Rightarrow> bool" where
  "is_allowed d \<longleftrightarrow> d = Allowed"

subsection \<open>The hash chain\<close>

definition entry_preimage :: "hash32 \<Rightarrow> pubkey \<Rightarrow> u64 \<Rightarrow> u64 \<Rightarrow> string \<Rightarrow> bytes" where
  "entry_preimage prev_hash session cumulative_amount nonce decision =
     to_le_bytes 32 prev_hash @ to_le_bytes 32 session @ to_le_bytes 8 cumulative_amount
       @ to_le_bytes 8 nonce @ utf8 decision"

definition compute_entry_hash ::
    "externals \<Rightarrow> hash32 \<Rightarrow> pubkey \<Rightarrow> u64 \<Rightarrow> u64 \<Rightarrow> string \<Rightarrow> hash32" where
  "compute_entry_hash X prev_hash session cumulative_amount nonce decision =
     sha256 X (entry_preimage prev_hash session cumulative_amount nonce decision)"

record evidence_entry =
  ev_sequence_id :: i64
  ev_cumulative_amount :: u64
  ev_nonce :: u64
  ev_decision :: string
  ev_prev_hash :: hash32
  ev_entry_hash :: hash32

datatype chain_error =
    SequenceGap i64 i64 | BrokenLink i64 | HashMismatch i64

fun verify_chain_from ::
    "externals \<Rightarrow> pubkey \<Rightarrow> nat \<Rightarrow> hash32 \<Rightarrow> evidence_entry list \<Rightarrow> (unit, chain_error) result" where
  \<comment> \<open>the loop of \<open>verify_chain\<close>, from index \<open>i\<close> with \<open>expected_prev\<close>\<close>
  "verify_chain_from X session i expected_prev [] = Ok ()"
| "verify_chain_from X session i expected_prev (entry # entries) =
     (let expected_seq = (of_nat i :: i64) in
      if ev_sequence_id entry \<noteq> expected_seq
      then Err (SequenceGap expected_seq (ev_sequence_id entry))
      else if ev_prev_hash entry \<noteq> expected_prev then Err (BrokenLink (ev_sequence_id entry))
      else let recomputed = compute_entry_hash X (ev_prev_hash entry) session
             (ev_cumulative_amount entry) (ev_nonce entry) (ev_decision entry) in
      if recomputed \<noteq> ev_entry_hash entry then Err (HashMismatch (ev_sequence_id entry))
      else verify_chain_from X session (Suc i) (ev_entry_hash entry) entries)"

definition verify_chain ::
    "externals \<Rightarrow> pubkey \<Rightarrow> evidence_entry list \<Rightarrow> (unit, chain_error) result" where
  "verify_chain X session entries = verify_chain_from X session 0 GENESIS_PREV_HASH entries"

subsection \<open>The Merkle tree\<close>

datatype side = Left | Right

record proof_node =
  pn_hash :: hash32
  pn_side :: side

record merkle_tree =
  mt_levels :: "hash32 list list"

definition pair_preimage :: "hash32 \<Rightarrow> hash32 \<Rightarrow> bytes" where
  "pair_preimage left right = to_le_bytes 32 left @ to_le_bytes 32 right"

definition hash_pair :: "externals \<Rightarrow> hash32 \<Rightarrow> hash32 \<Rightarrow> hash32" where
  "hash_pair X left right = sha256 X (pair_preimage left right)"

fun next_level :: "externals \<Rightarrow> hash32 list \<Rightarrow> hash32 list" where
  \<comment> \<open>the inner loop: pairs are hashed, an odd node out is paired with itself\<close>
  "next_level X (left # right # rest) = hash_pair X left right # next_level X rest"
| "next_level X [left] = [hash_pair X left left]"
| "next_level X [] = []"

lemma length_next_level: "length (next_level X level) = (length level + 1) div 2"
  by (induction X level rule: next_level.induct) auto

function build_levels :: "externals \<Rightarrow> hash32 list \<Rightarrow> hash32 list list" where
  \<comment> \<open>the outer loop, from the level \<open>current\<close> on\<close>
  "build_levels X current =
     current # (if length current > 1 then build_levels X (next_level X current) else [])"
  by auto
termination
  by (relation "measure (\<lambda>(X, level). length level)") (auto simp: length_next_level)

declare build_levels.simps [simp del]

definition merkle_new :: "externals \<Rightarrow> hash32 list \<Rightarrow> merkle_tree" where
  "merkle_new X leaves =
     (if leaves = [] then \<lparr>mt_levels = []\<rparr> else \<lparr>mt_levels = build_levels X leaves\<rparr>)"

definition root :: "merkle_tree \<Rightarrow> hash32" where
  "root t = (if mt_levels t = [] then EMPTY_ROOT
     else let top = last (mt_levels t) in if top \<noteq> [] then top ! 0 else EMPTY_ROOT)"

definition leaves :: "merkle_tree \<Rightarrow> hash32 list" where
  "leaves t = (case mt_levels t of [] \<Rightarrow> [] | l # _ \<Rightarrow> l)"

definition leaf_count :: "merkle_tree \<Rightarrow> nat" where
  "leaf_count t = (case mt_levels t of [] \<Rightarrow> 0 | l # _ \<Rightarrow> length l)"

definition proof_step :: "hash32 list \<Rightarrow> nat \<Rightarrow> proof_node" where
  "proof_step level idx =
     (let sibling_idx = (if idx mod 2 = 0 then idx + 1 else idx - 1);
          sibling = (if sibling_idx < length level then level ! sibling_idx else level ! idx)
      in \<lparr>pn_hash = sibling, pn_side = (if idx mod 2 = 0 then Right else Left)\<rparr>)"

fun proof_path :: "hash32 list list \<Rightarrow> nat \<Rightarrow> proof_node list" where
  \<comment> \<open>the loop of \<open>proof\<close> over all levels but the last\<close>
  "proof_path (level # levels) idx =
     (if levels = [] then [] else proof_step level idx # proof_path levels (idx div 2))"
| "proof_path [] idx = []"

definition merkle_proof :: "merkle_tree \<Rightarrow> nat \<Rightarrow> proof_node list option" where
  "merkle_proof t index =
     (if index \<ge> leaf_count t then None else Some (proof_path (mt_levels t) index))"

definition fold_node :: "externals \<Rightarrow> proof_node \<Rightarrow> hash32 \<Rightarrow> hash32" where
  "fold_node X node current =
     (case pn_side node of Right \<Rightarrow> hash_pair X current (pn_hash node)
                         | Left \<Rightarrow> hash_pair X (pn_hash node) current)"

definition verify_proof :: "externals \<Rightarrow> hash32 \<Rightarrow> proof_node list \<Rightarrow> hash32 \<Rightarrow> bool" where
  "verify_proof X leaf proof expected_root \<longleftrightarrow> fold (fold_node X) proof leaf = expected_root"

subsection \<open>Every proof verifies\<close>

lemma build_levels_nonempty [simp]: "build_levels X l \<noteq> []"
  by (subst build_levels.simps) simp

lemma hd_build_levels [simp]: "hd (build_levels X l) = l"
  by (subst build_levels.simps) simp

lemma next_level_nth:
  "i < length level \<Longrightarrow> next_level X level ! (i div 2) = fold_node X (proof_step level i) (level ! i)"
proof (induction X level arbitrary: i rule: next_level.induct)
  case (1 X left right rest)
  show ?case
  proof (cases "i < 2")
    case True
    then have "i = 0 \<or> i = 1" by auto
    then show ?thesis by (auto simp: fold_node_def proof_step_def Let_def)
  next
    case False
    then obtain j where j: "i = j + 2" using le_Suc_ex[of 2 i] by (auto simp: not_less)
    then have "next_level X rest ! (j div 2) = fold_node X (proof_step rest j) (rest ! j)"
      using 1 by simp
    moreover have "proof_step (left # right # rest) i = proof_step rest j"
      using j by (auto simp: proof_step_def Let_def nth_Cons' odd_pos)
    ultimately show ?thesis using j by simp
  qed
next
  case (2 X left)
  then show ?case by (simp add: fold_node_def proof_step_def)
next
  case (3 X)
  then show ?case by simp
qed

lemma half_index: "i < length level \<Longrightarrow> i div 2 < length (next_level X level)"
  by (simp add: length_next_level)

lemma last_build_levels: "l \<noteq> [] \<Longrightarrow> length (last (build_levels X l)) = 1"
proof (induction X l rule: build_levels.induct)
  case (1 X l)
  show ?case
  proof (cases "length l > 1")
    case True
    moreover have "next_level X l \<noteq> []" using length_next_level [of X l] True by force
    ultimately show ?thesis using 1 by (subst build_levels.simps) simp
  next
    case False
    then have "length l = 1" using 1(2) by (cases l) auto
    then show ?thesis by (subst build_levels.simps) simp
  qed
qed

lemma proof_path_folds:
  "i < length l \<Longrightarrow> fold (fold_node X) (proof_path (build_levels X l) i) (l ! i) = last (build_levels X l) ! 0"
proof (induction X l arbitrary: i rule: build_levels.induct)
  case (1 X l)
  show ?case
  proof (cases "length l > 1")
    case True
    have "proof_path (build_levels X l) i
        = proof_step l i # proof_path (build_levels X (next_level X l)) (i div 2)"
      using True by (subst build_levels.simps) simp
    moreover have "last (build_levels X l) = last (build_levels X (next_level X l))"
      using True by (subst build_levels.simps) simp
    ultimately show ?thesis
      using 1(1) [OF True half_index [OF 1(2)]] next_level_nth [OF 1(2)] by simp
  next
    case False
    then have "i = 0" and "build_levels X l = [l]"
      using 1(2) by (auto simp: build_levels.simps [of X l])
    then show ?thesis by simp
  qed
qed

lemma merkle_simps [simp]:
  "leaf_count (merkle_new X ls) = length ls" "leaves (merkle_new X ls) = ls"
  by (auto simp: merkle_new_def leaf_count_def leaves_def build_levels.simps [of X ls] split: list.splits)

lemma root_merkle_new: "ls \<noteq> [] \<Longrightarrow> root (merkle_new X ls) = last (build_levels X ls) ! 0"
  using last_build_levels [of ls X] by (auto simp: root_def merkle_new_def Let_def)

text \<open>
  Every inclusion proof verifies: for each leaf of a tree of any size, \<open>proof\<close>
  returns a proof, and \<open>verify_proof\<close> accepts it for that leaf against the root;
  an index past the leaves gets none.
\<close>

theorem merkle_proof_verifies:
  "(case merkle_proof (merkle_new X ls) i of
      Some p \<Rightarrow> i < length ls \<and> verify_proof X (ls ! i) p (root (merkle_new X ls))
    | None \<Rightarrow> length ls \<le> i)"
proof (cases "i < length ls")
  case True
  then have "ls \<noteq> []" by auto
  with True show ?thesis
    using proof_path_folds [OF True, of X]
    by (simp add: merkle_proof_def verify_proof_def root_merkle_new) (simp add: merkle_new_def)
qed (simp add: merkle_proof_def)

subsection \<open>What a root and a proof pin down\<close>

definition node_preimage :: "proof_node \<Rightarrow> hash32 \<Rightarrow> bytes" where
  "node_preimage node current =
     (case pn_side node of Right \<Rightarrow> pair_preimage current (pn_hash node)
                         | Left \<Rightarrow> pair_preimage (pn_hash node) current)"

fun path_preimages :: "externals \<Rightarrow> hash32 \<Rightarrow> proof_node list \<Rightarrow> bytes set" where
  \<comment> \<open>what \<open>verify_proof\<close> hashes\<close>
  "path_preimages X current [] = {}"
| "path_preimages X current (node # p) =
     insert (node_preimage node current) (path_preimages X (fold_node X node current) p)"

fun level_preimages :: "hash32 list \<Rightarrow> bytes set" where
  \<comment> \<open>what \<open>next_level\<close> hashes\<close>
  "level_preimages (left # right # rest) = insert (pair_preimage left right) (level_preimages rest)"
| "level_preimages [left] = {pair_preimage left left}"
| "level_preimages [] = {}"

function tree_preimages :: "externals \<Rightarrow> hash32 list \<Rightarrow> bytes set" where
  \<comment> \<open>what \<open>build_levels\<close> hashes\<close>
  "tree_preimages X level = (if length level > 1
     then level_preimages level \<union> tree_preimages X (next_level X level) else {})"
  by auto
termination
  by (relation "measure (\<lambda>(X, level). length level)") (auto simp: length_next_level)

declare tree_preimages.simps [simp del]

definition collision_free :: "externals \<Rightarrow> bytes set \<Rightarrow> bool" where
  "collision_free X S \<longleftrightarrow> inj_on (sha256 X) S"

lemma collision_free_mono: "collision_free X S \<Longrightarrow> T \<subseteq> S \<Longrightarrow> collision_free X T"
  unfolding collision_free_def by (rule inj_on_subset)

lemma collision_freeD:
  "collision_free X S \<Longrightarrow> sha256 X a = sha256 X b \<Longrightarrow> a \<in> S \<Longrightarrow> b \<in> S \<Longrightarrow> a = b"
  unfolding collision_free_def by (rule inj_onD)

lemma pair_preimage_inject [simp]:
  "pair_preimage a b = pair_preimage c d \<longleftrightarrow> a = c \<and> b = d"
  by (simp add: pair_preimage_def to_le_bytes_inject)

lemma fold_node_preimage: "fold_node X node current = sha256 X (node_preimage node current)"
  by (simp add: fold_node_def node_preimage_def hash_pair_def split: side.splits)

lemma node_preimage_inject:
  "pn_side n = pn_side m \<Longrightarrow> node_preimage n a = node_preimage m b \<longleftrightarrow> n = m \<and> a = b"
  by (cases n; cases m) (auto simp: node_preimage_def split: side.splits)

lemma fold_paths_equal:
  assumes "map pn_side p = map pn_side q"
    and "fold (fold_node X) p a = fold (fold_node X) q b"
    and "collision_free X (path_preimages X a p \<union> path_preimages X b q)"
  shows "a = b \<and> p = q"
  using assms
proof (induction p arbitrary: q a b)
  case Nil
  then show ?case by simp
next
  case (Cons n p)
  then obtain m q' where q: "q = m # q'" "pn_side n = pn_side m" "map pn_side p = map pn_side q'"
    by auto
  have "fold_node X n a = fold_node X m b \<and> p = q'"
    using Cons.prems q by (intro Cons.IH) (auto elim!: collision_free_mono)
  moreover from this have "node_preimage n a = node_preimage m b"
    using Cons.prems(3) q by (auto simp: fold_node_preimage intro: collision_freeD)
  ultimately show ?case using q node_preimage_inject by blast
qed

text \<open>
  An inclusion proof cannot be forged. If a proof with the shape of the one for leaf
  \<open>i\<close> verifies against the root of a log, then it is that proof, and the leaf it was
  checked with is the \<open>i\<close>-th leaf of the log, unless SHA-256 collides on the preimages
  hashed along the two paths.
\<close>

theorem merkle_proof_binding:
  assumes "merkle_proof (merkle_new X ls) i = Some q"
    and "verify_proof X leaf p (root (merkle_new X ls))"
    and "map pn_side p = map pn_side q"
    and "collision_free X (path_preimages X leaf p \<union> path_preimages X (ls ! i) q)"
  shows "leaf = ls ! i \<and> p = q"
proof -
  have "i < length ls" using assms(1) by (auto simp: merkle_proof_def split: if_splits)
  then have "fold (fold_node X) q (ls ! i) = root (merkle_new X ls)"
    using assms(1) proof_path_folds [of i ls X] by (auto simp: merkle_proof_def root_merkle_new
        merkle_new_def split: if_splits) (metis list.size(3) not_less_zero root_merkle_new merkle_new_def)
  then show ?thesis
    using assms by (intro fold_paths_equal) (simp_all add: verify_proof_def)
qed

lemma next_level_duplicate:
  "odd (length ls) \<Longrightarrow> next_level X (ls @ [last ls]) = next_level X ls"
  by (induction X ls rule: next_level.induct) auto

text \<open>
  The root alone does not pin the length: repeating the last leaf of an odd log of
  more than one entry leaves the root unchanged, so the leaf count, or the hash chain over
  the entries, is needed beside the root.
\<close>

theorem merkle_root_ignores_duplicate:
  assumes "odd (length ls)" and "1 < length ls"
  shows "root (merkle_new X (ls @ [last ls])) = root (merkle_new X ls)"
proof -
  have "last (build_levels X (ls @ [last ls])) = last (build_levels X ls)"
    using assms(2) unfolding build_levels.simps [of X "ls @ [last ls]"] build_levels.simps [of X ls]
      next_level_duplicate [OF assms(1), of X] by (cases ls) simp_all
  then show ?thesis using assms(2) by (subst (1 2) root_merkle_new) auto
qed

subsection \<open>What the hash chain pins down\<close>

definition chain_head :: "evidence_entry list \<Rightarrow> hash32" where
  "chain_head es = (if es = [] then GENESIS_PREV_HASH else ev_entry_hash (last es))"

definition preimage_of :: "pubkey \<Rightarrow> evidence_entry \<Rightarrow> bytes" where
  "preimage_of session e = entry_preimage (ev_prev_hash e) session (ev_cumulative_amount e)
     (ev_nonce e) (ev_decision e)"

definition next_entry :: "externals \<Rightarrow> pubkey \<Rightarrow> evidence_entry list \<Rightarrow> evidence_entry \<Rightarrow> bool" where
  \<comment> \<open>\<open>e\<close> is a well-formed successor of the chain \<open>es\<close>\<close>
  "next_entry X session es e \<longleftrightarrow> ev_sequence_id e = of_nat (length es)
     \<and> ev_prev_hash e = chain_head es \<and> ev_entry_hash e = sha256 X (preimage_of session e)"

lemma verify_chain_from_snoc:
  "verify_chain_from X session i prev (es @ [e]) = Ok () \<longleftrightarrow>
     verify_chain_from X session i prev es = Ok ()
   \<and> ev_sequence_id e = of_nat (i + length es)
   \<and> ev_prev_hash e = (if es = [] then prev else ev_entry_hash (last es))
   \<and> ev_entry_hash e = sha256 X (preimage_of session e)"
  by (induction es arbitrary: i prev)
    (auto simp: Let_def compute_entry_hash_def preimage_of_def)

lemma verify_chain_Nil [simp]: "verify_chain X session [] = Ok ()"
  by (simp add: verify_chain_def)

lemma verify_chain_snoc:
  "verify_chain X session (es @ [e]) = Ok () \<longleftrightarrow>
     verify_chain X session es = Ok () \<and> next_entry X session es e"
  unfolding verify_chain_def verify_chain_from_snoc
  by (auto simp: next_entry_def chain_head_def)

lemma verify_chain_take: "verify_chain X session es = Ok () \<Longrightarrow> verify_chain X session (take n es) = Ok ()"
proof (induction es rule: rev_induct)
  case (snoc e es)
  then show ?case by (cases "n \<le> length es") (simp_all add: verify_chain_snoc)
qed simp

lemma preimage_of_inject:
  "preimage_of s e = preimage_of s' e' \<longleftrightarrow> s = s' \<and> ev_prev_hash e = ev_prev_hash e'
     \<and> ev_cumulative_amount e = ev_cumulative_amount e' \<and> ev_nonce e = ev_nonce e'
     \<and> ev_decision e = ev_decision e'"
  by (auto simp: preimage_of_def entry_preimage_def to_le_bytes_inject)

definition hash_ok :: "externals \<Rightarrow> bytes set \<Rightarrow> bool" where
  \<comment> \<open>on these preimages the hash neither collides nor hits the genesis value\<close>
  "hash_ok X S \<longleftrightarrow> collision_free X S \<and> GENESIS_PREV_HASH \<notin> sha256 X ` S"

lemma hash_ok_mono: "hash_ok X S \<Longrightarrow> T \<subseteq> S \<Longrightarrow> hash_ok X T"
  unfolding hash_ok_def using collision_free_mono by blast

lemma chain_unique:
  assumes "verify_chain X s es = Ok ()" and "verify_chain X s' es' = Ok ()"
    and "chain_head es = chain_head es'"
    and "hash_ok X (preimage_of s ` set es \<union> preimage_of s' ` set es')"
  shows "es = es' \<and> (es \<noteq> [] \<longrightarrow> s = s')"
  using assms
proof (induction es arbitrary: es' rule: rev_induct)
  case Nil
  show ?case
  proof (cases es' rule: rev_cases)
    case (snoc fs f)
    then have "GENESIS_PREV_HASH = sha256 X (preimage_of s' f)"
      using Nil by (simp add: chain_head_def verify_chain_snoc next_entry_def)
    then show ?thesis using Nil(4) snoc by (auto simp: hash_ok_def)
  qed simp
next
  case (snoc e es)
  show ?case
  proof (cases es' rule: rev_cases)
    case Nil
    then have "GENESIS_PREV_HASH = sha256 X (preimage_of s e)"
      using snoc.prems by (simp add: chain_head_def verify_chain_snoc next_entry_def)
    then show ?thesis using snoc.prems(4) by (auto simp: hash_ok_def)
  next
    case es': (snoc fs f)
    have e: "next_entry X s es e" "verify_chain X s es = Ok ()"
      and f: "next_entry X s' fs f" "verify_chain X s' fs = Ok ()"
      using snoc.prems es' by (simp_all add: verify_chain_snoc)
    have "sha256 X (preimage_of s e) = sha256 X (preimage_of s' f)"
      using snoc.prems(3) es' e f by (simp add: chain_head_def next_entry_def)
    then have pre: "preimage_of s e = preimage_of s' f"
      using snoc.prems(4) es' by (intro collision_freeD [of X]) (auto simp: hash_ok_def)
    then have "chain_head es = chain_head fs"
      using e f by (simp add: preimage_of_inject next_entry_def)
    moreover have "hash_ok X (preimage_of s ` set es \<union> preimage_of s' ` set fs)"
      using snoc.prems(4) by (rule hash_ok_mono) (auto simp: es')
    ultimately have "es = fs" using snoc.IH [OF e(2) f(2)] by blast
    moreover have "ev_entry_hash e = ev_entry_hash f" using e f pre by (simp add: next_entry_def)
    ultimately show ?thesis
      using pre e f unfolding es' by (cases e; cases f) (simp add: preimage_of_inject next_entry_def)
  qed
qed

lemma chain_distinct:
  assumes "verify_chain X s es = Ok ()" and "hash_ok X (preimage_of s ` set es)"
  shows "distinct (map ev_entry_hash es)"
  using assms
proof (induction es rule: rev_induct)
  case (snoc e es)
  then have v: "verify_chain X s es = Ok ()" and h: "hash_ok X (preimage_of s ` set es)"
    by (auto simp: verify_chain_snoc elim!: hash_ok_mono)
  have "ev_entry_hash e \<noteq> ev_entry_hash (es ! k)" if "k < length es" for k
  proof
    assume "ev_entry_hash e = ev_entry_hash (es ! k)"
    then have "chain_head (es @ [e]) = chain_head (take (Suc k) es)"
      using that by (auto simp: chain_head_def take_Suc_conv_app_nth)
    moreover have "hash_ok X (preimage_of s ` set (es @ [e]) \<union> preimage_of s ` set (take (Suc k) es))"
      using snoc.prems(2) by (rule hash_ok_mono) (auto dest: in_set_takeD)
    ultimately have "es @ [e] = take (Suc k) es"
      using chain_unique [OF snoc.prems(1) verify_chain_take [OF v]] by blast
    then have "length (es @ [e]) = length (take (Suc k) es)" by (rule arg_cong)
    then show False by simp
  qed
  then have "ev_entry_hash e \<notin> set (map ev_entry_hash es)" by (metis in_set_conv_nth length_map nth_map)
  then show ?case using snoc.IH [OF v h] by simp
qed simp

subsection \<open>The root pins the log, length included\<close>

text \<open>
  The height of a hash: entries are hashed from more than 64 bytes, inner nodes from
  exactly 64, so as long as no two preimages collide a value cannot be an entry of one
  tree and an inner node of another, nor sit at two heights.
\<close>

inductive ranked :: "externals \<Rightarrow> bytes set \<Rightarrow> nat \<Rightarrow> hash32 \<Rightarrow> bool" for X S where
  leaf: "b \<in> S \<Longrightarrow> length b \<noteq> 64 \<Longrightarrow> ranked X S 0 (sha256 X b)"
| node: "pair_preimage l r \<in> S \<Longrightarrow> ranked X S k l \<Longrightarrow> ranked X S (Suc k) (hash_pair X l r)"

inductive_cases ranked_0E: "ranked X S 0 v"
inductive_cases ranked_SucE: "ranked X S (Suc k) v"

lemma length_pair_preimage [simp]: "length (pair_preimage l r) = 64"
  by (simp add: pair_preimage_def)

lemma ranked_unique:
  assumes "collision_free X S" and "ranked X S k v" and "ranked X S k' v"
  shows "k = k'"
  using assms(2,3)
proof (induction arbitrary: k' rule: ranked.induct)
  case (leaf b)
  show ?case
  proof (cases k')
    case (Suc j)
    then obtain l r where "pair_preimage l r \<in> S" "sha256 X b = sha256 X (pair_preimage l r)"
      using leaf.prems by (auto simp: hash_pair_def elim: ranked_SucE)
    then have "b = pair_preimage l r" using leaf.hyps(1) collision_freeD [OF assms(1)] by blast
    then show ?thesis using leaf.hyps(2) by simp
  qed simp
next
  case (node l r k)
  show ?case
  proof (cases k')
    case 0
    then obtain b where b: "b \<in> S" "length b \<noteq> 64" "sha256 X (pair_preimage l r) = sha256 X b"
      using node.prems by (auto simp: hash_pair_def elim!: ranked_0E)
    then have "pair_preimage l r = b" using node.hyps(1) collision_freeD [OF assms(1)] by blast
    then show ?thesis using b(2) by auto
  next
    case (Suc j)
    then obtain l' r' where l': "pair_preimage l' r' \<in> S" "ranked X S j l'"
      "sha256 X (pair_preimage l r) = sha256 X (pair_preimage l' r')"
      using node.prems by (auto simp: hash_pair_def elim!: ranked_SucE)
    then have "pair_preimage l r = pair_preimage l' r'"
      using node.hyps(1) collision_freeD [OF assms(1)] by blast
    then show ?thesis using l' node.IH Suc by simp
  qed
qed

lemma ranked_next_level:
  assumes "\<forall>v \<in> set xs. ranked X S k v" and "level_preimages xs \<subseteq> S"
  shows "\<forall>v \<in> set (next_level X xs). ranked X S (Suc k) v"
  using assms by (induction X xs rule: next_level.induct) (auto intro: ranked.node)

lemma ranked_top:
  assumes "\<forall>v \<in> set xs. ranked X S k v" and "tree_preimages X xs \<subseteq> S" and "xs \<noteq> []"
  shows "ranked X S (k + (length (build_levels X xs) - 1)) (last (build_levels X xs) ! 0)"
  using assms
proof (induction X xs arbitrary: k rule: build_levels.induct)
  case (1 X xs)
  show ?case
  proof (cases "length xs > 1")
    case True
    have sub: "level_preimages xs \<subseteq> S" "tree_preimages X (next_level X xs) \<subseteq> S"
      using 1(3) True by (simp_all add: tree_preimages.simps [of X xs])
    have "next_level X xs \<noteq> []" using True length_next_level [of X xs] by force
    note IH = 1(1) [OF True ranked_next_level [OF 1(2) sub(1)] sub(2) this]
    obtain n where "length (build_levels X (next_level X xs)) = Suc n"
      using build_levels_nonempty by (metis length_0_conv not0_implies_Suc)
    with IH True show ?thesis by (simp add: build_levels.simps [of X xs])
  next
    case False
    then obtain x where "xs = [x]" using 1(4) by (cases xs) auto
    then show ?thesis using 1(2) by (simp add: build_levels.simps)
  qed
qed

lemma distinct_next_level:
  assumes "distinct xs" and "collision_free X (level_preimages xs)"
  shows "distinct (next_level X xs)
    \<and> (\<forall>v \<in> set (next_level X xs). \<exists>l r. l \<in> set xs \<and> pair_preimage l r \<in> level_preimages xs \<and> v = hash_pair X l r)"
  using assms
proof (induction X xs rule: next_level.induct)
  case (1 X l r rest)
  have "collision_free X (level_preimages rest)"
    using 1(3) by (rule collision_free_mono) auto
  then have IH: "distinct (next_level X rest)"
    "\<forall>v \<in> set (next_level X rest). \<exists>l r. l \<in> set rest \<and> pair_preimage l r \<in> level_preimages rest \<and> v = hash_pair X l r"
    using 1(1,2) by auto
  have "hash_pair X l r \<notin> set (next_level X rest)"
  proof
    assume "hash_pair X l r \<in> set (next_level X rest)"
    then obtain l' r' where l': "l' \<in> set rest" "pair_preimage l' r' \<in> level_preimages rest"
      "sha256 X (pair_preimage l r) = sha256 X (pair_preimage l' r')"
      using IH(2) by (auto simp: hash_pair_def)
    then have "pair_preimage l r = pair_preimage l' r'"
      by (intro collision_freeD [OF 1(3)]) simp_all
    then show False using l'(1) 1(2) by simp
  qed
  with IH show ?case by fastforce
qed auto

lemma next_level_inj:
  assumes "distinct xs" and "distinct ys" and "next_level X xs = next_level X ys"
    and "collision_free X (level_preimages xs \<union> level_preimages ys)"
  shows "xs = ys"
  using assms
proof (induction xs arbitrary: ys rule: level_preimages.induct)
  case (1 l r rest)
  have "pair_preimage l r \<in> level_preimages (l # r # rest)" by simp
  show ?case
  proof (cases ys rule: level_preimages.cases)
    case (1 l' r' rest')
    have "pair_preimage l r = pair_preimage l' r'"
      by (rule collision_freeD [OF "1.prems"(4)]) (use "1.prems"(3) 1 in \<open>auto simp: hash_pair_def\<close>)
    moreover have "rest = rest'"
      by (rule "1.IH") (use "1.prems" 1 in \<open>auto elim!: collision_free_mono\<close>)
    ultimately show ?thesis using 1 by simp
  next
    case (2 l')
    have "pair_preimage l r = pair_preimage l' l'"
      by (rule collision_freeD [OF "1.prems"(4)]) (use "1.prems"(3) 2 in \<open>auto simp: hash_pair_def\<close>)
    then show ?thesis using "1.prems"(1) by simp
  next
    case 3
    then show ?thesis using "1.prems"(3) by simp
  qed
next
  case (2 l)
  show ?case
  proof (cases ys rule: level_preimages.cases)
    case (1 l' r' rest')
    have "pair_preimage l l = pair_preimage l' r'"
      by (rule collision_freeD [OF "2.prems"(4)]) (use "2.prems"(3) 1 in \<open>auto simp: hash_pair_def\<close>)
    then show ?thesis using "2.prems"(2) 1 by auto
  next
    case (2 l')
    have "pair_preimage l l = pair_preimage l' l'"
      by (rule collision_freeD [OF "2.prems"(4)]) (use "2.prems"(3) 2 in \<open>auto simp: hash_pair_def\<close>)
    then show ?thesis using 2 by simp
  next
    case 3
    then show ?thesis using "2.prems"(3) by simp
  qed
next
  case 3
  then show ?case by (cases ys rule: level_preimages.cases) simp_all
qed

lemma tops_equal:
  assumes "length (build_levels X xs) = length (build_levels X ys)" and "xs \<noteq> []" and "ys \<noteq> []"
    and "distinct xs" and "distinct ys"
    and "last (build_levels X xs) ! 0 = last (build_levels X ys) ! 0"
    and "collision_free X (tree_preimages X xs \<union> tree_preimages X ys)"
  shows "xs = ys"
  using assms
proof (induction X xs arbitrary: ys rule: build_levels.induct)
  case (1 X xs)
  have iff: "length xs > 1 \<longleftrightarrow> length ys > 1"
    using 1(2) by (simp add: build_levels.simps [of X xs] build_levels.simps [of X ys] split: if_splits)
  show ?case
  proof (cases "length xs > 1")
    case True
    then have ys: "length ys > 1" using iff by simp
    have pre: "tree_preimages X xs = level_preimages xs \<union> tree_preimages X (next_level X xs)"
      "tree_preimages X ys = level_preimages ys \<union> tree_preimages X (next_level X ys)"
      using True ys by (simp_all add: tree_preimages.simps [of X xs] tree_preimages.simps [of X ys])
    have cf: "collision_free X (level_preimages xs \<union> level_preimages ys)"
      "collision_free X (level_preimages xs)" "collision_free X (level_preimages ys)"
      "collision_free X (tree_preimages X (next_level X xs) \<union> tree_preimages X (next_level X ys))"
      using 1(8) unfolding pre by (auto elim!: collision_free_mono)
    have ne: "next_level X xs \<noteq> []" "next_level X ys \<noteq> []"
      using True ys length_next_level [of X xs] length_next_level [of X ys] by force+
    have "next_level X xs = next_level X ys"
      using 1(2,7) True ys
      by (intro 1(1) [OF True _ ne] cf(4) distinct_next_level [THEN conjunct1] 1(5,6) cf(2,3))
        (simp_all add: build_levels.simps [of X xs] build_levels.simps [of X ys])
    then show ?thesis using next_level_inj [OF 1(5,6) _ cf(1)] by blast
  next
    case False
    then obtain x y where "xs = [x]" "ys = [y]"
      using 1(3,4) iff by (cases xs; cases ys) auto
    then show ?thesis using 1(7) by (simp add: build_levels.simps)
  qed
qed

definition log_preimages :: "externals \<Rightarrow> pubkey \<Rightarrow> evidence_entry list \<Rightarrow> bytes set" where
  \<comment> \<open>everything hashed to write a log and to compute its root\<close>
  "log_preimages X session es =
     preimage_of session ` set es \<union> tree_preimages X (map ev_entry_hash es)"

lemma length_preimage_of: "64 < length (preimage_of s e)"
  by (simp add: preimage_of_def entry_preimage_def)

lemma chain_entry_hashes:
  "verify_chain X s es = Ok () \<Longrightarrow> e \<in> set es \<Longrightarrow> ev_entry_hash e = sha256 X (preimage_of s e)"
  by (induction es rule: rev_induct) (auto simp: verify_chain_snoc next_entry_def)

lemma entries_ranked:
  assumes "verify_chain X s es = Ok ()" and "preimage_of s ` set es \<subseteq> S"
  shows "\<forall>v \<in> set (map ev_entry_hash es). ranked X S 0 v"
proof
  fix v assume "v \<in> set (map ev_entry_hash es)"
  then obtain e where e: "e \<in> set es" "v = ev_entry_hash e" by auto
  have "ranked X S 0 (sha256 X (preimage_of s e))"
    using assms(2) e(1) length_preimage_of [of s e] by (intro ranked.leaf) auto
  then show "ranked X S 0 v" using chain_entry_hashes [OF assms(1) e(1)] e(2) by simp
qed

lemma ranked_not_genesis:
  assumes "hash_ok X S" and "ranked X S k v"
  shows "v \<noteq> GENESIS_PREV_HASH"
proof -
  have "v \<in> sha256 X ` S" using assms(2) by (cases rule: ranked.cases) (auto simp: hash_pair_def)
  then show ?thesis using assms(1) unfolding hash_ok_def by blast
qed

lemma root_ranked:
  assumes "verify_chain X s es = Ok ()" and "log_preimages X s es \<subseteq> S" and "es \<noteq> []"
  shows "ranked X S (length (build_levels X (map ev_entry_hash es)) - 1)
    (root (merkle_new X (map ev_entry_hash es)))"
  using ranked_top [OF entries_ranked [OF assms(1)], of S] assms
  by (simp add: log_preimages_def root_merkle_new)

text \<open>
  C33. The published root pins the entire log. If two logs both pass \<open>verify_chain\<close>
  and have the same Merkle root, they are the same log of the same session, entry by entry
  and whatever their lengths, unless SHA-256 collides (or hits the all-zero value) on the
  finitely many preimages hashed for these two logs. The chain thus removes the ambiguity
  that duplicated leaves leave in the root.
\<close>

theorem evidence_root_pins_log:
  assumes "verify_chain X s es = Ok ()" and "verify_chain X s' es' = Ok ()"
    and "root (merkle_new X (map ev_entry_hash es)) = root (merkle_new X (map ev_entry_hash es'))"
    and "hash_ok X (log_preimages X s es \<union> log_preimages X s' es')"
  shows "es = es' \<and> (es \<noteq> [] \<longrightarrow> s = s')"
proof -
  let ?S = "log_preimages X s es \<union> log_preimages X s' es'"
  let ?h = "map ev_entry_hash es" and ?h' = "map ev_entry_hash es'"
  have empty: "root (merkle_new X []) = GENESIS_PREV_HASH"
    by (simp add: root_def merkle_new_def EMPTY_ROOT_def GENESIS_PREV_HASH_def)
  note rank = root_ranked [OF assms(1), of ?S] root_ranked [OF assms(2), of ?S]
  consider "es = []" "es' = []" | "es \<noteq> []" "es' \<noteq> []"
    using rank ranked_not_genesis [OF assms(4)] assms(3) empty by fastforce
  then show ?thesis
  proof cases
    case 2
    have cf: "collision_free X ?S" using assms(4) by (simp add: hash_ok_def)
    have "length (build_levels X ?h) - 1 = length (build_levels X ?h') - 1"
      using ranked_unique [OF cf] rank 2 assms(3) by auto
    then have len: "length (build_levels X ?h) = length (build_levels X ?h')"
      by (metis One_nat_def Suc_pred build_levels_nonempty length_greater_0_conv)
    have d: "distinct ?h" "distinct ?h'"
      using assms(1,2) hash_ok_mono [OF assms(4)]
      by (auto intro!: chain_distinct simp: log_preimages_def)
    have "?h = ?h'"
      using 2 assms(3) collision_free_mono [OF cf]
      by (intro tops_equal [OF len _ _ d]) (auto simp: root_merkle_new log_preimages_def)
    then have "last ?h = last ?h'" by simp
    then have "chain_head es = chain_head es'"
      using 2 by (simp add: chain_head_def last_map)
    then show ?thesis
      by (rule chain_unique [OF assms(1,2)])
        (rule hash_ok_mono [OF assms(4)], auto simp: log_preimages_def)
  qed simp
qed

definition demo_entry :: evidence_entry where
  "demo_entry = \<lparr>ev_sequence_id = 0, ev_cumulative_amount = 40, ev_nonce = 1,
     ev_decision = ''ALLOWED'', ev_prev_hash = GENESIS_PREV_HASH,
     ev_entry_hash = compute_entry_hash demo_externals GENESIS_PREV_HASH 7 40 1 ''ALLOWED''\<rparr>"

lemma demo_entry_hash_nonzero:
  "sha256 demo_externals (preimage_of 7 demo_entry) \<noteq> GENESIS_PREV_HASH"
proof
  assume "sha256 demo_externals (preimage_of 7 demo_entry) = GENESIS_PREV_HASH"
  then have "to_le_bytes 1 (sha256 demo_externals (preimage_of 7 demo_entry))
      = to_le_bytes 1 (0 :: hash32)" by (simp add: GENESIS_PREV_HASH_def)
  moreover have "to_le_bytes 1 (from_le_bytes (b # bs) :: hash32) = [b]" for b bs
  proof -
    have "ucast (from_le_bytes (b # bs) :: hash32) = b"
      by (intro bit_word_eqI) (auto simp: bit_simps)
    then show ?thesis by (simp del: from_le_bytes.simps)
  qed
  ultimately show False
    by (simp add: demo_externals_def preimage_of_def entry_preimage_def demo_entry_def utf8_def
        utf8_char_def del: from_le_bytes.simps)
qed

theorem evidence_root_pins_log_witness:
  "verify_chain demo_externals 7 [demo_entry] = Ok ()
   \<and> hash_ok demo_externals (log_preimages demo_externals 7 [demo_entry])
   \<and> ([demo_entry] = [demo_entry] \<and> (7 :: pubkey) = 7)"
proof -
  have v: "verify_chain demo_externals 7 [demo_entry] = Ok ()"
    by (simp add: verify_chain_def demo_entry_def)
  have h: "hash_ok demo_externals (log_preimages demo_externals 7 [demo_entry])"
    using demo_entry_hash_nonzero
    by (simp add: hash_ok_def log_preimages_def tree_preimages.simps collision_free_def)
  then have "hash_ok demo_externals (log_preimages demo_externals 7 [demo_entry]
      \<union> log_preimages demo_externals 7 [demo_entry])" by simp
  from evidence_root_pins_log [OF v v refl this] v h show ?thesis by blast
qed

theorem merkle_proof_binding_witness:
  "verify_proof demo_externals 5 [\<lparr>pn_hash = 6, pn_side = Right\<rparr>] (root (merkle_new demo_externals [5, 6]))
   \<and> (5 :: hash32) = [5, 6] ! 0"
proof -
  have q: "merkle_proof (merkle_new demo_externals [5, 6]) 0 = Some [\<lparr>pn_hash = 6, pn_side = Right\<rparr>]"
    by (simp add: merkle_proof_def) (simp add: merkle_new_def build_levels.simps proof_step_def)
  have v: "verify_proof demo_externals 5 [\<lparr>pn_hash = 6, pn_side = Right\<rparr>]
      (root (merkle_new demo_externals [5, 6]))"
    by (simp add: verify_proof_def root_merkle_new build_levels.simps fold_node_def)
  from merkle_proof_binding [OF q v refl] v show ?thesis
    by (simp add: collision_free_def)
qed

theorem merkle_root_ignores_duplicate_witness:
  "root (merkle_new demo_externals [1, 2, 3, 3]) = root (merkle_new demo_externals [1, 2, 3])"
  using merkle_root_ignores_duplicate [of "[1, 2, 3]" demo_externals] by simp

end
