(* ===== verification/Pg_Store.thy ===== *)
theory Pg_Store
  imports Session_Store Evidence
begin

section \<open>The durable store\<close>

text \<open>
  \<open>gateway/src/db.rs\<close> over the schema of \<open>gateway/migrations\<close>. The state
  \<open>pg\<close> is the three tables the money path uses, as lists in insertion order, and
  whether the database can be reached at all. A statement is modelled by what SQL
  documents for it on these tables, with the schema's constraints; an operation is one
  transaction, so an error leaves the tables as they were.
\<close>

subsection \<open>Tables\<close>

record session_row =
  se_session_pubkey :: string
  se_agent_pubkey :: string
  se_provider_pubkey :: string
  se_mint_pubkey :: string
  se_deposited_total :: i64
  se_expires_at :: i64
  se_settled_at :: "i64 option"
  se_chain_verified :: bool
  se_created_at :: i64

record claim_row =
  ct_session_pubkey :: string
  ct_cumulative_amount :: i64
  ct_nonce :: i64
  ct_expires_at :: i64
  ct_signature :: bytes

record evidence_row =
  el_session_pubkey :: string
  el_sequence_id :: i64
  el_cumulative_amount :: i64
  el_nonce :: i64
  el_decision :: string
  el_prev_hash :: bytes
  el_entry_hash :: bytes
  el_signature :: bytes
  el_created_at :: i64

record pg =
  pg_online :: bool
  pg_clock :: i64  \<comment> \<open>what \<open>NOW()\<close> returns\<close>
  pg_sessions :: "session_row list"
  pg_claims :: "claim_row list"
  pg_evidence :: "evidence_row list"

datatype db_error =
    Sqlx | RowNotFound
  | OutOfRange string u64
  | NegativeAmount string i64
  | BadPubkey string
  | BadSignature nat
  | BadHash nat

definition store_error_of :: "db_error \<Rightarrow> store_error" where
  "store_error_of e = Unavailable"

definition to_i64 :: "u64 \<Rightarrow> string \<Rightarrow> (i64, db_error) result" where
  "to_i64 value field = (if unat value < 2 ^ 63 then Ok value else Err (OutOfRange field value))"

definition to_u64 :: "i64 \<Rightarrow> string \<Rightarrow> (u64, db_error) result" where
  "to_u64 value field = (if sint value \<ge> 0 then Ok value else Err (NegativeAmount field value))"

definition parse_pubkey :: "externals \<Rightarrow> string \<Rightarrow> (pubkey, db_error) result" where
  "parse_pubkey X s = (case pk_parse X s of None \<Rightarrow> Err (BadPubkey s) | Some k \<Rightarrow> Ok k)"

definition hash_of_bytes :: "bytes \<Rightarrow> (hash32, db_error) result" where
  \<comment> \<open>\<open>raw.try_into()\<close> to \<open>[u8; 32]\<close>\<close>
  "hash_of_bytes raw = (if length raw = 32 then Ok (from_le_bytes raw) else Err (BadHash (length raw)))"

text \<open>The constraints of the schema that the inserted values can break.\<close>

definition sessions_check :: "session_row \<Rightarrow> bool" where
  "sessions_check r \<longleftrightarrow> length (se_session_pubkey r) \<le> 44 \<and> length (se_agent_pubkey r) \<le> 44
     \<and> length (se_provider_pubkey r) \<le> 44 \<and> length (se_mint_pubkey r) \<le> 44
     \<and> sint (se_deposited_total r) > 0"

definition claims_check :: "claim_row \<Rightarrow> bool" where
  "claims_check r \<longleftrightarrow> sint (ct_cumulative_amount r) > 0 \<and> sint (ct_nonce r) \<ge> 0
     \<and> length (ct_signature r) = 64"

definition evidence_check :: "evidence_row list \<Rightarrow> evidence_row \<Rightarrow> bool" where
  "evidence_check rows r \<longleftrightarrow> sint (el_sequence_id r) \<ge> 0 \<and> length (el_decision r) \<le> 32
     \<and> length (el_prev_hash r) = 32 \<and> length (el_entry_hash r) = 32 \<and> length (el_signature r) = 64
     \<and> \<not> list_ex (\<lambda>q. el_session_pubkey q = el_session_pubkey r \<and> el_sequence_id q = el_sequence_id r) rows"

definition session_row_of :: "pg \<Rightarrow> string \<Rightarrow> session_row option" where
  "session_row_of db key = find (\<lambda>r. se_session_pubkey r = key) (pg_sessions db)"

definition claim_row_of :: "pg \<Rightarrow> string \<Rightarrow> claim_row option" where
  "claim_row_of db key = find (\<lambda>r. ct_session_pubkey r = key) (pg_claims db)"

subsection \<open>Sessions\<close>

definition save_session :: "externals \<Rightarrow> session_record \<Rightarrow> pg \<Rightarrow> (bool, db_error) result \<times> pg" where
  "save_session X r db =
     (case to_i64 (sr_deposited_total r) ''deposited_total'' of
        Err e \<Rightarrow> (Err e, db)
      | Ok deposited \<Rightarrow>
      let row = \<lparr>se_session_pubkey = pk_show X (sr_key r), se_agent_pubkey = pk_show X (sr_agent r),
            se_provider_pubkey = pk_show X (sr_provider r), se_mint_pubkey = pk_show X (sr_mint r),
            se_deposited_total = deposited, se_expires_at = sr_expires_at r, se_settled_at = None,
            se_chain_verified = sr_chain_verified r, se_created_at = pg_clock db\<rparr> in
      if \<not> pg_online db \<or> \<not> sessions_check row then (Err Sqlx, db)
      else if session_row_of db (se_session_pubkey row) \<noteq> None then (Ok False, db)
      else (Ok True, db\<lparr>pg_sessions := pg_sessions db @ [row]\<rparr>))"

definition row_to_record ::
    "externals \<Rightarrow> session_row \<Rightarrow> claim_row option \<Rightarrow> (session_record, db_error) result" where
  "row_to_record X row claim_cols =
     (case parse_pubkey X (se_session_pubkey row) of Err e \<Rightarrow> Err e | Ok session \<Rightarrow>
      case (case claim_cols of
              None \<Rightarrow> Ok (0, None, None)
            | Some ct \<Rightarrow>
                (case to_u64 (ct_cumulative_amount ct) ''cumulative_amount'' of Err e \<Rightarrow> Err e | Ok amount \<Rightarrow>
                 case to_u64 (ct_nonce ct) ''nonce'' of Err e \<Rightarrow> Err e | Ok nonce \<Rightarrow>
                 if length (ct_signature ct) \<noteq> 64 then Err (BadSignature (length (ct_signature ct)))
                 else Ok (amount, Some nonce, Some \<lparr>sc_claim = \<lparr>cl_session = session,
                        cl_cumulative_amount = amount, cl_nonce = nonce,
                        cl_expires_at = ct_expires_at ct\<rparr>,
                      sc_signature = from_le_bytes (ct_signature ct)\<rparr>))) of
        Err e \<Rightarrow> Err e
      | Ok (cumulative_accepted, last_nonce, highest_claim) \<Rightarrow>
      case parse_pubkey X (se_agent_pubkey row) of Err e \<Rightarrow> Err e | Ok agent \<Rightarrow>
      case parse_pubkey X (se_provider_pubkey row) of Err e \<Rightarrow> Err e | Ok provider \<Rightarrow>
      case parse_pubkey X (se_mint_pubkey row) of Err e \<Rightarrow> Err e | Ok mint \<Rightarrow>
      case to_u64 (se_deposited_total row) ''deposited_total'' of Err e \<Rightarrow> Err e | Ok deposited \<Rightarrow>
      Ok \<lparr>sr_key = session, sr_agent = agent, sr_provider = provider, sr_mint = mint,
          sr_deposited_total = deposited, sr_expires_at = se_expires_at row,
          sr_cumulative_accepted = cumulative_accepted, sr_last_nonce = last_nonce,
          sr_highest_claim = highest_claim, sr_is_settled = (se_settled_at row \<noteq> None),
          sr_chain_verified = se_chain_verified row\<rparr>)"

definition load_session :: "externals \<Rightarrow> pubkey \<Rightarrow> pg \<Rightarrow> (session_record option, db_error) result" where
  "load_session X session db =
     (if \<not> pg_online db then Err Sqlx
      else case session_row_of db (pk_show X session) of
        None \<Rightarrow> Ok None
      | Some row \<Rightarrow>
          (case row_to_record X row (claim_row_of db (se_session_pubkey row)) of
             Err e \<Rightarrow> Err e | Ok r \<Rightarrow> Ok (Some r)))"

definition load_active_sessions :: "externals \<Rightarrow> pg \<Rightarrow> (session_record list, db_error) result" where
  "load_active_sessions X db =
     (if \<not> pg_online db then Err Sqlx
      else traverse (\<lambda>row. row_to_record X row (claim_row_of db (se_session_pubkey row)))
        (sort_key (\<lambda>row. sint (se_created_at row))
          (filter (\<lambda>row. se_settled_at row = None) (pg_sessions db))))"

definition mark_session_settled :: "externals \<Rightarrow> pubkey \<Rightarrow> pg \<Rightarrow> (bool, db_error) result \<times> pg" where
  "mark_session_settled X session db =
     (if \<not> pg_online db then (Err Sqlx, db)
      else let hit = (\<lambda>row. se_session_pubkey row = pk_show X session \<and> se_settled_at row = None) in
        (Ok (length (filter hit (pg_sessions db)) = 1),
         db\<lparr>pg_sessions := map (\<lambda>row. if hit row then row\<lparr>se_settled_at := Some (pg_clock db)\<rparr> else row)
              (pg_sessions db)\<rparr>))"

subsection \<open>The evidence log\<close>

definition evidence_of :: "pg \<Rightarrow> string \<Rightarrow> evidence_row list" where
  \<comment> \<open>\<open>WHERE session_pubkey = $1 ORDER BY sequence_id ASC\<close>\<close>
  "evidence_of db key = sort_key (\<lambda>r. sint (el_sequence_id r))
     (filter (\<lambda>r. el_session_pubkey r = key) (pg_evidence db))"

definition load_evidence_leaves :: "externals \<Rightarrow> pubkey \<Rightarrow> pg \<Rightarrow> (hash32 list, db_error) result" where
  "load_evidence_leaves X session db =
     (if \<not> pg_online db then Err Sqlx
      else traverse (\<lambda>r. hash_of_bytes (el_entry_hash r)) (evidence_of db (pk_show X session)))"

definition evidence_entry_of :: "evidence_row \<Rightarrow> (evidence_entry, db_error) result" where
  "evidence_entry_of r =
     (case to_u64 (el_cumulative_amount r) ''cumulative_amount'' of Err e \<Rightarrow> Err e | Ok amount \<Rightarrow>
      case to_u64 (el_nonce r) ''nonce'' of Err e \<Rightarrow> Err e | Ok nonce \<Rightarrow>
      case hash_of_bytes (el_prev_hash r) of Err e \<Rightarrow> Err e | Ok prev \<Rightarrow>
      case hash_of_bytes (el_entry_hash r) of Err e \<Rightarrow> Err e | Ok entry \<Rightarrow>
      Ok \<lparr>ev_sequence_id = el_sequence_id r, ev_cumulative_amount = amount, ev_nonce = nonce,
          ev_decision = el_decision r, ev_prev_hash = prev, ev_entry_hash = entry\<rparr>)"

definition load_evidence_chain :: "externals \<Rightarrow> pubkey \<Rightarrow> pg \<Rightarrow> (evidence_entry list, db_error) result" where
  "load_evidence_chain X session db =
     (if \<not> pg_online db then Err Sqlx
      else traverse evidence_entry_of (evidence_of db (pk_show X session)))"

definition get_session_merkle_root :: "externals \<Rightarrow> pubkey \<Rightarrow> pg \<Rightarrow> (hash32, db_error) result" where
  "get_session_merkle_root X session db =
     (case load_evidence_leaves X session db of
        Err e \<Rightarrow> Err e | Ok ls \<Rightarrow> Ok (root (merkle_new X ls)))"

definition clamp_i64 :: "u64 \<Rightarrow> u64" where
  \<comment> \<open>\<open>.min(i64::MAX as u64)\<close>\<close>
  "clamp_i64 v = (if v \<le> i64_max then v else i64_max)"

definition append_evidence ::
    "externals \<Rightarrow> pg \<Rightarrow> claim \<Rightarrow> decision \<Rightarrow> sig64 \<Rightarrow> (pg, db_error) result" where
  "append_evidence X db c d sig =
     (let session_key = pk_show X (cl_session c);
          rows = evidence_of db session_key in
      case (if rows = [] then Ok (0, GENESIS_PREV_HASH)
            else let top = last rows in
              case hash_of_bytes (el_entry_hash top) of Err e \<Rightarrow> Err e | Ok prev \<Rightarrow>
              case checked_add_i64 (el_sequence_id top) 1 of
                None \<Rightarrow> Err (OutOfRange ''sequence_id'' (- 1))
              | Some seq \<Rightarrow> Ok (seq, prev)) of
        Err e \<Rightarrow> Err e
      | Ok (sequence_id, prev_hash) \<Rightarrow>
      let stored_cumulative = clamp_i64 (cl_cumulative_amount c);
          stored_nonce = clamp_i64 (cl_nonce c);
          entry_hash = compute_entry_hash X prev_hash (cl_session c) stored_cumulative stored_nonce
            (as_str d);
          row = \<lparr>el_session_pubkey = session_key, el_sequence_id = sequence_id,
            el_cumulative_amount = stored_cumulative, el_nonce = stored_nonce,
            el_decision = as_str d, el_prev_hash = to_le_bytes 32 prev_hash,
            el_entry_hash = to_le_bytes 32 entry_hash, el_signature = to_le_bytes 64 sig,
            el_created_at = pg_clock db\<rparr> in
      if \<not> evidence_check (pg_evidence db) row then Err Sqlx
      else Ok (db\<lparr>pg_evidence := pg_evidence db @ [row]\<rparr>))"

subsection \<open>Admitting a claim\<close>

fun decision_of :: "(claim_accepted, claim_rejection) result \<Rightarrow> decision option" where
  "decision_of (Ok _) = Some Allowed"
| "decision_of (Err RejNotMonotonic) = Some NotMonotonic"
| "decision_of (Err RejNonceNotMonotonic) = Some NonceNotMonotonic"
| "decision_of (Err RejExceedsDeposit) = Some ExceedsDeposit"
| "decision_of (Err RejSessionExpired) = Some DSessionExpired"
| "decision_of (Err RejSessionSettled) = None"

definition upsert_claim_row :: "claim_row \<Rightarrow> pg \<Rightarrow> (nat \<times> pg, db_error) result" where
  \<comment> \<open>\<open>INSERT .. ON CONFLICT DO UPDATE .. WHERE\<close>: the rows affected\<close>
  "upsert_claim_row row db =
     (if \<not> claims_check row then Err Sqlx
      else case claim_row_of db (ct_session_pubkey row) of
        None \<Rightarrow> Ok (1, db\<lparr>pg_claims := pg_claims db @ [row]\<rparr>)
      | Some old \<Rightarrow>
          if sint (ct_cumulative_amount row) > sint (ct_cumulative_amount old)
             \<and> sint (ct_nonce row) > sint (ct_nonce old)
          then Ok (1, db\<lparr>pg_claims := map (\<lambda>r. if ct_session_pubkey r = ct_session_pubkey row
                             then row else r) (pg_claims db)\<rparr>)
          else Ok (0, db))"

definition current_mark :: "pg \<Rightarrow> string \<Rightarrow> (u64 \<times> u64 option, db_error) result" where
  "current_mark db session_key =
     (case claim_row_of db session_key of
        None \<Rightarrow> Ok (0, None)
      | Some r \<Rightarrow>
          (case to_u64 (ct_cumulative_amount r) ''cumulative_amount'' of Err e \<Rightarrow> Err e | Ok a \<Rightarrow>
           case to_u64 (ct_nonce r) ''nonce'' of Err e \<Rightarrow> Err e | Ok n \<Rightarrow> Ok (a, Some n)))"

definition locked_record ::
    "externals \<Rightarrow> pg \<Rightarrow> claim \<Rightarrow> session_row \<Rightarrow> (session_record, db_error) result" where
  \<comment> \<open>the record rebuilt from the locked session row and the current mark\<close>
  "locked_record X db c row =
     (case to_u64 (se_deposited_total row) ''deposited_total'' of Err e \<Rightarrow> Err e | Ok deposited \<Rightarrow>
      case current_mark db (pk_show X (cl_session c)) of Err e \<Rightarrow> Err e
      | Ok (cumulative_accepted, last_nonce) \<Rightarrow>
      case parse_pubkey X (se_agent_pubkey row) of Err e \<Rightarrow> Err e | Ok agent \<Rightarrow>
      case parse_pubkey X (se_provider_pubkey row) of Err e \<Rightarrow> Err e | Ok provider \<Rightarrow>
      case parse_pubkey X (se_mint_pubkey row) of Err e \<Rightarrow> Err e | Ok mint \<Rightarrow>
      Ok \<lparr>sr_key = cl_session c, sr_agent = agent, sr_provider = provider, sr_mint = mint,
            sr_deposited_total = deposited, sr_expires_at = se_expires_at row,
            sr_cumulative_accepted = cumulative_accepted, sr_last_nonce = last_nonce,
            sr_highest_claim = None, sr_is_settled = (se_settled_at row \<noteq> None),
            sr_chain_verified = se_chain_verified row\<rparr>)"

definition write_mark ::
    "externals \<Rightarrow> claim \<Rightarrow> sig64 \<Rightarrow> claim_accepted \<Rightarrow> pg \<Rightarrow> (nat \<times> pg, db_error) result" where
  "write_mark X c sig accepted db =
     (case to_i64 (ca_cumulative_amount accepted) ''cumulative_amount'' of Err e \<Rightarrow> Err e | Ok amount \<Rightarrow>
      case to_i64 (ca_nonce accepted) ''nonce'' of Err e \<Rightarrow> Err e | Ok nonce \<Rightarrow>
      upsert_claim_row \<lparr>ct_session_pubkey = pk_show X (cl_session c), ct_cumulative_amount = amount,
        ct_nonce = nonce, ct_expires_at = cl_expires_at c, ct_signature = to_le_bytes 64 sig\<rparr> db)"

definition upsert_claim_high_water_mark ::
    "externals \<Rightarrow> claim \<Rightarrow> sig64 \<Rightarrow> i64 \<Rightarrow> pg
      \<Rightarrow> ((claim_accepted, claim_rejection) result, db_error) result \<times> pg" where
  "upsert_claim_high_water_mark X c sig now db =
     (if \<not> pg_online db then (Err Sqlx, db)
      else case session_row_of db (pk_show X (cl_session c)) of
        None \<Rightarrow> (Err RowNotFound, db)
      | Some row \<Rightarrow>
      case locked_record X db c row of
        Err e \<Rightarrow> (Err e, db)
      | Ok rec \<Rightarrow>
      let outcome = evaluate_claim rec c now in
      case (case decision_of outcome of None \<Rightarrow> Ok db | Some d \<Rightarrow> append_evidence X db c d sig) of
        Err e \<Rightarrow> (Err e, db)
      | Ok db\<^sub>1 \<Rightarrow>
      case outcome of
        Err rejection \<Rightarrow> (Ok (Err rejection), db\<^sub>1)
      | Ok accepted \<Rightarrow>
      case write_mark X c sig accepted db\<^sub>1 of
        Err e \<Rightarrow> (Err e, db)
      | Ok (rows, db\<^sub>2) \<Rightarrow>
          if rows \<noteq> 1 then (Ok (Err RejNotMonotonic), db) else (Ok (Ok accepted), db\<^sub>2))"

subsection \<open>The \<open>SessionStore\<close> implementation\<close>

definition pg_open :: "externals \<Rightarrow> session_record \<Rightarrow> pg \<Rightarrow> (unit, store_error) result \<times> pg" where
  "pg_open X r db =
     (case save_session X r db of
        (Err e, db') \<Rightarrow> (Err (store_error_of e), db')
      | (Ok inserted, db') \<Rightarrow> (if inserted then Ok () else Err AlreadyOpen, db'))"

definition pg_get :: "externals \<Rightarrow> pubkey \<Rightarrow> pg \<Rightarrow> (session_record, store_error) result" where
  "pg_get X k db =
     (case load_session X k db of
        Err e \<Rightarrow> Err (store_error_of e) | Ok None \<Rightarrow> Err Unknown | Ok (Some r) \<Rightarrow> Ok r)"

definition pg_admit_claim :: "externals \<Rightarrow> claim \<Rightarrow> sig64 \<Rightarrow> i64 \<Rightarrow> pg \<Rightarrow> admit_result \<times> pg" where
  "pg_admit_claim X c sig now db =
     (case upsert_claim_high_water_mark X c sig now db of
        (Ok outcome, db') \<Rightarrow> (Ok outcome, db')
      | (Err RowNotFound, db') \<Rightarrow> (Err Unknown, db')
      | (Err e, db') \<Rightarrow> (Err (store_error_of e), db'))"

definition pg_mark_settled :: "externals \<Rightarrow> pubkey \<Rightarrow> pg \<Rightarrow> (unit, store_error) result \<times> pg" where
  "pg_mark_settled X k db =
     (case mark_session_settled X k db of
        (Err e, db') \<Rightarrow> (Err (store_error_of e), db') | (Ok _, db') \<Rightarrow> (Ok (), db'))"

definition pg_mark_chain_verified :: "externals \<Rightarrow> pubkey \<Rightarrow> pg \<Rightarrow> (unit, store_error) result \<times> pg" where
  "pg_mark_chain_verified X k db =
     (if \<not> pg_online db then (Err (store_error_of Sqlx), db)
      else let hit = (\<lambda>row. se_session_pubkey row = pk_show X k);
               db' = db\<lparr>pg_sessions := map (\<lambda>row. if hit row then row\<lparr>se_chain_verified := True\<rparr> else row)
                          (pg_sessions db)\<rparr> in
        if length (filter hit (pg_sessions db)) = 0 then (Err Unknown, db') else (Ok (), db'))"

end
