(* ===== verification/Pg_Refinement.thy ===== *)
theory Pg_Refinement
  imports Pg_Store
begin

section \<open>The durable store keeps the contract\<close>

text \<open>
  The invariant of the tables, kept by every operation; the durable store as an instance
  of the locale \<open>session_store\<close>; the evidence chain as an invariant of the log
  (whatever is admitted or refused, the stored chain verifies); and the refinement: while
  the database answers and the values fit a signed 64-bit column, the durable store
  returns what the in-memory store returns.
\<close>

subsection \<open>The invariant of the tables\<close>

definition row_ok :: "externals \<Rightarrow> session_row \<Rightarrow> bool" where
  "row_ok X r \<longleftrightarrow> (\<exists>k a p m. se_session_pubkey r = pk_show X k \<and> se_agent_pubkey r = pk_show X a
     \<and> se_provider_pubkey r = pk_show X p \<and> se_mint_pubkey r = pk_show X m)
     \<and> 0 < sint (se_deposited_total r)"

definition claim_ok :: "claim_row \<Rightarrow> bool" where
  "claim_ok ct \<longleftrightarrow> 0 < sint (ct_cumulative_amount ct) \<and> 0 \<le> sint (ct_nonce ct)
     \<and> length (ct_signature ct) = 64"

definition rows_of :: "externals \<Rightarrow> pg \<Rightarrow> pubkey \<Rightarrow> evidence_row list" where
  "rows_of X db k = filter (\<lambda>r. el_session_pubkey r = pk_show X k) (pg_evidence db)"

definition chain_stored :: "externals \<Rightarrow> pubkey \<Rightarrow> evidence_row list \<Rightarrow> bool" where
  \<comment> \<open>the rows decode to a chain that verifies, numbered from zero in insertion order\<close>
  "chain_stored X k rows \<longleftrightarrow>
     (\<forall>i < length rows. sint (el_sequence_id (rows ! i)) = int i)
   \<and> (\<exists>es. traverse evidence_entry_of rows = Ok es \<and> verify_chain X k es = Ok ())"

definition pg_inv :: "externals \<Rightarrow> pg \<Rightarrow> bool" where
  "pg_inv X db \<longleftrightarrow> pk_text_law X
   \<and> distinct (map se_session_pubkey (pg_sessions db)) \<and> (\<forall>r \<in> set (pg_sessions db). row_ok X r)
   \<and> distinct (map ct_session_pubkey (pg_claims db)) \<and> (\<forall>ct \<in> set (pg_claims db). claim_ok ct
        \<and> ct_session_pubkey ct \<in> se_session_pubkey ` set (pg_sessions db))
   \<and> (\<forall>k. chain_stored X k (rows_of X db k))"

lemma pg_inv_text: "pg_inv X db \<Longrightarrow> pk_text_law X"
  by (simp add: pg_inv_def)

definition pg_view :: "externals \<Rightarrow> pg \<Rightarrow> pubkey \<Rightarrow> session_record option" where
  "pg_view X db k = (case session_row_of db (pk_show X k) of
     None \<Rightarrow> None
   | Some row \<Rightarrow> (case row_to_record X row (claim_row_of db (pk_show X k)) of
       Ok r \<Rightarrow> Some r | Err _ \<Rightarrow> None))"

lemma find_SomeD: "find P xs = Some x \<Longrightarrow> x \<in> set xs \<and> P x"
  by (auto simp: find_Some_iff)

lemma session_row_ofD:
  "pg_inv X db \<Longrightarrow> session_row_of db key = Some row \<Longrightarrow> row_ok X row \<and> se_session_pubkey row = key"
  unfolding session_row_of_def pg_inv_def by (auto dest: find_SomeD)

lemma claim_row_ofD:
  "pg_inv X db \<Longrightarrow> claim_row_of db key = Some ct \<Longrightarrow> claim_ok ct \<and> ct_session_pubkey ct = key"
  unfolding claim_row_of_def pg_inv_def by (auto dest: find_SomeD)

lemma claim_needs_session:
  assumes "pg_inv X db" and "session_row_of db key = None"
  shows "claim_row_of db key = None"
proof (rule ccontr)
  assume "claim_row_of db key \<noteq> None"
  then obtain ct where "ct \<in> set (pg_claims db)" "ct_session_pubkey ct = key"
    by (auto simp: claim_row_of_def dest: find_SomeD)
  then obtain r where "r \<in> set (pg_sessions db)" "se_session_pubkey r = key"
    using assms(1) by (auto simp: pg_inv_def)
  then show False using assms(2) by (auto simp: session_row_of_def find_None_iff)
qed

subsection \<open>Decoding a row\<close>

lemma parse_pubkey_show [simp]: "pk_text_law X \<Longrightarrow> parse_pubkey X (pk_show X k) = Ok k"
  by (simp add: parse_pubkey_def)

lemma to_u64_Ok [simp]: "0 \<le> sint v \<Longrightarrow> to_u64 v f = Ok v"
  by (simp add: to_u64_def)

definition mark_of :: "pubkey \<Rightarrow> claim_row option \<Rightarrow> u64 \<times> u64 option \<times> signed_claim option" where
  "mark_of k ct = (case ct of None \<Rightarrow> (0, None, None) | Some ct \<Rightarrow>
     (ct_cumulative_amount ct, Some (ct_nonce ct), Some \<lparr>sc_claim = \<lparr>cl_session = k,
        cl_cumulative_amount = ct_cumulative_amount ct, cl_nonce = ct_nonce ct,
        cl_expires_at = ct_expires_at ct\<rparr>, sc_signature = from_le_bytes (ct_signature ct)\<rparr>))"

definition decoded :: "externals \<Rightarrow> pubkey \<Rightarrow> session_row \<Rightarrow> claim_row option \<Rightarrow> session_record" where
  "decoded X k row ct = \<lparr>sr_key = k, sr_agent = the (pk_parse X (se_agent_pubkey row)),
     sr_provider = the (pk_parse X (se_provider_pubkey row)),
     sr_mint = the (pk_parse X (se_mint_pubkey row)),
     sr_deposited_total = se_deposited_total row, sr_expires_at = se_expires_at row,
     sr_cumulative_accepted = fst (mark_of k ct), sr_last_nonce = fst (snd (mark_of k ct)),
     sr_highest_claim = snd (snd (mark_of k ct)), sr_is_settled = (se_settled_at row \<noteq> None),
     sr_chain_verified = se_chain_verified row\<rparr>"

lemma row_to_record_decoded:
  assumes "pk_text_law X" and "row_ok X row" and "se_session_pubkey row = pk_show X k"
    and "\<And>c. ct = Some c \<Longrightarrow> claim_ok c"
  shows "row_to_record X row ct = Ok (decoded X k row ct)"
  using assms
  by (cases ct) (auto simp: row_to_record_def decoded_def mark_of_def row_ok_def claim_ok_def)

lemma pg_view_decoded:
  assumes "pg_inv X db"
  shows "pg_view X db k = map_option (\<lambda>row. decoded X k row (claim_row_of db (pk_show X k)))
    (session_row_of db (pk_show X k))"
proof (cases "session_row_of db (pk_show X k)")
  case (Some row)
  then show ?thesis
    using row_to_record_decoded [OF pg_inv_text [OF assms], of row k "claim_row_of db (pk_show X k)"]
      session_row_ofD [OF assms Some] claim_row_ofD [OF assms]
    by (simp add: pg_view_def)
qed (simp add: pg_view_def)

lemma pg_get_view: "pg_inv X db \<Longrightarrow> pg_get X k db = Ok r \<Longrightarrow> pg_view X db k = Some r"
  by (auto simp: pg_get_def load_session_def pg_view_def session_row_ofD
      split: if_splits option.splits sum.splits)

subsection \<open>Opening\<close>

lemma pg_view_at:
  "session_row_of db' (pk_show X k) = session_row_of db (pk_show X k) \<Longrightarrow>
   claim_row_of db' (pk_show X k) = claim_row_of db (pk_show X k) \<Longrightarrow>
   pg_view X db' k = pg_view X db k"
  by (simp add: pg_view_def cong: option.case_cong)

lemma pg_view_cong:
  "pg_sessions db' = pg_sessions db \<Longrightarrow> pg_claims db' = pg_claims db \<Longrightarrow> pg_view X db' = pg_view X db"
  by (rule ext, rule pg_view_at) (simp_all add: session_row_of_def claim_row_of_def)

lemma rows_of_cong: "pg_evidence db' = pg_evidence db \<Longrightarrow> rows_of X db' k = rows_of X db k"
  by (simp add: rows_of_def)

definition new_row :: "externals \<Rightarrow> session_record \<Rightarrow> pg \<Rightarrow> session_row" where
  "new_row X r db = \<lparr>se_session_pubkey = pk_show X (sr_key r), se_agent_pubkey = pk_show X (sr_agent r),
     se_provider_pubkey = pk_show X (sr_provider r), se_mint_pubkey = pk_show X (sr_mint r),
     se_deposited_total = sr_deposited_total r, se_expires_at = sr_expires_at r,
     se_settled_at = None, se_chain_verified = sr_chain_verified r, se_created_at = pg_clock db\<rparr>"

lemma pg_open_cases:
  assumes "pg_open X r db = (res, db')"
  shows "res \<noteq> Ok () \<and> db' = db \<or>
    res = Ok () \<and> unat (sr_deposited_total r) < 2 ^ 63 \<and> sessions_check (new_row X r db)
      \<and> session_row_of db (pk_show X (sr_key r)) = None
      \<and> db' = db\<lparr>pg_sessions := pg_sessions db @ [new_row X r db]\<rparr>"
  using assms
  by (auto simp: pg_open_def save_session_def to_i64_def new_row_def Let_def
      split: if_splits sum.splits prod.splits)

lemma pg_open_inv:
  assumes "pg_inv X db" and "fresh_record r"
  shows "pg_inv X (snd (pg_open X r db))"
proof -
  consider "snd (pg_open X r db) = db"
    | "sessions_check (new_row X r db)" "session_row_of db (pk_show X (sr_key r)) = None"
      "snd (pg_open X r db) = db\<lparr>pg_sessions := pg_sessions db @ [new_row X r db]\<rparr>"
    using pg_open_cases [of X r db "fst (pg_open X r db)" "snd (pg_open X r db)"] by auto
  then show ?thesis
  proof cases
    case 2
    have "row_ok X (new_row X r db)"
      using 2(1) by (auto simp: row_ok_def new_row_def sessions_check_def)
    moreover have "pk_show X (sr_key r) \<notin> se_session_pubkey ` set (pg_sessions db)"
      using 2(2) by (auto simp: session_row_of_def find_None_iff)
    ultimately show ?thesis
      using assms(1) unfolding 2(3) by (auto simp: pg_inv_def rows_of_def new_row_def)
  qed (use assms in simp)
qed

lemma pg_open_view:
  assumes "pg_inv X db" and "fresh_record r" and "pg_open X r db = (res, db')"
  shows "if res = Ok () then pg_view X db (sr_key r) = None
      \<and> pg_view X db' = (pg_view X db)(sr_key r \<mapsto> r) else pg_view X db' = pg_view X db"
proof (cases "res = Ok ()")
  case True
  with pg_open_cases [OF assms(3)] have
    c: "unat (sr_deposited_total r) < 2 ^ 63" "session_row_of db (pk_show X (sr_key r)) = None"
      "db' = db\<lparr>pg_sessions := pg_sessions db @ [new_row X r db]\<rparr>" by auto
  note X = pg_inv_text [OF assms(1)]
  have inv': "pg_inv X db'" using pg_open_inv [OF assms(1,2)] assms(3) by simp
  have none: "claim_row_of db (pk_show X (sr_key r)) = None"
    using claim_needs_session [OF assms(1) c(2)] .
  have "pg_view X db' k = ((pg_view X db)(sr_key r \<mapsto> r)) k" for k
  proof (cases "k = sr_key r")
    case True
    have "session_row_of db' (pk_show X k) = Some (new_row X r db)"
      using c(2,3) True by (simp add: session_row_of_def find_append new_row_def)
    moreover have "claim_row_of db' (pk_show X k) = None"
      using none c(3) True by (simp add: claim_row_of_def)
    moreover have "decoded X k (new_row X r db) None = r"
      using assms(2) X True by (cases r) (simp add: decoded_def mark_of_def new_row_def fresh_record_def)
    ultimately show ?thesis using True by (simp add: pg_view_decoded [OF inv'])
  next
    case False
    then have "session_row_of db' (pk_show X k) = session_row_of db (pk_show X k)"
      using c(3) pk_show_inject [OF X]
      by (simp add: session_row_of_def find_append new_row_def split: option.splits)
    then have "pg_view X db' k = pg_view X db k"
      by (rule pg_view_at) (simp add: c(3) claim_row_of_def)
    then show ?thesis using False by simp
  qed
  then show ?thesis using True c(2) by (auto simp: pg_view_def)
next
  case False
  then show ?thesis using pg_open_cases [OF assms(3)] by auto
qed

subsection \<open>Flags\<close>

text \<open>
  The two \<open>UPDATE sessions\<close> statements change one column of the row of a session.
\<close>

lemma update_sessions_inv:
  assumes "pg_inv X db" and "db' = db\<lparr>pg_sessions := map f (pg_sessions db)\<rparr>"
    and "\<And>r. se_session_pubkey (f r) = se_session_pubkey r" and "\<And>r. row_ok X r \<Longrightarrow> row_ok X (f r)"
  shows "pg_inv X db'"
proof -
  have "se_session_pubkey \<circ> f = se_session_pubkey" using assms(3) by (simp add: fun_eq_iff)
  moreover have "se_session_pubkey ` f ` S = se_session_pubkey ` S" for S
    using assms(3) by (auto simp: image_iff)
  ultimately show ?thesis
    using assms(1,4) unfolding assms(2) by (auto simp: pg_inv_def rows_of_def)
qed

lemma update_sessions_view:
  assumes "pg_inv X db" and "db' = db\<lparr>pg_sessions := map f (pg_sessions db)\<rparr>"
    and "\<And>r. se_session_pubkey (f r) = se_session_pubkey r" and "\<And>r. row_ok X r \<Longrightarrow> row_ok X (f r)"
  shows "pg_view X db' k = map_option (\<lambda>row. decoded X k (f row) (claim_row_of db (pk_show X k)))
    (session_row_of db (pk_show X k))"
proof -
  have "pg_inv X db'" using update_sessions_inv [OF assms] .
  moreover have "session_row_of db' (pk_show X k) = map_option f (session_row_of db (pk_show X k))"
    unfolding session_row_of_def assms(2) using assms(3) by (simp add: find_map)
  moreover have "claim_row_of db' (pk_show X k) = claim_row_of db (pk_show X k)"
    by (simp add: assms(2) claim_row_of_def)
  ultimately show ?thesis by (simp add: pg_view_decoded option.map_comp comp_def)
qed

definition settle_row :: "externals \<Rightarrow> pubkey \<Rightarrow> pg \<Rightarrow> session_row \<Rightarrow> session_row" where
  "settle_row X k db row = (if se_session_pubkey row = pk_show X k \<and> se_settled_at row = None
     then row\<lparr>se_settled_at := Some (pg_clock db)\<rparr> else row)"

definition verify_row :: "externals \<Rightarrow> pubkey \<Rightarrow> session_row \<Rightarrow> session_row" where
  "verify_row X k row = (if se_session_pubkey row = pk_show X k
     then row\<lparr>se_chain_verified := True\<rparr> else row)"

lemma flag_rows [simp]:
  "se_session_pubkey (settle_row X k db r) = se_session_pubkey r"
  "se_session_pubkey (verify_row X k r) = se_session_pubkey r"
  "row_ok X (settle_row X k db r) = row_ok X r" "row_ok X (verify_row X k r) = row_ok X r"
  by (simp_all add: settle_row_def verify_row_def row_ok_def)

lemma pg_mark_settled_state:
  "snd (pg_mark_settled X k db) = (if pg_online db
     then db\<lparr>pg_sessions := map (settle_row X k db) (pg_sessions db)\<rparr> else db)"
  by (auto simp: pg_mark_settled_def mark_session_settled_def settle_row_def Let_def)

lemma pg_mark_chain_verified_state:
  "snd (pg_mark_chain_verified X k db) = (if pg_online db
     then db\<lparr>pg_sessions := map (verify_row X k) (pg_sessions db)\<rparr> else db)"
  by (auto simp: pg_mark_chain_verified_def verify_row_def Let_def)

lemma pg_mark_settled_inv: "pg_inv X db \<Longrightarrow> pg_inv X (snd (pg_mark_settled X k db))"
  by (auto simp: pg_mark_settled_state intro!: update_sessions_inv [of X db _ "settle_row X k db"])

lemma pg_mark_chain_verified_inv: "pg_inv X db \<Longrightarrow> pg_inv X (snd (pg_mark_chain_verified X k db))"
  by (auto simp: pg_mark_chain_verified_state intro!: update_sessions_inv [of X db _ "verify_row X k"])

lemma pg_mark_settled_view:
  assumes "pg_inv X db" and "pg_online db"
  shows "pg_view X (snd (pg_mark_settled X k db)) = (case pg_view X db k of
    None \<Rightarrow> pg_view X db | Some r \<Rightarrow> (pg_view X db)(k \<mapsto> r\<lparr>sr_is_settled := True\<rparr>))"
proof
  fix k'
  have "pg_view X (snd (pg_mark_settled X k db)) k'
      = map_option (\<lambda>row. decoded X k' (settle_row X k db row) (claim_row_of db (pk_show X k')))
          (session_row_of db (pk_show X k'))"
    using assms by (intro update_sessions_view) (simp_all add: pg_mark_settled_state)
  moreover have "decoded X k' (settle_row X k db row) ct = (if k' = k
      then (decoded X k' row ct)\<lparr>sr_is_settled := True\<rparr> else decoded X k' row ct)"
    if "session_row_of db (pk_show X k') = Some row" for row ct
    using session_row_ofD [OF assms(1) that] pk_show_inject [OF pg_inv_text [OF assms(1)]]
    by (auto simp: settle_row_def decoded_def)
  ultimately show "pg_view X (snd (pg_mark_settled X k db)) k' = (case pg_view X db k of
    None \<Rightarrow> pg_view X db | Some r \<Rightarrow> (pg_view X db)(k \<mapsto> r\<lparr>sr_is_settled := True\<rparr>)) k'"
    by (cases "session_row_of db (pk_show X k')") (auto simp: pg_view_decoded [OF assms(1)] split: option.splits)
qed

lemma pg_mark_chain_verified_view:
  assumes "pg_inv X db" and "pg_online db"
  shows "pg_view X (snd (pg_mark_chain_verified X k db)) = (case pg_view X db k of
    None \<Rightarrow> pg_view X db | Some r \<Rightarrow> (pg_view X db)(k \<mapsto> r\<lparr>sr_chain_verified := True\<rparr>))"
proof
  fix k'
  have "pg_view X (snd (pg_mark_chain_verified X k db)) k'
      = map_option (\<lambda>row. decoded X k' (verify_row X k row) (claim_row_of db (pk_show X k')))
          (session_row_of db (pk_show X k'))"
    using assms by (intro update_sessions_view) (simp_all add: pg_mark_chain_verified_state)
  moreover have "decoded X k' (verify_row X k row) ct = (if k' = k
      then (decoded X k' row ct)\<lparr>sr_chain_verified := True\<rparr> else decoded X k' row ct)"
    if "session_row_of db (pk_show X k') = Some row" for row ct
    using session_row_ofD [OF assms(1) that] pk_show_inject [OF pg_inv_text [OF assms(1)]]
    by (auto simp: verify_row_def decoded_def)
  ultimately show "pg_view X (snd (pg_mark_chain_verified X k db)) k' = (case pg_view X db k of
    None \<Rightarrow> pg_view X db | Some r \<Rightarrow> (pg_view X db)(k \<mapsto> r\<lparr>sr_chain_verified := True\<rparr>)) k'"
    by (cases "session_row_of db (pk_show X k')") (auto simp: pg_view_decoded [OF assms(1)] split: option.splits)
qed

subsection \<open>Appending evidence\<close>

lemma hash_of_bytes_32 [simp]: "hash_of_bytes (to_le_bytes 32 h) = Ok h"
  by (simp add: hash_of_bytes_def)

lemma clamp_nonneg [simp]: "0 \<le> sint (clamp_i64 v)"
proof -
  have "unat (clamp_i64 v) \<le> unat i64_max"
    by (simp add: clamp_i64_def word_le_nat_alt)
  moreover have "unat i64_max < 2 ^ 63" by (simp add: i64_max_def)
  ultimately show ?thesis by (simp add: sint_nonneg)
qed

lemma chain_stored_sorted:
  assumes "chain_stored X k rows"
  shows "sort_key (\<lambda>r. sint (el_sequence_id r)) rows = rows"
proof (rule sort_key_id_if_sorted)
  show "sorted (map (\<lambda>r. sint (el_sequence_id r)) rows)"
    using assms by (auto simp: sorted_iff_nth_mono chain_stored_def)
qed

lemma evidence_of_rows: "chain_stored X k (rows_of X db k) \<Longrightarrow> evidence_of db (pk_show X k) = rows_of X db k"
  using chain_stored_sorted by (simp add: evidence_of_def rows_of_def)

lemma traverse_last:
  assumes "traverse f xs = Ok ys" and "xs \<noteq> []"
  shows "ys \<noteq> [] \<and> f (last xs) = Ok (last ys)"
proof -
  note t = traverse_OkD [OF assms(1)]
  then have "ys \<noteq> []" using assms(2) by auto
  moreover have "f (xs ! (length xs - 1)) = Ok (ys ! (length xs - 1))" using t assms(2) by simp
  ultimately show ?thesis using t assms(2) by (simp add: last_conv_nth)
qed

lemma evidence_entry_of_hash:
  "evidence_entry_of r = Ok e \<Longrightarrow> hash_of_bytes (el_entry_hash r) = Ok (ev_entry_hash e)"
  by (auto simp: evidence_entry_of_def split: sum.splits)

lemma append_evidence_cases:
  assumes "append_evidence X db c d sig = Ok db'" and "chain_stored X (cl_session c) (rows_of X db (cl_session c))"
    and es: "traverse evidence_entry_of (rows_of X db (cl_session c)) = Ok es"
  obtains row e where
    "db' = db\<lparr>pg_evidence := pg_evidence db @ [row]\<rparr>"
    "el_session_pubkey row = pk_show X (cl_session c)"
    "sint (el_sequence_id row) = int (length es)"
    "evidence_entry_of row = Ok e" "ev_sequence_id e = el_sequence_id row"
    "ev_cumulative_amount e = clamp_i64 (cl_cumulative_amount c)"
    "ev_nonce e = clamp_i64 (cl_nonce c)" "ev_decision e = as_str d"
    "ev_prev_hash e = chain_head es" "ev_entry_hash e = sha256 X (preimage_of (cl_session c) e)"
proof -
  let ?k = "cl_session c" and ?rows = "rows_of X db (cl_session c)"
  define row where "row seq = \<lparr>el_session_pubkey = pk_show X ?k, el_sequence_id = seq,
       el_cumulative_amount = clamp_i64 (cl_cumulative_amount c), el_nonce = clamp_i64 (cl_nonce c),
       el_decision = as_str d, el_prev_hash = to_le_bytes 32 (chain_head es),
       el_entry_hash = to_le_bytes 32 (compute_entry_hash X (chain_head es) ?k
         (clamp_i64 (cl_cumulative_amount c)) (clamp_i64 (cl_nonce c)) (as_str d)),
       el_signature = to_le_bytes 64 sig, el_created_at = pg_clock db\<rparr>" for seq
  have len: "length es = length ?rows" using traverse_OkD [OF es] by simp
  obtain seq where seq: "sint seq = int (length es)"
    and db': "db' = db\<lparr>pg_evidence := pg_evidence db @ [row seq]\<rparr>"
  proof (cases "?rows = []")
    case True
    then have "es = []" using len by simp
    then show ?thesis
      using True assms(1) that [of 0]
      by (auto simp: append_evidence_def evidence_of_rows [OF assms(2)] Let_def row_def chain_head_def
          split: if_splits)
  next
    case False
    from traverse_last [OF es False] have e: "es \<noteq> []"
      "hash_of_bytes (el_entry_hash (last ?rows)) = Ok (ev_entry_hash (last es))"
      using evidence_entry_of_hash by blast+
    then have head: "hash_of_bytes (el_entry_hash (last ?rows)) = Ok (chain_head es)"
      by (simp add: chain_head_def)
    have "sint (el_sequence_id (last ?rows)) = int (length ?rows - 1)"
      using assms(2) False by (simp add: chain_stored_def last_conv_nth)
    moreover obtain seq where s: "checked_add_i64 (el_sequence_id (last ?rows)) 1 = Some seq"
      "db' = db\<lparr>pg_evidence := pg_evidence db @ [row seq]\<rparr>"
      using False assms(1)
      by (auto simp: append_evidence_def evidence_of_rows [OF assms(2)] Let_def row_def head
          split: if_splits option.splits)
    moreover obtain n where "length ?rows = Suc n" using False by (cases ?rows) auto
    ultimately have "sint seq = int (length es)"
      using checked_add_i64_sint [OF s(1)] len by simp
    then show ?thesis using that s(2) by blast
  qed
  show ?thesis
    by (rule that [OF db', of "\<lparr>ev_sequence_id = seq,
       ev_cumulative_amount = clamp_i64 (cl_cumulative_amount c), ev_nonce = clamp_i64 (cl_nonce c),
       ev_decision = as_str d, ev_prev_hash = chain_head es,
       ev_entry_hash = compute_entry_hash X (chain_head es) (cl_session c)
         (clamp_i64 (cl_cumulative_amount c)) (clamp_i64 (cl_nonce c)) (as_str d)\<rparr>"])
      (simp_all add: row_def seq evidence_entry_of_def preimage_of_def compute_entry_hash_def)
qed

lemma of_nat_sint: "sint (w :: i64) = int n \<Longrightarrow> w = of_nat n"
proof -
  assume "sint w = int n"
  then have "of_int (sint w) = (of_int (int n) :: i64)" by (rule arg_cong)
  then show ?thesis by simp
qed

lemma rows_of_append:
  "rows_of X (db\<lparr>pg_evidence := pg_evidence db @ [row]\<rparr>) k =
     rows_of X db k @ (if el_session_pubkey row = pk_show X k then [row] else [])"
  by (simp add: rows_of_def)

lemma append_evidence_chain:
  assumes "pk_text_law X" and "append_evidence X db c d sig = Ok db'"
    and "\<forall>k. chain_stored X k (rows_of X db k)"
  shows "\<forall>k. chain_stored X k (rows_of X db' k)"
proof
  fix k
  let ?k = "cl_session c"
  have ck: "chain_stored X ?k (rows_of X db ?k)" using assms(3) by blast
  then obtain es where es: "traverse evidence_entry_of (rows_of X db ?k) = Ok es"
    "verify_chain X ?k es = Ok ()" by (auto simp: chain_stored_def)
  from append_evidence_cases [OF assms(2) ck es(1)] obtain row e where row:
    "db' = db\<lparr>pg_evidence := pg_evidence db @ [row]\<rparr>"
    "el_session_pubkey row = pk_show X ?k" "sint (el_sequence_id row) = int (length es)"
    "evidence_entry_of row = Ok e" "ev_sequence_id e = el_sequence_id row"
    "ev_prev_hash e = chain_head es" "ev_entry_hash e = sha256 X (preimage_of ?k e)"
    by metis
  show "chain_stored X k (rows_of X db' k)"
  proof (cases "k = ?k")
    case True
    have "next_entry X ?k es e"
      using row of_nat_sint [OF row(3)] by (simp add: next_entry_def)
    then have "verify_chain X ?k (es @ [e]) = Ok ()" using es(2) by (simp add: verify_chain_snoc)
    moreover have "traverse evidence_entry_of (rows_of X db' k) = Ok (es @ [e])"
      using True es(1) row(1,2,4) by (simp add: rows_of_append traverse_append)
    moreover have "length es = length (rows_of X db ?k)" using traverse_OkD [OF es(1)] by simp
    ultimately show ?thesis
      using True ck row(1-3)
      by (auto simp: chain_stored_def rows_of_append nth_append less_Suc_eq)
  next
    case False
    then have "rows_of X db' k = rows_of X db k"
      using row(1,2) pk_show_inject [OF assms(1)] by (simp add: rows_of_append)
    then show ?thesis using assms(3) by simp
  qed
qed

lemma append_evidence_frame:
  assumes "append_evidence X db c d sig = Ok db'"
  shows "pg_sessions db' = pg_sessions db" and "pg_claims db' = pg_claims db"
    and "pg_online db' = pg_online db"
  using assms by (auto simp: append_evidence_def Let_def split: if_splits sum.splits)

subsection \<open>Admitting a claim\<close>

lemma append_evidence_inv:
  assumes "pg_inv X db" and "append_evidence X db c d sig = Ok db'"
  shows "pg_inv X db'"
  using assms append_evidence_chain [OF pg_inv_text [OF assms(1)] assms(2)]
    append_evidence_frame [OF assms(2)]
  by (simp add: pg_inv_def)

lemma locked_record_view:
  assumes "pg_inv X db" and "session_row_of db (pk_show X (cl_session c)) = Some row"
  shows "\<exists>r. pg_view X db (cl_session c) = Some r
    \<and> locked_record X db c row = Ok (r\<lparr>sr_highest_claim := None\<rparr>)"
proof -
  let ?k = "cl_session c"
  let ?ct = "claim_row_of db (pk_show X ?k)"
  have row: "row_ok X row" "se_session_pubkey row = pk_show X ?k"
    using session_row_ofD [OF assms] by simp_all
  have "current_mark db (pk_show X ?k) = Ok (fst (mark_of ?k ?ct), fst (snd (mark_of ?k ?ct)))"
    using claim_row_ofD [OF assms(1), of "pk_show X ?k"]
    by (cases ?ct) (auto simp: current_mark_def mark_of_def claim_ok_def)
  then have "locked_record X db c row = Ok ((decoded X ?k row ?ct)\<lparr>sr_highest_claim := None\<rparr>)"
    using row pg_inv_text [OF assms(1)]
    by (auto simp: locked_record_def decoded_def row_ok_def)
  then show ?thesis using assms by (simp add: pg_view_decoded)
qed

lemma evaluate_claim_ignores_highest [simp]:
  "evaluate_claim (r\<lparr>sr_highest_claim := h\<rparr>) c now = evaluate_claim r c now"
  by (simp add: evaluate_claim_def Let_def split: option.splits)

lemma find_replace:
  "distinct (map key xs) \<Longrightarrow> find (\<lambda>r. key r = k) (map (\<lambda>r. if key r = key new then new else r) xs)
     = (if k = key new \<and> key new \<in> key ` set xs then Some new else find (\<lambda>r. key r = k) xs)"
  by (induction xs) auto

definition ticket :: "externals \<Rightarrow> claim \<Rightarrow> sig64 \<Rightarrow> claim_row" where
  "ticket X c sig = \<lparr>ct_session_pubkey = pk_show X (cl_session c),
     ct_cumulative_amount = cl_cumulative_amount c, ct_nonce = cl_nonce c,
     ct_expires_at = cl_expires_at c, ct_signature = to_le_bytes 64 sig\<rparr>"

lemma write_mark_cases:
  assumes "write_mark X c sig a db = Ok (n, db')"
    and "ca_cumulative_amount a = cl_cumulative_amount c" and "ca_nonce a = cl_nonce c"
  shows "(n = 0 \<and> db' = db) \<or> (n = 1 \<and> claims_check (ticket X c sig) \<and>
    (claim_row_of db (pk_show X (cl_session c)) = None
       \<and> db' = db\<lparr>pg_claims := pg_claims db @ [ticket X c sig]\<rparr>
     \<or> claim_row_of db (pk_show X (cl_session c)) \<noteq> None
       \<and> db' = db\<lparr>pg_claims := map (\<lambda>r. if ct_session_pubkey r = ct_session_pubkey (ticket X c sig)
           then ticket X c sig else r) (pg_claims db)\<rparr>))"
  using assms
  by (auto simp: write_mark_def to_i64_def upsert_claim_row_def ticket_def split: if_splits option.splits)

lemma write_mark_claims:
  assumes "pg_inv X db" and "write_mark X c sig a db = Ok (1, db')"
    and "ca_cumulative_amount a = cl_cumulative_amount c" and "ca_nonce a = cl_nonce c"
  shows "claims_check (ticket X c sig) \<and> pg_sessions db' = pg_sessions db
    \<and> pg_evidence db' = pg_evidence db
    \<and> distinct (map ct_session_pubkey (pg_claims db'))
    \<and> set (pg_claims db') \<subseteq> insert (ticket X c sig) (set (pg_claims db))
    \<and> claim_row_of db' key = (if key = pk_show X (cl_session c) then Some (ticket X c sig)
        else claim_row_of db key)"
proof -
  have key: "ct_session_pubkey (ticket X c sig) = pk_show X (cl_session c)" by (simp add: ticket_def)
  have d: "distinct (map ct_session_pubkey (pg_claims db))" using assms(1) by (simp add: pg_inv_def)
  note cs = write_mark_cases [OF assms(2-4)]
  show ?thesis
  proof (cases "claim_row_of db (pk_show X (cl_session c))")
    case None
    then have "pk_show X (cl_session c) \<notin> ct_session_pubkey ` set (pg_claims db)"
      by (auto simp: claim_row_of_def find_None_iff)
    then show ?thesis
      using cs None d key by (auto simp: claim_row_of_def find_append split: option.splits)
  next
    case (Some ct)
    from find_SomeD [OF this [unfolded claim_row_of_def]]
    have mem: "pk_show X (cl_session c) \<in> ct_session_pubkey ` set (pg_claims db)"
      by (intro rev_image_eqI [of ct]) simp_all
    have db': "claims_check (ticket X c sig)"
      "db' = db\<lparr>pg_claims := map (\<lambda>r. if ct_session_pubkey r = ct_session_pubkey (ticket X c sig)
           then ticket X c sig else r) (pg_claims db)\<rparr>" using cs Some by auto
    have "map ct_session_pubkey (pg_claims db') = map ct_session_pubkey (pg_claims db)"
      using key by (simp add: db'(2))
    then have "distinct (map ct_session_pubkey (pg_claims db'))" using d by simp
    moreover have "claim_row_of db' key = (if key = pk_show X (cl_session c) then Some (ticket X c sig)
        else claim_row_of db key)"
      using mem find_replace [OF d, of key "ticket X c sig"] key by (simp add: claim_row_of_def db'(2))
    ultimately show ?thesis using db' by auto
  qed
qed

lemma write_mark_inv:
  assumes "pg_inv X db" and "write_mark X c sig a db = Ok (1, db')"
    and "ca_cumulative_amount a = cl_cumulative_amount c" and "ca_nonce a = cl_nonce c"
    and "session_row_of db (pk_show X (cl_session c)) = Some row"
  shows "pg_inv X db'"
proof -
  note w = write_mark_claims [OF assms(1-4)]
  have "claim_ok (ticket X c sig)" using w by (simp add: claims_check_def claim_ok_def)
  moreover have "ct_session_pubkey (ticket X c sig) \<in> se_session_pubkey ` set (pg_sessions db)"
    using find_SomeD [OF assms(5) [unfolded session_row_of_def]]
    by (intro rev_image_eqI [of row]) (simp_all add: ticket_def)
  moreover have "rows_of X db' = rows_of X db" using w by (simp add: rows_of_def fun_eq_iff)
  moreover have "set (pg_claims db') \<subseteq> insert (ticket X c sig) (set (pg_claims db))"
    "pg_sessions db' = pg_sessions db" "distinct (map ct_session_pubkey (pg_claims db'))"
    using w by simp_all
  moreover from this(1) have "\<forall>ct \<in> set (pg_claims db'). ct = ticket X c sig \<or> ct \<in> set (pg_claims db)"
    by blast
  ultimately show ?thesis using assms(1) unfolding pg_inv_def by metis
qed

lemma write_mark_view:
  assumes "pg_inv X db" and "write_mark X c sig a db = Ok (1, db')"
    and "ca_cumulative_amount a = cl_cumulative_amount c" and "ca_nonce a = cl_nonce c"
    and "pg_view X db (cl_session c) = Some r"
  shows "pg_view X db' = (pg_view X db)(cl_session c \<mapsto> advance r c sig)"
proof
  fix k
  let ?k = "cl_session c"
  note w = write_mark_claims [OF assms(1-4)]
  obtain row where row: "session_row_of db (pk_show X ?k) = Some row"
    using assms(5) by (auto simp: pg_view_def split: option.splits)
  have inv': "pg_inv X db'" using write_mark_inv [OF assms(1-4) row] .
  have srow: "session_row_of db' key = session_row_of db key" for key
    using w by (simp add: session_row_of_def)
  show "pg_view X db' k = ((pg_view X db)(?k \<mapsto> advance r c sig)) k"
  proof (cases "k = ?k")
    case True
    have "decoded X ?k row (Some (ticket X c sig)) = advance (decoded X ?k row ct) c sig" for ct
      by (simp add: decoded_def mark_of_def ticket_def advance_def)
    then show ?thesis
      using True row assms(5) w by (auto simp: pg_view_decoded [OF inv'] pg_view_decoded [OF assms(1)] srow)
  next
    case False
    then have "pk_show X k \<noteq> pk_show X ?k" using pk_show_inject [OF pg_inv_text [OF assms(1)]] by simp
    then have "pg_view X db' k = pg_view X db k"
      using w by (intro pg_view_at) (simp_all add: srow)
    then show ?thesis using False by simp
  qed
qed

lemma append_evidence_view:
  "append_evidence X db c d sig = Ok db' \<Longrightarrow> pg_view X db' = pg_view X db"
  using append_evidence_frame pg_view_cong by metis

text \<open>
  The transaction, case by case: it fails and changes nothing, it refuses the claim and
  at most appends evidence, or it accepts the claim, appends evidence and moves the mark.
\<close>

lemma upsert_cases:
  assumes inv: "pg_inv X db" and up: "upsert_claim_high_water_mark X c sig now db = (res, db')"
  obtains (failed) e where "res = Err e" "db' = db"
  | (refused) r rej where "res = Ok (Err rej)" "pg_view X db (cl_session c) = Some r"
      "pg_inv X db'" "pg_view X db' = pg_view X db" "db' = db \<or> evaluate_claim r c now = Err rej"
  | (accepted) r a db\<^sub>1 where "res = Ok (Ok a)" "pg_view X db (cl_session c) = Some r"
      "evaluate_claim r c now = Ok a" "append_evidence X db c Allowed sig = Ok db\<^sub>1"
      "write_mark X c sig a db\<^sub>1 = Ok (1, db')" "pg_inv X db'"
      "pg_view X db' = (pg_view X db)(cl_session c \<mapsto> advance r c sig)"
proof (cases "session_row_of db (pk_show X (cl_session c))")
  case None
  then show ?thesis
    using up failed by (auto simp: upsert_claim_high_water_mark_def split: if_splits)
next
  case (Some row)
  from locked_record_view [OF inv Some] obtain r where r: "pg_view X db (cl_session c) = Some r"
    "locked_record X db c row = Ok (r\<lparr>sr_highest_claim := None\<rparr>)" by blast
  define st where "st = (case decision_of (evaluate_claim r c now) of
      None \<Rightarrow> Ok db | Some d \<Rightarrow> append_evidence X db c d sig)"
  have st_inv: "pg_inv X db\<^sub>1 \<and> pg_view X db\<^sub>1 = pg_view X db" if "st = Ok db\<^sub>1" for db\<^sub>1
    using that inv append_evidence_inv append_evidence_view
    by (auto simp: st_def split: option.splits)
  have up': "pg_online db \<Longrightarrow> (res, db') = (case st of Err e \<Rightarrow> (Err e, db) | Ok db\<^sub>1 \<Rightarrow>
      (case evaluate_claim r c now of Err rej \<Rightarrow> (Ok (Err rej), db\<^sub>1) | Ok a \<Rightarrow>
       (case write_mark X c sig a db\<^sub>1 of Err e \<Rightarrow> (Err e, db)
        | Ok (n, db\<^sub>2) \<Rightarrow> if n \<noteq> 1 then (Ok (Err RejNotMonotonic), db) else (Ok (Ok a), db\<^sub>2))))"
    using up Some r(2) by (simp add: upsert_claim_high_water_mark_def Let_def st_def)
  show ?thesis
  proof (cases "pg_online db")
    case False
    then show ?thesis using up failed [of Sqlx] by (auto simp: upsert_claim_high_water_mark_def)
  next
    case True
    note u = up' [OF True]
    show ?thesis
    proof (cases st)
      case (Inl e)
      then show ?thesis using u failed by simp
    next
      case (Inr db\<^sub>1)
      show ?thesis
      proof (cases "evaluate_claim r c now")
        case (Inl rej)
        then show ?thesis using u \<open>st = Ok db\<^sub>1\<close> st_inv r(1) refused by simp
      next
        case a: (Inr a)
        have st: "append_evidence X db c Allowed sig = Ok db\<^sub>1" using a Inr by (simp add: st_def)
        have ca: "ca_cumulative_amount a = cl_cumulative_amount c" "ca_nonce a = cl_nonce c"
          using a by (auto simp: evaluate_claim_Ok)
        show ?thesis
        proof (cases "write_mark X c sig a db\<^sub>1")
          case (Inl e)
          then show ?thesis using u \<open>st = Ok db\<^sub>1\<close> a failed by simp
        next
          case w: (Inr p)
          obtain n db\<^sub>2 where p: "p = (n, db\<^sub>2)" by fastforce
          show ?thesis
          proof (cases "n = 1")
            case True
            have res: "res = Ok (Ok a)" "db' = db\<^sub>2" using u \<open>st = Ok db\<^sub>1\<close> a w p True by simp_all
            have w1: "write_mark X c sig a db\<^sub>1 = Ok (1, db')" using w p True res by simp
            note i = st_inv [OF \<open>st = Ok db\<^sub>1\<close>]
            have row1: "session_row_of db\<^sub>1 (pk_show X (cl_session c)) = Some row"
              using append_evidence_frame(1) [OF st] Some by (simp add: session_row_of_def)
            have v1: "pg_view X db\<^sub>1 (cl_session c) = Some r" using i r(1) by simp
            show ?thesis
              using accepted [OF res(1) r(1) a st w1]
                write_mark_inv [OF conjunct1 [OF i] w1 ca row1]
                write_mark_view [OF conjunct1 [OF i] w1 ca v1] i by simp
          next
            case False
            then show ?thesis using u \<open>st = Ok db\<^sub>1\<close> a w p inv r(1) refused by simp
          qed
        qed
      qed
    qed
  qed
qed

lemma pg_admit_claim_state: "snd (pg_admit_claim X c sig now db) = snd (upsert_claim_high_water_mark X c sig now db)"
  by (auto simp: pg_admit_claim_def split: prod.splits sum.splits db_error.splits)

lemma pg_admit_claim_result:
  "fst (pg_admit_claim X c sig now db) = Ok o1 \<longleftrightarrow> fst (upsert_claim_high_water_mark X c sig now db) = Ok o1"
  by (auto simp: pg_admit_claim_def split: prod.splits sum.splits db_error.splits)

lemma pg_admit_claim_inv: "pg_inv X db \<Longrightarrow> pg_inv X (snd (pg_admit_claim X c sig now db))"
  unfolding pg_admit_claim_state
  by (rule upsert_cases [of X db c sig now "fst (upsert_claim_high_water_mark X c sig now db)"]) auto

lemma pg_admit_claim_view:
  assumes "pg_inv X db" and "pg_admit_claim X c sig now db = (res, db')"
  shows "case res of
         Ok (Ok a) \<Rightarrow> (\<exists>r. pg_view X db (cl_session c) = Some r \<and> evaluate_claim r c now = Ok a
             \<and> pg_view X db' = (pg_view X db)(cl_session c \<mapsto> advance r c sig))
       | _ \<Rightarrow> pg_view X db' = pg_view X db"
proof -
  obtain ures where up: "upsert_claim_high_water_mark X c sig now db = (ures, db')"
    using assms(2) pg_admit_claim_state [of X c sig now db] by (cases "upsert_claim_high_water_mark X c sig now db") simp
  have res: "res = Ok o1 \<longleftrightarrow> ures = Ok o1" for o1
    using pg_admit_claim_result [of X c sig now db o1] assms(2) up by simp
  from assms(1) up show ?thesis
  proof (cases rule: upsert_cases)
    case (failed e)
    then show ?thesis using res [of "projr res"] by (cases res) simp_all
  next
    case (refused r rej)
    then show ?thesis using res [of "Err rej"] by simp
  next
    case (accepted r a db\<^sub>1)
    then show ?thesis using res [of "Ok a"] by simp
  qed
qed

interpretation pgs: session_store "pg_view X" "pg_inv X" "pg_open X" "pg_get X" "pg_admit_claim X"
  "pg_mark_settled X" "pg_mark_chain_verified X" for X
proof unfold_locales
  fix s k res s' assume i: "pg_inv X s"
  show "pg_mark_settled X k s = (res, s') \<Longrightarrow> pg_view X s' = pg_view X s
      \<or> (\<exists>r. pg_view X s k = Some r \<and> pg_view X s' = (pg_view X s)(k \<mapsto> r\<lparr>sr_is_settled := True\<rparr>))"
    using pg_mark_settled_view [OF i, of k] pg_mark_settled_state [of X k s]
    by (cases "pg_online s") (auto split: option.splits)
  show "pg_mark_chain_verified X k s = (res, s') \<Longrightarrow> pg_view X s' = pg_view X s
      \<or> (\<exists>r. pg_view X s k = Some r \<and> pg_view X s' = (pg_view X s)(k \<mapsto> r\<lparr>sr_chain_verified := True\<rparr>))"
    using pg_mark_chain_verified_view [OF i, of k] pg_mark_chain_verified_state [of X k s]
    by (cases "pg_online s") (auto split: option.splits)
qed (fact pg_open_inv pg_admit_claim_inv pg_mark_settled_inv pg_mark_chain_verified_inv pg_open_view
      pg_get_view pg_admit_claim_view)+

end
