(* ===== verification/Pg_Props.thy ===== *)
theory Pg_Props
  imports Pg_Refinement
begin

section \<open>Properties of the durable store\<close>

text \<open>
  What the gateway's production store guarantees: the accounting of accepted claims, the
  evidence chain, the agreement with the in-memory store, and the two places where the
  signed columns of the database make it differ.
\<close>

definition pg_empty :: "i64 \<Rightarrow> pg" where
  "pg_empty now = \<lparr>pg_online = True, pg_clock = now, pg_sessions = [], pg_claims = [], pg_evidence = []\<rparr>"

lemma pg_empty_inv: "pk_text_law X \<Longrightarrow> pg_inv X (pg_empty now)"
  by (simp add: pg_inv_def pg_empty_def rows_of_def chain_stored_def)

lemma pg_empty_view: "pg_view X (pg_empty now) = Map.empty"
  by (simp add: pg_view_def pg_empty_def session_row_of_def fun_eq_iff)

definition pg_run ::
    "externals \<Rightarrow> store_op list \<Rightarrow> pg \<Rightarrow> (claim \<times> claim_accepted) list \<times> pg" where
  "pg_run X = run_store (pg_open X) (pg_admit_claim X) (pg_mark_settled X) (pg_mark_chain_verified X)"

subsection \<open>Accounting\<close>

text \<open>
  The durable store never lets a claim buy twice. Along any sequence of operations on a
  new database the deltas accepted for a session add up to its stored high-water mark,
  within the deposit, the accepted amounts and nonces strictly increase, and the stored
  claim is the one at the mark, with the signature that settlement replays.
\<close>

theorem pg_store_accounts:
  assumes "pk_text_law X" and "\<forall>r. OpOpen r \<in> set ops \<longrightarrow> fresh_record r"
    and "pg_run X ops (pg_empty now) = (log, db)" and "pg_get X k db = Ok r"
  shows "total_delta (log_of k log) = unat (sr_cumulative_accepted r)
     \<and> sr_cumulative_accepted r \<le> sr_deposited_total r
     \<and> sorted_wrt (<) (map (\<lambda>(c, _). cl_cumulative_amount c) (log_of k log))
     \<and> sorted_wrt (<) (map (\<lambda>(c, _). cl_nonce c) (log_of k log))
     \<and> record_ok k r"
proof -
  note run = assms(3) [unfolded pg_run_def]
  have "pg_inv X db"
    using pgs.run_progress [OF pg_empty_inv [OF assms(1)] assms(2) run] by blast
  then have "pg_view X db k = Some r" using pg_get_view assms(4) by blast
  then show ?thesis
    using pgs.run_accounts [OF pg_empty_inv [OF assms(1)] pg_empty_view assms(2) run] by blast
qed

subsection \<open>Evidence\<close>

lemma run_store_online:
  assumes "pg_run X ops s = (log, db)"
  shows "pg_online db = pg_online s"
proof -
  have o: "pg_online (snd (pg_open X r s)) = pg_online s" for r s
    using pg_open_cases [of X r s "fst (pg_open X r s)" "snd (pg_open X r s)"] by auto
  have up: "pg_online (snd (upsert_claim_high_water_mark X c sig now s)) = pg_online s" for c sig now s
    using append_evidence_frame(3)
    by (auto simp: upsert_claim_high_water_mark_def write_mark_def upsert_claim_row_def Let_def
        split: sum.splits option.splits prod.splits if_splits)
  have f: "pg_online (snd (pg_mark_settled X k s)) = pg_online s"
    "pg_online (snd (pg_mark_chain_verified X k s)) = pg_online s" for k s
    by (simp_all add: pg_mark_settled_state pg_mark_chain_verified_state)
  have "pg_online (snd (pg_run X ops s)) = pg_online s"
    unfolding pg_run_def
  proof (induction ops arbitrary: s)
    case (Cons op ops)
    have a: "pg_online (snd (pg_admit_claim X c sig now s)) = pg_online s" for c sig now s
      using up by (simp add: pg_admit_claim_state)
    show ?case
    proof (cases op)
      case (OpAdmit c sig now)
      then show ?thesis
        using Cons [of "snd (pg_admit_claim X c sig now s)"] a [of c sig now s]
        by (simp add: split_beta Let_def)
    qed (simp_all add: Cons o f)
  qed simp
  then show ?thesis using assms by simp
qed

lemma pg_inv_evidence:
  assumes "pg_inv X db" and on: "pg_online db"
  shows "\<exists>es. load_evidence_chain X k db = Ok es \<and> verify_chain X k es = Ok ()
     \<and> load_evidence_leaves X k db = Ok (map ev_entry_hash es)"
proof -
  have ck: "chain_stored X k (rows_of X db k)" using assms(1) by (simp add: pg_inv_def)
  then obtain es where es: "traverse evidence_entry_of (rows_of X db k) = Ok es"
    "verify_chain X k es = Ok ()" by (auto simp: chain_stored_def)
  have "traverse (\<lambda>r. hash_of_bytes (el_entry_hash r)) rows = Ok (map ev_entry_hash es)"
    if "traverse evidence_entry_of rows = Ok es" for rows es
    using that
  proof (induction rows arbitrary: es)
    case (Cons r rows)
    then obtain e es' where "evidence_entry_of r = Ok e" "traverse evidence_entry_of rows = Ok es'"
      "es = e # es'" by (auto split: sum.splits)
    then show ?case using Cons.IH evidence_entry_of_hash by simp
  qed simp
  then have "load_evidence_leaves X k db = Ok (map ev_entry_hash es)"
    using es(1) on by (simp add: load_evidence_leaves_def evidence_of_rows [OF ck])
  then show ?thesis
    using es on by (auto simp: load_evidence_chain_def evidence_of_rows [OF ck])
qed

text \<open>
  C32. The evidence chain always verifies. After any sequence of operations on a new
  database, the log of every session, refusals included, loads back as a chain that
  \<open>verify_chain\<close> accepts; its entry hashes are the Merkle leaves, and the root the
  gateway commits is the root over exactly these entries.
\<close>

theorem evidence_chain_always_verifies:
  assumes "pk_text_law X" and "\<forall>r. OpOpen r \<in> set ops \<longrightarrow> fresh_record r"
    and "pg_run X ops (pg_empty now) = (log, db)"
  shows "\<exists>es. load_evidence_chain X k db = Ok es \<and> verify_chain X k es = Ok ()
     \<and> load_evidence_leaves X k db = Ok (map ev_entry_hash es)
     \<and> get_session_merkle_root X k db = Ok (root (merkle_new X (map ev_entry_hash es)))"
proof -
  have "pg_inv X db"
    using pgs.run_progress [OF pg_empty_inv [OF assms(1)] assms(2) assms(3) [unfolded pg_run_def]] by blast
  moreover have "pg_online db" using run_store_online [OF assms(3)] by (simp add: pg_empty_def)
  ultimately show ?thesis using pg_inv_evidence [of X db k] by (auto simp: get_session_merkle_root_def)
qed

subsection \<open>Agreement with the in-memory store\<close>

lemma as_str_length: "length (as_str d) \<le> 32"
  by (cases d) simp_all

lemma append_evidence_succeeds:
  assumes inv: "pg_inv X db" and room: "length (rows_of X db (cl_session c)) < 2 ^ 63"
  shows "\<exists>db'. append_evidence X db c d sig = Ok db'"
proof -
  let ?k = "cl_session c" and ?rows = "rows_of X db (cl_session c)"
  have ck: "chain_stored X ?k ?rows" using inv by (simp add: pg_inv_def)
  then obtain es where es: "traverse evidence_entry_of ?rows = Ok es" by (auto simp: chain_stored_def)
  have unique: "\<not> list_ex (\<lambda>q. el_session_pubkey q = pk_show X ?k \<and> el_sequence_id q = seq) (pg_evidence db)"
    if seq: "sint seq = int (length ?rows)" for seq :: i64
  proof
    assume "list_ex (\<lambda>q. el_session_pubkey q = pk_show X ?k \<and> el_sequence_id q = seq) (pg_evidence db)"
    then obtain q where "q \<in> set ?rows" "el_sequence_id q = seq" by (auto simp: list_ex_iff rows_of_def)
    then obtain i where "i < length ?rows" "el_sequence_id (?rows ! i) = seq" by (auto simp: in_set_conv_nth)
    then show False using ck seq by (auto simp: chain_stored_def)
  qed
  show ?thesis
  proof (cases "?rows = []")
    case True
    then show ?thesis
      using unique [of 0] as_str_length
      by (auto simp: append_evidence_def evidence_of_rows [OF ck] evidence_check_def Let_def)
  next
    case False
    then obtain n where n: "length ?rows = Suc n" by (cases ?rows) auto
    have top: "sint (el_sequence_id (last ?rows)) = int n"
      using ck False n by (simp add: chain_stored_def last_conv_nth)
    have "int (length ?rows) < int (2 ^ 63)" using room by (simp only: of_nat_less_iff)
    then have "checked_add_i64 (el_sequence_id (last ?rows)) 1 = Some (el_sequence_id (last ?rows) + 1)"
      using top n by (simp add: checked_add_i64_def)
    moreover from checked_add_i64_sint [OF this] have
      "sint (el_sequence_id (last ?rows) + 1) = int (length ?rows)" using top n by simp
    moreover obtain h where "hash_of_bytes (el_entry_hash (last ?rows)) = Ok h"
      using traverse_last [OF es False] evidence_entry_of_hash by blast
    ultimately show ?thesis
      using unique as_str_length False
      by (auto simp: append_evidence_def evidence_of_rows [OF ck] evidence_check_def Let_def)
  qed
qed

lemma write_mark_succeeds:
  assumes inv: "pg_inv X db" and view: "pg_view X db (cl_session c) = Some r"
    and ev: "evaluate_claim r c now = Ok a" and nonce: "unat (cl_nonce c) < 2 ^ 63"
  shows "\<exists>db'. write_mark X c sig a db = Ok (1, db')"
proof -
  let ?key = "pk_show X (cl_session c)"
  obtain row where row: "session_row_of db ?key = Some row" "r = decoded X (cl_session c) row (claim_row_of db ?key)"
    using view by (auto simp: pg_view_decoded [OF inv])
  have dep: "unat (sr_deposited_total r) < 2 ^ 63"
    using session_row_ofD [OF inv row(1)] row(2) sint_nonneg [of "se_deposited_total row"]
    by (simp add: decoded_def row_ok_def)
  have e: "sr_cumulative_accepted r < cl_cumulative_amount c" "cl_cumulative_amount c \<le> sr_deposited_total r"
    "\<forall>ln. sr_last_nonce r = Some ln \<longrightarrow> ln < cl_nonce c"
    and a: "ca_cumulative_amount a = cl_cumulative_amount c" "ca_nonce a = cl_nonce c"
    using ev by (auto simp: evaluate_claim_Ok)
  have fit: "unat (cl_cumulative_amount c) < 2 ^ 63"
    using dep e(2) by (simp add: word_le_nat_alt)
  have s: "sint (cl_cumulative_amount c) = int (unat (cl_cumulative_amount c))"
    "sint (cl_nonce c) = int (unat (cl_nonce c))"
    using sint_small fit nonce by blast+
  have pos: "0 < unat (cl_cumulative_amount c)" using e(1) by (simp add: word_less_nat_alt)
  have "0 < sint (cl_cumulative_amount c)" "0 \<le> sint (cl_nonce c)"
    unfolding s using pos by (simp_all only: of_nat_0_less_iff of_nat_0_le_iff)
  then have check: "claims_check (ticket X c sig)" by (simp add: claims_check_def ticket_def)
  have "sint (ct_cumulative_amount old) < sint (cl_cumulative_amount c) \<and> sint (ct_nonce old) < sint (cl_nonce c)"
    if old: "claim_row_of db ?key = Some old" for old
  proof -
    have "claim_ok old" using claim_row_ofD [OF inv old] by simp
    then have so: "sint (ct_cumulative_amount old) = int (unat (ct_cumulative_amount old))"
      "sint (ct_nonce old) = int (unat (ct_nonce old))"
      using sint_small sint_nonneg by (auto simp: claim_ok_def) (metis order_less_imp_le)
    have "unat (ct_cumulative_amount old) < unat (cl_cumulative_amount c)"
      "unat (ct_nonce old) < unat (cl_nonce c)"
      using e row(2) old by (simp_all add: decoded_def mark_of_def word_less_nat_alt)
    then show ?thesis unfolding so s by (simp only: of_nat_less_iff)
  qed
  then show ?thesis
    using check fit nonce
    by (auto simp: write_mark_def to_i64_def a upsert_claim_row_def ticket_def split: option.splits)
qed

lemma pg_admit_accepts:
  assumes inv: "pg_inv X db" and on: "pg_online db" and nonce: "unat (cl_nonce c) < 2 ^ 63"
    and room: "length (rows_of X db (cl_session c)) < 2 ^ 63"
    and view: "pg_view X db (cl_session c) = Some r" and ev: "evaluate_claim r c now = Ok a"
  shows "\<exists>db'. pg_admit_claim X c sig now db = (Ok (Ok a), db')
     \<and> pg_view X db' = (pg_view X db)(cl_session c \<mapsto> advance r c sig)"
proof -
  obtain row where row: "session_row_of db (pk_show X (cl_session c)) = Some row"
    using view by (auto simp: pg_view_def split: option.splits)
  have lr: "locked_record X db c row = Ok (r\<lparr>sr_highest_claim := None\<rparr>)"
    using locked_record_view [OF inv row] view by auto
  obtain db\<^sub>1 where st: "append_evidence X db c Allowed sig = Ok db\<^sub>1"
    using append_evidence_succeeds [OF inv room] by blast
  have i: "pg_inv X db\<^sub>1" "pg_view X db\<^sub>1 = pg_view X db"
    using append_evidence_inv [OF inv st] append_evidence_view [OF st] by auto
  have ca: "ca_cumulative_amount a = cl_cumulative_amount c" "ca_nonce a = cl_nonce c"
    using ev by (auto simp: evaluate_claim_Ok)
  have v1: "pg_view X db\<^sub>1 (cl_session c) = Some r" using i view by simp
  obtain db\<^sub>2 where w: "write_mark X c sig a db\<^sub>1 = Ok (1, db\<^sub>2)"
    using write_mark_succeeds [OF i(1) v1 ev nonce] by blast
  have "pg_view X db\<^sub>2 = (pg_view X db)(cl_session c \<mapsto> advance r c sig)"
    using write_mark_view [OF i(1) w ca v1] i(2) by simp
  then show ?thesis
    using on row lr st ev w by (simp add: pg_admit_claim_def upsert_claim_high_water_mark_def)
qed

definition mem_of :: "externals \<Rightarrow> pg \<Rightarrow> mem_store" where
  "mem_of X db = \<lparr>ms_inner = pg_view X db, ms_poisoned = False\<rparr>"

text \<open>
  C34. The durable store refines the in-memory one. While the database answers, the claim's
  nonce fits a signed column and the session's log has room for one more entry, admitting
  a claim returns exactly what the in-memory store returns on the sessions the database
  holds, and leaves the database holding what the in-memory store then holds.
\<close>

theorem pg_admit_refines_mem:
  assumes inv: "pg_inv X db" and on: "pg_online db" and nonce: "unat (cl_nonce c) < 2 ^ 63"
    and room: "length (rows_of X db (cl_session c)) < 2 ^ 63"
  shows "fst (pg_admit_claim X c sig now db) = fst (mem_admit_claim c sig now (mem_of X db))
     \<and> mem_of X (snd (pg_admit_claim X c sig now db)) = snd (mem_admit_claim c sig now (mem_of X db))"
proof (cases "session_row_of db (pk_show X (cl_session c))")
  case None
  then show ?thesis
    using on by (simp add: pg_admit_claim_def upsert_claim_high_water_mark_def mem_admit_claim_def
        mem_of_def pg_view_def)
next
  case (Some row)
  from locked_record_view [OF inv Some] obtain r where r: "pg_view X db (cl_session c) = Some r"
    "locked_record X db c row = Ok (r\<lparr>sr_highest_claim := None\<rparr>)" by blast
  obtain db\<^sub>1 where st: "(case decision_of (evaluate_claim r c now) of
      None \<Rightarrow> Ok db | Some d \<Rightarrow> append_evidence X db c d sig) = Ok db\<^sub>1"
    using append_evidence_succeeds [OF inv room] by (cases "decision_of (evaluate_claim r c now)") auto
  have i: "pg_inv X db\<^sub>1" "pg_view X db\<^sub>1 = pg_view X db"
    using st inv append_evidence_inv append_evidence_view by (auto split: option.splits)
  show ?thesis
  proof (cases "evaluate_claim r c now")
    case (Inl rej)
    then show ?thesis
      using on Some r st i
      by (simp add: pg_admit_claim_def upsert_claim_high_water_mark_def mem_admit_claim_def mem_of_def)
  next
    case (Inr a)
    have ca: "ca_cumulative_amount a = cl_cumulative_amount c" "ca_nonce a = cl_nonce c"
      using Inr by (auto simp: evaluate_claim_Ok)
    from pg_admit_accepts [OF inv on nonce room r(1) Inr, of sig] show ?thesis
      using r(1) Inr ca by (auto simp: mem_admit_claim_def mem_of_def advance_def)
  qed
qed

text \<open>
  A nonce that does not fit a signed column is refused without a trace. The in-memory
  store accepts such a claim; the durable one answers that it is unavailable and appends no
  evidence, though the decision it had reached was to allow.
\<close>

theorem pg_large_nonce_unavailable:
  assumes inv: "pg_inv X db" and on: "pg_online db"
    and view: "pg_view X db (cl_session c) = Some r" and ev: "evaluate_claim r c now = Ok a"
    and nonce: "2 ^ 63 \<le> unat (cl_nonce c)"
    and room: "length (rows_of X db (cl_session c)) < 2 ^ 63"
  shows "pg_admit_claim X c sig now db = (Err Unavailable, db)
     \<and> fst (mem_admit_claim c sig now (mem_of X db)) = Ok (Ok a)"
proof -
  obtain row where row: "session_row_of db (pk_show X (cl_session c)) = Some row"
    using view by (auto simp: pg_view_def split: option.splits)
  have lr: "locked_record X db c row = Ok (r\<lparr>sr_highest_claim := None\<rparr>)"
    using locked_record_view [OF inv row] view by auto
  obtain db\<^sub>1 where st: "append_evidence X db c Allowed sig = Ok db\<^sub>1"
    using append_evidence_succeeds [OF inv room] by blast
  have "ca_nonce a = cl_nonce c" using ev by (auto simp: evaluate_claim_Ok)
  then have "to_i64 (ca_nonce a) ''nonce'' = Err (OutOfRange ''nonce'' (ca_nonce a))"
    using nonce by (simp add: to_i64_def)
  then obtain e where "write_mark X c sig a db\<^sub>1 = Err e" "e \<noteq> RowNotFound"
    by (cases "to_i64 (ca_cumulative_amount a) ''cumulative_amount''")
      (auto simp: write_mark_def to_i64_def split: if_splits)
  then have "upsert_claim_high_water_mark X c sig now db = (Err e, db)"
    using on row lr ev st by (simp add: upsert_claim_high_water_mark_def)
  then show ?thesis
    using \<open>e \<noteq> RowNotFound\<close> view ev
    by (simp add: pg_admit_claim_def store_error_of_def mem_admit_claim_def mem_of_def
        split: db_error.splits)
qed

subsection \<open>A database to exercise the store on\<close>

lemma demo_fresh: "\<forall>r. OpOpen r \<in> set [OpOpen demo_record] \<longrightarrow> fresh_record r"
  by (simp add: fresh_record_def demo_record_def session_record_new_def)

lemma demo_pg_opened: "fst (pg_open demo_externals demo_record (pg_empty 1000)) = Ok ()"
proof -
  have "sessions_check (new_row demo_externals demo_record (pg_empty 1000))"
    using demo_pk_text
    by (simp add: sessions_check_def new_row_def demo_record_def session_record_new_def)
  then show ?thesis
    by (simp add: pg_open_def save_session_def to_i64_def demo_record_def session_record_new_def
        new_row_def pg_empty_def session_row_of_def)
qed

definition demo_db :: pg where
  "demo_db = snd (pg_open demo_externals demo_record (pg_empty 1000))"

lemma demo_db_facts:
  "pg_inv demo_externals demo_db" "pg_online demo_db"
  "pg_view demo_externals demo_db 7 = Some demo_record" "rows_of demo_externals demo_db k = []"
  "pg_run demo_externals [OpOpen demo_record] (pg_empty 1000) = ([], demo_db)"
proof -
  have fr: "fresh_record demo_record" using demo_fresh by simp
  note inv0 = pg_empty_inv [OF demo_pk_text, of 1000]
  show "pg_inv demo_externals demo_db"
    unfolding demo_db_def by (rule pg_open_inv [OF inv0 fr])
  have key: "sr_key demo_record = 7" by (simp add: demo_record_def session_record_new_def)
  show "pg_view demo_externals demo_db 7 = Some demo_record"
    using pg_open_view [OF inv0 fr, of "Ok ()" demo_db] demo_pg_opened key
    by (simp add: demo_db_def prod_eq_iff)
  show "pg_online demo_db" "rows_of demo_externals demo_db k = []"
    using pg_open_cases [of demo_externals demo_record "pg_empty 1000" "Ok ()" demo_db] demo_pg_opened
    by (auto simp: demo_db_def prod_eq_iff rows_of_def pg_empty_def)
  show "pg_run demo_externals [OpOpen demo_record] (pg_empty 1000) = ([], demo_db)"
    by (simp add: pg_run_def demo_db_def)
qed

lemma demo_pg_get: "pg_get demo_externals 7 demo_db = Ok demo_record"
proof -
  obtain row where "session_row_of demo_db (pk_show demo_externals 7) = Some row"
    "row_to_record demo_externals row (claim_row_of demo_db (pk_show demo_externals 7)) = Ok demo_record"
    using demo_db_facts(3) by (auto simp: pg_view_def split: option.splits sum.splits)
  moreover from this have "se_session_pubkey row = pk_show demo_externals 7"
    using session_row_ofD [OF demo_db_facts(1)] by blast
  ultimately show ?thesis using demo_db_facts(2) by (simp add: pg_get_def load_session_def)
qed

theorem pg_store_accounts_witness:
  "pg_run demo_externals [OpOpen demo_record] (pg_empty 1000) = ([], demo_db)
   \<and> sr_cumulative_accepted demo_record \<le> sr_deposited_total demo_record \<and> record_ok 7 demo_record"
  using pg_store_accounts [OF demo_pk_text demo_fresh demo_db_facts(5) demo_pg_get] demo_db_facts(5)
  by blast

theorem evidence_chain_always_verifies_witness:
  "\<exists>es. load_evidence_chain demo_externals 7 demo_db = Ok es \<and> verify_chain demo_externals 7 es = Ok ()"
  using evidence_chain_always_verifies [OF demo_pk_text demo_fresh demo_db_facts(5)] by blast

lemma demo_eval: "evaluate_claim demo_record (demo_claim_of 40 n) 1500 = Ok
    \<lparr>ca_cumulative_amount = 40, ca_previous_cumulative = 0, ca_delta = 40, ca_nonce = n\<rparr>"
  by (simp add: evaluate_claim_Ok demo_record_def session_record_new_def demo_claim_of_def)

theorem pg_admit_refines_mem_witness:
  "fst (pg_admit_claim demo_externals (demo_claim_of 40 2) 0 1500 demo_db) = Ok (Ok
    \<lparr>ca_cumulative_amount = 40, ca_previous_cumulative = 0, ca_delta = 40, ca_nonce = 2\<rparr>)"
proof -
  have "unat (cl_nonce (demo_claim_of 40 2)) < 2 ^ 63"
    "length (rows_of demo_externals demo_db (cl_session (demo_claim_of 40 2))) < 2 ^ 63"
    using demo_db_facts(4) by (simp_all add: demo_claim_of_def)
  from pg_admit_refines_mem [OF demo_db_facts(1,2) this] show ?thesis
    using demo_eval [of 2] demo_db_facts(3)
    by (simp add: mem_admit_claim_def mem_of_def) (simp add: demo_claim_of_def)
qed

theorem pg_large_nonce_unavailable_witness:
  "pg_admit_claim demo_externals (demo_claim_of 40 9223372036854775808) 0 1500 demo_db = (Err Unavailable, demo_db)"
proof -
  have "pg_view demo_externals demo_db (cl_session (demo_claim_of 40 9223372036854775808)) = Some demo_record"
    "2 ^ 63 \<le> unat (cl_nonce (demo_claim_of 40 9223372036854775808))"
    "length (rows_of demo_externals demo_db (cl_session (demo_claim_of 40 9223372036854775808))) < 2 ^ 63"
    using demo_db_facts(3,4) by (simp_all add: demo_claim_of_def)
  from pg_large_nonce_unavailable [OF demo_db_facts(1,2) this(1) demo_eval this(2,3)]
  show ?thesis by blast
qed

end
