(* ===== verification/Account.thy ===== *)
theory Account
  imports Escrow
begin

section \<open>Reading the chain\<close>

text \<open>
  \<open>gateway/src/chain.rs\<close>: the hand-written parser of the on-chain \<open>Session\<close>
  (two layouts, told apart by their length) and \<open>SettlementRecord\<close> accounts, the RPC
  fetcher, and the reconciliation of an open request with the account. The main lemmas
  say that each parser is the exact inverse of the byte layout it documents.
\<close>

subsection \<open>Layouts\<close>

definition SESSION_DISCRIMINATOR :: bytes where
  "SESSION_DISCRIMINATOR = [243, 81, 72, 115, 214, 188, 72, 144]"

definition SESSION_ACCOUNT_LEN_V1 :: nat where "SESSION_ACCOUNT_LEN_V1 = 187"
definition SESSION_ACCOUNT_LEN_V2 :: nat where "SESSION_ACCOUNT_LEN_V2 = 219"

definition OFF_AGENT :: nat where "OFF_AGENT = 8"
definition OFF_PROVIDER :: nat where "OFF_PROVIDER = 40"

definition V1_OFF_MINT :: nat where "V1_OFF_MINT = 72"
definition V1_OFF_VAULT :: nat where "V1_OFF_VAULT = 104"
definition V1_OFF_DEPOSITED_TOTAL :: nat where "V1_OFF_DEPOSITED_TOTAL = 136"
definition V1_OFF_CUMULATIVE_SETTLED :: nat where "V1_OFF_CUMULATIVE_SETTLED = 144"
definition V1_OFF_REFUNDED_TOTAL :: nat where "V1_OFF_REFUNDED_TOTAL = 152"
definition V1_OFF_EXPIRES_AT :: nat where "V1_OFF_EXPIRES_AT = 160"
definition V1_OFF_SESSION_ID :: nat where "V1_OFF_SESSION_ID = 168"
definition V1_OFF_BUMP :: nat where "V1_OFF_BUMP = 184"
definition V1_OFF_VAULT_BUMP :: nat where "V1_OFF_VAULT_BUMP = 185"
definition V1_OFF_IS_SETTLED :: nat where "V1_OFF_IS_SETTLED = 186"

definition V2_OFF_SETTLEMENT_AUTHORITY :: nat where "V2_OFF_SETTLEMENT_AUTHORITY = 72"
definition V2_OFF_MINT :: nat where "V2_OFF_MINT = 104"
definition V2_OFF_VAULT :: nat where "V2_OFF_VAULT = 136"
definition V2_OFF_DEPOSITED_TOTAL :: nat where "V2_OFF_DEPOSITED_TOTAL = 168"
definition V2_OFF_CUMULATIVE_SETTLED :: nat where "V2_OFF_CUMULATIVE_SETTLED = 176"
definition V2_OFF_REFUNDED_TOTAL :: nat where "V2_OFF_REFUNDED_TOTAL = 184"
definition V2_OFF_EXPIRES_AT :: nat where "V2_OFF_EXPIRES_AT = 192"
definition V2_OFF_SESSION_ID :: nat where "V2_OFF_SESSION_ID = 200"
definition V2_OFF_BUMP :: nat where "V2_OFF_BUMP = 216"
definition V2_OFF_VAULT_BUMP :: nat where "V2_OFF_VAULT_BUMP = 217"
definition V2_OFF_IS_SETTLED :: nat where "V2_OFF_IS_SETTLED = 218"

definition SETTLEMENT_DISCRIMINATOR :: bytes where
  "SETTLEMENT_DISCRIMINATOR = [172, 159, 67, 74, 96, 85, 37, 205]"

definition SETTLEMENT_RECORD_LEN :: nat where
  "SETTLEMENT_RECORD_LEN = 8 + 32 + 32 + 32 + 8 + 8 + 1"

definition OFF_SR_SESSION :: nat where "OFF_SR_SESSION = 8"
definition OFF_SR_CLAIM_HASH :: nat where "OFF_SR_CLAIM_HASH = 40"
definition OFF_SR_MERKLE_ROOT :: nat where "OFF_SR_MERKLE_ROOT = 72"
definition OFF_SR_SETTLED_AT :: nat where "OFF_SR_SETTLED_AT = 104"
definition OFF_SR_SETTLED_AMOUNT :: nat where "OFF_SR_SETTLED_AMOUNT = 112"

lemmas session_layout = SESSION_ACCOUNT_LEN_V1_def SESSION_ACCOUNT_LEN_V2_def OFF_AGENT_def
  OFF_PROVIDER_def V1_OFF_MINT_def V1_OFF_VAULT_def V1_OFF_DEPOSITED_TOTAL_def
  V1_OFF_CUMULATIVE_SETTLED_def V1_OFF_REFUNDED_TOTAL_def V1_OFF_EXPIRES_AT_def
  V1_OFF_SESSION_ID_def V1_OFF_BUMP_def V1_OFF_VAULT_BUMP_def V1_OFF_IS_SETTLED_def
  V2_OFF_SETTLEMENT_AUTHORITY_def V2_OFF_MINT_def V2_OFF_VAULT_def V2_OFF_DEPOSITED_TOTAL_def
  V2_OFF_CUMULATIVE_SETTLED_def V2_OFF_REFUNDED_TOTAL_def V2_OFF_EXPIRES_AT_def
  V2_OFF_SESSION_ID_def V2_OFF_BUMP_def V2_OFF_VAULT_BUMP_def V2_OFF_IS_SETTLED_def

lemmas record_layout = SETTLEMENT_RECORD_LEN_def OFF_SR_SESSION_def OFF_SR_CLAIM_HASH_def
  OFF_SR_MERKLE_ROOT_def OFF_SR_SETTLED_AT_def OFF_SR_SETTLED_AMOUNT_def

record settlement_record_account =
  sra_session :: pubkey
  sra_claim_hash :: hash32
  sra_merkle_root :: hash32
  sra_settled_at :: i64
  sra_settled_amount :: u64

record session_account =
  acc_agent :: pubkey
  acc_provider :: pubkey
  acc_settlement_authority :: "pubkey option"
  acc_mint :: pubkey
  acc_vault :: pubkey
  acc_deposited_total :: u64
  acc_cumulative_settled :: u64
  acc_refunded_total :: u64
  acc_expires_at :: i64
  acc_session_id :: id16
  acc_bump :: u8
  acc_vault_bump :: u8
  acc_is_settled :: bool

datatype session_verification_error =
    AccountNotFound
  | WrongProgramOwner pubkey pubkey
  | InvalidAccountData nat
  | NotASessionAccount
  | AlreadySettled
  | DepositMismatch u64 u64
  | FieldMismatch string string string
  | RpcUnavailable

subsection \<open>The parsers\<close>

definition word_at :: "nat \<Rightarrow> bytes \<Rightarrow> nat \<Rightarrow> 'a::len word" where
  \<comment> \<open>the \<open>n\<close> bytes from offset \<open>off\<close>, little endian\<close>
  "word_at n data off = from_le_bytes (slice off (off + n) data)"

definition parse_settlement_record ::
    "pubkey \<Rightarrow> pubkey \<Rightarrow> bytes \<Rightarrow> (settlement_record_account, session_verification_error) result" where
  "parse_settlement_record owner program_id data =
     (if owner \<noteq> program_id then Err (WrongProgramOwner program_id owner)
      else if length data \<noteq> SETTLEMENT_RECORD_LEN then Err (InvalidAccountData (length data))
      else if take 8 data \<noteq> SETTLEMENT_DISCRIMINATOR then Err NotASessionAccount
      else Ok \<lparr>
        sra_session = word_at 32 data OFF_SR_SESSION,
        sra_claim_hash = word_at 32 data OFF_SR_CLAIM_HASH,
        sra_merkle_root = word_at 32 data OFF_SR_MERKLE_ROOT,
        sra_settled_at = word_at 8 data OFF_SR_SETTLED_AT,
        sra_settled_amount = word_at 8 data OFF_SR_SETTLED_AMOUNT\<rparr>)"

definition parse :: "bytes \<Rightarrow> (session_account, session_verification_error) result" where
  "parse data =
     (if length data < 8 then Err (InvalidAccountData (length data))
      else if take 8 data \<noteq> SESSION_DISCRIMINATOR then Err NotASessionAccount
      else if length data \<noteq> SESSION_ACCOUNT_LEN_V1 \<and> length data \<noteq> SESSION_ACCOUNT_LEN_V2
      then Err (InvalidAccountData (length data))
      else let v2 = (length data = SESSION_ACCOUNT_LEN_V2);
        (off_mint, off_vault, off_deposited, off_cumulative, off_refunded, off_expires,
         off_session_id, off_bump, off_vault_bump, off_is_settled) =
          (if v2 then
             (V2_OFF_MINT, V2_OFF_VAULT, V2_OFF_DEPOSITED_TOTAL, V2_OFF_CUMULATIVE_SETTLED,
              V2_OFF_REFUNDED_TOTAL, V2_OFF_EXPIRES_AT, V2_OFF_SESSION_ID, V2_OFF_BUMP,
              V2_OFF_VAULT_BUMP, V2_OFF_IS_SETTLED)
           else
             (V1_OFF_MINT, V1_OFF_VAULT, V1_OFF_DEPOSITED_TOTAL, V1_OFF_CUMULATIVE_SETTLED,
              V1_OFF_REFUNDED_TOTAL, V1_OFF_EXPIRES_AT, V1_OFF_SESSION_ID, V1_OFF_BUMP,
              V1_OFF_VAULT_BUMP, V1_OFF_IS_SETTLED))
      in if data ! off_is_settled \<noteq> 0 \<and> data ! off_is_settled \<noteq> 1 then Err NotASessionAccount
      else Ok \<lparr>
        acc_agent = word_at 32 data OFF_AGENT,
        acc_provider = word_at 32 data OFF_PROVIDER,
        acc_settlement_authority =
          (if v2 then Some (word_at 32 data V2_OFF_SETTLEMENT_AUTHORITY) else None),
        acc_mint = word_at 32 data off_mint,
        acc_vault = word_at 32 data off_vault,
        acc_deposited_total = word_at 8 data off_deposited,
        acc_cumulative_settled = word_at 8 data off_cumulative,
        acc_refunded_total = word_at 8 data off_refunded,
        acc_expires_at = word_at 8 data off_expires,
        acc_session_id = word_at 16 data off_session_id,
        acc_bump = data ! off_bump,
        acc_vault_bump = data ! off_vault_bump,
        acc_is_settled = (data ! off_is_settled = 1)\<rparr>)"

definition remaining :: "session_account \<Rightarrow> u64" where
  "remaining a = saturating_sub_u64
     (saturating_sub_u64 (acc_deposited_total a) (acc_cumulative_settled a)) (acc_refunded_total a)"

definition account_discriminator :: "externals \<Rightarrow> string \<Rightarrow> bytes" where
  "account_discriminator X name = take 8 (to_le_bytes 32 (sha256 X (utf8 (''account:'' @ name))))"

subsection \<open>Reconciling a request with the account\<close>

record claimed_session =
  cs_agent :: pubkey
  cs_provider :: pubkey
  cs_mint :: pubkey
  cs_deposited_total :: u64
  cs_expires_at :: i64

type_synonym fetcher = "pubkey \<Rightarrow> unit + (pubkey \<times> bytes) option"

fun contains_text :: "string \<Rightarrow> string \<Rightarrow> bool" where
  \<comment> \<open>\<open>str::contains\<close>\<close>
  "contains_text [] pat = (pat = [])"
| "contains_text (c # cs) pat = (take (length pat) (c # cs) = pat \<or> contains_text cs pat)"

definition rpc_fetch :: "(pubkey \<Rightarrow> string + (pubkey \<times> bytes)) \<Rightarrow> fetcher" where
  \<comment> \<open>\<open>RpcSessionFetcher::fetch\<close>, over the node's \<open>get_account\<close>\<close>
  "rpc_fetch get_account pubkey =
     (case get_account pubkey of
        Ok (owner, data) \<Rightarrow> Ok (Some (owner, data))
      | Err msg \<Rightarrow>
          if contains_text msg ''AccountNotFound'' \<or> contains_text msg ''could not find account''
          then Ok None else Err ())"

definition verify_on_chain_session ::
    "externals \<Rightarrow> fetcher \<Rightarrow> pubkey \<Rightarrow> pubkey option \<Rightarrow> pubkey \<Rightarrow> claimed_session
      \<Rightarrow> (session_account, session_verification_error) result" where
  "verify_on_chain_session X fetch program_id legacy_program_id session claimed =
     (case fetch session of
        Err _ \<Rightarrow> Err RpcUnavailable
      | Ok None \<Rightarrow> Err AccountNotFound
      | Ok (Some (owner, data)) \<Rightarrow>
      let recognised = (owner = program_id \<or> legacy_program_id = Some owner) in
      if \<not> recognised then Err (WrongProgramOwner program_id owner)
      else case parse data of
        Err e \<Rightarrow> Err e
      | Ok account \<Rightarrow>
      if acc_is_settled account then Err AlreadySettled
      else if acc_deposited_total account \<noteq> cs_deposited_total claimed
      then Err (DepositMismatch (cs_deposited_total claimed) (acc_deposited_total account))
      else if acc_agent account \<noteq> cs_agent claimed
      then Err (FieldMismatch ''agent'' (pk_show X (cs_agent claimed)) (pk_show X (acc_agent account)))
      else if acc_provider account \<noteq> cs_provider claimed
      then Err (FieldMismatch ''provider'' (pk_show X (cs_provider claimed))
                  (pk_show X (acc_provider account)))
      else if acc_mint account \<noteq> cs_mint claimed
      then Err (FieldMismatch ''mint'' (pk_show X (cs_mint claimed)) (pk_show X (acc_mint account)))
      else if acc_expires_at account \<noteq> cs_expires_at claimed
      then Err (FieldMismatch ''expires_at'' (show_i64 (cs_expires_at claimed))
                  (show_i64 (acc_expires_at account)))
      else Ok account)"

subsection \<open>The parsers invert the layouts\<close>

text \<open>
  The byte layout of a \<open>Session\<close> account: the discriminator and the fields in
  declaration order, with the settlement authority only in the newer layout. This is
  also what Anchor writes for the struct of theory \<open>Escrow\<close>.
\<close>

definition account_bytes :: "session_account \<Rightarrow> bytes" where
  "account_bytes a = SESSION_DISCRIMINATOR @ to_le_bytes 32 (acc_agent a)
     @ to_le_bytes 32 (acc_provider a)
     @ (case acc_settlement_authority a of None \<Rightarrow> [] | Some k \<Rightarrow> to_le_bytes 32 k)
     @ to_le_bytes 32 (acc_mint a) @ to_le_bytes 32 (acc_vault a)
     @ to_le_bytes 8 (acc_deposited_total a) @ to_le_bytes 8 (acc_cumulative_settled a)
     @ to_le_bytes 8 (acc_refunded_total a) @ to_le_bytes 8 (acc_expires_at a)
     @ to_le_bytes 16 (acc_session_id a)
     @ [acc_bump a, acc_vault_bump a, if acc_is_settled a then 1 else 0]"

definition record_bytes :: "settlement_record_account \<Rightarrow> u8 \<Rightarrow> bytes" where
  "record_bytes r bump = SETTLEMENT_DISCRIMINATOR @ to_le_bytes 32 (sra_session r)
     @ to_le_bytes 32 (sra_claim_hash r) @ to_le_bytes 32 (sra_merkle_root r)
     @ to_le_bytes 8 (sra_settled_at r) @ to_le_bytes 8 (sra_settled_amount r) @ [bump]"

lemma length_discriminators [simp]:
  "length SESSION_DISCRIMINATOR = 8" "length SETTLEMENT_DISCRIMINATOR = 8"
  by (simp_all add: SESSION_DISCRIMINATOR_def SETTLEMENT_DISCRIMINATOR_def)

lemma word_at_skip [simp]: "length xs \<le> off \<Longrightarrow> word_at n (xs @ ys) off = word_at n ys (off - length xs)"
  by (simp add: word_at_def slice_def)

lemma word_at_here [simp]:
  "LENGTH('a) \<le> 8 * n \<Longrightarrow> word_at n (to_le_bytes n (w :: 'a::len word) @ ys) 0 = w"
  by (simp add: word_at_def slice_def)

lemma parse_account_bytes: "parse (account_bytes a) = Ok a"
proof (cases "acc_settlement_authority a")
  case None
  then show ?thesis
    unfolding parse_def Let_def
    by (cases a) (simp add: account_bytes_def session_layout nth_append)
next
  case (Some k)
  then show ?thesis
    unfolding parse_def Let_def
    by (cases a) (simp add: account_bytes_def session_layout nth_append)
qed

lemma slice_join: "a \<le> b \<Longrightarrow> b \<le> c \<Longrightarrow> slice a b d @ slice b c d = slice a c d"
proof -
  assume "a \<le> b" "b \<le> c"
  then have "c - a = (b - a) + (c - b)" "drop b d = drop (b - a) (drop a d)" by simp_all
  then show ?thesis by (simp only: slice_def take_add)
qed

lemma length_slice [simp]: "hi \<le> length d \<Longrightarrow> length (slice lo hi d) = hi - lo"
  by (simp add: slice_def)

lemma bytes_word_at:
  assumes "off + n \<le> length d" and "8 * n \<le> LENGTH('a)"
  shows "to_le_bytes n (word_at n d off :: 'a::len word) = slice off (off + n) d"
  using assms by (simp add: word_at_def)

lemma slice_byte: "hi = Suc off \<Longrightarrow> off < length d \<Longrightarrow> slice off hi d = [d ! off]"
  by (simp add: slice_def take_Suc hd_drop_conv_nth)

text \<open>Bytes cut at increasing offsets, put together again.\<close>

fun cut :: "bytes \<Rightarrow> nat \<Rightarrow> nat list \<Rightarrow> bytes" where
  "cut d at [] = []"
| "cut d at (n # ns) = slice at (at + n) d @ cut d (at + n) ns"

lemma cut_slice: "cut d at ns = slice at (at + sum_list ns) d"
proof (induction ns arbitrary: at)
  case Nil
  then show ?case by (simp add: slice_def)
next
  case (Cons n ns)
  then show ?case by (simp add: slice_join add.assoc)
qed

lemma cut_all: "sum_list ns = length d \<Longrightarrow> cut d 0 ns = d"
  by (simp add: cut_slice slice_def)

lemma take_slice: "take n d = slice 0 n d"
  by (simp add: slice_def)

lemma account_bytes_parse:
  assumes "parse data = Ok a"
  shows "data = account_bytes a"
proof -
  have disc: "slice 0 8 data = SESSION_DISCRIMINATOR"
    using assms by (auto simp: parse_def take_slice split: if_splits)
  consider "length data = 187" | "length data = 219"
    using assms by (auto simp: parse_def session_layout split: if_splits)
  then show ?thesis
  proof cases
    case 1
    then have a: "account_bytes a = cut data 0 [8,32,32,32,32,8,8,8,8,16,1,1,1]"
      using assms disc
      by (auto simp: parse_def session_layout account_bytes_def bytes_word_at slice_byte split: if_splits)
    show ?thesis unfolding a using 1 by (subst cut_all) simp_all
  next
    case 2
    then have a: "account_bytes a = cut data 0 [8,32,32,32,32,32,8,8,8,8,16,1,1,1]"
      using assms disc
      by (auto simp: parse_def session_layout account_bytes_def bytes_word_at slice_byte split: if_splits)
    show ?thesis unfolding a using 2 by (subst cut_all) simp_all
  qed
qed

lemma record_bytes_parse:
  assumes "parse_settlement_record owner program_id data = Ok r"
  shows "owner = program_id \<and> data = record_bytes r (data ! 120)"
proof -
  have disc: "slice 0 8 data = SETTLEMENT_DISCRIMINATOR" and len: "length data = 121"
    using assms by (auto simp: parse_settlement_record_def take_slice record_layout split: if_splits)
  then have r: "record_bytes r (data ! 120) = cut data 0 [8,32,32,32,8,8,1]"
    using assms by (auto simp: parse_settlement_record_def record_layout record_bytes_def bytes_word_at
        slice_byte split: if_splits)
  show ?thesis
    using assms len unfolding r by (subst cut_all) (auto simp: parse_settlement_record_def split: if_splits)
qed

lemma parse_record_bytes: "parse_settlement_record program_id program_id (record_bytes r bump) = Ok r"
  unfolding parse_settlement_record_def
  by (cases r) (simp add: record_bytes_def record_layout)

text \<open>
  C35. The session parser is exact: it returns an account precisely for that account's
  own byte layout, in either version. Nothing else parses, and no field is read from
  another field's bytes.
\<close>

theorem parse_session_exact:
  "parse data = Ok a \<longleftrightarrow> data = account_bytes a"
  using parse_account_bytes account_bytes_parse by auto

text \<open>
  The receipt parser is exact: it returns a record precisely for an account of the
  program that holds that record's layout with some bump byte.
\<close>

theorem parse_settlement_record_exact:
  "parse_settlement_record owner program_id data = Ok r \<longleftrightarrow>
     owner = program_id \<and> (\<exists>bump. data = record_bytes r bump)"
  using parse_record_bytes record_bytes_parse by blast

text \<open>
  The account Anchor writes for a \<open>Session\<close> of the program: its discriminator and
  the Borsh encoding of the fields in declaration order.
\<close>

definition account_of :: "session \<Rightarrow> session_account" where
  "account_of s = \<lparr>
     acc_agent = ses_agent s, acc_provider = ses_provider s,
     acc_settlement_authority = Some (ses_settlement_authority s), acc_mint = ses_mint s,
     acc_vault = ses_vault s, acc_deposited_total = ses_deposited_total s,
     acc_cumulative_settled = ses_cumulative_settled s, acc_refunded_total = ses_refunded_total s,
     acc_expires_at = ses_expires_at s, acc_session_id = ses_session_id s, acc_bump = ses_bump s,
     acc_vault_bump = ses_vault_bump s, acc_is_settled = ses_is_settled s\<rparr>"

text \<open>
  Reconciliation accepts a session exactly when the chain confirms it: the fetched
  account belongs to one of the two recognised programs, is a well-formed unsettled
  \<open>Session\<close>, and agrees with the request in agent, provider, mint, deposit and expiry.
\<close>

theorem verify_on_chain_session_exact:
  "verify_on_chain_session X fetch program_id legacy session claimed = Ok a \<longleftrightarrow>
     (\<exists>owner. fetch session = Ok (Some (owner, account_bytes a))
        \<and> (owner = program_id \<or> legacy = Some owner))
     \<and> \<not> acc_is_settled a
     \<and> claimed = \<lparr>cs_agent = acc_agent a, cs_provider = acc_provider a, cs_mint = acc_mint a,
         cs_deposited_total = acc_deposited_total a, cs_expires_at = acc_expires_at a\<rparr>"
proof -
  have p: "(case parse data of Err e \<Rightarrow> Err e | Ok account \<Rightarrow> f account) = Ok a \<longleftrightarrow>
      (\<exists>b. data = account_bytes b \<and> f b = Ok a)" for data and f :: "session_account \<Rightarrow> _"
    using account_bytes_parse by (auto simp: parse_account_bytes split: sum.splits)
  show ?thesis
    unfolding verify_on_chain_session_def Let_def
    by (cases claimed)
      (auto simp: p split: sum.splits option.splits if_splits)
qed

text \<open>
  A dead RPC node is never mistaken for a missing account, and a missing account or a
  foreign one never opens a session: every outcome of the fetch other than a recognised
  program's account is an error that names its cause.
\<close>

theorem verify_on_chain_session_fails_closed:
  "(fetch session = Err () \<longleftrightarrow>
      verify_on_chain_session X fetch program_id legacy session claimed = Err RpcUnavailable)
   \<and> (fetch session = Ok None \<longleftrightarrow>
      verify_on_chain_session X fetch program_id legacy session claimed = Err AccountNotFound)
   \<and> ((\<exists>owner data. fetch session = Ok (Some (owner, data)) \<and> owner \<noteq> program_id \<and> legacy \<noteq> Some owner)
      \<longleftrightarrow> (\<exists>owner. verify_on_chain_session X fetch program_id legacy session claimed
             = Err (WrongProgramOwner program_id owner)))"
proof -
  have "parse d \<noteq> Err RpcUnavailable \<and> parse d \<noteq> Err AccountNotFound
      \<and> parse d \<noteq> Err (WrongProgramOwner p q)" for d p q
    by (auto simp: parse_def Let_def)
  then show ?thesis
    unfolding verify_on_chain_session_def Let_def
    by (auto split: sum.splits option.splits if_splits)
qed

end
