(* ===== verification/Errors.thy ===== *)
theory Errors
  imports Prelude
begin

section \<open>Reason codes and denials\<close>

text \<open>
  \<open>gateway/src/error.rs\<close>: the reason codes every refusal carries, their wire
  strings, messages and HTTP statuses, and the denial value the handlers return. The
  constructors have the names of the Rust variants, which are the wire codes. A request
  id is the text of a fresh UUID, which the handlers take as an argument.
\<close>

datatype reason_code =
    ERR_MALFORMED_CLAIM | ERR_MALFORMED_REQUEST | ERR_SESSION_UNKNOWN | ERR_SESSION_ALREADY_OPEN
  | ERR_SESSION_EXPIRED | ERR_SESSION_SETTLED | ERR_CLAIM_EXPIRED | ERR_CLAIM_NOT_MONOTONIC
  | ERR_NONCE_NOT_MONOTONIC | ERR_CLAIM_EXCEEDS_DEPOSIT | ERR_INVALID_SIGNATURE
  | ERR_NOTHING_TO_SETTLE | ERR_WRONG_PROVIDER_KEY | ERR_WRONG_PROGRAM_OWNER
  | ERR_SETTLEMENT_UNAVAILABLE | ERR_SETTLEMENT_FAILED | ERR_SESSION_ACCOUNT_NOT_FOUND
  | ERR_DEPOSIT_MISMATCH | ERR_SESSION_FIELD_MISMATCH | ERR_NOT_A_SESSION_ACCOUNT
  | ERR_CHAIN_UNAVAILABLE | ERR_UPSTREAM_NOT_CONFIGURED | ERR_UPSTREAM_UNAVAILABLE
  | ERR_UNKNOWN_RESOURCE | ERR_PRICE_MISMATCH | ERR_EVIDENCE_UNAVAILABLE
  | ERR_EVIDENCE_NOT_FOUND | ERR_UNAUTHORIZED | ERR_RATE_LIMITED | ERR_PLAN_CLAIM_MISMATCH
  | ERR_AGENT_NOT_FOUND | ERR_AGENT_EXISTS | ERR_AGENT_SUSPENDED | ERR_AGENT_POLICY_REQUIRED
  | ERR_POLICY_RESOURCE_NOT_ALLOWED | ERR_POLICY_PRICE_CAP | ERR_POLICY_BUDGET
  | ERR_POLICY_CALL_LIMIT | ERR_APPROVAL_REQUIRED | ERR_PROVIDER_NOT_FOUND | ERR_OPERATOR_EXISTS
  | ERR_OPERATOR_NOT_FOUND | ERR_SHARED_TOKEN_NOT_ROTATABLE | ERR_CONTROL_PLANE_UNAVAILABLE
  | ERR_STORE_UNAVAILABLE

primrec reason_as_str :: "reason_code \<Rightarrow> string" where
  "reason_as_str ERR_MALFORMED_CLAIM = ''ERR_MALFORMED_CLAIM''"
| "reason_as_str ERR_MALFORMED_REQUEST = ''ERR_MALFORMED_REQUEST''"
| "reason_as_str ERR_SESSION_UNKNOWN = ''ERR_SESSION_UNKNOWN''"
| "reason_as_str ERR_SESSION_ALREADY_OPEN = ''ERR_SESSION_ALREADY_OPEN''"
| "reason_as_str ERR_SESSION_EXPIRED = ''ERR_SESSION_EXPIRED''"
| "reason_as_str ERR_SESSION_SETTLED = ''ERR_SESSION_SETTLED''"
| "reason_as_str ERR_CLAIM_EXPIRED = ''ERR_CLAIM_EXPIRED''"
| "reason_as_str ERR_CLAIM_NOT_MONOTONIC = ''ERR_CLAIM_NOT_MONOTONIC''"
| "reason_as_str ERR_NONCE_NOT_MONOTONIC = ''ERR_NONCE_NOT_MONOTONIC''"
| "reason_as_str ERR_CLAIM_EXCEEDS_DEPOSIT = ''ERR_CLAIM_EXCEEDS_DEPOSIT''"
| "reason_as_str ERR_INVALID_SIGNATURE = ''ERR_INVALID_SIGNATURE''"
| "reason_as_str ERR_NOTHING_TO_SETTLE = ''ERR_NOTHING_TO_SETTLE''"
| "reason_as_str ERR_WRONG_PROVIDER_KEY = ''ERR_WRONG_PROVIDER_KEY''"
| "reason_as_str ERR_WRONG_PROGRAM_OWNER = ''ERR_WRONG_PROGRAM_OWNER''"
| "reason_as_str ERR_SETTLEMENT_UNAVAILABLE = ''ERR_SETTLEMENT_UNAVAILABLE''"
| "reason_as_str ERR_SETTLEMENT_FAILED = ''ERR_SETTLEMENT_FAILED''"
| "reason_as_str ERR_SESSION_ACCOUNT_NOT_FOUND = ''ERR_SESSION_ACCOUNT_NOT_FOUND''"
| "reason_as_str ERR_DEPOSIT_MISMATCH = ''ERR_DEPOSIT_MISMATCH''"
| "reason_as_str ERR_SESSION_FIELD_MISMATCH = ''ERR_SESSION_FIELD_MISMATCH''"
| "reason_as_str ERR_NOT_A_SESSION_ACCOUNT = ''ERR_NOT_A_SESSION_ACCOUNT''"
| "reason_as_str ERR_CHAIN_UNAVAILABLE = ''ERR_CHAIN_UNAVAILABLE''"
| "reason_as_str ERR_UPSTREAM_NOT_CONFIGURED = ''ERR_UPSTREAM_NOT_CONFIGURED''"
| "reason_as_str ERR_UPSTREAM_UNAVAILABLE = ''ERR_UPSTREAM_UNAVAILABLE''"
| "reason_as_str ERR_UNKNOWN_RESOURCE = ''ERR_UNKNOWN_RESOURCE''"
| "reason_as_str ERR_PRICE_MISMATCH = ''ERR_PRICE_MISMATCH''"
| "reason_as_str ERR_EVIDENCE_UNAVAILABLE = ''ERR_EVIDENCE_UNAVAILABLE''"
| "reason_as_str ERR_EVIDENCE_NOT_FOUND = ''ERR_EVIDENCE_NOT_FOUND''"
| "reason_as_str ERR_UNAUTHORIZED = ''ERR_UNAUTHORIZED''"
| "reason_as_str ERR_RATE_LIMITED = ''ERR_RATE_LIMITED''"
| "reason_as_str ERR_PLAN_CLAIM_MISMATCH = ''ERR_PLAN_CLAIM_MISMATCH''"
| "reason_as_str ERR_AGENT_NOT_FOUND = ''ERR_AGENT_NOT_FOUND''"
| "reason_as_str ERR_AGENT_EXISTS = ''ERR_AGENT_EXISTS''"
| "reason_as_str ERR_AGENT_SUSPENDED = ''ERR_AGENT_SUSPENDED''"
| "reason_as_str ERR_AGENT_POLICY_REQUIRED = ''ERR_AGENT_POLICY_REQUIRED''"
| "reason_as_str ERR_POLICY_RESOURCE_NOT_ALLOWED = ''ERR_POLICY_RESOURCE_NOT_ALLOWED''"
| "reason_as_str ERR_POLICY_PRICE_CAP = ''ERR_POLICY_PRICE_CAP''"
| "reason_as_str ERR_POLICY_BUDGET = ''ERR_POLICY_BUDGET''"
| "reason_as_str ERR_POLICY_CALL_LIMIT = ''ERR_POLICY_CALL_LIMIT''"
| "reason_as_str ERR_APPROVAL_REQUIRED = ''ERR_APPROVAL_REQUIRED''"
| "reason_as_str ERR_PROVIDER_NOT_FOUND = ''ERR_PROVIDER_NOT_FOUND''"
| "reason_as_str ERR_OPERATOR_EXISTS = ''ERR_OPERATOR_EXISTS''"
| "reason_as_str ERR_OPERATOR_NOT_FOUND = ''ERR_OPERATOR_NOT_FOUND''"
| "reason_as_str ERR_SHARED_TOKEN_NOT_ROTATABLE = ''ERR_SHARED_TOKEN_NOT_ROTATABLE''"
| "reason_as_str ERR_CONTROL_PLANE_UNAVAILABLE = ''ERR_CONTROL_PLANE_UNAVAILABLE''"
| "reason_as_str ERR_STORE_UNAVAILABLE = ''ERR_STORE_UNAVAILABLE''"

primrec reason_message :: "reason_code \<Rightarrow> string" where
  "reason_message ERR_MALFORMED_CLAIM =
     ''The claim could not be decoded.''"
| "reason_message ERR_MALFORMED_REQUEST =
     ''The request body was not valid.''"
| "reason_message ERR_SESSION_UNKNOWN =
     ''No such session is being tracked.''"
| "reason_message ERR_SESSION_ALREADY_OPEN =
     ''That session is already being tracked.''"
| "reason_message ERR_SESSION_EXPIRED =
     ''The session has expired and can no longer be used.''"
| "reason_message ERR_SESSION_SETTLED =
     ''The session has already settled.''"
| "reason_message ERR_CLAIM_EXPIRED =
     ''The claim'' @ [CHR 0x27] @ ''s own expiry has passed.''"
| "reason_message ERR_CLAIM_NOT_MONOTONIC =
     ''The cumulative amount did not increase over the last accepted claim.''"
| "reason_message ERR_NONCE_NOT_MONOTONIC =
     ''The claim sequence number did not increase over the last accepted claim.''"
| "reason_message ERR_CLAIM_EXCEEDS_DEPOSIT =
     ''The cumulative amount is larger than the session deposit.''"
| "reason_message ERR_INVALID_SIGNATURE =
     ''The claim signature is not valid for this session.''"
| "reason_message ERR_NOTHING_TO_SETTLE =
     ''No claims were accepted for this session, so there is nothing to settle.''"
| "reason_message ERR_WRONG_PROVIDER_KEY =
     ''The configured provider key does not match this session'' @ [CHR 0x27] @ ''s provider.''"
| "reason_message ERR_WRONG_PROGRAM_OWNER =
     ''This session is owned by a program this gateway does not serve.''"
| "reason_message ERR_SETTLEMENT_UNAVAILABLE =
     ''This gateway runs in verify-only mode and cannot submit settlements.''"
| "reason_message ERR_SETTLEMENT_FAILED =
     ''The settlement transaction could not be submitted or confirmed.''"
| "reason_message ERR_SESSION_ACCOUNT_NOT_FOUND =
     ''No escrow session exists on chain at that address.''"
| "reason_message ERR_DEPOSIT_MISMATCH =
     ''The deposit in the request does not match the escrowed amount on chain.''"
| "reason_message ERR_SESSION_FIELD_MISMATCH =
     ''A session field in the request does not match the on-chain account.''"
| "reason_message ERR_NOT_A_SESSION_ACCOUNT =
     ''That address does not hold an AgentPay session account.''"
| "reason_message ERR_CHAIN_UNAVAILABLE =
     ''The session could not be verified against the chain, so it was refused.''"
| "reason_message ERR_UPSTREAM_NOT_CONFIGURED =
     ''This gateway has no provider configured, so nothing can be bought.''"
| "reason_message ERR_UPSTREAM_UNAVAILABLE =
     ''The provider could not be reached or priced, so the request was refused.''"
| "reason_message ERR_UNKNOWN_RESOURCE =
     ''The provider does not sell that resource.''"
| "reason_message ERR_PRICE_MISMATCH =
     ''The claim does not cover this resource'' @ [CHR 0x27] @ ''s price exactly.''"
| "reason_message ERR_EVIDENCE_UNAVAILABLE =
     ''The evidence log could not be read, so no root could be produced.''"
| "reason_message ERR_EVIDENCE_NOT_FOUND =
     ''No evidence entry exists at that sequence number.''"
| "reason_message ERR_UNAUTHORIZED =
     ''The control plane requires an admin token. Present it as `Authorization: Bearer <token>`.''"
| "reason_message ERR_RATE_LIMITED =
     ''Too many requests from this address. Retry after a short pause.''"
| "reason_message ERR_PLAN_CLAIM_MISMATCH =
     ''A planning claim must describe the session'' @ [CHR 0x27] @ ''s CURRENT state: sign cumulative_amount equal to the accepted total and nonce equal to the last accepted nonce. A higher cumulative would be a spendable claim, which this endpoint refuses.''"
| "reason_message ERR_AGENT_NOT_FOUND =
     ''No agent is registered under that id.''"
| "reason_message ERR_AGENT_EXISTS =
     ''An agent already exists with that id or that public key.''"
| "reason_message ERR_AGENT_SUSPENDED =
     ''This agent is suspended and may not spend, whatever its escrow allows.''"
| "reason_message ERR_AGENT_POLICY_REQUIRED =
     ''This gateway requires every session to belong to an authorized agent, and this one does not.''"
| "reason_message ERR_POLICY_RESOURCE_NOT_ALLOWED =
     ''The agent'' @ [CHR 0x27] @ ''s permission envelope does not include this resource.''"
| "reason_message ERR_POLICY_PRICE_CAP =
     ''This purchase costs more than the agent is permitted to spend at once.''"
| "reason_message ERR_POLICY_BUDGET =
     ''This purchase would take the agent past its authorized total.''"
| "reason_message ERR_POLICY_CALL_LIMIT =
     ''The agent has used every call its authorization permits.''"
| "reason_message ERR_APPROVAL_REQUIRED =
     ''This spend needs a human decision before it can proceed.''"
| "reason_message ERR_PROVIDER_NOT_FOUND =
     ''No provider is registered under that id.''"
| "reason_message ERR_OPERATOR_EXISTS =
     ''An operator already exists with that id or token.''"
| "reason_message ERR_OPERATOR_NOT_FOUND =
     ''No operator is registered under that id.''"
| "reason_message ERR_SHARED_TOKEN_NOT_ROTATABLE =
     ''The shared admin token lives in AGENTPAY_ADMIN_TOKEN, not in the operator store. Change it there and restart. Rotation applies to per-operator credentials.''"
| "reason_message ERR_CONTROL_PLANE_UNAVAILABLE =
     ''Agents, policies and the registry need a database; this gateway is running without one.''"
| "reason_message ERR_STORE_UNAVAILABLE =
     ''Session state could not be read, so the request was denied.''"

definition BAD_REQUEST :: nat where "BAD_REQUEST = 400"
definition UNAUTHORIZED :: nat where "UNAUTHORIZED = 401"
definition PAYMENT_REQUIRED :: nat where "PAYMENT_REQUIRED = 402"
definition FORBIDDEN :: nat where "FORBIDDEN = 403"
definition NOT_FOUND :: nat where "NOT_FOUND = 404"
definition CONFLICT :: nat where "CONFLICT = 409"
definition TOO_MANY_REQUESTS :: nat where "TOO_MANY_REQUESTS = 429"
definition SERVICE_UNAVAILABLE :: nat where "SERVICE_UNAVAILABLE = 503"

lemmas status_codes = BAD_REQUEST_def UNAUTHORIZED_def PAYMENT_REQUIRED_def FORBIDDEN_def NOT_FOUND_def CONFLICT_def TOO_MANY_REQUESTS_def SERVICE_UNAVAILABLE_def

primrec reason_status :: "reason_code \<Rightarrow> nat" where
  "reason_status ERR_MALFORMED_CLAIM = BAD_REQUEST"
| "reason_status ERR_MALFORMED_REQUEST = BAD_REQUEST"
| "reason_status ERR_SESSION_UNKNOWN = NOT_FOUND"
| "reason_status ERR_SESSION_ALREADY_OPEN = CONFLICT"
| "reason_status ERR_SESSION_EXPIRED = FORBIDDEN"
| "reason_status ERR_SESSION_SETTLED = FORBIDDEN"
| "reason_status ERR_CLAIM_EXPIRED = FORBIDDEN"
| "reason_status ERR_CLAIM_NOT_MONOTONIC = FORBIDDEN"
| "reason_status ERR_NONCE_NOT_MONOTONIC = FORBIDDEN"
| "reason_status ERR_CLAIM_EXCEEDS_DEPOSIT = FORBIDDEN"
| "reason_status ERR_INVALID_SIGNATURE = UNAUTHORIZED"
| "reason_status ERR_NOTHING_TO_SETTLE = FORBIDDEN"
| "reason_status ERR_WRONG_PROVIDER_KEY = FORBIDDEN"
| "reason_status ERR_WRONG_PROGRAM_OWNER = FORBIDDEN"
| "reason_status ERR_SETTLEMENT_UNAVAILABLE = SERVICE_UNAVAILABLE"
| "reason_status ERR_SETTLEMENT_FAILED = SERVICE_UNAVAILABLE"
| "reason_status ERR_SESSION_ACCOUNT_NOT_FOUND = NOT_FOUND"
| "reason_status ERR_DEPOSIT_MISMATCH = BAD_REQUEST"
| "reason_status ERR_SESSION_FIELD_MISMATCH = BAD_REQUEST"
| "reason_status ERR_NOT_A_SESSION_ACCOUNT = BAD_REQUEST"
| "reason_status ERR_CHAIN_UNAVAILABLE = SERVICE_UNAVAILABLE"
| "reason_status ERR_UPSTREAM_NOT_CONFIGURED = SERVICE_UNAVAILABLE"
| "reason_status ERR_UPSTREAM_UNAVAILABLE = SERVICE_UNAVAILABLE"
| "reason_status ERR_UNKNOWN_RESOURCE = NOT_FOUND"
| "reason_status ERR_PRICE_MISMATCH = PAYMENT_REQUIRED"
| "reason_status ERR_EVIDENCE_UNAVAILABLE = SERVICE_UNAVAILABLE"
| "reason_status ERR_EVIDENCE_NOT_FOUND = NOT_FOUND"
| "reason_status ERR_UNAUTHORIZED = UNAUTHORIZED"
| "reason_status ERR_RATE_LIMITED = TOO_MANY_REQUESTS"
| "reason_status ERR_PLAN_CLAIM_MISMATCH = BAD_REQUEST"
| "reason_status ERR_AGENT_NOT_FOUND = NOT_FOUND"
| "reason_status ERR_AGENT_EXISTS = CONFLICT"
| "reason_status ERR_AGENT_SUSPENDED = FORBIDDEN"
| "reason_status ERR_AGENT_POLICY_REQUIRED = FORBIDDEN"
| "reason_status ERR_POLICY_RESOURCE_NOT_ALLOWED = FORBIDDEN"
| "reason_status ERR_POLICY_PRICE_CAP = FORBIDDEN"
| "reason_status ERR_POLICY_BUDGET = FORBIDDEN"
| "reason_status ERR_POLICY_CALL_LIMIT = FORBIDDEN"
| "reason_status ERR_APPROVAL_REQUIRED = FORBIDDEN"
| "reason_status ERR_PROVIDER_NOT_FOUND = NOT_FOUND"
| "reason_status ERR_OPERATOR_EXISTS = CONFLICT"
| "reason_status ERR_OPERATOR_NOT_FOUND = NOT_FOUND"
| "reason_status ERR_SHARED_TOKEN_NOT_ROTATABLE = BAD_REQUEST"
| "reason_status ERR_CONTROL_PLANE_UNAVAILABLE = SERVICE_UNAVAILABLE"
| "reason_status ERR_STORE_UNAVAILABLE = SERVICE_UNAVAILABLE"

subsection \<open>Denials\<close>

record api_error =
  ae_reason_code :: string
  ae_message :: string
  ae_request_id :: string

definition api_error_new :: "reason_code \<Rightarrow> string \<Rightarrow> nat \<times> api_error" where
  "api_error_new code request_id = (reason_status code,
     \<lparr>ae_reason_code = reason_as_str code, ae_message = reason_message code,
      ae_request_id = request_id\<rparr>)"

datatype denial = Denial (dn_status: nat) (dn_body: api_error)

definition denial_new :: "reason_code \<Rightarrow> string \<Rightarrow> denial" where
  "denial_new code request_id = (case api_error_new code request_id of
     (status, body) \<Rightarrow> Denial status body)"

subsection \<open>The wire strings tell the codes apart\<close>

definition all_codes :: "reason_code list" where
  "all_codes = [
     ERR_MALFORMED_CLAIM, ERR_MALFORMED_REQUEST, ERR_SESSION_UNKNOWN, ERR_SESSION_ALREADY_OPEN,
     ERR_SESSION_EXPIRED, ERR_SESSION_SETTLED, ERR_CLAIM_EXPIRED, ERR_CLAIM_NOT_MONOTONIC,
     ERR_NONCE_NOT_MONOTONIC, ERR_CLAIM_EXCEEDS_DEPOSIT, ERR_INVALID_SIGNATURE,
     ERR_NOTHING_TO_SETTLE, ERR_WRONG_PROVIDER_KEY, ERR_WRONG_PROGRAM_OWNER,
     ERR_SETTLEMENT_UNAVAILABLE, ERR_SETTLEMENT_FAILED, ERR_SESSION_ACCOUNT_NOT_FOUND,
     ERR_DEPOSIT_MISMATCH, ERR_SESSION_FIELD_MISMATCH, ERR_NOT_A_SESSION_ACCOUNT,
     ERR_CHAIN_UNAVAILABLE, ERR_UPSTREAM_NOT_CONFIGURED, ERR_UPSTREAM_UNAVAILABLE,
     ERR_UNKNOWN_RESOURCE, ERR_PRICE_MISMATCH, ERR_EVIDENCE_UNAVAILABLE, ERR_EVIDENCE_NOT_FOUND,
     ERR_UNAUTHORIZED, ERR_RATE_LIMITED, ERR_PLAN_CLAIM_MISMATCH, ERR_AGENT_NOT_FOUND,
     ERR_AGENT_EXISTS, ERR_AGENT_SUSPENDED, ERR_AGENT_POLICY_REQUIRED,
     ERR_POLICY_RESOURCE_NOT_ALLOWED, ERR_POLICY_PRICE_CAP, ERR_POLICY_BUDGET,
     ERR_POLICY_CALL_LIMIT, ERR_APPROVAL_REQUIRED, ERR_PROVIDER_NOT_FOUND, ERR_OPERATOR_EXISTS,
     ERR_OPERATOR_NOT_FOUND, ERR_SHARED_TOKEN_NOT_ROTATABLE, ERR_CONTROL_PLANE_UNAVAILABLE,
     ERR_STORE_UNAVAILABLE]"

lemma all_codes_complete: "c \<in> set all_codes"
  by (cases c) (simp_all add: all_codes_def)

lemma all_codes_distinct: "distinct (map reason_as_str all_codes)"
  by code_simp

lemma all_codes_lengths: "list_all (\<lambda>c. length (reason_as_str c) \<le> 32) all_codes"
  by code_simp

lemma reason_as_str_length: "length (reason_as_str c) \<le> 32"
  using all_codes_lengths all_codes_complete [of c] by (simp only: list_all_iff)

lemma reason_as_str_inject: "reason_as_str c = reason_as_str c' \<longleftrightarrow> c = c'"
  using all_codes_distinct all_codes_complete [of c] all_codes_complete [of c']
  by (auto simp: distinct_map dest: inj_onD)

lemma reason_status_range: "400 \<le> reason_status c \<and> reason_status c < 600"
  by (cases c) (simp_all add: status_codes)

lemma denial_new_simps [simp]:
  "dn_status (denial_new c rid) = reason_status c"
  "ae_reason_code (dn_body (denial_new c rid)) = reason_as_str c"
  "ae_request_id (dn_body (denial_new c rid)) = rid"
  by (simp_all add: denial_new_def api_error_new_def)

lemma denial_new_inject: "denial_new c rid = denial_new c' rid' \<longleftrightarrow> c = c' \<and> rid = rid'"
  by (metis denial_new_simps(2,3) reason_as_str_inject)

text \<open>
  Every refusal is recognisable as one: it has an error status (400 to 599, never a
  success), its wire code identifies the reason and the request, and the code fits the
  32-character \<open>decision\<close> column of the usage and evidence tables.
\<close>

theorem denial_identifies_reason:
  "400 \<le> dn_status (denial_new c rid) \<and> dn_status (denial_new c rid) < 600
   \<and> (ae_reason_code (dn_body (denial_new c rid)) = reason_as_str c' \<longleftrightarrow> c = c')
   \<and> (denial_new c rid = denial_new c' rid' \<longleftrightarrow> c = c' \<and> rid = rid')
   \<and> length (ae_reason_code (dn_body (denial_new c rid))) \<le> 32"
  using reason_status_range [of c] reason_as_str_length [of c]
  by (simp add: denial_new_inject reason_as_str_inject)

end
