(* ===== verification/Policy.thy ===== *)
theory Policy
  imports Prelude
begin

section \<open>The permission envelope of an agent\<close>

text \<open>
  \<open>gateway/src/policy.rs\<close>: what a human allows an agent to spend, and the pure
  function \<open>evaluate\<close> that applies it to one proposed purchase. The order of the
  checks is the specification; the theorems give the exact condition of each outcome,
  that an admitted purchase keeps the spend within the budget, and that the spellings of
  a resource a request or an allowlist may use are identified.
\<close>

datatype agent_mode = Human | Autonomous

primrec mode_as_str :: "agent_mode \<Rightarrow> string" where
  "mode_as_str Human = ''human''"
| "mode_as_str Autonomous = ''autonomous''"

definition from_str_or_human :: "string \<Rightarrow> agent_mode" where
  "from_str_or_human s = (if s = ''autonomous'' then Autonomous else Human)"

datatype agent_status = Active | Suspended

primrec status_as_str :: "agent_status \<Rightarrow> string" where
  "status_as_str Active = ''active''"
| "status_as_str Suspended = ''suspended''"

definition from_str_or_suspended :: "string \<Rightarrow> agent_status" where
  "from_str_or_suspended s = (if s = ''active'' then Active else Suspended)"

record agent_policy =
  ap_max_total :: u64
  ap_max_per_call :: u64
  ap_approval_threshold :: "u64 option"
  ap_allowed_resources :: "string list option"
  ap_max_calls :: "u32 option"

record spend =
  sp_spent :: u64
  sp_calls :: u32

datatype policy_refusal = RefSuspended | RefResourceNotAllowed | RefPriceCap | RefBudget | RefCallLimit

datatype policy_decision = Allow | NeedsApproval | Refuse policy_refusal

primrec refusal_as_str :: "policy_refusal \<Rightarrow> string" where
  "refusal_as_str RefSuspended = ''ERR_AGENT_SUSPENDED''"
| "refusal_as_str RefResourceNotAllowed = ''ERR_POLICY_RESOURCE_NOT_ALLOWED''"
| "refusal_as_str RefPriceCap = ''ERR_POLICY_PRICE_CAP''"
| "refusal_as_str RefBudget = ''ERR_POLICY_BUDGET''"
| "refusal_as_str RefCallLimit = ''ERR_POLICY_CALL_LIMIT''"

abbreviation slash :: "char \<Rightarrow> bool" where
  "slash c \<equiv> c = CHR ''/''"

abbreviation query_mark :: "char \<Rightarrow> bool" where
  "query_mark c \<equiv> c = CHR ''?''"

definition policy_normalise_resource :: "string \<Rightarrow> string" where
  \<comment> \<open>the part before the first \<open>?\<close> is \<open>split('?').next()\<close>\<close>
  "policy_normalise_resource raw =
     (let trimmed = trim_start_matches slash (trim raw);
          without_query = takeWhile (\<lambda>c. \<not> query_mark c) trimmed
      in ''/'' @ trim_end_matches slash without_query)"

definition evaluate ::
    "agent_status \<Rightarrow> agent_mode \<Rightarrow> agent_policy \<Rightarrow> string \<Rightarrow> u64 \<Rightarrow> spend \<Rightarrow> policy_decision" where
  "evaluate status mode policy resource price so_far =
     (if status \<noteq> Active then Refuse RefSuspended
      else if (case ap_allowed_resources policy of
                 None \<Rightarrow> False
               | Some allowed \<Rightarrow> allowed \<noteq> [] \<and>
                   (let wanted = policy_normalise_resource resource in
                    \<not> list_ex (\<lambda>a. policy_normalise_resource a = wanted) allowed))
      then Refuse RefResourceNotAllowed
      else if price > ap_max_per_call policy then Refuse RefPriceCap
      else if (case ap_max_calls policy of None \<Rightarrow> False | Some limit \<Rightarrow> sp_calls so_far \<ge> limit)
      then Refuse RefCallLimit
      else case checked_add_u64 (sp_spent so_far) price of
        None \<Rightarrow> Refuse RefBudget
      | Some projected \<Rightarrow>
          if projected > ap_max_total policy then Refuse RefBudget
          else
            let needs_approval = (case mode of
                  Human \<Rightarrow> True
                | Autonomous \<Rightarrow> (case ap_approval_threshold policy of
                    None \<Rightarrow> False | Some t \<Rightarrow> price \<ge> t))
            in if needs_approval then NeedsApproval else Allow)"

subsection \<open>What the envelope admits\<close>

definition resource_permitted :: "agent_policy \<Rightarrow> string \<Rightarrow> bool" where
  "resource_permitted p resource \<longleftrightarrow>
     (case ap_allowed_resources p of None \<Rightarrow> True | Some allowed \<Rightarrow> allowed = [] \<or>
        policy_normalise_resource resource \<in> policy_normalise_resource ` set allowed)"

definition within_envelope :: "agent_policy \<Rightarrow> string \<Rightarrow> u64 \<Rightarrow> spend \<Rightarrow> bool" where
  "within_envelope p resource price so_far \<longleftrightarrow>
     resource_permitted p resource \<and> price \<le> ap_max_per_call p
     \<and> (\<forall>limit. ap_max_calls p = Some limit \<longrightarrow> sp_calls so_far < limit)
     \<and> unat (sp_spent so_far) + unat price \<le> unat (ap_max_total p)"

definition must_ask :: "agent_mode \<Rightarrow> agent_policy \<Rightarrow> u64 \<Rightarrow> bool" where
  "must_ask mode p price \<longleftrightarrow>
     mode = Human \<or> (\<exists>t. ap_approval_threshold p = Some t \<and> t \<le> price)"

lemma not_permitted:
  "(case ap_allowed_resources p of None \<Rightarrow> False | Some allowed \<Rightarrow> allowed \<noteq> [] \<and>
      (let wanted = policy_normalise_resource resource in
       \<not> list_ex (\<lambda>a. policy_normalise_resource a = wanted) allowed))
   \<longleftrightarrow> \<not> resource_permitted p resource"
  by (auto simp: resource_permitted_def list_ex_iff Let_def image_iff split: option.splits)

lemma budget_branch:
  "(case checked_add_u64 s x of None \<Rightarrow> d | Some v \<Rightarrow> if v > m then d else e)
     = (if unat m < unat s + unat x then d else e)"
proof -
  have "unat m < unat (s + x) \<longleftrightarrow> unat m < unat s + unat x" if "unat s + unat x < 2 ^ 64"
    using unat_add_u64 [OF that] by simp
  moreover have "unat m < 2 ^ 64" by (rule unat_u64_less)
  ultimately show ?thesis
    by (auto simp: checked_add_u64_def word_less_nat_alt)
qed

lemma calls_branch:
  "(case ap_max_calls p of None \<Rightarrow> False | Some limit \<Rightarrow> c \<ge> limit)
     \<longleftrightarrow> (\<exists>limit. ap_max_calls p = Some limit \<and> limit \<le> c)"
  by (auto split: option.splits)

lemma needs_approval_iff:
  "(case mode of Human \<Rightarrow> True
     | Autonomous \<Rightarrow> (case ap_approval_threshold p of None \<Rightarrow> False | Some t \<Rightarrow> price \<ge> t))
   \<longleftrightarrow> must_ask mode p price"
  by (auto simp: must_ask_def split: agent_mode.splits option.splits)

lemmas evaluate_branches = evaluate_def [unfolded not_permitted calls_branch,
  unfolded Let_def, unfolded budget_branch needs_approval_iff]

text \<open>
  The envelope, branch by branch. Purchases outside it are refused with the first rule
  broken, in the order status, allowlist, price cap, call count, budget; the budget is
  compared without wrap-around. A purchase inside it waits for a human exactly when the
  agent is in human mode or the price reaches the threshold, and is allowed otherwise.
\<close>

theorem policy_evaluate_exact:
  "evaluate status mode p resource price so_far =
     (if status = Suspended then Refuse RefSuspended
      else if \<not> resource_permitted p resource then Refuse RefResourceNotAllowed
      else if ap_max_per_call p < price then Refuse RefPriceCap
      else if \<exists>limit. ap_max_calls p = Some limit \<and> limit \<le> sp_calls so_far then Refuse RefCallLimit
      else if unat (ap_max_total p) < unat (sp_spent so_far) + unat price then Refuse RefBudget
      else if must_ask mode p price then NeedsApproval else Allow)"
  by (cases status) (simp_all add: evaluate_branches)

definition refusal_of :: "agent_status \<Rightarrow> agent_policy \<Rightarrow> string \<Rightarrow> u64 \<Rightarrow> spend \<Rightarrow> policy_refusal" where
  \<comment> \<open>the first rule that is broken\<close>
  "refusal_of status p resource price so_far =
     (if status = Suspended then RefSuspended
      else if \<not> resource_permitted p resource then RefResourceNotAllowed
      else if ap_max_per_call p < price then RefPriceCap
      else if \<exists>limit. ap_max_calls p = Some limit \<and> limit \<le> sp_calls so_far then RefCallLimit
      else RefBudget)"

lemma evaluate_envelope:
  "evaluate status mode p resource price so_far =
     (if status = Suspended \<or> \<not> within_envelope p resource price so_far
      then Refuse (refusal_of status p resource price so_far)
      else if must_ask mode p price then NeedsApproval else Allow)"
  unfolding policy_evaluate_exact within_envelope_def refusal_of_def by (auto simp: not_le not_less)

lemma evaluate_not_refused:
  "(\<forall>r. evaluate status mode p resource price so_far \<noteq> Refuse r)
     \<longleftrightarrow> status = Active \<and> within_envelope p resource price so_far"
  unfolding within_envelope_def
  by (cases status) (auto simp: evaluate_branches not_less not_le)

subsection \<open>Spellings of a resource\<close>

definition plain_name :: "string \<Rightarrow> bool" where
  \<comment> \<open>a resource name without query, surrounding slashes or surrounding blanks\<close>
  "plain_name s \<longleftrightarrow> s \<noteq> [] \<and> \<not> slash (hd s) \<and> \<not> slash (last s)
     \<and> \<not> is_whitespace (hd s) \<and> \<not> is_whitespace (last s) \<and> CHR ''?'' \<notin> set s"

lemma trim_end_keep:
  "xs \<noteq> [] \<Longrightarrow> \<not> P (last xs) \<Longrightarrow> trim_end_matches P (xs @ ys) = xs @ trim_end_matches P ys"
  by (induction xs rule: rev_induct) (auto simp: trim_end_matches_def dropWhile_append)

lemma trim_end_all: "\<forall>c\<in>set ys. P c \<Longrightarrow> trim_end_matches P ys = []"
  by (simp add: trim_end_matches_def)

lemma trim_start_all: "\<forall>c\<in>set xs. P c \<Longrightarrow> ys \<noteq> [] \<Longrightarrow> \<not> P (hd ys) \<Longrightarrow> trim_start_matches P (xs @ ys) = ys"
  by (cases ys) (simp_all add: trim_start_matches_def dropWhile_append1 dropWhile_append2)

lemma trim_query: "query_mark c \<Longrightarrow> trim_end_matches is_whitespace (c # r) = c # trim_end_matches is_whitespace r"
  using trim_end_keep [of "[c]" is_whitespace r] by (simp add: is_whitespace_def)

definition spelling :: "nat \<Rightarrow> string \<Rightarrow> nat \<Rightarrow> string \<Rightarrow> string" where
  "spelling m s n q = replicate m (CHR ''/'') @ s @ replicate n (CHR ''/'') @ q"

lemma policy_normalise_spelling:
  assumes s: "plain_name s" and q: "q = [] \<or> query_mark (hd q)"
  shows "policy_normalise_resource (spelling m s n q) = ''/'' @ s"
proof -
  let ?p = "replicate m (CHR ''/'') @ s @ replicate n (CHR ''/'')"
  define q' where "q' = trim_end_matches is_whitespace q"
  have q': "q' = [] \<or> query_mark (hd q')"
    using q by (cases q) (auto simp: q'_def trim_query trim_end_all)
  have ends: "?p \<noteq> []" "\<not> is_whitespace (hd ?p)" "\<not> is_whitespace (last ?p)"
    using s by (auto simp: plain_name_def is_whitespace_def hd_append last_append)
  have start: "dropWhile is_whitespace (?p @ q) = ?p @ q"
    using ends(1,2) by (cases ?p) (simp_all del: append_assoc)
  have "trim (?p @ q) = ?p @ q'"
    unfolding trim_def trim_matches_def trim_start_matches_def start q'_def
    by (rule trim_end_keep) (rule ends)+
  moreover have "trim_start_matches slash (?p @ q') = s @ replicate n (CHR ''/'') @ q'"
    using s by (simp add: trim_start_all plain_name_def hd_append)
  moreover have "takeWhile (\<lambda>c. \<not> query_mark c) (s @ replicate n (CHR ''/'') @ q') = s @ replicate n (CHR ''/'')"
    using s q' by (cases q') (auto simp: plain_name_def takeWhile_append)
  moreover have "trim_end_matches slash (s @ replicate n (CHR ''/'')) = s"
    using s by (simp add: trim_end_keep trim_end_all plain_name_def)
  ultimately show ?thesis by (simp add: policy_normalise_resource_def spelling_def)
qed

definition spells :: "string \<Rightarrow> string \<Rightarrow> bool" where
  "spells x s \<longleftrightarrow> plain_name s \<and> (\<exists>m n q. (q = [] \<or> query_mark (hd q)) \<and> x = spelling m s n q)"

lemma spells_normalise: "spells x s \<Longrightarrow> policy_normalise_resource x = ''/'' @ s"
  by (auto simp: spells_def policy_normalise_spelling)

text \<open>
  An allowlist permits a resource whatever the spelling: the number of slashes around
  the name and the query string after it make no difference, on the list or in the
  request, and a different name is still refused.
\<close>

theorem allowlist_spelling_irrelevant:
  assumes "spells x s" and "list_all2 spells allowed names" and "names \<noteq> []"
    and "ap_allowed_resources p = Some allowed"
  shows "evaluate Active mode p x price so_far = Refuse RefResourceNotAllowed \<longleftrightarrow> s \<notin> set names"
proof -
  have "map policy_normalise_resource allowed = map (\<lambda>t. ''/'' @ t) names"
    using assms(2) by (induction rule: list_all2_induct) (simp_all add: spells_normalise)
  then have "policy_normalise_resource ` set allowed = (\<lambda>t. ''/'' @ t) ` set names"
    by (metis list.set_map)
  moreover have "allowed \<noteq> []" using assms(2,3) by auto
  ultimately have "resource_permitted p x \<longleftrightarrow> s \<in> set names"
    using assms spells_normalise [of x s] by (auto simp: resource_permitted_def)
  then show ?thesis by (simp add: evaluate_branches)
qed

definition demo_policy :: agent_policy where
  "demo_policy = \<lparr>ap_max_total = 100, ap_max_per_call = 40, ap_approval_threshold = Some 20,
     ap_allowed_resources = Some [''weather''], ap_max_calls = Some 5\<rparr>"

lemma demo_spellings: "spells ''weather'' ''weather''" "spells ''//weather/?city=x'' ''weather''"
proof -
  have "plain_name ''weather''" by (simp add: plain_name_def is_whitespace_def)
  moreover have "''weather'' = spelling 0 ''weather'' 0 []" by (simp add: spelling_def)
  moreover have "''//weather/?city=x'' = spelling 2 ''weather'' 1 ''?city=x''"
    by (simp add: spelling_def eval_nat_numeral)
  ultimately show "spells ''weather'' ''weather''" "spells ''//weather/?city=x'' ''weather''"
    unfolding spells_def by (metis list.sel(1))+
qed

theorem allowlist_spelling_irrelevant_witness:
  "evaluate Active Human demo_policy ''//weather/?city=x'' 5 \<lparr>sp_spent = 0, sp_calls = 0\<rparr>
     \<noteq> Refuse RefResourceNotAllowed"
  using allowlist_spelling_irrelevant [of "''//weather/?city=x''" "''weather''" "[''weather'']" "[''weather'']"
      demo_policy Human 5 "\<lparr>sp_spent = 0, sp_calls = 0\<rparr>"] demo_spellings
  by (simp add: demo_policy_def)

end
