(* ===== verification/Upstream.thy ===== *)
theory Upstream
  imports Claim
begin

section \<open>The provider behind the paid path\<close>

text \<open>
  \<open>gateway/src/buy.rs\<close>: the client that reads a provider's price list and forwards
  paid requests. The HTTP client (\<open>reqwest\<close>) and the JSON decoder are parameters,
  the record \<open>web\<close>; every operation also returns the URLs it requested, in order, so
  that what reaches a provider can be stated. A \<open>HashMap\<close> is an association list
  whose order stands for the map's iteration order. Instants are nanoseconds of the
  monotonic clock; an operation reads the clock once. Where the source prints a status it
  appends the reason phrase of the status; the text here has the number alone.
\<close>

definition CATALOGUE_TTL :: nat where
  "CATALOGUE_TTL = 60 * 10 ^ 9"

definition UPSTREAM_TIMEOUT :: nat where
  "UPSTREAM_TIMEOUT = 10 * 10 ^ 9"

record resource_price =
  rp_price :: string
  rp_description :: string

record catalogue =
  cat_provider :: string
  cat_resources :: "(string \<times> resource_price) list"

datatype upstream_error =
    NotConfigured
  | Unreachable string
  | BadCatalogue string
  | UnknownResource string
  | BadPrice string string

fun upstream_error_show :: "upstream_error \<Rightarrow> string" where
  "upstream_error_show NotConfigured = ''upstream is not configured''"
| "upstream_error_show (Unreachable e) = ''upstream unreachable: '' @ e"
| "upstream_error_show (BadCatalogue e) = ''upstream catalogue is malformed: '' @ e"
| "upstream_error_show (UnknownResource r) = ''no such resource: '' @ r"
| "upstream_error_show (BadPrice r v) =
     ''price for '' @ r @ '' is not a u64 micro-USDC value: '' @ v"

record http_response =
  hr_status :: nat
  hr_content_type :: "string option"
  hr_served_by :: "string option"
  hr_text :: "(string, string) result"
  hr_catalogue :: "(catalogue, string) result"

record web =
  web_get :: "string \<Rightarrow> nat \<Rightarrow> (http_response, string) result"
    \<comment> \<open>a GET of a URL, given up after a time\<close>

record upstream =
  up_base_url :: string
  up_cached :: "(catalogue \<times> nat) option"

record upstream_response =
  ur_status :: nat
  ur_body :: string
  ur_content_type :: string
  ur_served_by :: "string option"

definition upstream_new :: "string \<Rightarrow> upstream" where
  "upstream_new base_url =
     \<lparr>up_base_url = trim_end_matches (\<lambda>c. c = CHR ''/'') base_url, up_cached = None\<rparr>"

definition normalise_resource :: "string \<Rightarrow> string" where
  "normalise_resource resource = ''/'' @ trim_matches (\<lambda>c. c = CHR ''/'') resource"

definition catalogue_url :: "upstream \<Rightarrow> string" where
  "catalogue_url u = up_base_url u @ ''/_catalogue''"

definition catalogue_of ::
    "web \<Rightarrow> nat \<Rightarrow> upstream \<Rightarrow> (catalogue, upstream_error) result \<times> upstream \<times> string list" where
  "catalogue_of W now u =
     (case (case up_cached u of
              Some (cat, fetched) \<Rightarrow> if now - fetched < CATALOGUE_TTL then Some cat else None
            | None \<Rightarrow> None) of
        Some cat \<Rightarrow> (Ok cat, u, [])
      | None \<Rightarrow>
      let url = catalogue_url u in
      case web_get W url UPSTREAM_TIMEOUT of
        Err e \<Rightarrow> (Err (Unreachable e), u, [url])
      | Ok res \<Rightarrow>
      if \<not> (200 \<le> hr_status res \<and> hr_status res < 300)
      then (Err (Unreachable (''catalogue returned HTTP '' @ show_nat (hr_status res))), u, [url])
      else case hr_catalogue res of
        Err e \<Rightarrow> (Err (BadCatalogue e), u, [url])
      | Ok cat \<Rightarrow> (Ok cat, u\<lparr>up_cached := Some (cat, now)\<rparr>, [url]))"

definition price_of ::
    "web \<Rightarrow> nat \<Rightarrow> string \<Rightarrow> upstream \<Rightarrow> (u64, upstream_error) result \<times> upstream \<times> string list" where
  "price_of W now resource u =
     (case catalogue_of W now u of
        (Err e, u', urls) \<Rightarrow> (Err e, u', urls)
      | (Ok cat, u', urls) \<Rightarrow>
      let key = normalise_resource resource in
      (case map_of (cat_resources cat) key of
         None \<Rightarrow> Err (UnknownResource key)
       | Some entry \<Rightarrow>
           (case parse_u64 (rp_price entry) of
              None \<Rightarrow> Err (BadPrice key (rp_price entry)) | Some p \<Rightarrow> Ok p),
       u', urls))"

definition forward_url :: "upstream \<Rightarrow> string \<Rightarrow> string \<Rightarrow> string" where
  "forward_url u resource query =
     (let path = normalise_resource resource in
      if query = [] then up_base_url u @ path else up_base_url u @ path @ ''?'' @ query)"

definition forward ::
    "web \<Rightarrow> string \<Rightarrow> string \<Rightarrow> upstream \<Rightarrow> (upstream_response, upstream_error) result \<times> string list" where
  "forward W resource query u =
     (let url = forward_url u resource query in
      (case web_get W url UPSTREAM_TIMEOUT of
         Err e \<Rightarrow> Err (Unreachable e)
       | Ok res \<Rightarrow>
           (case hr_text res of
              Err e \<Rightarrow> Err (Unreachable e)
            | Ok body \<Rightarrow> Ok \<lparr>ur_status = hr_status res, ur_body = body,
                ur_content_type = (case hr_content_type res of None \<Rightarrow> ''application/json'' | Some c \<Rightarrow> c),
                ur_served_by = hr_served_by res\<rparr>),
       [url]))"

record signing_hint =
  sh_algorithm :: string
  sh_message :: string
  sh_encoding :: string
  sh_total_bytes :: nat

definition signing_hint_new :: signing_hint where
  "signing_hint_new = \<lparr>sh_algorithm = ''ed25519'',
     sh_message = [CHR 0x22] @ ''agentpay:claim:v1'' @ [CHR 0x22] @
       '' || session(32) || cumulative_le(8) || nonce_le(8) || expires_at_le(8)'',
     sh_encoding = ''little-endian integers; signature base58'',
     sh_total_bytes = CLAIM_MESSAGE_LEN\<rparr>"

record payment_required =
  pr_scheme :: string
  pr_network :: string
  pr_resource :: string
  pr_description :: string
  pr_price :: string
  pr_next_cumulative :: "string option"
  pr_next_nonce :: "string option"
  pr_session_hint :: string
  pr_claim_header :: string
  pr_signing :: signing_hint

subsection \<open>Prices and the cache\<close>

lemma catalogue_of_keeps_url [simp]: "up_base_url (fst (snd (catalogue_of W now u))) = up_base_url u"
  by (auto simp: catalogue_of_def Let_def split: option.splits sum.splits)

lemma catalogue_of_urls: "set (snd (snd (catalogue_of W now u))) \<subseteq> {catalogue_url u}"
  by (auto simp: catalogue_of_def Let_def split: option.splits sum.splits)

lemma catalogue_of_cached:
  "up_cached u = Some (cat, t) \<Longrightarrow> now - t < CATALOGUE_TTL \<Longrightarrow> catalogue_of W now u = (Ok cat, u, [])"
  by (simp add: catalogue_of_def)

lemma catalogue_of_caches:
  "catalogue_of W now u = (Ok cat, u', urls) \<Longrightarrow> \<exists>t. up_cached u' = Some (cat, t) \<and> now - t < CATALOGUE_TTL"
  by (auto simp: catalogue_of_def Let_def CATALOGUE_TTL_def split: option.splits sum.splits if_splits)

lemma price_of_urls: "set (snd (snd (price_of W now r u))) \<subseteq> {catalogue_url u}"
  using catalogue_of_urls [of W now u]
  by (auto simp: price_of_def Let_def split: prod.splits sum.splits)

lemma price_of_keeps_url [simp]: "up_base_url (fst (snd (price_of W now r u))) = up_base_url u"
  using catalogue_of_keeps_url [of W now u]
  by (auto simp del: catalogue_of_keeps_url simp: price_of_def Let_def split: prod.splits sum.splits)

text \<open>
  A price is the provider's own: whenever \<open>price_of\<close> returns an amount, the
  provider's catalogue (the one now in the cache, younger than the time to live) lists
  that resource with a decimal text of exactly that amount, and asking again in the next
  minute gives the same amount without a request.
\<close>

theorem price_is_catalogue_price:
  assumes "price_of W now r u = (Ok p, u', urls)" and "now \<le> now'"
    and "now' - now < CATALOGUE_TTL"
  shows "\<exists>cat t entry. up_cached u' = Some (cat, t) \<and> now - t < CATALOGUE_TTL
    \<and> map_of (cat_resources cat) (normalise_resource r) = Some entry
    \<and> parse_u64 (rp_price entry) = Some p
    \<and> (urls \<noteq> [] \<longrightarrow> price_of W now' r u' = (Ok p, u', []))"
proof -
  obtain cat where cat: "catalogue_of W now u = (Ok cat, u', urls)"
    and p: "(case map_of (cat_resources cat) (normalise_resource r) of
         None \<Rightarrow> Err (UnknownResource (normalise_resource r))
       | Some entry \<Rightarrow>
           (case parse_u64 (rp_price entry) of
              None \<Rightarrow> Err (BadPrice (normalise_resource r) (rp_price entry)) | Some p \<Rightarrow> Ok p)) = Ok p"
    using assms(1) by (auto simp: price_of_def Let_def split: prod.splits sum.splits)
  obtain entry where entry: "map_of (cat_resources cat) (normalise_resource r) = Some entry"
      "parse_u64 (rp_price entry) = Some p"
    using p by (auto split: option.splits)
  obtain t where t: "up_cached u' = Some (cat, t)" "now - t < CATALOGUE_TTL"
    using catalogue_of_caches [OF cat] by auto
  have "urls \<noteq> [] \<Longrightarrow> up_cached u' = Some (cat, now)"
    using cat by (auto simp: catalogue_of_def Let_def split: option.splits sum.splits if_splits)
  then have "urls \<noteq> [] \<Longrightarrow> catalogue_of W now' u' = (Ok cat, u', [])"
    using catalogue_of_cached assms(3) by blast
  then have "urls \<noteq> [] \<longrightarrow> price_of W now' r u' = (Ok p, u', [])"
    using entry by (simp add: price_of_def)
  then show ?thesis using t entry by blast
qed

definition demo_catalogue :: catalogue where
  "demo_catalogue = \<lparr>cat_provider = ''demo'', cat_resources =
     [(''/weather'', \<lparr>rp_price = ''40'', rp_description = ''w''\<rparr>),
      (''news'', \<lparr>rp_price = ''7'', rp_description = ''n''\<rparr>)]\<rparr>"

definition demo_web :: web where
  "demo_web = \<lparr>web_get = (\<lambda>url t. Ok \<lparr>hr_status = 200, hr_content_type = None, hr_served_by = None,
     hr_text = Ok ''sunny'', hr_catalogue = Ok demo_catalogue\<rparr>)\<rparr>"

definition demo_upstream :: upstream where
  "demo_upstream = upstream_new ''http://p/''"

lemma demo_price:
  "price_of demo_web 5 ''weather'' demo_upstream =
     (Ok 40, demo_upstream\<lparr>up_cached := Some (demo_catalogue, 5)\<rparr>, [''http://p/_catalogue''])"
  by (simp add: price_of_def catalogue_of_def demo_upstream_def upstream_new_def demo_web_def
      demo_catalogue_def normalise_resource_def trim_matches_def trim_end_matches_def
      trim_start_matches_def catalogue_url_def parse_u64_def strip_plus_def parse_nat_def
      digit_of_def Let_def)

theorem price_is_catalogue_price_witness:
  "\<exists>cat t entry. up_cached (demo_upstream\<lparr>up_cached := Some (demo_catalogue, 5)\<rparr>) = Some (cat, t)
    \<and> map_of (cat_resources cat) (normalise_resource ''weather'') = Some entry
    \<and> parse_u64 (rp_price entry) = Some 40"
  using price_is_catalogue_price [OF demo_price, of 9] by (auto simp: CATALOGUE_TTL_def)

end
