(* ===== verification/Registry.thy ===== *)
theory Registry
  imports Upstream "HOL-Library.AList" "HOL-Library.List_Lexorder" "HOL-Library.Char_ord"
    "HOL-Library.Product_Lexorder"
begin

section \<open>The provider registry\<close>

text \<open>
  \<open>gateway/src/registry.rs\<close>: many providers, one client with its own catalogue cache
  each, and the aggregated catalogue an agent plans against. The map from provider ids is
  an association list whose order stands for the iteration order of the \<open>HashMap\<close>;
  the theorems do not depend on it.
\<close>

definition DEFAULT_PROVIDER_ID :: string where
  "DEFAULT_PROVIDER_ID = ''default''"

record provider_record =
  pv_provider_id :: string
  pv_label :: string
  pv_base_url :: string
  pv_provider_pubkey :: "string option"
  pv_enabled :: bool

record catalogue_entry =
  ce_provider_id :: string
  ce_provider_label :: string
  ce_resource :: string
  ce_price :: string
  ce_description :: string

record provider_error =
  pe_provider_id :: string
  pe_base_url :: string
  pe_error :: string

record aggregate_catalogue =
  ag_entries :: "catalogue_entry list"
  ag_unavailable :: "provider_error list"

type_synonym registry = "(string \<times> (provider_record \<times> upstream)) list"

definition registry_new :: registry where
  "registry_new = []"

definition registry_upsert :: "provider_record \<Rightarrow> registry \<Rightarrow> registry" where
  "registry_upsert record reg =
     AList.update (pv_provider_id record) (record, upstream_new (pv_base_url record)) reg"

definition registry_remove :: "string \<Rightarrow> registry \<Rightarrow> bool \<times> registry" where
  "registry_remove provider_id reg = (map_of reg provider_id \<noteq> None, AList.delete provider_id reg)"

definition registry_list :: "registry \<Rightarrow> provider_record list" where
  "registry_list reg = sort_key pv_provider_id (map (fst \<circ> snd) reg)"

definition registry_get :: "string \<Rightarrow> registry \<Rightarrow> provider_record option" where
  "registry_get provider_id reg = map_option fst (map_of reg provider_id)"

definition upstream_for :: "string \<Rightarrow> registry \<Rightarrow> upstream option" where
  "upstream_for provider_id reg =
     (case map_of reg provider_id of
        None \<Rightarrow> None | Some (r, u) \<Rightarrow> if pv_enabled r then Some u else None)"

definition registry_is_empty :: "registry \<Rightarrow> bool" where
  "registry_is_empty reg = (reg = [])"

definition registry_snapshot :: "registry \<Rightarrow> (provider_record \<times> upstream) list" where
  "registry_snapshot reg = filter (\<lambda>(r, u). pv_enabled r) (map snd reg)"

definition price_key :: "catalogue_entry \<Rightarrow> u64" where
  "price_key e = (case parse_u64 (ce_price e) of Some p \<Rightarrow> p | None \<Rightarrow> - 1)"

definition offer_key :: "catalogue_entry \<Rightarrow> u64 \<times> string" where
  "offer_key e = (price_key e, ce_provider_id e)"

definition entries_of :: "provider_record \<Rightarrow> catalogue \<Rightarrow> catalogue_entry list" where
  "entries_of record cat =
     map (\<lambda>(resource, p). \<lparr>ce_provider_id = pv_provider_id record, ce_provider_label = pv_label record,
            ce_resource = normalise_resource resource, ce_price = rp_price p,
            ce_description = rp_description p\<rparr>)
       (cat_resources cat)"

definition provider_error_of :: "provider_record \<Rightarrow> upstream_error \<Rightarrow> provider_error" where
  "provider_error_of record e = \<lparr>pe_provider_id = pv_provider_id record,
     pe_base_url = pv_base_url record, pe_error = upstream_error_show e\<rparr>"

fun read_catalogues ::
    "web \<Rightarrow> nat \<Rightarrow> (provider_record \<times> upstream) list
      \<Rightarrow> catalogue_entry list \<times> provider_error list \<times> string list" where
  \<comment> \<open>the loop over the snapshot\<close>
  "read_catalogues W now [] = ([], [], [])"
| "read_catalogues W now ((record, u) # rest) =
     (case read_catalogues W now rest of (entries, unavailable, urls) \<Rightarrow>
      case catalogue_of W now u of
        (Ok cat, _, us) \<Rightarrow> (entries_of record cat @ entries, unavailable, us @ urls)
      | (Err e, _, us) \<Rightarrow> (entries, provider_error_of record e # unavailable, us @ urls))"

definition refresh :: "web \<Rightarrow> nat \<Rightarrow> registry \<Rightarrow> registry" where
  \<comment> \<open>the caches after the loop: the clients are shared with the registry\<close>
  "refresh W now reg =
     map (\<lambda>(k, r, u). (k, r, if pv_enabled r then fst (snd (catalogue_of W now u)) else u)) reg"

definition aggregate ::
    "web \<Rightarrow> nat \<Rightarrow> registry \<Rightarrow> aggregate_catalogue \<times> registry \<times> string list" where
  "aggregate W now reg =
     (case read_catalogues W now (registry_snapshot reg) of (entries, unavailable, urls) \<Rightarrow>
       (\<lparr>ag_entries = sort_key offer_key entries, ag_unavailable = unavailable\<rparr>,
        refresh W now reg, urls))"

definition offers_of ::
    "web \<Rightarrow> nat \<Rightarrow> string \<Rightarrow> registry \<Rightarrow> catalogue_entry list \<times> registry \<times> string list" where
  "offers_of W now resource reg =
     (let wanted = normalise_resource resource in
      case aggregate W now reg of (ag, reg', urls) \<Rightarrow>
        (filter (\<lambda>e. ce_resource e = wanted) (ag_entries ag), reg', urls))"

subsection \<open>The map interface\<close>

text \<open>
  What a client of the registry relies on: a lookup after a registration or a removal, and
  that a disabled provider is never handed out.
\<close>

locale provider_map =
  fixes get :: "string \<Rightarrow> 'm \<Rightarrow> provider_record option"
    and client :: "string \<Rightarrow> 'm \<Rightarrow> upstream option"
    and upsert :: "provider_record \<Rightarrow> 'm \<Rightarrow> 'm"
    and remove :: "string \<Rightarrow> 'm \<Rightarrow> bool \<times> 'm"
  assumes get_upsert: "get k (upsert r m) = (if k = pv_provider_id r then Some r else get k m)"
    and get_remove: "get k (snd (remove k' m)) = (if k = k' then None else get k m)"
    and remove_hit: "fst (remove k m) \<longleftrightarrow> get k m \<noteq> None"
    and client_enabled: "client k m \<noteq> None \<longleftrightarrow> (\<exists>r. get k m = Some r \<and> pv_enabled r)"
    and client_upsert: "client (pv_provider_id r) (upsert r m) = Some u \<Longrightarrow> u = upstream_new (pv_base_url r)"
begin

lemma registered_is_served:
  "pv_enabled r \<Longrightarrow> client (pv_provider_id r) (upsert r m) = Some (upstream_new (pv_base_url r))"
  using client_enabled client_upsert get_upsert by (metis option.exhaust)

lemma disabled_is_not_served: "\<not> pv_enabled r \<Longrightarrow> client (pv_provider_id r) (upsert r m) = None"
  by (metis client_enabled get_upsert option.inject)

lemma removed_is_not_served: "client k (snd (remove k m)) = None"
  by (metis client_enabled get_remove option.distinct(1))

lemma removal_is_idempotent: "\<not> fst (remove k (snd (remove k m)))"
  by (simp add: remove_hit get_remove)

end

interpretation reg: provider_map registry_get upstream_for registry_upsert registry_remove
  by unfold_locales
    (auto simp: registry_get_def registry_upsert_def registry_remove_def upstream_for_def update_conv'
      delete_conv' split: option.splits if_splits)

text \<open>
  Registering, disabling and removing are effective at once: an enabled registration is
  served by a fresh client of its own URL (no catalogue of an earlier URL survives), a
  disabled one and a removed one are not served at all, and other providers are untouched.
\<close>

theorem registry_serves_current_registration:
  "upstream_for (pv_provider_id r) (registry_upsert r reg) =
     (if pv_enabled r then Some (upstream_new (pv_base_url r)) else None)
   \<and> upstream_for k (snd (registry_remove k reg)) = None
   \<and> (k \<noteq> pv_provider_id r \<longrightarrow> upstream_for k (registry_upsert r reg) = upstream_for k reg)
   \<and> (k \<noteq> k' \<longrightarrow> upstream_for k (snd (registry_remove k' reg)) = upstream_for k reg)"
  using reg.registered_is_served [of r reg] reg.disabled_is_not_served [of r reg]
    reg.removed_is_not_served [of k reg]
  by (auto simp: registry_upsert_def registry_remove_def upstream_for_def update_conv' delete_conv')

theorem registry_serves_current_registration_witness:
  "upstream_for ''b'' (registry_upsert \<lparr>pv_provider_id = ''a'', pv_label = ''A'', pv_base_url = ''http://a'',
      pv_provider_pubkey = None, pv_enabled = True\<rparr> registry_new) = upstream_for ''b'' registry_new"
  using registry_serves_current_registration [of "\<lparr>pv_provider_id = ''a'', pv_label = ''A'',
      pv_base_url = ''http://a'', pv_provider_pubkey = None, pv_enabled = True\<rparr>" registry_new "''b''" "''c''"]
  by simp

subsection \<open>The aggregate\<close>

lemma read_catalogues_entries:
  "e \<in> set (fst (read_catalogues W now ps)) \<longleftrightarrow>
     (\<exists>r u cat. (r, u) \<in> set ps \<and> fst (catalogue_of W now u) = Ok cat \<and> e \<in> set (entries_of r cat))"
  by (induction W now ps rule: read_catalogues.induct) (auto split: prod.splits sum.splits, force+)

lemma read_catalogues_unavailable:
  "x \<in> set (fst (snd (read_catalogues W now ps))) \<longleftrightarrow>
     (\<exists>r u err. (r, u) \<in> set ps \<and> fst (catalogue_of W now u) = Err err \<and> x = provider_error_of r err)"
  by (induction W now ps rule: read_catalogues.induct) (auto split: prod.splits sum.splits, force+)

lemma snapshot_set:
  "(r, u) \<in> set (registry_snapshot reg) \<longleftrightarrow> (\<exists>k. (k, r, u) \<in> set reg) \<and> pv_enabled r"
  by (force simp: registry_snapshot_def)

lemma aggregate_entries:
  "e \<in> set (ag_entries (fst (aggregate W now reg))) \<longleftrightarrow>
     (\<exists>k r u cat. (k, r, u) \<in> set reg \<and> pv_enabled r \<and> fst (catalogue_of W now u) = Ok cat
        \<and> e \<in> set (entries_of r cat))"
proof -
  have "set (ag_entries (fst (aggregate W now reg))) = set (fst (read_catalogues W now (registry_snapshot reg)))"
    by (simp add: aggregate_def split: prod.splits)
  then show ?thesis by (auto simp: read_catalogues_entries snapshot_set)
qed

lemma aggregate_unavailable:
  "x \<in> set (ag_unavailable (fst (aggregate W now reg))) \<longleftrightarrow>
     (\<exists>k r u err. (k, r, u) \<in> set reg \<and> pv_enabled r \<and> fst (catalogue_of W now u) = Err err
        \<and> x = provider_error_of r err)"
proof -
  have "ag_unavailable (fst (aggregate W now reg)) = fst (snd (read_catalogues W now (registry_snapshot reg)))"
    by (simp add: aggregate_def split: prod.splits)
  then show ?thesis by (auto simp: read_catalogues_unavailable snapshot_set)
qed

lemma aggregate_sorted: "sorted (map offer_key (ag_entries (fst (aggregate W now reg))))"
  by (simp add: aggregate_def split: prod.splits)

text \<open>
  The aggregated catalogue is exactly what the enabled providers offer: every resource
  of every enabled provider that answers, nothing of a disabled one; every enabled provider
  that does not answer is reported with its error; the entries are ordered by price, then
  by provider, a price that is no amount last.
\<close>

theorem aggregate_exact:
  "set (ag_entries (fst (aggregate W now reg))) =
     (\<Union>(k, r, u) \<in> set reg. if pv_enabled r then
        (case fst (catalogue_of W now u) of Ok cat \<Rightarrow> set (entries_of r cat) | Err _ \<Rightarrow> {}) else {})
   \<and> set (ag_unavailable (fst (aggregate W now reg))) =
     (\<Union>(k, r, u) \<in> set reg. if pv_enabled r then
        (case fst (catalogue_of W now u) of Ok _ \<Rightarrow> {} | Err e \<Rightarrow> {provider_error_of r e}) else {})
   \<and> sorted (map offer_key (ag_entries (fst (aggregate W now reg))))"
  by (intro conjI aggregate_sorted set_eqI)
    (force simp: aggregate_entries aggregate_unavailable split: sum.splits if_splits)+

lemma trim_matches_ends:
  "trim_matches P s = [] \<or> \<not> P (hd (trim_matches P s)) \<and> \<not> P (last (trim_matches P s))"
proof -
  have rev_end: "xs = [] \<or> \<not> P (last (rev (dropWhile P (rev xs)))) \<or> dropWhile P (rev xs) = []" for xs
    by (metis hd_dropWhile last_rev)
  define t where "t = dropWhile P s"
  have t: "t = [] \<or> \<not> P (hd t)" unfolding t_def using hd_dropWhile by blast
  obtain z where z: "t = rev (dropWhile P (rev t)) @ z"
    by (metis rev_append rev_rev_ident takeWhile_dropWhile_id)
  have "hd (rev (dropWhile P (rev t))) = hd t" if "dropWhile P (rev t) \<noteq> []"
    using that z by (metis Nil_is_rev_conv hd_append)
  then show ?thesis
    using t rev_end [of t] unfolding trim_matches_def trim_end_matches_def trim_start_matches_def t_def [symmetric]
    by (cases "dropWhile P (rev t) = []"; cases "t = []") (simp_all del: dropWhile_eq_Nil_conv)
qed

lemma trim_matches_fix: "t = [] \<or> \<not> P (hd t) \<and> \<not> P (last t) \<Longrightarrow> trim_matches P t = t"
  by (cases "t = []")
    (simp_all add: trim_matches_def trim_end_matches_def trim_start_matches_def dropWhile_eq_self_iff hd_rev
      dropWhile_eq_self_iff [THEN iffD2])

lemma normalise_idem: "normalise_resource (normalise_resource r) = normalise_resource r"
proof -
  let ?P = "\<lambda>c. c = CHR ''/''"
  have "trim_matches ?P (CHR ''/'' # trim_matches ?P r) = trim_matches ?P (trim_matches ?P r)"
    by (simp add: trim_matches_def trim_start_matches_def)
  then show ?thesis
    by (simp add: normalise_resource_def trim_matches_fix [OF trim_matches_ends])
qed

text \<open>
  The listing and the price lookup disagree on unslashed catalogue keys: a provider that
  publishes a key not in normal form (no leading slash) has the resource listed under its
  normal form, but no spelling of it can be bought, as the price lookup asks for the
  normal form among the raw keys.
\<close>

theorem unslashed_key_listed_not_sold:
  assumes "(k, r, u) \<in> set reg" and "pv_enabled r" and "fst (catalogue_of W now u) = Ok cat"
    and "(key, p) \<in> set (cat_resources cat)" and "map_of (cat_resources cat) (normalise_resource key) = None"
    and "normalise_resource res = normalise_resource key"
  shows "(\<exists>e \<in> set (ag_entries (fst (aggregate W now reg))). ce_provider_id e = pv_provider_id r
        \<and> ce_resource e = normalise_resource res \<and> ce_price e = rp_price p)
     \<and> fst (price_of W now res u) = Err (UnknownResource (normalise_resource res))"
proof
  let ?e = "\<lparr>ce_provider_id = pv_provider_id r, ce_provider_label = pv_label r,
    ce_resource = normalise_resource key, ce_price = rp_price p, ce_description = rp_description p\<rparr>"
  have "?e \<in> set (entries_of r cat)" using assms(4) by (force simp: entries_of_def)
  then have "?e \<in> set (ag_entries (fst (aggregate W now reg)))"
    using assms(1-3) aggregate_entries by blast
  then show "\<exists>e \<in> set (ag_entries (fst (aggregate W now reg))). ce_provider_id e = pv_provider_id r
        \<and> ce_resource e = normalise_resource res \<and> ce_price e = rp_price p"
    using assms(6) by (intro bexI [of _ ?e]) simp_all
  show "fst (price_of W now res u) = Err (UnknownResource (normalise_resource res))"
    using assms(3,5,6) by (cases "catalogue_of W now u") (simp add: price_of_def Let_def)
qed

definition demo_provider :: provider_record where
  "demo_provider = \<lparr>pv_provider_id = ''d'', pv_label = ''D'', pv_base_url = ''http://p/'',
     pv_provider_pubkey = None, pv_enabled = True\<rparr>"

theorem unslashed_key_listed_not_sold_witness:
  "fst (price_of demo_web 5 ''/news'' demo_upstream) = Err (UnknownResource ''/news'')"
  using unslashed_key_listed_not_sold [of "''d''" demo_provider demo_upstream "[(''d'', demo_provider, demo_upstream)]"
      demo_web 5 demo_catalogue "''news''" "\<lparr>rp_price = ''7'', rp_description = ''n''\<rparr>" "''/news''"]
  by (simp add: demo_provider_def demo_catalogue_def demo_upstream_def upstream_new_def demo_web_def
      catalogue_of_def normalise_resource_def trim_matches_def trim_end_matches_def trim_start_matches_def Let_def)

end
