(* ===== verification/Control_Store.thy ===== *)
theory Control_Store
  imports Pg_Store Policy Registry
begin

section \<open>Persistence of the control plane\<close>

text \<open>
  \<open>gateway/src/control_db.rs\<close> and \<open>gateway/src/usage.rs\<close> over the tables of
  the migrations 0004 to 0006: agents and their policies, providers, operators, approvals
  and usage records, as lists of rows. A statement is modelled by what SQL documents for
  it, with the constraints of the schema; \<open>cd_online\<close> says whether the statements
  of this module are answered at all. \<open>to_i64\<close> and \<open>to_u64\<close> of theory
  \<open>Pg_Store\<close> stand for the module's own copies of these conversions. Ties in
  \<open>ORDER BY created_at\<close> are broken by insertion order, and texts are ordered by
  their bytes.
\<close>

subsection \<open>Tables\<close>

record provider_row =
  pw_record :: provider_record
  pw_workspace_id :: "string option"

record agent_row =
  aw_agent_id :: string
  aw_label :: string
  aw_agent_pubkey :: string
  aw_owner_pubkey :: "string option"
  aw_mode :: string
  aw_status :: string
  aw_created_at :: i64
  aw_workspace_id :: "string option"

record policy_row =
  pl_agent_id :: string
  pl_max_total :: i64
  pl_max_per_call :: i64
  pl_approval_threshold :: "i64 option"
  pl_allowed_resources :: "string list option"
  pl_max_calls :: "32 word option"

record operator_row =
  ow_operator_id :: string
  ow_label :: string
  ow_token_hash :: string
  ow_role :: string
  ow_enabled :: bool
  ow_created_at :: i64
  ow_last_used_at :: "i64 option"
  ow_workspace_id :: "string option"

record approval_row =
  vw_approval_id :: string
  vw_agent_id :: string
  vw_session_pubkey :: "string option"
  vw_resource :: string
  vw_price :: i64
  vw_calls :: "32 word"
  vw_state :: string
  vw_reason :: "string option"
  vw_created_at :: i64
  vw_decided_at :: "i64 option"
  vw_decided_by :: "string option"
  vw_decided_by_label :: "string option"

record usage_row =
  us_workspace_id :: "string option"
  us_provider_id :: "string option"
  us_agent_id :: "string option"
  us_session_pubkey :: "string option"
  us_resource :: string
  us_price :: i64
  us_decision :: string

record control =
  cd_online :: bool
  cd_clock :: i64
  cd_workspaces :: "string list"
  cd_providers :: "provider_row list"
  cd_agents :: "agent_row list"
  cd_policies :: "policy_row list"
  cd_operators :: "operator_row list"
  cd_approvals :: "approval_row list"
  cd_usage :: "usage_row list"

definition workspace_exists :: "control \<Rightarrow> string option \<Rightarrow> bool" where
  \<comment> \<open>the foreign key: a null workspace refers to nothing\<close>
  "workspace_exists db ws = (case ws of None \<Rightarrow> True | Some w \<Rightarrow> w \<in> set (cd_workspaces db))"

definition fits :: "nat \<Rightarrow> string option \<Rightarrow> bool" where
  "fits n s = (case s of None \<Rightarrow> True | Some t \<Rightarrow> length t \<le> n)"

definition in_scope :: "string option \<Rightarrow> string option \<Rightarrow> bool" where
  \<comment> \<open>\<open>AND workspace_id = $n\<close>, present only for a scoped caller; a null column never matches\<close>
  "in_scope workspace column = (case workspace of None \<Rightarrow> True | Some w \<Rightarrow> column = Some w)"

subsection \<open>Providers\<close>

definition upsert_provider ::
    "provider_record \<Rightarrow> string option \<Rightarrow> control \<Rightarrow> (unit, db_error) result \<times> control" where
  "upsert_provider p workspace db =
     (if \<not> cd_online db \<or> length (pv_provider_id p) > 64 \<or> length (pv_label p) > 128
         \<or> \<not> fits 44 (pv_provider_pubkey p) \<or> \<not> fits 64 workspace
      then (Err Sqlx, db)
      else if list_ex (\<lambda>r. pv_provider_id (pw_record r) = pv_provider_id p) (cd_providers db)
      then (Ok (), db\<lparr>cd_providers := map (\<lambda>r.
              if pv_provider_id (pw_record r) = pv_provider_id p \<and> pw_workspace_id r = workspace
              then r\<lparr>pw_record := p\<rparr> else r) (cd_providers db)\<rparr>)
      else if \<not> workspace_exists db workspace then (Err Sqlx, db)
      else (Ok (), db\<lparr>cd_providers := cd_providers db @
              [\<lparr>pw_record = p, pw_workspace_id = workspace\<rparr>]\<rparr>))"

definition list_providers :: "string option \<Rightarrow> control \<Rightarrow> (provider_record list, db_error) result" where
  "list_providers workspace db =
     (if \<not> cd_online db then Err Sqlx
      else Ok (map pw_record (sort_key (\<lambda>r. pv_provider_id (pw_record r))
        (filter (\<lambda>r. in_scope workspace (pw_workspace_id r)) (cd_providers db)))))"

definition delete_provider ::
    "string \<Rightarrow> string option \<Rightarrow> control \<Rightarrow> (bool, db_error) result \<times> control" where
  "delete_provider provider_id workspace db =
     (if \<not> cd_online db then (Err Sqlx, db)
      else let hit = (\<lambda>r. pv_provider_id (pw_record r) = provider_id
                         \<and> in_scope workspace (pw_workspace_id r)) in
        (Ok (list_ex hit (cd_providers db)),
         db\<lparr>cd_providers := filter (\<lambda>r. \<not> hit r) (cd_providers db)\<rparr>))"

subsection \<open>Agents\<close>

record agent_record =
  ar_agent_id :: string
  ar_label :: string
  ar_agent_pubkey :: string
  ar_owner_pubkey :: "string option"
  ar_mode :: agent_mode
  ar_status :: agent_status
  ar_created_at :: i64
  ar_policy :: "agent_policy option"
  ar_workspace_id :: "string option"

definition create_agent ::
    "string \<Rightarrow> string \<Rightarrow> string \<Rightarrow> string option \<Rightarrow> agent_mode \<Rightarrow> string option \<Rightarrow> control
      \<Rightarrow> (bool, db_error) result \<times> control" where
  "create_agent agent_id label agent_pubkey owner_pubkey mode workspace db =
     (if \<not> cd_online db \<or> length agent_id > 64 \<or> length label > 128 \<or> length agent_pubkey > 44
         \<or> \<not> fits 44 owner_pubkey \<or> \<not> fits 64 workspace
      then (Err Sqlx, db)
      else if list_ex (\<lambda>r. aw_agent_id r = agent_id \<or> aw_agent_pubkey r = agent_pubkey) (cd_agents db)
      then (Ok False, db)
      else if \<not> workspace_exists db workspace then (Err Sqlx, db)
      else (Ok True, db\<lparr>cd_agents := cd_agents db @
              [\<lparr>aw_agent_id = agent_id, aw_label = label, aw_agent_pubkey = agent_pubkey,
                aw_owner_pubkey = owner_pubkey, aw_mode = mode_as_str mode, aw_status = ''active'',
                aw_created_at = cd_clock db, aw_workspace_id = workspace\<rparr>]\<rparr>))"

definition policy_row_of :: "control \<Rightarrow> string \<Rightarrow> policy_row option" where
  "policy_row_of db agent_id = find (\<lambda>p. pl_agent_id p = agent_id) (cd_policies db)"

definition policy_from_row :: "policy_row \<Rightarrow> (agent_policy, db_error) result" where
  "policy_from_row p =
     (case to_u64 (pl_max_total p) ''max_total'' of Err e \<Rightarrow> Err e | Ok max_total \<Rightarrow>
      case to_u64 (pl_max_per_call p) ''max_per_call'' of Err e \<Rightarrow> Err e | Ok per_call \<Rightarrow>
      case (case pl_approval_threshold p of None \<Rightarrow> Ok None
            | Some t \<Rightarrow> (case to_u64 t ''approval_threshold'' of Err e \<Rightarrow> Err e | Ok v \<Rightarrow> Ok (Some v))) of
        Err e \<Rightarrow> Err e
      | Ok threshold \<Rightarrow>
      Ok \<lparr>ap_max_total = max_total, ap_max_per_call = per_call, ap_approval_threshold = threshold,
          ap_allowed_resources = pl_allowed_resources p,
          ap_max_calls = map_option (\<lambda>c. if sint c < 0 then 0 else c) (pl_max_calls p)\<rparr>)"

definition agent_from_row :: "control \<Rightarrow> agent_row \<Rightarrow> (agent_record, db_error) result" where
  "agent_from_row db r =
     (case (case policy_row_of db (aw_agent_id r) of None \<Rightarrow> Ok None
            | Some p \<Rightarrow> (case policy_from_row p of Err e \<Rightarrow> Err e | Ok q \<Rightarrow> Ok (Some q))) of
        Err e \<Rightarrow> Err e
      | Ok policy \<Rightarrow>
      Ok \<lparr>ar_agent_id = aw_agent_id r, ar_label = aw_label r, ar_agent_pubkey = aw_agent_pubkey r,
          ar_owner_pubkey = aw_owner_pubkey r, ar_mode = from_str_or_human (aw_mode r),
          ar_status = from_str_or_suspended (aw_status r), ar_created_at = aw_created_at r,
          ar_policy = policy, ar_workspace_id = aw_workspace_id r\<rparr>)"

definition list_agents :: "string option \<Rightarrow> control \<Rightarrow> (agent_record list, db_error) result" where
  "list_agents workspace db =
     (if \<not> cd_online db then Err Sqlx
      else traverse (agent_from_row db) (sort_key (\<lambda>r. - sint (aw_created_at r))
        (filter (\<lambda>r. in_scope workspace (aw_workspace_id r)) (cd_agents db))))"

definition optional_agent ::
    "control \<Rightarrow> (agent_row \<Rightarrow> bool) \<Rightarrow> (agent_record option, db_error) result" where
  \<comment> \<open>\<open>fetch_optional\<close> followed by \<open>agent_from_row\<close>\<close>
  "optional_agent db hit =
     (if \<not> cd_online db then Err Sqlx
      else case find hit (cd_agents db) of
        None \<Rightarrow> Ok None
      | Some r \<Rightarrow> (case agent_from_row db r of Err e \<Rightarrow> Err e | Ok a \<Rightarrow> Ok (Some a)))"

definition get_agent ::
    "string \<Rightarrow> string option \<Rightarrow> control \<Rightarrow> (agent_record option, db_error) result" where
  "get_agent agent_id workspace db =
     optional_agent db (\<lambda>r. aw_agent_id r = agent_id \<and> in_scope workspace (aw_workspace_id r))"

definition get_agent_by_pubkey :: "string \<Rightarrow> control \<Rightarrow> (agent_record option, db_error) result" where
  "get_agent_by_pubkey agent_pubkey db = optional_agent db (\<lambda>r. aw_agent_pubkey r = agent_pubkey)"

definition update_agent ::
    "string \<Rightarrow> string option \<Rightarrow> (agent_row \<Rightarrow> agent_row) \<Rightarrow> control \<Rightarrow> nat \<times> control" where
  \<comment> \<open>\<open>UPDATE agents SET .. WHERE agent_id = $1 [AND workspace_id = $3]\<close>, with the rows affected\<close>
  "update_agent agent_id workspace f db =
     (let hit = (\<lambda>r. aw_agent_id r = agent_id \<and> in_scope workspace (aw_workspace_id r)) in
      (length (filter hit (cd_agents db)),
       db\<lparr>cd_agents := map (\<lambda>r. if hit r then f r else r) (cd_agents db)\<rparr>))"

definition set_agent_status ::
    "string \<Rightarrow> agent_status \<Rightarrow> string option \<Rightarrow> control \<Rightarrow> (bool, db_error) result \<times> control" where
  "set_agent_status agent_id status workspace db =
     (if \<not> cd_online db then (Err Sqlx, db)
      else case update_agent agent_id workspace (\<lambda>r. r\<lparr>aw_status := status_as_str status\<rparr>) db of
        (n, db') \<Rightarrow> (Ok (n > 0), db'))"

subsection \<open>Policies\<close>

definition policies_check :: "policy_row \<Rightarrow> bool" where
  "policies_check p \<longleftrightarrow> sint (pl_max_total p) > 0 \<and> sint (pl_max_per_call p) > 0
     \<and> (case pl_approval_threshold p of None \<Rightarrow> True | Some t \<Rightarrow> sint t \<ge> 0)
     \<and> (case pl_max_calls p of None \<Rightarrow> True | Some c \<Rightarrow> sint c > 0)"

definition policy_to_row :: "string \<Rightarrow> agent_policy \<Rightarrow> (policy_row, db_error) result" where
  "policy_to_row agent_id p =
     (case to_i64 (ap_max_total p) ''max_total'' of Err e \<Rightarrow> Err e | Ok max_total \<Rightarrow>
      case to_i64 (ap_max_per_call p) ''max_per_call'' of Err e \<Rightarrow> Err e | Ok per_call \<Rightarrow>
      case (case ap_approval_threshold p of None \<Rightarrow> Ok None
            | Some t \<Rightarrow> (case to_i64 t ''approval_threshold'' of Err e \<Rightarrow> Err e | Ok v \<Rightarrow> Ok (Some v))) of
        Err e \<Rightarrow> Err e
      | Ok threshold \<Rightarrow>
      Ok \<lparr>pl_agent_id = agent_id, pl_max_total = max_total, pl_max_per_call = per_call,
          pl_approval_threshold = threshold, pl_allowed_resources = ap_allowed_resources p,
          pl_max_calls = ap_max_calls p\<rparr>)"

definition upsert_policy_row :: "policy_row \<Rightarrow> policy_row list \<Rightarrow> policy_row list" where
  "upsert_policy_row row rows =
     (if list_ex (\<lambda>p. pl_agent_id p = pl_agent_id row) rows
      then map (\<lambda>p. if pl_agent_id p = pl_agent_id row then row else p) rows
      else rows @ [row])"

definition set_policy ::
    "string \<Rightarrow> agent_mode \<Rightarrow> agent_policy \<Rightarrow> string option \<Rightarrow> control
      \<Rightarrow> (bool, db_error) result \<times> control" where
  "set_policy agent_id mode p workspace db =
     (if \<not> cd_online db then (Err Sqlx, db)
      else case update_agent agent_id workspace (\<lambda>r. r\<lparr>aw_mode := mode_as_str mode\<rparr>) db of
        (n, db') \<Rightarrow>
      if n = 0 then (Ok False, db)
      else case policy_to_row agent_id p of
        Err e \<Rightarrow> (Err e, db)
      | Ok row \<Rightarrow>
          if \<not> policies_check row then (Err Sqlx, db)
          else (Ok True, db'\<lparr>cd_policies := upsert_policy_row row (cd_policies db')\<rparr>))"

subsection \<open>Derived spend\<close>

definition session_of_agent :: "pg \<Rightarrow> string \<Rightarrow> string \<Rightarrow> bool" where
  \<comment> \<open>the join with \<open>sessions\<close> on the session key, for one agent\<close>
  "session_of_agent pg agent_pubkey session_pubkey =
     list_ex (\<lambda>s. se_session_pubkey s = session_pubkey \<and> se_agent_pubkey s = agent_pubkey) (pg_sessions pg)"

definition agent_spend :: "string \<Rightarrow> pg \<Rightarrow> (spend, db_error) result" where
  "agent_spend agent_pubkey pg =
     (if \<not> pg_online pg then Err Sqlx
      else
        let committed = sum_list (map (\<lambda>c. sint (ct_cumulative_amount c))
              (filter (\<lambda>c. session_of_agent pg agent_pubkey (ct_session_pubkey c)) (pg_claims pg)));
            calls = length (filter (\<lambda>e. session_of_agent pg agent_pubkey (el_session_pubkey e)
                       \<and> el_decision e = ''ALLOWED'') (pg_evidence pg)) in
        if committed < - (2 ^ 63) \<or> 2 ^ 63 \<le> committed then Err Sqlx
        else case to_u64 (word_of_int committed) ''agent_spend'' of
          Err e \<Rightarrow> Err e
        | Ok spent \<Rightarrow> Ok \<lparr>sp_spent = spent,
            sp_calls = (if calls < 2 ^ 32 then of_nat calls else - 1)\<rparr>)"

subsection \<open>Operators\<close>

record operator_record =
  or_operator_id :: string
  or_label :: string
  or_role :: string
  or_workspace_id :: "string option"
  or_enabled :: bool
  or_created_at :: i64
  or_last_used_at :: "i64 option"

definition operator_from_row :: "operator_row \<Rightarrow> operator_record" where
  "operator_from_row r = \<lparr>or_operator_id = ow_operator_id r, or_label = ow_label r,
     or_role = ow_role r, or_workspace_id = ow_workspace_id r, or_enabled = ow_enabled r,
     or_created_at = ow_created_at r, or_last_used_at = ow_last_used_at r\<rparr>"

definition create_operator ::
    "string \<Rightarrow> string \<Rightarrow> string \<Rightarrow> control \<Rightarrow> (bool, db_error) result \<times> control" where
  "create_operator operator_id label token_hash db =
     (if \<not> cd_online db \<or> length operator_id > 64 \<or> length label > 128 \<or> length token_hash > 64
      then (Err Sqlx, db)
      else if list_ex (\<lambda>r. ow_operator_id r = operator_id \<or> ow_token_hash r = token_hash) (cd_operators db)
      then (Ok False, db)
      else (Ok True, db\<lparr>cd_operators := cd_operators db @
              [\<lparr>ow_operator_id = operator_id, ow_label = label, ow_token_hash = token_hash,
                ow_role = ''operator'', ow_enabled = True, ow_created_at = cd_clock db,
                ow_last_used_at = None, ow_workspace_id = None\<rparr>]\<rparr>))"

definition operator_by_token_hash :: "string \<Rightarrow> control \<Rightarrow> (operator_record option, db_error) result" where
  "operator_by_token_hash token_hash db =
     (if \<not> cd_online db then Err Sqlx
      else Ok (map_option operator_from_row
        (find (\<lambda>r. ow_token_hash r = token_hash \<and> ow_enabled r) (cd_operators db))))"

definition list_operators :: "control \<Rightarrow> (operator_record list, db_error) result" where
  "list_operators db =
     (if \<not> cd_online db then Err Sqlx
      else Ok (map operator_from_row (sort_key (\<lambda>r. - sint (ow_created_at r)) (cd_operators db))))"

definition set_operator_enabled ::
    "string \<Rightarrow> bool \<Rightarrow> control \<Rightarrow> (bool, db_error) result \<times> control" where
  "set_operator_enabled operator_id enabled db =
     (if \<not> cd_online db then (Err Sqlx, db)
      else (Ok (list_ex (\<lambda>r. ow_operator_id r = operator_id) (cd_operators db)),
        db\<lparr>cd_operators := map (\<lambda>r. if ow_operator_id r = operator_id
             then r\<lparr>ow_enabled := enabled\<rparr> else r) (cd_operators db)\<rparr>))"

definition rotate_operator_token ::
    "string \<Rightarrow> string \<Rightarrow> control \<Rightarrow> (bool, db_error) result \<times> control" where
  "rotate_operator_token operator_id new_token_hash db =
     (let hit = (\<lambda>r. ow_operator_id r = operator_id \<and> ow_enabled r) in
      if \<not> cd_online db then (Err Sqlx, db)
      else if \<not> list_ex hit (cd_operators db) then (Ok False, db)
      else if length new_token_hash > 64
        \<or> list_ex (\<lambda>r. ow_token_hash r = new_token_hash \<and> \<not> hit r) (cd_operators db)
      then (Err Sqlx, db)
      else (Ok True, db\<lparr>cd_operators := map (\<lambda>r. if hit r
             then r\<lparr>ow_token_hash := new_token_hash\<rparr> else r) (cd_operators db)\<rparr>))"

definition touch_operator :: "string \<Rightarrow> control \<Rightarrow> (unit, db_error) result \<times> control" where
  "touch_operator operator_id db =
     (if \<not> cd_online db then (Err Sqlx, db)
      else (Ok (), db\<lparr>cd_operators := map (\<lambda>r. if ow_operator_id r = operator_id
             then r\<lparr>ow_last_used_at := Some (cd_clock db)\<rparr> else r) (cd_operators db)\<rparr>))"

subsection \<open>Approvals\<close>

record approval_record =
  vr_approval_id :: string
  vr_agent_id :: string
  vr_session :: "string option"
  vr_resource :: string
  vr_price :: u64
  vr_calls :: "32 word"
  vr_state :: string
  vr_reason :: "string option"
  vr_created_at :: i64
  vr_decided_at :: "i64 option"
  vr_decided_by :: "string option"
  vr_decided_by_label :: "string option"

definition create_approval ::
    "string \<Rightarrow> string \<Rightarrow> string option \<Rightarrow> string \<Rightarrow> u64 \<Rightarrow> 32 word \<Rightarrow> control
      \<Rightarrow> (unit, db_error) result \<times> control" where
  "create_approval approval_id agent_id session resource price calls db =
     (case to_i64 price ''approval price'' of Err e \<Rightarrow> (Err e, db) | Ok p \<Rightarrow>
      if \<not> cd_online db \<or> length approval_id > 64 \<or> \<not> fits 44 session \<or> \<not> sint calls > 0
         \<or> list_ex (\<lambda>v. vw_approval_id v = approval_id) (cd_approvals db)
         \<or> \<not> list_ex (\<lambda>r. aw_agent_id r = agent_id) (cd_agents db)
      then (Err Sqlx, db)
      else (Ok (), db\<lparr>cd_approvals := cd_approvals db @
              [\<lparr>vw_approval_id = approval_id, vw_agent_id = agent_id, vw_session_pubkey = session,
                vw_resource = resource, vw_price = p, vw_calls = calls, vw_state = ''pending'',
                vw_reason = None, vw_created_at = cd_clock db, vw_decided_at = None,
                vw_decided_by = None, vw_decided_by_label = None\<rparr>]\<rparr>))"

definition approval_from_row :: "approval_row \<Rightarrow> (approval_record, db_error) result" where
  "approval_from_row v =
     (case to_u64 (vw_price v) ''approval price'' of Err e \<Rightarrow> Err e | Ok price \<Rightarrow>
      Ok \<lparr>vr_approval_id = vw_approval_id v, vr_agent_id = vw_agent_id v,
          vr_session = vw_session_pubkey v, vr_resource = vw_resource v, vr_price = price,
          vr_calls = vw_calls v, vr_state = vw_state v, vr_reason = vw_reason v,
          vr_created_at = vw_created_at v, vr_decided_at = vw_decided_at v,
          vr_decided_by = vw_decided_by v, vr_decided_by_label = vw_decided_by_label v\<rparr>)"

definition list_approvals ::
    "nat \<Rightarrow> string option \<Rightarrow> control \<Rightarrow> (approval_record list, db_error) result" where
  "list_approvals limit workspace db =
     (if \<not> cd_online db then Err Sqlx
      else traverse approval_from_row (take limit (sort_key (\<lambda>v. - sint (vw_created_at v))
        (filter (\<lambda>v. case workspace of None \<Rightarrow> True
             | Some w \<Rightarrow> list_ex (\<lambda>a. aw_agent_id a = vw_agent_id v \<and> aw_workspace_id a = Some w) (cd_agents db))
          (cd_approvals db)))))"

definition decided_row :: "bool \<Rightarrow> string option \<Rightarrow> string \<Rightarrow> string \<Rightarrow> i64 \<Rightarrow> approval_row \<Rightarrow> approval_row" where
  \<comment> \<open>the \<open>SET\<close> clause of \<open>decide_approval\<close>\<close>
  "decided_row approved reason decided_by decided_by_label now v =
     v\<lparr>vw_state := (if approved then ''approved'' else ''rejected''), vw_reason := reason,
       vw_decided_at := Some now, vw_decided_by := Some decided_by,
       vw_decided_by_label := Some decided_by_label\<rparr>"

definition decide_approval ::
    "string \<Rightarrow> bool \<Rightarrow> string option \<Rightarrow> string \<Rightarrow> string \<Rightarrow> control
      \<Rightarrow> (bool, db_error) result \<times> control" where
  "decide_approval approval_id approved reason decided_by decided_by_label db =
     (if \<not> cd_online db then (Err Sqlx, db)
      else let hit = (\<lambda>v. vw_approval_id v = approval_id \<and> vw_state v = ''pending'') in
      if \<not> list_ex hit (cd_approvals db) then (Ok False, db)
      else if length decided_by > 64 \<or> length decided_by_label > 128 then (Err Sqlx, db)
      else (Ok True, db\<lparr>cd_approvals := map (\<lambda>v. if hit v
              then decided_row approved reason decided_by decided_by_label (cd_clock db) v
              else v) (cd_approvals db)\<rparr>))"

definition approval_matches :: "string \<Rightarrow> string \<Rightarrow> i64 \<Rightarrow> string \<Rightarrow> approval_row \<Rightarrow> bool" where
  "approval_matches agent_id resource price state v \<longleftrightarrow> vw_agent_id v = agent_id
     \<and> vw_resource v = resource \<and> vw_price v = price \<and> vw_state v = state"

definition consume_approval ::
    "string \<Rightarrow> string \<Rightarrow> u64 \<Rightarrow> control \<Rightarrow> (bool, db_error) result \<times> control" where
  "consume_approval agent_id resource price db =
     (case to_i64 price ''approval price'' of Err e \<Rightarrow> (Err e, db) | Ok p \<Rightarrow>
      if \<not> cd_online db then (Err Sqlx, db)
      else case sort_key (\<lambda>v. sint (vw_created_at v))
             (filter (approval_matches agent_id resource p ''approved'') (cd_approvals db)) of
        [] \<Rightarrow> (Ok False, db)
      | v\<^sub>0 # _ \<Rightarrow> (Ok True, db\<lparr>cd_approvals := map (\<lambda>v. if vw_approval_id v = vw_approval_id v\<^sub>0
             then v\<lparr>vw_state := ''consumed''\<rparr> else v) (cd_approvals db)\<rparr>))"

definition has_pending_approval ::
    "string \<Rightarrow> string \<Rightarrow> u64 \<Rightarrow> control \<Rightarrow> (bool, db_error) result" where
  "has_pending_approval agent_id resource price db =
     (case to_i64 price ''approval price'' of Err e \<Rightarrow> Err e | Ok p \<Rightarrow>
      if \<not> cd_online db then Err Sqlx
      else Ok (list_ex (approval_matches agent_id resource p ''pending'') (cd_approvals db)))"

subsection \<open>Usage metering\<close>

record usage_event =
  ue_workspace_id :: "string option"
  ue_provider_id :: "string option"
  ue_agent_id :: "string option"
  ue_session_pubkey :: "string option"
  ue_resource :: string
  ue_price :: u64
  ue_decision :: string

definition usage_record :: "usage_event \<Rightarrow> control option \<Rightarrow> control option" where
  "usage_record event db = (case db of None \<Rightarrow> None | Some db \<Rightarrow>
     let price = (case to_i64 (ue_price event) ''price'' of Ok p \<Rightarrow> p | Err _ \<Rightarrow> i64_max) in
     Some (if \<not> cd_online db \<or> \<not> workspace_exists db (ue_workspace_id event)
         \<or> \<not> fits 64 (ue_workspace_id event) \<or> \<not> fits 64 (ue_provider_id event)
         \<or> \<not> fits 64 (ue_agent_id event) \<or> \<not> fits 44 (ue_session_pubkey event)
         \<or> length (ue_decision event) > 32
      then db
      else db\<lparr>cd_usage := cd_usage db @ [\<lparr>us_workspace_id = ue_workspace_id event,
             us_provider_id = ue_provider_id event, us_agent_id = ue_agent_id event,
             us_session_pubkey = ue_session_pubkey event, us_resource = ue_resource event,
             us_price = price, us_decision = ue_decision event\<rparr>]\<rparr>))"

end
