(* ===== verification/Control_Props.thy ===== *)
theory Control_Props
  imports Control_Store
begin

section \<open>Tenants, approvals and policies\<close>

text \<open>
  What the control-plane tables guarantee: the writes of a scoped caller never reach a row
  of another tenant; the approvals that purchases consume are approvals a human granted,
  each used once; and a policy that was written is the policy that is enforced.
\<close>

subsection \<open>Tenant isolation\<close>

text \<open>The writes an operator can cause on the tenant-scoped tables, with the caller's workspace.\<close>

datatype tenant_op =
    TUpsertProvider provider_record
  | TDeleteProvider string
  | TCreateAgent string string string "string option" agent_mode
  | TSetStatus string agent_status
  | TSetPolicy string agent_mode agent_policy

fun tenant_step :: "string option \<Rightarrow> tenant_op \<Rightarrow> control \<Rightarrow> control" where
  "tenant_step ws (TUpsertProvider p) db = snd (upsert_provider p ws db)"
| "tenant_step ws (TDeleteProvider i) db = snd (delete_provider i ws db)"
| "tenant_step ws (TCreateAgent i l k ow m) db = snd (create_agent i l k ow m ws db)"
| "tenant_step ws (TSetStatus i s) db = snd (set_agent_status i s ws db)"
| "tenant_step ws (TSetPolicy i m p) db = snd (set_policy i m p ws db)"

definition control_inv :: "control \<Rightarrow> bool" where
  \<comment> \<open>the primary and unique keys of the schema\<close>
  "control_inv db \<longleftrightarrow> distinct (map aw_agent_id (cd_agents db))
     \<and> distinct (map aw_agent_pubkey (cd_agents db))
     \<and> distinct (map vw_approval_id (cd_approvals db))"

definition tenant_agents :: "string option \<Rightarrow> control \<Rightarrow> agent_row list" where
  "tenant_agents ws db = filter (\<lambda>r. aw_workspace_id r = ws) (cd_agents db)"

definition tenant_view ::
    "string option \<Rightarrow> control \<Rightarrow> provider_row list \<times> agent_row list \<times> policy_row option list" where
  \<comment> \<open>everything stored for one tenant: its providers, its agents and their policies\<close>
  "tenant_view ws db =
     (filter (\<lambda>r. pw_workspace_id r = ws) (cd_providers db), tenant_agents ws db,
      map (\<lambda>a. policy_row_of db (aw_agent_id a)) (tenant_agents ws db))"

lemma update_agent_rows:
  assumes "\<And>r. aw_workspace_id (f r) = aw_workspace_id r \<and> aw_agent_id (f r) = aw_agent_id r
      \<and> aw_agent_pubkey (f r) = aw_agent_pubkey r"
  shows "map aw_agent_id (cd_agents (snd (update_agent i ws f db))) = map aw_agent_id (cd_agents db)"
    and "map aw_agent_pubkey (cd_agents (snd (update_agent i ws f db))) = map aw_agent_pubkey (cd_agents db)"
    and "ws = Some w \<Longrightarrow> ws' \<noteq> Some w \<Longrightarrow> tenant_agents ws' (snd (update_agent i ws f db)) = tenant_agents ws' db"
proof -
  show "map aw_agent_id (cd_agents (snd (update_agent i ws f db))) = map aw_agent_id (cd_agents db)"
    "map aw_agent_pubkey (cd_agents (snd (update_agent i ws f db))) = map aw_agent_pubkey (cd_agents db)"
    using assms by (simp_all add: update_agent_def Let_def)
  have "filter (\<lambda>r. aw_workspace_id r = ws')
      (map (\<lambda>r. if aw_agent_id r = i \<and> aw_workspace_id r = Some w then f r else r) rs)
      = filter (\<lambda>r. aw_workspace_id r = ws') rs" if "ws' \<noteq> Some w" for rs
    using that assms by (induction rs) auto
  then show "ws = Some w \<Longrightarrow> ws' \<noteq> Some w \<Longrightarrow>
      tenant_agents ws' (snd (update_agent i ws f db)) = tenant_agents ws' db"
    by (simp add: tenant_agents_def update_agent_def in_scope_def Let_def)
qed

lemma update_agent_frame [simp]:
  "cd_providers (snd (update_agent i ws f db)) = cd_providers db"
  "cd_policies (snd (update_agent i ws f db)) = cd_policies db"
  "cd_approvals (snd (update_agent i ws f db)) = cd_approvals db"
  by (simp_all add: update_agent_def Let_def)

lemma set_agent_status_state:
  "snd (set_agent_status i st ws db) =
     (if cd_online db then snd (update_agent i ws (\<lambda>r. r\<lparr>aw_status := status_as_str st\<rparr>) db) else db)"
  by (simp add: set_agent_status_def split: prod.splits)

lemma set_policy_state:
  "snd (set_policy i m p ws db) = db \<or> (\<exists>row. pl_agent_id row = i
     \<and> list_ex (\<lambda>r. aw_agent_id r = i \<and> in_scope ws (aw_workspace_id r)) (cd_agents db)
     \<and> snd (set_policy i m p ws db) = (snd (update_agent i ws (\<lambda>r. r\<lparr>aw_mode := mode_as_str m\<rparr>) db))
         \<lparr>cd_policies := upsert_policy_row row (cd_policies db)\<rparr>)"
proof -
  have "pl_agent_id row = i" if "policy_to_row i p = Ok row" for row
    using that by (auto simp: policy_to_row_def split: sum.splits option.splits)
  then show ?thesis
    by (auto simp: set_policy_def update_agent_def Let_def list_ex_iff filter_empty_conv
        split: sum.splits if_splits)
qed

lemma tenant_step_inv: "control_inv db \<Longrightarrow> control_inv (tenant_step ws t db)"
proof (cases t)
  case (TSetPolicy i m p)
  assume "control_inv db"
  then show ?thesis
    using set_policy_state [of i m p ws db] update_agent_rows(1,2) [of "\<lambda>r. r\<lparr>aw_mode := mode_as_str m\<rparr>" i ws db]
    by (auto simp: TSetPolicy control_inv_def)
next
  case (TSetStatus i s)
  assume "control_inv db"
  then show ?thesis
    using update_agent_rows(1,2) [of "\<lambda>r. r\<lparr>aw_status := status_as_str s\<rparr>" i ws db]
    by (auto simp: TSetStatus control_inv_def set_agent_status_state)
qed (auto simp: control_inv_def upsert_provider_def delete_provider_def create_agent_def Let_def list_ex_iff)

lemma find_upsert_other:
  "pl_agent_id row \<noteq> i \<Longrightarrow>
     find (\<lambda>p. pl_agent_id p = i) (upsert_policy_row row rows) = find (\<lambda>p. pl_agent_id p = i) rows"
proof -
  assume ne: "pl_agent_id row \<noteq> i"
  then have "find (\<lambda>p. pl_agent_id p = i) (map (\<lambda>p. if pl_agent_id p = pl_agent_id row then row else p) rows)
      = find (\<lambda>p. pl_agent_id p = i) rows"
    by (induction rows) auto
  then show ?thesis using ne by (simp add: upsert_policy_row_def find_append split: option.splits)
qed

lemma tenant_view_providers:
  "cd_agents db' = cd_agents db \<Longrightarrow> cd_policies db' = cd_policies db \<Longrightarrow>
   filter (\<lambda>r. pw_workspace_id r = ws) (cd_providers db') = filter (\<lambda>r. pw_workspace_id r = ws) (cd_providers db) \<Longrightarrow>
   tenant_view ws db' = tenant_view ws db"
  by (simp add: tenant_view_def tenant_agents_def policy_row_of_def)

lemma tenant_view_agents:
  "cd_providers db' = cd_providers db \<Longrightarrow> tenant_agents ws db' = tenant_agents ws db \<Longrightarrow>
   (\<And>a. a \<in> set (tenant_agents ws db) \<Longrightarrow> policy_row_of db' (aw_agent_id a) = policy_row_of db (aw_agent_id a)) \<Longrightarrow>
   tenant_view ws db' = tenant_view ws db"
  by (simp add: tenant_view_def)

lemma tenant_step_other:
  assumes inv: "control_inv db" and other: "ws' \<noteq> Some w"
  shows "tenant_view ws' (tenant_step (Some w) t db) = tenant_view ws' db"
proof (cases t)
  case (TUpsertProvider p)
  have "filter (\<lambda>r. pw_workspace_id r = ws') (map (\<lambda>r. if pv_provider_id (pw_record r) = pv_provider_id p
      \<and> pw_workspace_id r = Some w then r\<lparr>pw_record := p\<rparr> else r) rs) = filter (\<lambda>r. pw_workspace_id r = ws') rs" for rs
    using other by (induction rs) auto
  then show ?thesis
    using other by (intro tenant_view_providers) (auto simp: TUpsertProvider upsert_provider_def)
next
  case (TDeleteProvider i)
  have "filter (\<lambda>r. pw_workspace_id r = ws') (filter (\<lambda>r. \<not> (pv_provider_id (pw_record r) = i
      \<and> in_scope (Some w) (pw_workspace_id r))) rs) = filter (\<lambda>r. pw_workspace_id r = ws') rs" for rs
    using other by (induction rs) (auto simp: in_scope_def)
  then show ?thesis
    by (intro tenant_view_providers) (auto simp: TDeleteProvider delete_provider_def Let_def)
next
  case (TCreateAgent i l k ow m)
  then show ?thesis
    using other by (intro tenant_view_agents) (auto simp: create_agent_def tenant_agents_def policy_row_of_def)
next
  case (TSetStatus i s)
  then show ?thesis
    using other update_agent_rows(3) [of "\<lambda>r. r\<lparr>aw_status := status_as_str s\<rparr>" "Some w" w ws' i db]
    by (intro tenant_view_agents) (auto simp: set_agent_status_state policy_row_of_def)
next
  case (TSetPolicy i m p)
  let ?u = "snd (update_agent i (Some w) (\<lambda>r. r\<lparr>aw_mode := mode_as_str m\<rparr>) db)"
  consider "snd (set_policy i m p (Some w) db) = db"
    | row r where "pl_agent_id row = i" "r \<in> set (cd_agents db)" "aw_agent_id r = i" "aw_workspace_id r = Some w"
        "snd (set_policy i m p (Some w) db) = ?u\<lparr>cd_policies := upsert_policy_row row (cd_policies db)\<rparr>"
    using set_policy_state [of i m p "Some w" db] by (auto simp: list_ex_iff in_scope_def)
  then show ?thesis
  proof cases
    case 2
    have "policy_row_of (?u\<lparr>cd_policies := upsert_policy_row row (cd_policies db)\<rparr>) (aw_agent_id a)
        = policy_row_of db (aw_agent_id a)" if a: "a \<in> set (tenant_agents ws' db)" for a
    proof -
      have "a \<in> set (cd_agents db)" "a \<noteq> r" using a 2(4) other by (auto simp: tenant_agents_def)
      then have "aw_agent_id a \<noteq> i"
        using 2(2,3) inv by (auto simp: control_inv_def distinct_map dest: inj_onD)
      then show ?thesis using 2(1) by (simp add: policy_row_of_def find_upsert_other)
    qed
    then show ?thesis
      using 2(5) other update_agent_rows(3) [of "\<lambda>r. r\<lparr>aw_mode := mode_as_str m\<rparr>" "Some w" w ws' i db]
      by (intro tenant_view_agents) (simp_all add: TSetPolicy tenant_agents_def)
  qed (simp add: TSetPolicy)
qed

text \<open>
  C39. Tenants are isolated at the store: whatever sequence of writes a caller scoped to one
  workspace causes (registering and deleting providers, creating, suspending and
  authorizing agents), the providers, agents and policies of every other tenant, and of
  the unscoped legacy rows, are exactly what they were; and what a scoped caller lists are
  agents of its own workspace only.
\<close>

theorem tenant_isolation:
  assumes "control_inv db" and "ws' \<noteq> Some w"
  shows "tenant_view ws' (fold (tenant_step (Some w)) ts db) = tenant_view ws' db
    \<and> (\<forall>as. list_agents (Some w) db = Ok as \<longrightarrow> (\<forall>a \<in> set as. ar_workspace_id a = Some w))"
proof
  show "tenant_view ws' (fold (tenant_step (Some w)) ts db) = tenant_view ws' db"
    using assms(1)
  proof (induction ts arbitrary: db)
    case (Cons t ts)
    then show ?case using tenant_step_inv tenant_step_other assms(2) by simp
  qed simp
  show "\<forall>as. list_agents (Some w) db = Ok as \<longrightarrow> (\<forall>a \<in> set as. ar_workspace_id a = Some w)"
  proof (intro allI impI ballI)
    fix as a assume l: "list_agents (Some w) db = Ok as" and a: "a \<in> set as"
    let ?rows = "sort_key (\<lambda>r. - sint (aw_created_at r))
        (filter (\<lambda>r. in_scope (Some w) (aw_workspace_id r)) (cd_agents db))"
    have t: "traverse (agent_from_row db) ?rows = Ok as"
      using l by (auto simp: list_agents_def split: if_splits)
    obtain j where j: "j < length as" "as ! j = a" using a by (auto simp: in_set_conv_nth)
    have "agent_from_row db (?rows ! j) = Ok a" and "?rows ! j \<in> set ?rows"
      using traverse_OkD [OF t] j by (simp_all del: set_sort)
    then show "ar_workspace_id a = Some w"
      by (auto simp: agent_from_row_def in_scope_def split: sum.splits option.splits)
  qed
qed

definition demo_control :: control where
  "demo_control = \<lparr>cd_online = True, cd_clock = 5, cd_workspaces = [''a'', ''b''], cd_providers = [],
     cd_agents = [\<lparr>aw_agent_id = ''agt1'', aw_label = ''bot'', aw_agent_pubkey = pk_show demo_externals 1,
       aw_owner_pubkey = None, aw_mode = ''human'', aw_status = ''active'', aw_created_at = 1,
       aw_workspace_id = Some ''b''\<rparr>],
     cd_policies = [], cd_operators = [], cd_approvals = [], cd_usage = []\<rparr>"

lemma demo_control_inv: "control_inv demo_control"
  by (simp add: control_inv_def demo_control_def)

theorem tenant_isolation_witness:
  "tenant_view (Some ''b'') (fold (tenant_step (Some ''a'')) [TSetStatus ''agt1'' Suspended] demo_control)
     = tenant_view (Some ''b'') demo_control"
  by (rule tenant_isolation [OF demo_control_inv, THEN conjunct1]) simp

subsection \<open>The approvals ledger\<close>

datatype approval_op =
    VCreate string string "string option" string u64 "32 word"
  | VDecide string bool "string option" string string
  | VConsume string string u64

datatype approval_event = Granted string string i64 | Spent string string i64

fun approval_step :: "approval_op \<Rightarrow> control \<Rightarrow> approval_event list \<times> control" where
  "approval_step (VCreate i a s r p n) db = ([], snd (create_approval i a s r p n db))"
| "approval_step (VDecide i yes why who label) db =
     (case decide_approval i yes why who label db of (res, db') \<Rightarrow>
       (if res = Ok True \<and> yes
        then map (\<lambda>v. Granted (vw_agent_id v) (vw_resource v) (vw_price v))
          (filter (\<lambda>v. vw_approval_id v = i) (cd_approvals db)) else [], db'))"
| "approval_step (VConsume a r p) db =
     (case consume_approval a r p db of (res, db') \<Rightarrow> (if res = Ok True then [Spent a r p] else [], db'))"

fun run_approvals :: "approval_op list \<Rightarrow> control \<Rightarrow> approval_event list \<times> control" where
  "run_approvals [] db = ([], db)"
| "run_approvals (t # ts) db = (case approval_step t db of (evs, db\<^sub>1) \<Rightarrow>
     case run_approvals ts db\<^sub>1 of (evs', db') \<Rightarrow> (evs @ evs', db'))"

definition approved_count :: "string \<Rightarrow> string \<Rightarrow> i64 \<Rightarrow> control \<Rightarrow> nat" where
  "approved_count a r p db = length (filter (approval_matches a r p ''approved'') (cd_approvals db))"

definition final_rows :: "control \<Rightarrow> approval_row set" where
  "final_rows db = {v \<in> set (cd_approvals db). vw_state v = ''rejected'' \<or> vw_state v = ''consumed''}"

definition approvals_inv :: "control \<Rightarrow> bool" where
  "approvals_inv db \<longleftrightarrow> distinct (map vw_approval_id (cd_approvals db))"

lemma update_one_absent:
  "vw_approval_id v\<^sub>0 \<notin> vw_approval_id ` set vs \<Longrightarrow>
     map (\<lambda>v. if vw_approval_id v = vw_approval_id v\<^sub>0 then g v else v) vs = vs"
  by (induction vs) auto

lemma update_one_count:
  assumes "distinct (map vw_approval_id vs)" and "v\<^sub>0 \<in> set vs"
  shows "length (filter P (map (\<lambda>v. if vw_approval_id v = vw_approval_id v\<^sub>0 then g v else v) vs))
      + (if P v\<^sub>0 then 1 else 0) = length (filter P vs) + (if P (g v\<^sub>0) then 1 else (0::nat))"
  using assms
proof (induction vs)
  case (Cons v vs)
  show ?case
  proof (cases "v = v\<^sub>0")
    case True
    then have "vw_approval_id v\<^sub>0 \<notin> vw_approval_id ` set vs" using Cons.prems(1) by simp
    then show ?thesis using True by (simp add: update_one_absent)
  next
    case False
    then have "v\<^sub>0 \<in> set vs" "vw_approval_id v \<noteq> vw_approval_id v\<^sub>0" using Cons.prems by auto
    then show ?thesis using Cons by simp
  qed
qed simp

lemma decide_approval_kept:
  "decide_approval i yes why who label db = (res, db') \<Longrightarrow> res \<noteq> Ok True \<Longrightarrow> db' = db"
  by (auto simp: decide_approval_def Let_def split: if_splits)

lemma decide_approval_done:
  assumes "decide_approval i yes why who label db = (Ok True, db')"
  shows "list_ex (\<lambda>v. vw_approval_id v = i \<and> vw_state v = ''pending'') (cd_approvals db)"
    and "db' = db\<lparr>cd_approvals := map (\<lambda>v. if vw_approval_id v = i \<and> vw_state v = ''pending''
      then decided_row yes why who label (cd_clock db) v else v) (cd_approvals db)\<rparr>"
  using assms unfolding decide_approval_def Let_def by (simp_all split: if_splits)

lemma decide_approval_decided:
  assumes "approvals_inv db" and "decide_approval i yes why who label db = (Ok True, db')"
  shows "\<exists>v\<^sub>0. v\<^sub>0 \<in> set (cd_approvals db) \<and> vw_approval_id v\<^sub>0 = i \<and> vw_state v\<^sub>0 = ''pending''
    \<and> db' = db\<lparr>cd_approvals := map (\<lambda>v. if vw_approval_id v = vw_approval_id v\<^sub>0
        then decided_row yes why who label (cd_clock db) v else v) (cd_approvals db)\<rparr>"
proof -
  obtain v\<^sub>0 where v: "v\<^sub>0 \<in> set (cd_approvals db)" "vw_approval_id v\<^sub>0 = i" "vw_state v\<^sub>0 = ''pending''"
    using decide_approval_done(1) [OF assms(2)] by (auto simp: list_ex_iff)
  have u: "v = v\<^sub>0" if "v \<in> set (cd_approvals db)" "vw_approval_id v = i" for v
    using that v assms(1) by (auto simp: approvals_inv_def distinct_map dest: inj_onD)
  have e: "map (\<lambda>v. if vw_approval_id v = i \<and> vw_state v = ''pending''
        then decided_row yes why who label (cd_clock db) v else v) (cd_approvals db)
      = map (\<lambda>v. if vw_approval_id v = vw_approval_id v\<^sub>0
        then decided_row yes why who label (cd_clock db) v else v) (cd_approvals db)"
  proof (rule map_cong [OF refl])
    fix v assume "v \<in> set (cd_approvals db)"
    then show "(if vw_approval_id v = i \<and> vw_state v = ''pending''
        then decided_row yes why who label (cd_clock db) v else v)
      = (if vw_approval_id v = vw_approval_id v\<^sub>0 then decided_row yes why who label (cd_clock db) v else v)"
      using u [of v] v by (cases "vw_approval_id v = i") simp_all
  qed
  show ?thesis
    using v decide_approval_done(2) [OF assms(2)] unfolding e by blast
qed

lemma consume_approval_cases:
  assumes "approvals_inv db" and "consume_approval a r p db = (res, db')"
  obtains (kept) "res \<noteq> Ok True" "db' = db"
  | (consumed) v\<^sub>0 where "res = Ok True" "v\<^sub>0 \<in> set (cd_approvals db)" "approval_matches a r p ''approved'' v\<^sub>0"
      "db' = db\<lparr>cd_approvals := map (\<lambda>v. if vw_approval_id v = vw_approval_id v\<^sub>0
         then v\<lparr>vw_state := ''consumed''\<rparr> else v) (cd_approvals db)\<rparr>"
proof (cases "res = Ok True")
  case False
  then have "db' = db"
    using assms(2) by (auto simp: consume_approval_def to_i64_def split: if_splits list.splits)
  then show ?thesis using False by (intro kept)
next
  case True
  let ?open = "filter (approval_matches a r p ''approved'') (cd_approvals db)"
  obtain v\<^sub>0 rest where v: "sort_key (\<lambda>v. sint (vw_created_at v)) ?open = v\<^sub>0 # rest"
    and db': "db' = db\<lparr>cd_approvals := map (\<lambda>v. if vw_approval_id v = vw_approval_id v\<^sub>0
         then v\<lparr>vw_state := ''consumed''\<rparr> else v) (cd_approvals db)\<rparr>"
    using assms(2) True by (auto simp: consume_approval_def to_i64_def split: if_splits list.splits)
  have "set (sort_key (\<lambda>v. sint (vw_created_at v)) ?open) = set ?open" by (rule set_sort)
  then have "v\<^sub>0 \<in> set ?open" unfolding v by (metis list.set_intros(1))
  then have "v\<^sub>0 \<in> set (cd_approvals db)" "approval_matches a r p ''approved'' v\<^sub>0" by simp_all
  then show ?thesis using True db' by (intro consumed)
qed

lemma update_one_final:
  assumes "approvals_inv db" and "v\<^sub>0 \<in> set (cd_approvals db)" and "v\<^sub>0 \<notin> final_rows db"
  shows "final_rows db \<subseteq> final_rows (db\<lparr>cd_approvals := map (\<lambda>v. if vw_approval_id v = vw_approval_id v\<^sub>0
      then g v else v) (cd_approvals db)\<rparr>)"
proof
  fix v assume v: "v \<in> final_rows db"
  then have "v \<in> set (cd_approvals db)" "v \<noteq> v\<^sub>0" using assms(3) by (auto simp: final_rows_def)
  then have "vw_approval_id v \<noteq> vw_approval_id v\<^sub>0"
    using assms(1,2) by (auto simp: approvals_inv_def distinct_map dest: inj_onD)
  then show "v \<in> final_rows (db\<lparr>cd_approvals := map (\<lambda>v. if vw_approval_id v = vw_approval_id v\<^sub>0
      then g v else v) (cd_approvals db)\<rparr>)"
    using v by (auto simp: final_rows_def intro!: rev_image_eqI [of v])
qed

lemma filter_id: "distinct (map f vs) \<Longrightarrow> v\<^sub>0 \<in> set vs \<Longrightarrow> filter (\<lambda>v. f v = f v\<^sub>0) vs = [v\<^sub>0]"
proof (induction vs)
  case (Cons v vs)
  show ?case
  proof (cases "v = v\<^sub>0")
    case True
    then have "filter (\<lambda>x. f x = f v\<^sub>0) vs = []"
      using Cons.prems(1) by (auto simp: filter_empty_conv dest: sym)
    then show ?thesis using True by simp
  next
    case False
    then show ?thesis using Cons by auto
  qed
qed simp

lemma update_one_ledger:
  assumes inv: "approvals_inv db" and v: "v\<^sub>0 \<in> set (cd_approvals db)" "v\<^sub>0 \<notin> final_rows db"
    and db': "db' = db\<lparr>cd_approvals := map (\<lambda>v. if vw_approval_id v = vw_approval_id v\<^sub>0 then g v else v) (cd_approvals db)\<rparr>"
    and g: "\<And>v. vw_approval_id (g v) = vw_approval_id v"
  shows "approvals_inv db' \<and> final_rows db \<subseteq> final_rows db'
    \<and> approved_count a r p db' + (if approval_matches a r p ''approved'' v\<^sub>0 then 1 else 0)
      = approved_count a r p db + (if approval_matches a r p ''approved'' (g v\<^sub>0) then 1 else 0)"
proof -
  have dist: "distinct (map vw_approval_id (cd_approvals db))" using inv by (simp add: approvals_inv_def)
  have "map vw_approval_id (cd_approvals db') = map vw_approval_id (cd_approvals db)"
    using g by (simp add: db')
  then have "approvals_inv db'" using dist by (simp only: approvals_inv_def)
  moreover have "final_rows db \<subseteq> final_rows db'" unfolding db' by (rule update_one_final [OF inv v])
  moreover have sel: "cd_approvals db' = map (\<lambda>v. if vw_approval_id v = vw_approval_id v\<^sub>0 then g v else v) (cd_approvals db)"
    by (simp add: db')
  ultimately show ?thesis
    using update_one_count [OF dist v(1), of "approval_matches a r p ''approved''" g]
    unfolding approved_count_def sel by blast
qed

lemma approval_step_ledger:
  assumes inv: "approvals_inv db" and st: "approval_step t db = (evs, db')"
  shows "approvals_inv db' \<and> final_rows db \<subseteq> final_rows db'
    \<and> count_list evs (Spent a r p) + approved_count a r p db'
        = count_list evs (Granted a r p) + approved_count a r p db"
proof (cases t)
  case (VCreate i b s q x n)
  then show ?thesis
    using st inv by (auto simp: create_approval_def approvals_inv_def final_rows_def approved_count_def
        approval_matches_def list_ex_iff split: sum.splits if_splits)
next
  case (VDecide i yes why who label)
  obtain res where d: "decide_approval i yes why who label db = (res, db')"
    using st VDecide by (auto split: prod.splits)
  show ?thesis
  proof (cases "res = Ok True")
    case False
    then show ?thesis using st VDecide d inv decide_approval_kept [OF d] by simp
  next
    case True
    from decide_approval_decided [OF inv, of i yes why who label db'] d True
    obtain v\<^sub>0 where v: "v\<^sub>0 \<in> set (cd_approvals db)" "vw_approval_id v\<^sub>0 = i" "vw_state v\<^sub>0 = ''pending''"
      and db': "db' = db\<lparr>cd_approvals := map (\<lambda>v. if vw_approval_id v = vw_approval_id v\<^sub>0
        then decided_row yes why who label (cd_clock db) v else v) (cd_approvals db)\<rparr>" by blast
    have "distinct (map vw_approval_id (cd_approvals db))" using inv by (simp add: approvals_inv_def)
    from filter_id [OF this v(1)]
    have evs: "evs = (if yes then [Granted (vw_agent_id v\<^sub>0) (vw_resource v\<^sub>0) (vw_price v\<^sub>0)] else [])"
      using st VDecide d True v(2) by auto
    have "v\<^sub>0 \<notin> final_rows db" using v(3) by (simp add: final_rows_def)
    from update_one_ledger [OF inv v(1) this db', of a r p] v(3)
    show ?thesis by (cases yes) (auto simp: evs approval_matches_def decided_row_def)
  qed
next
  case (VConsume b q x)
  obtain res where d: "consume_approval b q x db = (res, db')"
    using st VConsume by (auto split: prod.splits)
  from inv d show ?thesis
  proof (cases rule: consume_approval_cases)
    case kept
    then show ?thesis using st VConsume d inv by simp
  next
    case (consumed v\<^sub>0)
    have evs: "evs = [Spent b q x]" using st VConsume d consumed(1) by simp
    have "v\<^sub>0 \<notin> final_rows db" using consumed(3) by (simp add: final_rows_def approval_matches_def)
    from update_one_ledger [OF inv consumed(2) this consumed(4), of a r p] consumed(3)
    show ?thesis by (auto simp: evs approval_matches_def)
  qed
qed

text \<open>
  C40. Approvals are spent at most once and only if granted: along every sequence of proposals,
  decisions and purchases, for each agent, resource and price, the approvals consumed plus
  those still open equal the approvals a human granted plus those open at the start; and
  an approval that was rejected or consumed is never changed again.
\<close>

theorem approvals_ledger:
  assumes "approvals_inv db" and "run_approvals ts db = (evs, db')"
  shows "count_list evs (Spent a r p) + approved_count a r p db'
      = count_list evs (Granted a r p) + approved_count a r p db
    \<and> final_rows db \<subseteq> final_rows db'"
  using assms
proof (induction ts arbitrary: db evs)
  case (Cons t ts)
  obtain e1 db1 e2 where s: "approval_step t db = (e1, db1)" "run_approvals ts db1 = (e2, db')" "evs = e1 @ e2"
    using Cons.prems(2) by (auto split: prod.splits)
  from approval_step_ledger [OF Cons.prems(1) s(1), of a r p] Cons.IH [OF _ s(2)] s(3)
  show ?case by (auto simp: count_list_append)
qed simp

theorem approvals_ledger_witness:
  "count_list (fst (run_approvals [VCreate ''x'' ''agt1'' None ''/weather'' 40 1, VDecide ''x'' True None ''op'' ''Op'',
      VConsume ''agt1'' ''/weather'' 40, VConsume ''agt1'' ''/weather'' 40] demo_control))
     (Spent ''agt1'' ''/weather'' 40) = 1"
proof -
  let ?ts = "[VCreate ''x'' ''agt1'' None ''/weather'' 40 1, VDecide ''x'' True None ''op'' ''Op'',
      VConsume ''agt1'' ''/weather'' 40, VConsume ''agt1'' ''/weather'' 40]"
  have i: "approvals_inv demo_control" by (simp add: approvals_inv_def demo_control_def)
  have "approved_count ''agt1'' ''/weather'' 40 (snd (run_approvals ?ts demo_control)) = 0
    \<and> approved_count ''agt1'' ''/weather'' 40 demo_control = 0
    \<and> count_list (fst (run_approvals ?ts demo_control)) (Granted ''agt1'' ''/weather'' 40) = 1"
    by (simp add: demo_control_def create_approval_def decide_approval_def decided_row_def consume_approval_def to_i64_def
        approval_matches_def fits_def Let_def approved_count_def)
  then show ?thesis
    using approvals_ledger [OF i, of ?ts _ _ "''agt1''" "''/weather''" 40]
    by (metis add.commute add_cancel_right_left prod.collapse)
qed

end
