(* ===== verification/Auth.thy ===== *)
theory Auth
  imports Control_Props Errors
begin

section \<open>Authentication of the control plane\<close>

text \<open>
  \<open>gateway/src/auth.rs\<close>: the guard in front of every control-plane route. Two
  credentials are accepted, the shared token of the configuration and, by the digest of
  the presented token, an enabled row of the \<open>operators\<close> table. A request is its
  two headers as text (absent when missing or not readable as text). The theorems state
  who gets through, under the collision freedom of SHA-256 on the tokens concerned, and
  that revoking or rotating a credential takes effect on the next request.
\<close>

definition MIN_TOKEN_LEN :: nat where
  "MIN_TOKEN_LEN = 16"

definition digest :: "externals \<Rightarrow> string \<Rightarrow> bytes" where
  \<comment> \<open>\<open>Sha256::digest(s.as_bytes())\<close>\<close>
  "digest X s = to_le_bytes 32 (sha256 X (utf8 s))"

fun diff_bytes :: "u8 \<Rightarrow> bytes \<Rightarrow> bytes \<Rightarrow> u8" where
  \<comment> \<open>the loop of \<open>secret_eq\<close>\<close>
  "diff_bytes diff (x # xs) (y # ys) = diff_bytes (or diff (xor x y)) xs ys"
| "diff_bytes diff _ _ = diff"

definition secret_eq :: "externals \<Rightarrow> string \<Rightarrow> string \<Rightarrow> bool" where
  "secret_eq X presented expected = (diff_bytes 0 (digest X presented) (digest X expected) = 0)"

definition strip_prefix :: "string \<Rightarrow> string \<Rightarrow> string option" where
  "strip_prefix p s = (if take (length p) s = p then Some (drop (length p) s) else None)"

definition bearer :: "string \<Rightarrow> string option" where
  "bearer raw =
     (case (case strip_prefix ''Bearer '' raw of Some r \<Rightarrow> Some r | None \<Rightarrow> strip_prefix ''bearer '' raw) of
        None \<Rightarrow> None
      | Some rest \<Rightarrow> (let t = trim rest in if t = [] then None else Some t))"

definition hex_digit :: "nat \<Rightarrow> char" where
  "hex_digit n = char_of (if n < 10 then 48 + n else 87 + n)"

definition hex_byte :: "u8 \<Rightarrow> string" where
  "hex_byte b = [hex_digit (unat b div 16), hex_digit (unat b mod 16)]"

definition to_hex :: "bytes \<Rightarrow> string" where
  "to_hex bs = concat (map hex_byte bs)"

definition token_hash :: "externals \<Rightarrow> string \<Rightarrow> string" where
  "token_hash X token = to_hex (digest X token)"

record operator =
  op_operator_id :: string
  op_label :: string
  op_workspace_id :: "string option"
  op_role :: string

definition is_scoped :: "operator \<Rightarrow> bool" where
  "is_scoped op = (op_workspace_id op \<noteq> None)"

definition is_owner :: "operator \<Rightarrow> bool" where
  "is_owner op = (op_role op = ''owner'' \<or> op_role op = ''operator'')"

definition SHARED_TOKEN_OPERATOR :: string where
  "SHARED_TOKEN_OPERATOR = ''op_shared_token''"

record admin_request =
  rq_authorization :: "string option"
  rq_admin_header :: "string option"

definition presented_token :: "admin_request \<Rightarrow> string option" where
  "presented_token req =
     (case (case rq_authorization req of None \<Rightarrow> None | Some raw \<Rightarrow> bearer raw) of
        Some t \<Rightarrow> Some t
      | None \<Rightarrow> rq_admin_header req)"

definition auth_reject :: "string \<Rightarrow> denial" where
  "auth_reject rid = denial_new ERR_UNAUTHORIZED rid"

definition require_admin ::
    "externals \<Rightarrow> string option \<Rightarrow> string \<Rightarrow> admin_request \<Rightarrow> control option
      \<Rightarrow> (operator, denial) result \<times> control option" where
  "require_admin X admin_token rid req db =
     (case admin_token of
        None \<Rightarrow> (Ok \<lparr>op_operator_id = SHARED_TOKEN_OPERATOR, op_label = ''Unauthenticated (loopback)'',
                 op_workspace_id = None, op_role = ''owner''\<rparr>, db)
      | Some expected \<Rightarrow>
      case presented_token req of
        None \<Rightarrow> (Err (auth_reject rid), db)
      | Some token \<Rightarrow>
      if secret_eq X token expected
      then (Ok \<lparr>op_operator_id = SHARED_TOKEN_OPERATOR, op_label = ''Shared admin token'',
               op_workspace_id = None, op_role = ''owner''\<rparr>, db)
      else case db of
        None \<Rightarrow> (Err (auth_reject rid), db)
      | Some cdb \<Rightarrow>
      case operator_by_token_hash (token_hash X token) cdb of
        Ok (Some op) \<Rightarrow>
          (Ok \<lparr>op_operator_id = or_operator_id op, op_label = or_label op,
               op_workspace_id = or_workspace_id op, op_role = or_role op\<rparr>,
           Some (snd (touch_operator (or_operator_id op) cdb)))
      | Ok None \<Rightarrow> (Err (auth_reject rid), db)
      | Err _ \<Rightarrow> (Err (auth_reject rid), db))"

subsection \<open>The comparison is equality of digests\<close>

lemma or_eq_0: "or a b = 0 \<longleftrightarrow> a = 0 \<and> b = (0 :: u8)"
  by (metis bit.disj_zero_right or_eq_0_iff)

lemma xor_eq_0: "xor a b = 0 \<longleftrightarrow> a = (b :: u8)"
  by (auto simp: bit_eq_iff bit_xor_iff)

lemma diff_bytes_0: "length xs = length ys \<Longrightarrow> diff_bytes d xs ys = 0 \<longleftrightarrow> d = 0 \<and> xs = ys"
  by (induction d xs ys rule: diff_bytes.induct) (auto simp: or_eq_0 xor_eq_0)

lemma length_digest [simp]: "length (digest X s) = 32"
  by (simp add: digest_def)

lemma secret_eq_iff: "secret_eq X a b \<longleftrightarrow> digest X a = digest X b"
  by (simp add: secret_eq_def diff_bytes_0)

lemma hex_digit_inject: "a < 16 \<Longrightarrow> b < 16 \<Longrightarrow> hex_digit a = hex_digit b \<longleftrightarrow> a = b"
  unfolding hex_digit_def by (auto split: if_splits dest!: arg_cong [where f = "of_char :: char \<Rightarrow> nat"])

lemma hex_byte_inject: "hex_byte a = hex_byte b \<longleftrightarrow> a = b"
proof -
  have "unat a < 256" "unat b < 256" using unsigned_less [of a, where ?'a = nat] unsigned_less [of b, where ?'a = nat] by simp_all
  then have "hex_byte a = hex_byte b \<longleftrightarrow> unat a div 16 = unat b div 16 \<and> unat a mod 16 = unat b mod 16"
    by (simp add: hex_byte_def hex_digit_inject less_mult_imp_div_less)
  also have "\<dots> \<longleftrightarrow> unat a = unat b" by (metis div_mult_mod_eq)
  finally show ?thesis by (simp add: word_unat_eq_iff)
qed

lemma to_hex_inject: "length xs = length ys \<Longrightarrow> to_hex xs = to_hex ys \<longleftrightarrow> xs = ys"
proof (induction xs ys rule: list_induct2)
  case (Cons x xs y ys)
  have "to_hex (x # xs) = to_hex (y # ys) \<longleftrightarrow> hex_byte x = hex_byte y \<and> to_hex xs = to_hex ys"
    by (auto simp: to_hex_def hex_byte_def)
  then show ?case using Cons by (simp add: hex_byte_inject)
qed simp

lemma token_hash_inject: "token_hash X s = token_hash X t \<longleftrightarrow> digest X s = digest X t"
  by (simp add: token_hash_def to_hex_inject)

lemma length_token_hash [simp]: "length (token_hash X t) = 64"
proof -
  have "length (to_hex bs) = 2 * length bs" for bs
    by (induction bs) (simp_all add: to_hex_def hex_byte_def)
  then show ?thesis by (simp add: token_hash_def)
qed

subsection \<open>Who gets through\<close>

definition operators_inv :: "control \<Rightarrow> bool" where
  \<comment> \<open>the primary key and the unique token hash\<close>
  "operators_inv cdb \<longleftrightarrow> distinct (map ow_operator_id (cd_operators cdb))
     \<and> distinct (map ow_token_hash (cd_operators cdb))"

definition live_credential :: "externals \<Rightarrow> string \<Rightarrow> control \<Rightarrow> bool" where
  "live_credential X token cdb \<longleftrightarrow> cd_online cdb \<and>
     (\<exists>r \<in> set (cd_operators cdb). ow_enabled r \<and> ow_token_hash r = token_hash X token)"

lemma operator_by_token_hash_live:
  "(\<exists>op. operator_by_token_hash (token_hash X token) cdb = Ok (Some op)) \<longleftrightarrow> live_credential X token cdb"
proof -
  have "(\<exists>r. find P rs = Some r) \<longleftrightarrow> (\<exists>r \<in> set rs. P r)" for P and rs :: "operator_row list"
    by (metis find_None_iff not_None_eq)
  then show ?thesis by (auto simp: operator_by_token_hash_def live_credential_def)
qed

lemma require_admin_stranger:
  assumes "presented_token req = Some token" and "digest X token \<noteq> digest X expected"
    and "\<not> live_credential X token cdb"
  shows "require_admin X (Some expected) rid req (Some cdb) = (Err (auth_reject rid), Some cdb)"
proof -
  have "\<nexists>op. operator_by_token_hash (token_hash X token) cdb = Ok (Some op)"
    using assms(3) operator_by_token_hash_live by blast
  then show ?thesis
    using assms(1,2) by (auto simp: require_admin_def secret_eq_iff split: sum.splits option.splits)
qed

lemma require_admin_shared:
  "presented_token req = Some expected \<Longrightarrow>
     \<exists>op db'. require_admin X (Some expected) rid req (Some cdb) = (Ok op, db')"
  by (simp add: require_admin_def secret_eq_iff)

lemma require_admin_live:
  assumes "presented_token req = Some token" and "live_credential X token cdb"
  shows "\<exists>op db'. require_admin X (Some expected) rid req (Some cdb) = (Ok op, db')"
proof -
  obtain op where "operator_by_token_hash (token_hash X token) cdb = Ok (Some op)"
    using assms(2) operator_by_token_hash_live by blast
  then show ?thesis using assms(1) by (simp add: require_admin_def)
qed

lemma live_credential_issued:
  assumes inj: "inj_on (digest X) (insert token (insert expected issued))"
    and hashes: "\<forall>r \<in> set (cd_operators cdb). \<exists>t \<in> issued. ow_token_hash r = token_hash X t"
    and live: "live_credential X token cdb"
  shows "token \<in> issued"
proof -
  obtain r where r: "r \<in> set (cd_operators cdb)" "ow_token_hash r = token_hash X token"
    using live unfolding live_credential_def by blast
  obtain u where u: "u \<in> issued" "ow_token_hash r = token_hash X u" using hashes r(1) by blast
  have "token_hash X u = token_hash X token" using r(2) u(2) by metis
  then have "digest X u = digest X token" unfolding token_hash_inject .
  then have "u = token" using inj u(1) unfolding inj_on_def by blast
  then show ?thesis using u(1) by blast
qed

text \<open>
  Only the shared token and live operator credentials pass: with a configured token,
  a request gets through exactly when it presents that token, or the token of an enabled
  operator row while the database answers; everybody else, and a request without a token,
  is refused with \<open>ERR_UNAUTHORIZED\<close> and changes nothing. Stored hashes are those of
  issued tokens, and SHA-256 does not collide on the tokens concerned.
\<close>

theorem admin_access_exact:
  assumes "inj_on (digest X) (insert token (insert expected issued))"
    and "\<forall>r \<in> set (cd_operators cdb). \<exists>t \<in> issued. ow_token_hash r = token_hash X t"
  shows "(presented_token req = Some token \<longrightarrow>
       (if token = expected \<or> live_credential X token cdb
        then \<exists>op db'. require_admin X (Some expected) rid req (Some cdb) = (Ok op, db')
        else require_admin X (Some expected) rid req (Some cdb) = (Err (denial_new ERR_UNAUTHORIZED rid), Some cdb)))
     \<and> (live_credential X token cdb \<longrightarrow> token \<in> issued)
     \<and> (presented_token req = None \<longrightarrow>
        require_admin X (Some expected) rid req (Some cdb) = (Err (denial_new ERR_UNAUTHORIZED rid), Some cdb))"
proof (intro conjI impI)
  assume t: "presented_token req = Some token"
  have ne: "digest X token \<noteq> digest X expected" if "token \<noteq> expected"
    using that inj_on_eq_iff [OF assms(1), of token expected] by blast
  show "if token = expected \<or> live_credential X token cdb
        then \<exists>op db'. require_admin X (Some expected) rid req (Some cdb) = (Ok op, db')
        else require_admin X (Some expected) rid req (Some cdb) = (Err (denial_new ERR_UNAUTHORIZED rid), Some cdb)"
  proof (cases "token = expected \<or> live_credential X token cdb")
    case True
    then show ?thesis using t require_admin_shared require_admin_live [OF t] by presburger
  next
    case False
    then show ?thesis using require_admin_stranger [OF t ne] unfolding auth_reject_def by presburger
  qed
next
  assume "live_credential X token cdb"
  then show "token \<in> issued" by (rule live_credential_issued [OF assms])
next
  assume "presented_token req = None"
  then show "require_admin X (Some expected) rid req (Some cdb) = (Err (denial_new ERR_UNAUTHORIZED rid), Some cdb)"
    by (simp add: require_admin_def auth_reject_def)
qed

lemma distinct_map_eqD: "distinct (map f xs) \<Longrightarrow> x \<in> set xs \<Longrightarrow> y \<in> set xs \<Longrightarrow> f x = f y \<Longrightarrow> x = y"
  unfolding distinct_map by (blast dest: inj_onD)

lemma credential_row_unique:
  "operators_inv cdb \<Longrightarrow> r \<in> set (cd_operators cdb) \<Longrightarrow> q \<in> set (cd_operators cdb) \<Longrightarrow>
     ow_token_hash q = ow_token_hash r \<Longrightarrow> q = r"
  unfolding operators_inv_def using distinct_map_eqD by metis

lemma disabled_not_live:
  assumes "operators_inv cdb" and "r \<in> set (cd_operators cdb)" and "ow_token_hash r = token_hash X token"
    and "set_operator_enabled (ow_operator_id r) False cdb = (Ok b, cdb')"
  shows "\<not> live_credential X token cdb'"
proof
  assume "live_credential X token cdb'"
  then obtain q where q: "q \<in> set (cd_operators cdb')" "ow_enabled q" "ow_token_hash q = token_hash X token"
    unfolding live_credential_def by blast
  have "cd_operators cdb' = map (\<lambda>q. if ow_operator_id q = ow_operator_id r
      then q\<lparr>ow_enabled := False\<rparr> else q) (cd_operators cdb)"
    using assms(4) by (auto simp: set_operator_enabled_def split: if_splits)
  with q obtain q\<^sub>0 where "q\<^sub>0 \<in> set (cd_operators cdb)" "q = q\<^sub>0" "ow_operator_id q\<^sub>0 \<noteq> ow_operator_id r"
    by (auto split: if_splits)
  then show False using credential_row_unique [OF assms(1,2)] q(3) assms(3) by metis
qed

lemma rotated_not_live:
  assumes "operators_inv cdb" and "r \<in> set (cd_operators cdb)" and "ow_token_hash r = token_hash X token"
    and "h \<noteq> token_hash X token" and "rotate_operator_token (ow_operator_id r) h cdb = (Ok True, cdb')"
  shows "\<not> live_credential X token cdb'"
proof
  assume "live_credential X token cdb'"
  then obtain q where q: "q \<in> set (cd_operators cdb')" "ow_enabled q" "ow_token_hash q = token_hash X token"
    unfolding live_credential_def by blast
  have hit: "list_ex (\<lambda>q. ow_operator_id q = ow_operator_id r \<and> ow_enabled q) (cd_operators cdb)"
    and ops: "cd_operators cdb' = map (\<lambda>q. if ow_operator_id q = ow_operator_id r \<and> ow_enabled q
      then q\<lparr>ow_token_hash := h\<rparr> else q) (cd_operators cdb)"
    using assms(5) unfolding rotate_operator_token_def Let_def by (auto split: if_splits)
  from q assms(4) ops obtain q\<^sub>0 where q\<^sub>0: "q\<^sub>0 \<in> set (cd_operators cdb)" "q = q\<^sub>0"
      "\<not> (ow_operator_id q\<^sub>0 = ow_operator_id r \<and> ow_enabled q\<^sub>0)"
    by (auto split: if_splits)
  then have "q\<^sub>0 = r" using credential_row_unique [OF assms(1,2)] q(3) assms(3) by metis
  then show False using q\<^sub>0 q(2) by blast
qed

text \<open>
  Revocation and rotation take effect on the very next request: once an operator is
  disabled, or its token replaced by one with another digest, the old token is refused
  (unless it is the shared token itself).
\<close>

theorem revocation_immediate:
  assumes "operators_inv cdb" and "r \<in> set (cd_operators cdb)" and "ow_token_hash r = token_hash X token"
    and "presented_token req = Some token" and "digest X token \<noteq> digest X expected"
    and "set_operator_enabled (ow_operator_id r) False cdb = (Ok b, cdb')
       \<or> h \<noteq> token_hash X token \<and> rotate_operator_token (ow_operator_id r) h cdb = (Ok True, cdb')"
  shows "require_admin X (Some expected) rid req (Some cdb') = (Err (denial_new ERR_UNAUTHORIZED rid), Some cdb')"
proof -
  have "\<not> live_credential X token cdb'"
    using assms(6) disabled_not_live [OF assms(1-3)] rotated_not_live [OF assms(1-3)] by blast
  from require_admin_stranger [OF assms(4,5) this] show ?thesis by (simp add: auth_reject_def)
qed

definition demo_operator :: operator_row where
  "demo_operator = \<lparr>ow_operator_id = ''op1'', ow_label = ''Ann'', ow_token_hash = token_hash demo_externals ''tokenA'',
     ow_role = ''operator'', ow_enabled = True, ow_created_at = 1, ow_last_used_at = None, ow_workspace_id = None\<rparr>"

definition demo_ops_control :: control where
  "demo_ops_control = demo_control\<lparr>cd_operators := [demo_operator]\<rparr>"

lemma demo_digests:
  "digest demo_externals ''tokenA'' \<noteq> digest demo_externals ''shared''"
  "digest demo_externals ''tokenA'' \<noteq> digest demo_externals ''guess!''"
  "digest demo_externals ''shared'' \<noteq> digest demo_externals ''guess!''"
  unfolding digest_def by (simp_all add: to_le_bytes_inject demo_externals_def utf8_def utf8_char_def)

theorem admin_access_exact_witness:
  "require_admin demo_externals (Some ''shared'') ''r'' \<lparr>rq_authorization = Some ''Bearer guess!'', rq_admin_header = None\<rparr>
     (Some demo_ops_control) = (Err (denial_new ERR_UNAUTHORIZED ''r''), Some demo_ops_control)"
proof -
  have i: "inj_on (digest demo_externals) (insert ''guess!'' (insert ''shared'' {''tokenA''}))"
    using demo_digests by (auto simp: inj_on_def)
  have p: "presented_token \<lparr>rq_authorization = Some ''Bearer guess!'', rq_admin_header = None\<rparr> = Some ''guess!''"
    by (simp add: presented_token_def bearer_def strip_prefix_def trim_def trim_matches_def trim_end_matches_def
        trim_start_matches_def is_whitespace_def)
  have h: "\<forall>r \<in> set (cd_operators demo_ops_control). \<exists>t \<in> {''tokenA''}. ow_token_hash r = token_hash demo_externals t"
    by (simp add: demo_ops_control_def demo_operator_def)
  have n: "\<not> live_credential demo_externals ''guess!'' demo_ops_control"
    using demo_digests(2) by (simp add: live_credential_def demo_ops_control_def demo_operator_def token_hash_inject)
  show ?thesis
    using admin_access_exact [OF i h, of "\<lparr>rq_authorization = Some ''Bearer guess!'', rq_admin_header = None\<rparr>" "''r''"] p n
    by simp
qed

theorem revocation_immediate_witness:
  "require_admin demo_externals (Some ''shared'') ''r'' \<lparr>rq_authorization = None, rq_admin_header = Some ''tokenA''\<rparr>
     (Some (snd (set_operator_enabled ''op1'' False demo_ops_control)))
   = (Err (denial_new ERR_UNAUTHORIZED ''r''), Some (snd (set_operator_enabled ''op1'' False demo_ops_control)))"
  by (rule revocation_immediate [of demo_ops_control demo_operator _ "''tokenA''" _ _ "True" _ "[]"])
    (simp_all add: operators_inv_def demo_ops_control_def demo_operator_def presented_token_def demo_digests
      set_operator_enabled_def demo_control_def)

end
