(* ===== verification/Gateway.thy ===== *)
theory Gateway
  imports Pg_Props Account Settle Errors Auth
begin

section \<open>The gateway's state and its session routes\<close>

text \<open>
  \<open>gateway/src/routes.rs\<close>, the handlers that open, verify, reconcile and settle
  sessions and publish their evidence (the paid path \<open>buy\<close> is in theory \<open>Buy\<close>).
  A handler takes the decoded request and the shared \<open>AppState\<close>, and returns its
  response or a denial together with the state it leaves; the fresh request id is an
  argument. \<open>main.rs\<close> builds the state with \<open>db\<close> and \<open>store\<close> the same
  Postgres database, or no database and the in-memory store: the datatype \<open>backend\<close>.
  Reads of the chain are a function of the address, the chain at the moment of the request.
\<close>

subsection \<open>The store behind the handlers\<close>

datatype backend = Ephemeral mem_store | Durable pg control

definition store_open ::
    "externals \<Rightarrow> session_record \<Rightarrow> backend \<Rightarrow> (unit, store_error) result \<times> backend" where
  "store_open X r b = (case b of
     Ephemeral m \<Rightarrow> (case mem_open r m of (res, m') \<Rightarrow> (res, Ephemeral m'))
   | Durable db cdb \<Rightarrow> (case pg_open X r db of (res, db') \<Rightarrow> (res, Durable db' cdb)))"

definition store_get :: "externals \<Rightarrow> pubkey \<Rightarrow> backend \<Rightarrow> (session_record, store_error) result" where
  "store_get X k b = (case b of Ephemeral m \<Rightarrow> mem_get k m | Durable db cdb \<Rightarrow> pg_get X k db)"

definition store_admit_claim ::
    "externals \<Rightarrow> claim \<Rightarrow> sig64 \<Rightarrow> i64 \<Rightarrow> backend \<Rightarrow> admit_result \<times> backend" where
  "store_admit_claim X c sig now b = (case b of
     Ephemeral m \<Rightarrow> (case mem_admit_claim c sig now m of (res, m') \<Rightarrow> (res, Ephemeral m'))
   | Durable db cdb \<Rightarrow> (case pg_admit_claim X c sig now db of (res, db') \<Rightarrow> (res, Durable db' cdb)))"

definition store_mark_settled ::
    "externals \<Rightarrow> pubkey \<Rightarrow> backend \<Rightarrow> (unit, store_error) result \<times> backend" where
  "store_mark_settled X k b = (case b of
     Ephemeral m \<Rightarrow> (case mem_mark_settled k m of (res, m') \<Rightarrow> (res, Ephemeral m'))
   | Durable db cdb \<Rightarrow> (case pg_mark_settled X k db of (res, db') \<Rightarrow> (res, Durable db' cdb)))"

definition store_mark_chain_verified ::
    "externals \<Rightarrow> pubkey \<Rightarrow> backend \<Rightarrow> (unit, store_error) result \<times> backend" where
  "store_mark_chain_verified X k b = (case b of
     Ephemeral m \<Rightarrow> (case mem_mark_chain_verified k m of (res, m') \<Rightarrow> (res, Ephemeral m'))
   | Durable db cdb \<Rightarrow> (case pg_mark_chain_verified X k db of (res, db') \<Rightarrow> (res, Durable db' cdb)))"

definition backend_view :: "externals \<Rightarrow> backend \<Rightarrow> pubkey \<rightharpoonup> session_record" where
  "backend_view X b = (case b of Ephemeral m \<Rightarrow> ms_inner m | Durable db cdb \<Rightarrow> pg_view X db)"

definition backend_inv :: "externals \<Rightarrow> backend \<Rightarrow> bool" where
  "backend_inv X b = (case b of Ephemeral m \<Rightarrow> True | Durable db cdb \<Rightarrow> pg_inv X db)"

lemmas store_defs = store_open_def store_get_def store_admit_claim_def store_mark_settled_def
  store_mark_chain_verified_def

interpretation gws: session_store "backend_view X" "backend_inv X" "store_open X" "store_get X"
  "store_admit_claim X" "store_mark_settled X" "store_mark_chain_verified X" for X
proof (unfold_locales, goal_cases)
  case (1 s r) then show ?case
    using pgs.opn_inv [of X] by (cases s) (simp_all add: store_defs backend_inv_def case_prod_unfold)
next
  case (2 s c sig now) then show ?case
    using pgs.admit_inv [of X] by (cases s) (simp_all add: store_defs backend_inv_def case_prod_unfold)
next
  case (3 s k) then show ?case
    using pgs.settled_inv [of X] by (cases s) (simp_all add: store_defs backend_inv_def case_prod_unfold)
next
  case (4 s k) then show ?case
    using pgs.verified_inv [of X] by (cases s) (simp_all add: store_defs backend_inv_def case_prod_unfold)
next
  case (5 s r res s') then show ?case
    using mem.opn_view [where r = r and res = res] pgs.opn_view [of X _ r res]
    by (cases s) (auto simp: store_defs backend_inv_def backend_view_def split: prod.splits)
next
  case (6 s k r) then show ?case
    using mem.get_view [where k = k and r = r] pgs.get_view [of X _ k r]
    by (cases s) (auto simp: store_defs backend_inv_def backend_view_def)
next
  case (7 s c sig now ares s') then show ?case
    using mem.admit_view [where c = c and sig = sig and now = now and ares = ares] pgs.admit_view [of X _ c sig now ares]
    by (cases s) (auto simp: store_defs backend_inv_def backend_view_def split: prod.splits sum.splits)
next
  case (8 s k res s') then show ?case
    using mem.settled_view [where k = k and res = res] pgs.settled_view [of X _ k res]
    by (cases s; clarsimp simp: store_defs backend_inv_def backend_view_def split: prod.splits) blast+
next
  case (9 s k res s') then show ?case
    using mem.verified_view [where k = k and res = res] pgs.verified_view [of X _ k res]
    by (cases s; clarsimp simp: store_defs backend_inv_def backend_view_def split: prod.splits) blast+
qed

subsection \<open>Shared state\<close>

record app_state =
  as_store :: backend
  as_program_id :: pubkey
  as_legacy_program_id :: "pubkey option"
  as_rpc :: "rpc_node option"
  as_provider_keypair :: "pubkey option"
  as_settlement_authority :: "pubkey option"
  as_session_fetcher :: "fetcher option"
  as_upstream :: "upstream option"
  as_network :: string
  as_registry :: registry
  as_admin_token :: "string option"
  as_require_agent_policy :: bool

definition as_db :: "app_state \<Rightarrow> (pg \<times> control) option" where
  \<comment> \<open>\<open>state.db\<close>\<close>
  "as_db st = (case as_store st of Ephemeral _ \<Rightarrow> None | Durable db cdb \<Rightarrow> Some (db, cdb))"

definition durable_state :: "app_state \<Rightarrow> bool" where
  "durable_state st = (as_db st \<noteq> None)"

definition hex32 :: "hash32 \<Rightarrow> string" where
  "hex32 h = to_hex (to_le_bytes 32 h)"

primrec reconciliation_code :: "session_verification_error \<Rightarrow> reason_code" where
  "reconciliation_code AccountNotFound = ERR_SESSION_ACCOUNT_NOT_FOUND"
| "reconciliation_code (DepositMismatch a b) = ERR_DEPOSIT_MISMATCH"
| "reconciliation_code (FieldMismatch f a b) = ERR_SESSION_FIELD_MISMATCH"
| "reconciliation_code AlreadySettled = ERR_SESSION_SETTLED"
| "reconciliation_code (WrongProgramOwner a b) = ERR_NOT_A_SESSION_ACCOUNT"
| "reconciliation_code (InvalidAccountData n) = ERR_NOT_A_SESSION_ACCOUNT"
| "reconciliation_code NotASessionAccount = ERR_NOT_A_SESSION_ACCOUNT"
| "reconciliation_code RpcUnavailable = ERR_CHAIN_UNAVAILABLE"

primrec store_code :: "store_error \<Rightarrow> reason_code" where
  "store_code Unavailable = ERR_STORE_UNAVAILABLE"
| "store_code Unknown = ERR_SESSION_UNKNOWN"
| "store_code AlreadyOpen = ERR_SESSION_ALREADY_OPEN"

definition store_denial :: "store_error \<Rightarrow> string \<Rightarrow> denial" where
  "store_denial e rid = denial_new (store_code e) rid"

primrec rejection_code :: "claim_rejection \<Rightarrow> reason_code" where
  "rejection_code RejSessionExpired = ERR_SESSION_EXPIRED"
| "rejection_code RejSessionSettled = ERR_SESSION_SETTLED"
| "rejection_code RejNotMonotonic = ERR_CLAIM_NOT_MONOTONIC"
| "rejection_code RejNonceNotMonotonic = ERR_NONCE_NOT_MONOTONIC"
| "rejection_code RejExceedsDeposit = ERR_CLAIM_EXCEEDS_DEPOSIT"

definition STATE_BACKEND :: "app_state \<Rightarrow> string" where
  "STATE_BACKEND st = (if durable_state st then ''POSTGRES'' else ''EPHEMERAL_IN_MEMORY'')"

record health_response =
  hp_status :: string
  hp_program_id :: string
  hp_ephemeral_state :: bool
  hp_state_backend :: string
  hp_settlement_authority :: "string option"

definition health :: "externals \<Rightarrow> app_state \<Rightarrow> health_response" where
  "health X st = \<lparr>hp_status = ''ok'', hp_program_id = pk_show X (as_program_id st),
     hp_ephemeral_state = (\<not> durable_state st), hp_state_backend = STATE_BACKEND st,
     hp_settlement_authority = map_option (pk_show X) (as_settlement_authority st)\<rparr>"

subsection \<open>Opening a session\<close>

record open_session_request =
  oq_session :: string
  oq_agent :: string
  oq_provider :: string
  oq_mint :: string
  oq_deposited_total :: string
  oq_expires_at :: string

record open_session_response =
  op_session :: string
  op_tracking :: bool
  op_request_id :: string
  op_state_durability :: string

definition route_open_session ::
    "externals \<Rightarrow> string \<Rightarrow> open_session_request \<Rightarrow> app_state
      \<Rightarrow> (open_session_response, denial) result \<times> app_state" where
  "route_open_session X rid req st =
     (case (pk_parse X (oq_session req), pk_parse X (oq_agent req), pk_parse X (oq_provider req),
            pk_parse X (oq_mint req)) of
        (Some session, Some agent, Some provider, Some mint) \<Rightarrow>
          (case (parse_u64 (oq_deposited_total req), parse_i64 (oq_expires_at req)) of
             (Some deposited_total, Some expires_at) \<Rightarrow>
               (case (case as_session_fetcher st of
                        Some fetcher \<Rightarrow>
                          (case verify_on_chain_session X fetcher (as_program_id st)
                                  (as_legacy_program_id st) session
                                  \<lparr>cs_agent = agent, cs_provider = provider, cs_mint = mint,
                                   cs_deposited_total = deposited_total, cs_expires_at = expires_at\<rparr> of
                             Err e \<Rightarrow> Err (denial_new (reconciliation_code e) rid)
                           | Ok _ \<Rightarrow> Ok True)
                      | None \<Rightarrow> Ok False) of
                  Err d \<Rightarrow> (Err d, st)
                | Ok chain_verified \<Rightarrow>
                let rec = (session_record_new session agent provider mint deposited_total expires_at)
                      \<lparr>sr_chain_verified := chain_verified\<rparr> in
                case store_open X rec (as_store st) of
                  (Err e, b) \<Rightarrow> (Err (store_denial e rid), st\<lparr>as_store := b\<rparr>)
                | (Ok _, b) \<Rightarrow> (Ok \<lparr>op_session = pk_show X session, op_tracking = True,
                     op_request_id = rid, op_state_durability = STATE_BACKEND st\<rparr>,
                     st\<lparr>as_store := b\<rparr>))
           | _ \<Rightarrow> (Err (denial_new ERR_MALFORMED_REQUEST rid), st))
      | _ \<Rightarrow> (Err (denial_new ERR_MALFORMED_REQUEST rid), st))"

subsection \<open>Verifying a claim\<close>

record verify_claim_response =
  vc_decision :: string
  vc_session :: string
  vc_cumulative_amount :: string
  vc_previous_cumulative :: string
  vc_delta :: string
  vc_nonce :: string
  vc_request_id :: string

definition verify_claim ::
    "externals \<Rightarrow> i64 \<Rightarrow> string \<Rightarrow> claim_wire \<Rightarrow> app_state
      \<Rightarrow> (verify_claim_response, denial) result \<times> app_state" where
  "verify_claim X now rid wire st =
     (case decode X wire of
        Err _ \<Rightarrow> (Err (denial_new ERR_MALFORMED_CLAIM rid), st)
      | Ok (c, sig) \<Rightarrow>
      if is_expired c now then (Err (denial_new ERR_CLAIM_EXPIRED rid), st)
      else case store_get X (cl_session c) (as_store st) of
        Err e \<Rightarrow> (Err (store_denial e rid), st)
      | Ok rec \<Rightarrow>
      if verify_claim_signature X (sr_agent rec) c sig \<noteq> Valid
      then (Err (denial_new ERR_INVALID_SIGNATURE rid), st)
      else case store_admit_claim X c sig now (as_store st) of
        (Err e, b) \<Rightarrow> (Err (store_denial e rid), st\<lparr>as_store := b\<rparr>)
      | (Ok (Err rejection), b) \<Rightarrow>
          (Err (denial_new (rejection_code rejection) rid), st\<lparr>as_store := b\<rparr>)
      | (Ok (Ok accepted), b) \<Rightarrow>
          (Ok \<lparr>vc_decision = ''ALLOW'', vc_session = pk_show X (cl_session c),
             vc_cumulative_amount = show_u64 (ca_cumulative_amount accepted),
             vc_previous_cumulative = show_u64 (ca_previous_cumulative accepted),
             vc_delta = show_u64 (ca_delta accepted), vc_nonce = show_u64 (ca_nonce accepted),
             vc_request_id = rid\<rparr>, st\<lparr>as_store := b\<rparr>))"

subsection \<open>Reading a settlement back\<close>

record on_chain_settlement_response =
  oc_session :: string
  oc_settlement_record :: string
  oc_settled :: bool
  oc_merkle_root :: "string option"
  oc_claim_hash :: "string option"
  oc_settled_amount :: "string option"
  oc_settled_at :: "i64 option"
  oc_root_may_advance :: "bool option"

definition on_chain_settlement ::
    "externals \<Rightarrow> string \<Rightarrow> string \<Rightarrow> app_state \<Rightarrow> (on_chain_settlement_response, denial) result" where
  "on_chain_settlement X rid session_text st =
     (case pk_parse X session_text of
        None \<Rightarrow> Err (denial_new ERR_MALFORMED_REQUEST rid)
      | Some session \<Rightarrow>
      case as_session_fetcher st of
        None \<Rightarrow> Err (denial_new ERR_CHAIN_UNAVAILABLE rid)
      | Some fetch \<Rightarrow>
      let session_account = (case fetch session of
            Ok (Some (owner, data)) \<Rightarrow> Some (owner, length data) | _ \<Rightarrow> None);
          owning_program = map_option fst session_account in
      if (case owning_program of None \<Rightarrow> False
          | Some owner \<Rightarrow> owner \<noteq> as_program_id st \<and> Some owner \<noteq> as_legacy_program_id st)
      then Err (denial_new ERR_WRONG_PROGRAM_OWNER rid)
      else
      let derive_under = (case owning_program of None \<Rightarrow> as_program_id st | Some owner \<Rightarrow> owner);
          record_pda = fst (derive_settlement_record X derive_under session) in
      case fetch record_pda of
        Err _ \<Rightarrow> Err (denial_new ERR_CHAIN_UNAVAILABLE rid)
      | Ok None \<Rightarrow> Ok \<lparr>oc_session = pk_show X session, oc_settlement_record = pk_show X record_pda,
            oc_settled = False, oc_merkle_root = None, oc_claim_hash = None, oc_settled_amount = None,
            oc_settled_at = None, oc_root_may_advance = None\<rparr>
      | Ok (Some (owner, data)) \<Rightarrow>
      case parse_settlement_record owner derive_under data of
        Err e \<Rightarrow> Err (denial_new (reconciliation_code e) rid)
      | Ok rec \<Rightarrow> Ok \<lparr>oc_session = pk_show X session, oc_settlement_record = pk_show X record_pda,
            oc_settled = True, oc_merkle_root = Some (hex32 (sra_merkle_root rec)),
            oc_claim_hash = Some (hex32 (sra_claim_hash rec)),
            oc_settled_amount = Some (show_u64 (sra_settled_amount rec)),
            oc_settled_at = Some (sra_settled_at rec),
            oc_root_may_advance = map_option (\<lambda>(_, len). len \<noteq> SESSION_ACCOUNT_LEN_V1) session_account\<rparr>)"

subsection \<open>Reconciling a session after the fact\<close>

record reconcile_session_response =
  rs_decision :: string
  rs_session :: string
  rs_chain_verified :: bool
  rs_on_chain_deposit :: string
  rs_request_id :: string

definition reconcile_session ::
    "externals \<Rightarrow> string \<Rightarrow> string \<Rightarrow> app_state \<Rightarrow> (reconcile_session_response, denial) result \<times> app_state" where
  "reconcile_session X rid session_text st =
     (case pk_parse X session_text of
        None \<Rightarrow> (Err (denial_new ERR_MALFORMED_REQUEST rid), st)
      | Some session \<Rightarrow>
      case store_get X session (as_store st) of
        Err e \<Rightarrow> (Err (store_denial e rid), st)
      | Ok rec \<Rightarrow>
      case as_session_fetcher st of
        None \<Rightarrow> (Err (denial_new ERR_CHAIN_UNAVAILABLE rid), st)
      | Some fetcher \<Rightarrow>
      case verify_on_chain_session X fetcher (as_program_id st) (as_legacy_program_id st) session
             \<lparr>cs_agent = sr_agent rec, cs_provider = sr_provider rec, cs_mint = sr_mint rec,
              cs_deposited_total = sr_deposited_total rec, cs_expires_at = sr_expires_at rec\<rparr> of
        Err e \<Rightarrow> (Err (denial_new (reconciliation_code e) rid), st)
      | Ok account \<Rightarrow>
      case store_mark_chain_verified X session (as_store st) of
        (Err e, b) \<Rightarrow> (Err (store_denial e rid), st\<lparr>as_store := b\<rparr>)
      | (Ok _, b) \<Rightarrow>
          (Ok \<lparr>rs_decision = ''VERIFIED'', rs_session = pk_show X session, rs_chain_verified = True,
             rs_on_chain_deposit = show_u64 (acc_deposited_total account), rs_request_id = rid\<rparr>,
           st\<lparr>as_store := b\<rparr>))"

subsection \<open>Settling a session\<close>

definition hex_digit_value :: "char \<Rightarrow> nat option" where
  \<comment> \<open>\<open>char::to_digit(16)\<close>\<close>
  "hex_digit_value c = (let n = of_char c :: nat in
     if 48 \<le> n \<and> n \<le> 57 then Some (n - 48)
     else if 97 \<le> n \<and> n \<le> 102 then Some (n - 87)
     else if 65 \<le> n \<and> n \<le> 70 then Some (n - 55)
     else None)"

definition u8_from_hex :: "char \<Rightarrow> char \<Rightarrow> u8 option" where
  \<comment> \<open>\<open>u8::from_str_radix\<close> of two characters: a leading plus sign is allowed\<close>
  "u8_from_hex c d =
     (if c = CHR ''+'' then map_option of_nat (hex_digit_value d)
      else case (hex_digit_value c, hex_digit_value d) of
        (Some h, Some l) \<Rightarrow> Some (of_nat (16 * h + l)) | _ \<Rightarrow> None)"

fun hex_pairs :: "string \<Rightarrow> bytes option" where
  "hex_pairs [] = Some []"
| "hex_pairs [c] = None"
| "hex_pairs (c # d # cs) =
     (case u8_from_hex c d of None \<Rightarrow> None | Some b \<Rightarrow>
      (case hex_pairs cs of None \<Rightarrow> None | Some bs \<Rightarrow> Some (b # bs)))"

definition parse_merkle_root :: "externals \<Rightarrow> string option \<Rightarrow> hash32 option" where
  "parse_merkle_root X raw =
     (case raw of None \<Rightarrow> Some 0
      | Some s \<Rightarrow>
      case (case strip_prefix ''0x'' s of Some hex \<Rightarrow> hex_pairs hex | None \<Rightarrow> bs58_decode X s) of
        None \<Rightarrow> None
      | Some bs \<Rightarrow> if length bs = 32 then Some (from_le_bytes bs) else None)"

record settle_session_response =
  ss_decision :: string
  ss_session :: string
  ss_merkle_root :: string
  ss_evidence_entries :: nat
  ss_signature :: string
  ss_cumulative_amount :: string
  ss_nonce :: string
  ss_provider_token_account :: string
  ss_settlement_record :: string
  ss_token_program :: string
  ss_request_id :: string

primrec settle_code :: "settle_error \<Rightarrow> reason_code" where
  "settle_code (Rpc e) = ERR_SETTLEMENT_FAILED"
| "settle_code (MintNotFound m) = ERR_SETTLEMENT_FAILED"

definition settle_root ::
    "externals \<Rightarrow> string \<Rightarrow> pubkey \<Rightarrow> string option \<Rightarrow> app_state \<Rightarrow> (hash32 \<times> nat, denial) result" where
  \<comment> \<open>the evidence root to commit, and how many decisions it covers\<close>
  "settle_root X rid session merkle_root st =
     (case as_db st of
        Some (db, _) \<Rightarrow>
          (case load_evidence_leaves X session db of
             Ok ls \<Rightarrow> Ok (root (merkle_new X ls), length ls)
           | Err _ \<Rightarrow> Err (denial_new ERR_EVIDENCE_UNAVAILABLE rid))
      | None \<Rightarrow>
          (case parse_merkle_root X merkle_root of
             None \<Rightarrow> Err (denial_new ERR_MALFORMED_REQUEST rid)
           | Some r \<Rightarrow> Ok (r, 0)))"

definition choose_settler ::
    "string \<Rightarrow> pubkey \<Rightarrow> session_record \<Rightarrow> app_state \<Rightarrow> (pubkey \<times> pubkey, denial) result" where
  \<comment> \<open>the program that owns the session, and the key that signs its settlement\<close>
  "choose_settler rid session rec st =
     (case as_session_fetcher st of
        None \<Rightarrow> Err (denial_new ERR_CHAIN_UNAVAILABLE rid)
      | Some fetch \<Rightarrow>
      case fetch session of
        Ok (Some (owner, data)) \<Rightarrow>
          (let is_v2 = (length data = SESSION_ACCOUNT_LEN_V2) in
           if owner \<noteq> as_program_id st \<and> Some owner \<noteq> as_legacy_program_id st
           then Err (denial_new ERR_WRONG_PROGRAM_OWNER rid)
           else if is_v2 then
             (case as_settlement_authority st of
                None \<Rightarrow> Err (denial_new ERR_SETTLEMENT_UNAVAILABLE rid)
              | Some authority \<Rightarrow> Ok (owner, authority))
           else
             (case as_provider_keypair st of
                None \<Rightarrow> Err (denial_new ERR_SETTLEMENT_UNAVAILABLE rid)
              | Some provider_key \<Rightarrow>
                  if provider_key \<noteq> sr_provider rec then Err (denial_new ERR_WRONG_PROVIDER_KEY rid)
                  else Ok (owner, provider_key)))
      | _ \<Rightarrow> Err (denial_new ERR_CHAIN_UNAVAILABLE rid))"

record pending_settlement =
  \<comment> \<open>what \<open>settle_session\<close> holds between the confirmation and the mark\<close>
  ps_session :: pubkey
  ps_record :: session_record
  ps_highest :: signed_claim
  ps_program :: pubkey
  ps_settler :: pubkey
  ps_merkle_root :: hash32
  ps_evidence_count :: nat
  ps_outcome :: settlement_outcome

definition settle_submit ::
    "externals \<Rightarrow> runtime \<Rightarrow> solana_ids \<Rightarrow> string \<Rightarrow> string \<Rightarrow> string option \<Rightarrow> app_state
      \<Rightarrow> (pending_settlement, denial) result" where
  \<comment> \<open>\<open>settle_session\<close> up to the confirmation of its transaction\<close>
  "settle_submit X R I rid session_text merkle_root_text st =
     (case pk_parse X session_text of
        None \<Rightarrow> Err (denial_new ERR_MALFORMED_REQUEST rid)
      | Some session \<Rightarrow>
      case settle_root X rid session merkle_root_text st of
        Err d \<Rightarrow> Err d
      | Ok (merkle_root, evidence_count) \<Rightarrow>
      case as_rpc st of
        None \<Rightarrow> Err (denial_new ERR_SETTLEMENT_UNAVAILABLE rid)
      | Some rpc \<Rightarrow>
      case store_get X session (as_store st) of
        Err e \<Rightarrow> Err (store_denial e rid)
      | Ok rec \<Rightarrow>
      if sr_is_settled rec then Err (denial_new ERR_SESSION_SETTLED rid)
      else case sr_highest_claim rec of
        None \<Rightarrow> Err (denial_new ERR_NOTHING_TO_SETTLE rid)
      | Some highest \<Rightarrow>
      case choose_settler rid session rec st of
        Err d \<Rightarrow> Err d
      | Ok (owning_program, settler) \<Rightarrow>
      case submit_settlement X R I rpc owning_program settler (sr_provider rec) session (sr_mint rec)
             (sc_claim highest) (sc_signature highest) (sr_agent rec) merkle_root of
        Err e \<Rightarrow> Err (denial_new (settle_code e) rid)
      | Ok outcome \<Rightarrow> Ok \<lparr>ps_session = session, ps_record = rec, ps_highest = highest,
          ps_program = owning_program, ps_settler = settler, ps_merkle_root = merkle_root,
          ps_evidence_count = evidence_count, ps_outcome = outcome\<rparr>)"

definition settle_mark :: "externals \<Rightarrow> pending_settlement \<Rightarrow> app_state \<Rightarrow> app_state" where
  \<comment> \<open>after the confirmation; a failure to mark is logged only\<close>
  "settle_mark X p st = st\<lparr>as_store := snd (store_mark_settled X (ps_session p) (as_store st))\<rparr>"

definition settled_response :: "externals \<Rightarrow> string \<Rightarrow> pending_settlement \<Rightarrow> settle_session_response" where
  "settled_response X rid p = (let outcome = ps_outcome p in
     \<lparr>ss_decision = ''SETTLED'', ss_session = pk_show X (ps_session p),
      ss_merkle_root = hex32 (ps_merkle_root p), ss_evidence_entries = ps_evidence_count p,
      ss_signature = so_signature outcome,
      ss_cumulative_amount = show_u64 (so_cumulative_amount outcome),
      ss_nonce = show_u64 (so_nonce outcome),
      ss_provider_token_account = pk_show X (so_provider_token_account outcome),
      ss_settlement_record = pk_show X (so_settlement_record outcome),
      ss_token_program = pk_show X (so_token_program outcome), ss_request_id = rid\<rparr>)"

definition route_settle_session ::
    "externals \<Rightarrow> runtime \<Rightarrow> solana_ids \<Rightarrow> string \<Rightarrow> string \<Rightarrow> string option \<Rightarrow> app_state
      \<Rightarrow> (settle_session_response, denial) result \<times> app_state" where
  "route_settle_session X R I rid session_text merkle_root_text st =
     (case settle_submit X R I rid session_text merkle_root_text st of
        Err d \<Rightarrow> (Err d, st)
      | Ok p \<Rightarrow> (Ok (settled_response X rid p), settle_mark X p st))"

lemma settle_submit_Ok:
  assumes "settle_submit X R I rid s mr st = Ok p"
  obtains rpc where "pk_parse X s = Some (ps_session p)"
    "settle_root X rid (ps_session p) mr st = Ok (ps_merkle_root p, ps_evidence_count p)" "as_rpc st = Some rpc"
    "store_get X (ps_session p) (as_store st) = Ok (ps_record p)" "\<not> sr_is_settled (ps_record p)"
    "sr_highest_claim (ps_record p) = Some (ps_highest p)"
    "choose_settler rid (ps_session p) (ps_record p) st = Ok (ps_program p, ps_settler p)"
    "submit_settlement X R I rpc (ps_program p) (ps_settler p) (sr_provider (ps_record p)) (ps_session p)
       (sr_mint (ps_record p)) (sc_claim (ps_highest p)) (sc_signature (ps_highest p)) (sr_agent (ps_record p))
       (ps_merkle_root p) = Ok (ps_outcome p)"
  using assms unfolding settle_submit_def
  by (auto split: option.splits sum.splits prod.splits if_splits)

subsection \<open>Publishing evidence\<close>

record evidence_entry_view =
  vv_sequence_id :: i64
  vv_decision :: string
  vv_cumulative_amount :: string
  vv_nonce :: string
  vv_prev_hash :: string
  vv_entry_hash :: string

definition evidence_entry_view_of :: "evidence_entry \<Rightarrow> evidence_entry_view" where
  "evidence_entry_view_of e = \<lparr>vv_sequence_id = ev_sequence_id e, vv_decision = ev_decision e,
     vv_cumulative_amount = show_u64 (ev_cumulative_amount e), vv_nonce = show_u64 (ev_nonce e),
     vv_prev_hash = hex32 (ev_prev_hash e), vv_entry_hash = hex32 (ev_entry_hash e)\<rparr>"

record session_evidence_response =
  sv_session :: string
  sv_merkle_root :: string
  sv_entry_count :: nat
  sv_chain_valid :: bool
  sv_chain_error :: "chain_error option"
  sv_entries :: "evidence_entry_view list"
  sv_request_id :: string

definition session_evidence ::
    "externals \<Rightarrow> string \<Rightarrow> string \<Rightarrow> app_state \<Rightarrow> (session_evidence_response, denial) result" where
  "session_evidence X rid session_text st =
     (case pk_parse X session_text of
        None \<Rightarrow> Err (denial_new ERR_MALFORMED_REQUEST rid)
      | Some session \<Rightarrow>
      case as_db st of
        None \<Rightarrow> Err (denial_new ERR_EVIDENCE_UNAVAILABLE rid)
      | Some (db, _) \<Rightarrow>
      case load_evidence_chain X session db of
        Err _ \<Rightarrow> Err (denial_new ERR_EVIDENCE_UNAVAILABLE rid)
      | Ok entries \<Rightarrow>
      let chain_error = (case verify_chain X session entries of Err e \<Rightarrow> Some e | Ok _ \<Rightarrow> None) in
      Ok \<lparr>sv_session = pk_show X session,
          sv_merkle_root = hex32 (root (merkle_new X (map ev_entry_hash entries))),
          sv_entry_count = length entries, sv_chain_valid = (chain_error = None),
          sv_chain_error = chain_error, sv_entries = map evidence_entry_view_of entries,
          sv_request_id = rid\<rparr>)"

fun position :: "('a \<Rightarrow> bool) \<Rightarrow> 'a list \<Rightarrow> nat option" where
  \<comment> \<open>\<open>Iterator::position\<close>\<close>
  "position P [] = None"
| "position P (x # xs) = (if P x then Some 0 else map_option Suc (position P xs))"

primrec side_str :: "side \<Rightarrow> string" where
  "side_str Left = ''left''"
| "side_str Right = ''right''"

record evidence_proof_response =
  pp_session :: string
  pp_sequence_id :: i64
  pp_decision :: string
  pp_cumulative_amount :: string
  pp_nonce :: string
  pp_leaf_hash :: string
  pp_merkle_root :: string
  pp_leaf_index :: nat
  pp_total_leaves :: nat
  pp_proof :: "(string \<times> string) list"
  pp_verified_locally :: bool
  pp_request_id :: string

definition evidence_proof ::
    "externals \<Rightarrow> string \<Rightarrow> string \<Rightarrow> i64 \<Rightarrow> app_state \<Rightarrow> (evidence_proof_response, denial) result" where
  "evidence_proof X rid session_text sequence_id st =
     (case pk_parse X session_text of
        None \<Rightarrow> Err (denial_new ERR_MALFORMED_REQUEST rid)
      | Some session \<Rightarrow>
      case as_db st of
        None \<Rightarrow> Err (denial_new ERR_EVIDENCE_UNAVAILABLE rid)
      | Some (db, _) \<Rightarrow>
      case load_evidence_chain X session db of
        Err _ \<Rightarrow> Err (denial_new ERR_EVIDENCE_UNAVAILABLE rid)
      | Ok entries \<Rightarrow>
      case position (\<lambda>e. ev_sequence_id e = sequence_id) entries of
        None \<Rightarrow> Err (denial_new ERR_EVIDENCE_NOT_FOUND rid)
      | Some leaf_index \<Rightarrow>
      let entry = entries ! leaf_index; tree = merkle_new X (map ev_entry_hash entries) in
      case merkle_proof tree leaf_index of
        None \<Rightarrow> Err (denial_new ERR_EVIDENCE_NOT_FOUND rid)
      | Some pr \<Rightarrow>
      if \<not> verify_proof X (ev_entry_hash entry) pr (root tree)
      then Err (denial_new ERR_EVIDENCE_UNAVAILABLE rid)
      else Ok \<lparr>pp_session = pk_show X session, pp_sequence_id = ev_sequence_id entry,
          pp_decision = ev_decision entry,
          pp_cumulative_amount = show_u64 (ev_cumulative_amount entry),
          pp_nonce = show_u64 (ev_nonce entry), pp_leaf_hash = hex32 (ev_entry_hash entry),
          pp_merkle_root = hex32 (root tree), pp_leaf_index = leaf_index,
          pp_total_leaves = leaf_count tree,
          pp_proof = map (\<lambda>n. (hex32 (pn_hash n), side_str (pn_side n))) pr,
          pp_verified_locally = True, pp_request_id = rid\<rparr>)"

end
