(* ===== verification/Buy.thy ===== *)
theory Buy
  imports Gateway
begin

section \<open>The paid path\<close>

text \<open>
  \<open>gateway/src/routes.rs\<close>, \<open>buy\<close> and what it calls: the claim header's
  \<open>base64_decode\<close>, the permission envelope \<open>enforce_agent_policy\<close> with approvals
  and metering, the admission of the claim, and only then the request to the provider.
  \<open>serde_json\<close> is a parameter, the record \<open>serde\<close>. Every operation also returns
  the URLs requested from the provider. \<open>buy\<close> is the composition of
  \<open>buy_prepare\<close>, everything up to and including the envelope, and
  \<open>buy_finish\<close>, which starts with the admission: the store is locked only inside
  the admission, so another request may run between the two.
\<close>

subsection \<open>Base64\<close>

definition BASE64_TABLE :: bytes where
  "BASE64_TABLE = utf8 (''ABCDEFGHIJKLMNOPQRSTUVWXYZ'' @ ''abcdefghijklmnopqrstuvwxyz'' @ ''0123456789'' @ ''+/'')"

definition is_ascii_whitespace :: "u8 \<Rightarrow> bool" where
  "is_ascii_whitespace c \<longleftrightarrow> c \<in> {32, 9, 10, 12, 13}"

fun chunk_bits :: "nat \<Rightarrow> bytes \<Rightarrow> u32 \<Rightarrow> u32 option" where
  \<comment> \<open>the inner loop, from position \<open>i\<close> of the chunk\<close>
  "chunk_bits i [] buf = Some buf"
| "chunk_bits i (c # cs) buf =
     (case position (\<lambda>t. t = c) BASE64_TABLE of
        None \<Rightarrow> None
      | Some v \<Rightarrow> chunk_bits (Suc i) cs (or buf (push_bit (18 - 6 * i) (of_nat v))))"

definition chunk_bytes :: "bytes \<Rightarrow> bytes option" where
  "chunk_bytes chunk = (case chunk_bits 0 chunk 0 of None \<Rightarrow> None | Some buf \<Rightarrow>
     Some ([ucast (drop_bit 16 buf)]
       @ (if length chunk > 2 then [ucast (drop_bit 8 buf)] else [])
       @ (if length chunk > 3 then [ucast buf] else [])))"

function decode_chunks :: "bytes \<Rightarrow> bytes option" where
  \<comment> \<open>the loop over \<open>clean.chunks(4)\<close>\<close>
  "decode_chunks [] = Some []"
| "decode_chunks (c # cs) =
     (case chunk_bytes (take 4 (c # cs)) of None \<Rightarrow> None | Some out \<Rightarrow>
      (case decode_chunks (drop 4 (c # cs)) of None \<Rightarrow> None | Some rest \<Rightarrow> Some (out @ rest)))"
  by pat_completeness auto
termination by (relation "measure length") auto

definition base64_decode :: "string \<Rightarrow> bytes option" where
  "base64_decode s =
     decode_chunks (filter (\<lambda>c. \<not> is_ascii_whitespace c \<and> c \<noteq> 61) (utf8 s))"

subsection \<open>The permission envelope\<close>

record agent_identity =
  ai_agent_id :: "string option"
  ai_workspace_id :: "string option"

definition agent_identity_default :: agent_identity where
  "agent_identity_default = \<lparr>ai_agent_id = None, ai_workspace_id = None\<rparr>"

primrec policy_denial :: "policy_refusal \<Rightarrow> reason_code" where
  "policy_denial RefSuspended = ERR_AGENT_SUSPENDED"
| "policy_denial RefResourceNotAllowed = ERR_POLICY_RESOURCE_NOT_ALLOWED"
| "policy_denial RefPriceCap = ERR_POLICY_PRICE_CAP"
| "policy_denial RefBudget = ERR_POLICY_BUDGET"
| "policy_denial RefCallLimit = ERR_POLICY_CALL_LIMIT"

definition set_control :: "control \<Rightarrow> app_state \<Rightarrow> app_state" where
  "set_control cdb st = (case as_store st of
     Ephemeral _ \<Rightarrow> st | Durable db _ \<Rightarrow> st\<lparr>as_store := Durable db cdb\<rparr>)"

definition meter ::
    "externals \<Rightarrow> agent_identity \<Rightarrow> pubkey option \<Rightarrow> string \<Rightarrow> u64 \<Rightarrow> string \<Rightarrow> app_state \<Rightarrow> app_state" where
  "meter X identity session resource price decision st =
     (case usage_record \<lparr>ue_workspace_id = ai_workspace_id identity,
             ue_provider_id = Some DEFAULT_PROVIDER_ID, ue_agent_id = ai_agent_id identity,
             ue_session_pubkey = map_option (pk_show X) session, ue_resource = resource,
             ue_price = price, ue_decision = decision\<rparr> (map_option snd (as_db st)) of
        None \<Rightarrow> st | Some cdb \<Rightarrow> set_control cdb st)"

definition raise_approval :: "string \<Rightarrow> string \<Rightarrow> string \<Rightarrow> u64 \<Rightarrow> control \<Rightarrow> control" where
  \<comment> \<open>a proposal, unless one is pending; failures are logged only\<close>
  "raise_approval uuid agent_id resource price cdb =
     (case has_pending_approval agent_id resource price cdb of
        Ok False \<Rightarrow> snd (create_approval (''apr_'' @ uuid) agent_id None resource price 1 cdb)
      | _ \<Rightarrow> cdb)"

definition enforce_agent_policy ::
    "externals \<Rightarrow> string \<Rightarrow> string \<Rightarrow> pubkey \<Rightarrow> pubkey \<Rightarrow> string \<Rightarrow> u64 \<Rightarrow> app_state
      \<Rightarrow> (agent_identity, denial) result \<times> app_state" where
  "enforce_agent_policy X rid uuid agent session resource price st =
     (case as_db st of
        None \<Rightarrow>
          if as_require_agent_policy st
          then (Err (denial_new ERR_CONTROL_PLANE_UNAVAILABLE rid), st)
          else (Ok agent_identity_default, st)
      | Some (db, cdb) \<Rightarrow>
      case get_agent_by_pubkey (pk_show X agent) cdb of
        Err _ \<Rightarrow> (Err (denial_new ERR_CONTROL_PLANE_UNAVAILABLE rid), st)
      | Ok None \<Rightarrow>
          if as_require_agent_policy st
          then (Err (denial_new ERR_AGENT_POLICY_REQUIRED rid), st)
          else (Ok agent_identity_default, st)
      | Ok (Some rec) \<Rightarrow>
      let identity = \<lparr>ai_agent_id = Some (ar_agent_id rec), ai_workspace_id = ar_workspace_id rec\<rparr> in
      if ar_status rec \<noteq> Active
      then (Err (denial_new ERR_AGENT_SUSPENDED rid),
            meter X identity (Some session) resource price (reason_as_str ERR_AGENT_SUSPENDED) st)
      else case ar_policy rec of
        None \<Rightarrow>
          if as_require_agent_policy st
          then (Err (denial_new ERR_AGENT_POLICY_REQUIRED rid), st)
          else (Ok identity, st)
      | Some policy \<Rightarrow>
      case agent_spend (pk_show X agent) db of
        Err _ \<Rightarrow> (Err (denial_new ERR_CONTROL_PLANE_UNAVAILABLE rid), st)
      | Ok spend \<Rightarrow>
      case evaluate (ar_status rec) (ar_mode rec) policy resource price spend of
        Allow \<Rightarrow> (Ok identity, st)
      | Refuse r \<Rightarrow>
          (Err (denial_new (policy_denial r) rid),
           meter X identity (Some session) resource price (reason_as_str (policy_denial r)) st)
      | NeedsApproval \<Rightarrow>
          (case consume_approval (ar_agent_id rec) resource price cdb of
             (Ok True, cdb') \<Rightarrow> (Ok identity, set_control cdb' st)
           | (Err _, _) \<Rightarrow> (Err (denial_new ERR_CONTROL_PLANE_UNAVAILABLE rid), st)
           | (Ok False, _) \<Rightarrow>
               (Err (denial_new ERR_APPROVAL_REQUIRED rid),
                meter X identity (Some session) resource price (reason_as_str ERR_APPROVAL_REQUIRED)
                  (set_control (raise_approval uuid (ar_agent_id rec) resource price cdb) st))))"

subsection \<open>Buying\<close>

record serde =
  serde_claim :: "bytes \<Rightarrow> claim_wire option"
  serde_is_json :: "string \<Rightarrow> bool"

definition CLAIM_HEADER :: string where
  "CLAIM_HEADER = ''x-agentpay-claim''"

primrec upstream_code :: "upstream_error \<Rightarrow> reason_code" where
  "upstream_code NotConfigured = ERR_UPSTREAM_NOT_CONFIGURED"
| "upstream_code (UnknownResource r) = ERR_UNKNOWN_RESOURCE"
| "upstream_code (BadPrice r v) = ERR_UPSTREAM_UNAVAILABLE"
| "upstream_code (BadCatalogue e) = ERR_UPSTREAM_UNAVAILABLE"
| "upstream_code (Unreachable e) = ERR_UPSTREAM_UNAVAILABLE"

definition upstream_denial :: "upstream_error \<Rightarrow> string \<Rightarrow> denial" where
  "upstream_denial e rid = denial_new (upstream_code e) rid"

datatype buy_data = DataJson string | DataString string
  \<comment> \<open>the value a JSON body denotes, or the body itself\<close>

record buy_response =
  br_resource :: string
  br_price :: string
  br_cumulative_amount :: string
  br_delta :: string
  br_nonce :: string
  br_data :: buy_data
  br_upstream_status :: nat
  br_served_by :: "string option"
  br_request_id :: string

record buy_ticket =
  bt_claim :: claim
  bt_signature :: sig64
  bt_resource :: string
  bt_price :: u64
  bt_identity :: agent_identity

datatype buy_step = Quote payment_required | Paying buy_ticket

datatype buy_reply = Reply402 payment_required | Reply200 buy_response

definition quote_402 :: "app_state \<Rightarrow> string \<Rightarrow> u64 \<Rightarrow> payment_required" where
  "quote_402 st resource_path price = \<lparr>pr_scheme = ''agentpay-deferred-v1'',
     pr_network = as_network st, pr_resource = resource_path, pr_description = [],
     pr_price = show_u64 price, pr_next_cumulative = None, pr_next_nonce = None,
     pr_session_hint =
       ''Open a session with POST /v1/session/open, then retry with the claim header.'',
     pr_claim_header = CLAIM_HEADER, pr_signing = signing_hint_new\<rparr>"

definition decode_header :: "externals \<Rightarrow> serde \<Rightarrow> string \<Rightarrow> (claim \<times> sig64) option" where
  "decode_header X J raw =
     (case base64_decode raw of None \<Rightarrow> None | Some raw_bytes \<Rightarrow>
      case serde_claim J raw_bytes of None \<Rightarrow> None | Some wire \<Rightarrow>
      case decode X wire of Err _ \<Rightarrow> None | Ok cs \<Rightarrow> Some cs)"

definition buy_check_claim ::
    "externals \<Rightarrow> serde \<Rightarrow> i64 \<Rightarrow> string \<Rightarrow> string \<Rightarrow> u64 \<Rightarrow> app_state
      \<Rightarrow> (claim \<times> sig64 \<times> session_record, denial) result" where
  \<comment> \<open>decode, expiry, session, signature and exact price\<close>
  "buy_check_claim X J now rid raw_claim price st =
     (case decode_header X J raw_claim of
        None \<Rightarrow> Err (denial_new ERR_MALFORMED_CLAIM rid)
      | Some (c, sig) \<Rightarrow>
      if is_expired c now then Err (denial_new ERR_CLAIM_EXPIRED rid)
      else case store_get X (cl_session c) (as_store st) of
        Err e \<Rightarrow> Err (store_denial e rid)
      | Ok rec \<Rightarrow>
      if verify_claim_signature X (sr_agent rec) c sig \<noteq> Valid
      then Err (denial_new ERR_INVALID_SIGNATURE rid)
      else case checked_add_u64 (sr_cumulative_accepted rec) price of
        None \<Rightarrow> Err (denial_new ERR_CLAIM_EXCEEDS_DEPOSIT rid)
      | Some expected \<Rightarrow>
      if cl_cumulative_amount c \<noteq> expected then Err (denial_new ERR_PRICE_MISMATCH rid)
      else Ok (c, sig, rec))"

definition buy_prepare ::
    "externals \<Rightarrow> serde \<Rightarrow> web \<Rightarrow> i64 \<Rightarrow> nat \<Rightarrow> string \<Rightarrow> string \<Rightarrow> string \<Rightarrow> string option \<Rightarrow> app_state
      \<Rightarrow> (buy_step, denial) result \<times> app_state \<times> string list" where
  "buy_prepare X J W now instant rid uuid resource header st =
     (case as_upstream st of
        None \<Rightarrow> (Err (denial_new ERR_UPSTREAM_NOT_CONFIGURED rid), st, [])
      | Some u \<Rightarrow>
      let resource_path = normalise_resource resource in
      case price_of W instant resource_path u of
        (Err e, u', urls) \<Rightarrow> (Err (upstream_denial e rid), st\<lparr>as_upstream := Some u'\<rparr>, urls)
      | (Ok price, u', urls) \<Rightarrow>
      let st\<^sub>1 = st\<lparr>as_upstream := Some u'\<rparr> in
      case header of
        None \<Rightarrow> (Ok (Quote (quote_402 st resource_path price)), st\<^sub>1, urls)
      | Some raw_claim \<Rightarrow>
      case buy_check_claim X J now rid raw_claim price st\<^sub>1 of
        Err d \<Rightarrow> (Err d, st\<^sub>1, urls)
      | Ok (c, sig, rec) \<Rightarrow>
      case enforce_agent_policy X rid uuid (sr_agent rec) (cl_session c) resource_path price st\<^sub>1 of
        (Err d, st\<^sub>2) \<Rightarrow> (Err d, st\<^sub>2, urls)
      | (Ok identity, st\<^sub>2) \<Rightarrow>
          (Ok (Paying \<lparr>bt_claim = c, bt_signature = sig, bt_resource = resource_path,
             bt_price = price, bt_identity = identity\<rparr>), st\<^sub>2, urls))"

definition buy_finish ::
    "externals \<Rightarrow> serde \<Rightarrow> web \<Rightarrow> i64 \<Rightarrow> string \<Rightarrow> string \<Rightarrow> buy_ticket \<Rightarrow> app_state
      \<Rightarrow> (buy_reply, denial) result \<times> app_state \<times> string list" where
  "buy_finish X J W now rid query t st =
     (let c = bt_claim t; session = Some (cl_session c) in
      case store_admit_claim X c (bt_signature t) now (as_store st) of
        (Err e, b) \<Rightarrow> (Err (store_denial e rid), st\<lparr>as_store := b\<rparr>, [])
      | (Ok (Err rejection), b) \<Rightarrow>
          (Err (denial_new (rejection_code rejection) rid),
           meter X (bt_identity t) session (bt_resource t) (bt_price t)
             (reason_as_str (rejection_code rejection)) (st\<lparr>as_store := b\<rparr>), [])
      | (Ok (Ok accepted), b) \<Rightarrow>
      let st' = meter X (bt_identity t) session (bt_resource t) (bt_price t) ''ALLOWED''
            (st\<lparr>as_store := b\<rparr>) in
      case as_upstream st of
        None \<Rightarrow> (Err (denial_new ERR_UPSTREAM_NOT_CONFIGURED rid), st', [])
      | Some u \<Rightarrow>
      case forward W (bt_resource t) query u of
        (Err e, urls) \<Rightarrow> (Err (upstream_denial e rid), st', urls)
      | (Ok res, urls) \<Rightarrow>
          (Ok (Reply200 \<lparr>br_resource = bt_resource t, br_price = show_u64 (bt_price t),
             br_cumulative_amount = show_u64 (ca_cumulative_amount accepted),
             br_delta = show_u64 (ca_delta accepted), br_nonce = show_u64 (ca_nonce accepted),
             br_data = (if serde_is_json J (ur_body res) then DataJson (ur_body res)
                        else DataString (ur_body res)),
             br_upstream_status = ur_status res, br_served_by = ur_served_by res,
             br_request_id = rid\<rparr>), st', urls))"

definition buy ::
    "externals \<Rightarrow> serde \<Rightarrow> web \<Rightarrow> i64 \<Rightarrow> nat \<Rightarrow> string \<Rightarrow> string \<Rightarrow> string \<Rightarrow> string \<Rightarrow> string option \<Rightarrow> app_state
      \<Rightarrow> (buy_reply, denial) result \<times> app_state \<times> string list" where
  "buy X J W now instant rid uuid resource query header st =
     (case buy_prepare X J W now instant rid uuid resource header st of
        (Err d, st', urls) \<Rightarrow> (Err d, st', urls)
      | (Ok (Quote body), st', urls) \<Rightarrow> (Ok (Reply402 body), st', urls)
      | (Ok (Paying t), st', urls) \<Rightarrow>
          (case buy_finish X J W now rid query t st' of
             (res, st'', urls') \<Rightarrow> (res, st'', urls @ urls')))"

end
