(* ===== verification/Gateway_Safety.thy ===== *)
theory Gateway_Safety
  imports Buy
begin

section \<open>What the handlers do to the sessions\<close>

text \<open>
  How each handler changes the session records, for either backend: the accounting of
  accepted claims, the immutability of a session's terms and the signature on the claim
  kept for settlement. The handlers are then the steps of a state machine in which
  purchases interleave between their two halves and everything else in the environment
  may change, and the accounting is an invariant of it.
\<close>

abbreviation gw_view :: "externals \<Rightarrow> app_state \<Rightarrow> pubkey \<rightharpoonup> session_record" where
  "gw_view X st \<equiv> backend_view X (as_store st)"

abbreviation gw_inv :: "externals \<Rightarrow> app_state \<Rightarrow> bool" where
  "gw_inv X st \<equiv> backend_inv X (as_store st)"

abbreviation signed_by :: "externals \<Rightarrow> pubkey \<Rightarrow> signed_claim \<Rightarrow> bool" where
  "signed_by X agent sc \<equiv> verify_claim_signature X agent (sc_claim sc) (sc_signature sc) = Valid"

definition keeps_signed :: "externals \<Rightarrow> (pubkey \<rightharpoonup> session_record) \<Rightarrow> (pubkey \<rightharpoonup> session_record) \<Rightarrow> bool" where
  "keeps_signed X v v' \<longleftrightarrow> (\<forall>k r' sc. v' k = Some r' \<longrightarrow> sr_highest_claim r' = Some sc \<longrightarrow>
     signed_by X (sr_agent r') sc
     \<or> (\<exists>r. v k = Some r \<and> sr_agent r = sr_agent r' \<and> sr_highest_claim r = Some sc))"

definition evolves ::
    "externals \<Rightarrow> (pubkey \<rightharpoonup> session_record) \<Rightarrow> (pubkey \<rightharpoonup> session_record) \<Rightarrow> (claim \<times> claim_accepted) list \<Rightarrow> bool" where
  "evolves X v v' log \<longleftrightarrow> (\<forall>k. progress k (v k) (v' k) (log_of k log)) \<and> keeps_signed X v v'"

lemma evolves_refl: "evolves X v v []"
  by (auto simp: evolves_def keeps_signed_def log_of_def progress_refl)

lemma keeps_signed_upd:
  assumes "v k = Some r" and "sr_agent r' = sr_agent r"
    and "\<And>sc. sr_highest_claim r' = Some sc \<Longrightarrow> signed_by X (sr_agent r) sc \<or> sr_highest_claim r = Some sc"
  shows "keeps_signed X v (v(k \<mapsto> r'))"
  using assms by (auto simp: keeps_signed_def)

definition admitted :: "externals \<Rightarrow> claim \<Rightarrow> sig64 \<Rightarrow> i64 \<Rightarrow> app_state \<Rightarrow> (claim \<times> claim_accepted) list" where
  "admitted X c sig now st =
     (case fst (store_admit_claim X c sig now (as_store st)) of Ok (Ok a) \<Rightarrow> [(c, a)] | _ \<Rightarrow> [])"

lemma evolves_admit:
  assumes inv: "gw_inv X st" and a: "store_admit_claim X c sig now (as_store st) = (ares, b)"
    and r: "gw_view X st (cl_session c) = Some r" and sig: "verify_claim_signature X (sr_agent r) c sig = Valid"
  shows "backend_inv X b \<and> evolves X (gw_view X st) (backend_view X b) (admitted X c sig now st)"
proof -
  have 1: "backend_inv X b" using gws.admit_inv [OF inv, of c sig now] a by simp
  have 2: "progress k (gw_view X st k) (backend_view X b k) (log_of k (admitted X c sig now st))" for k
    using gws.admit_progress [OF inv a] a by (simp add: admitted_def)
  have "keeps_signed X (gw_view X st) (backend_view X b)"
  proof (cases "\<exists>acc. ares = Ok (Ok acc)")
    case True
    then have v: "backend_view X b = (gw_view X st)(cl_session c \<mapsto> advance r c sig)"
      using gws.admit_view [OF inv a] r by auto
    show ?thesis unfolding v
      by (rule keeps_signed_upd [of "gw_view X st" "cl_session c" r]) (simp_all add: r advance_def, use sig in auto)
  next
    case False
    then have "backend_view X b = gw_view X st"
      using gws.admit_view [OF inv a] by (auto split: sum.splits)
    then show ?thesis using evolves_refl [of X "gw_view X st"] by (simp add: evolves_def)
  qed
  with 1 2 show ?thesis by (simp add: evolves_def)
qed

lemma evolves_open:
  assumes inv: "gw_inv X st" and fresh: "fresh_record r" and o: "store_open X r (as_store st) = (res, b)"
  shows "backend_inv X b \<and> evolves X (gw_view X st) (backend_view X b) []"
proof -
  have 1: "backend_inv X b" using gws.opn_inv [OF inv fresh] o by (metis snd_conv)
  have 2: "progress k (gw_view X st k) (backend_view X b k) []" for k
    using gws.opn_progress [OF inv fresh] o by (metis snd_conv)
  have "keeps_signed X (gw_view X st) (backend_view X b)"
    using gws.opn_view [OF inv fresh o] fresh
    by (auto simp: keeps_signed_def fresh_record_def split: if_splits)
  with 1 2 show ?thesis by (simp add: evolves_def log_of_def)
qed

lemma evolves_settled:
  assumes inv: "gw_inv X st"
  shows "backend_inv X (snd (store_mark_settled X k (as_store st)))
     \<and> evolves X (gw_view X st) (backend_view X (snd (store_mark_settled X k (as_store st)))) []"
proof -
  let ?b = "snd (store_mark_settled X k (as_store st))"
  have "keeps_signed X (gw_view X st) (backend_view X ?b)"
    using gws.settled_view [OF inv prod.collapse [symmetric], of k] by (auto simp: keeps_signed_def split: if_splits)
  then show ?thesis
    using gws.settled_inv [OF inv, of k] gws.settled_progress [OF inv] by (simp add: evolves_def log_of_def)
qed

lemma evolves_verified:
  assumes inv: "gw_inv X st"
  shows "backend_inv X (snd (store_mark_chain_verified X k (as_store st)))
     \<and> evolves X (gw_view X st) (backend_view X (snd (store_mark_chain_verified X k (as_store st)))) []"
proof -
  let ?b = "snd (store_mark_chain_verified X k (as_store st))"
  have "keeps_signed X (gw_view X st) (backend_view X ?b)"
    using gws.verified_view [OF inv prod.collapse [symmetric], of k] by (auto simp: keeps_signed_def split: if_splits)
  then show ?thesis
    using gws.verified_inv [OF inv, of k] gws.verified_progress [OF inv] by (simp add: evolves_def log_of_def)
qed

subsection \<open>The handlers\<close>

lemma route_open_session_cases:
  assumes "route_open_session X rid req st = (res, st')"
  shows "st' = st \<or> (\<exists>r b ores. fresh_record r \<and> store_open X r (as_store st) = (ores, b) \<and> st' = st\<lparr>as_store := b\<rparr>)"
proof (cases "st' = st")
  case False
  with assms show ?thesis
    unfolding route_open_session_def Let_def
    by (auto split: option.splits sum.splits prod.splits intro!: exI simp: fresh_record_def session_record_new_def)
qed simp

lemma route_open_session_evolves:
  assumes inv: "gw_inv X st" and h: "route_open_session X rid req st = (res, st')"
  shows "gw_inv X st' \<and> evolves X (gw_view X st) (gw_view X st') []"
  using route_open_session_cases [OF h] inv evolves_refl evolves_open [OF inv] by auto

lemma verify_claim_cases:
  assumes inv: "gw_inv X st" and h: "verify_claim X now rid w st = (res, st')"
  obtains (stopped) d where "res = Err d" "st' = st"
  | (ran) c sig r ares b where "decode X w = Ok (c, sig)" "\<not> is_expired c now"
      "gw_view X st (cl_session c) = Some r" "verify_claim_signature X (sr_agent r) c sig = Valid"
      "store_admit_claim X c sig now (as_store st) = (ares, b)" "st' = st\<lparr>as_store := b\<rparr>"
      "(\<exists>resp. res = Ok resp) \<longleftrightarrow> (\<exists>a. ares = Ok (Ok a))"
proof (cases "\<exists>d. res = Err d \<and> st' = st")
  case True
  then show ?thesis using stopped by blast
next
  case False
  then show ?thesis
    using h gws.get_view [OF inv]
    unfolding verify_claim_def
    by (auto split: sum.splits prod.splits if_splits intro!: ran)
qed

definition verify_log ::
    "externals \<Rightarrow> i64 \<Rightarrow> claim_wire \<Rightarrow> ('a, 'b) result \<Rightarrow> app_state \<Rightarrow> (claim \<times> claim_accepted) list" where
  \<comment> \<open>the claim a call of \<open>verify_claim\<close> accepted\<close>
  "verify_log X now w res st =
     (case res of Err _ \<Rightarrow> [] | Ok _ \<Rightarrow>
      case decode X w of Err _ \<Rightarrow> [] | Ok (c, sig) \<Rightarrow> admitted X c sig now st)"

lemma verify_claim_evolves:
  assumes inv: "gw_inv X st" and h: "verify_claim X now rid w st = (res, st')"
  shows "gw_inv X st' \<and> evolves X (gw_view X st) (gw_view X st')
     (verify_log X now w res st)"
  using inv h
proof (cases rule: verify_claim_cases)
  case (stopped d)
  then show ?thesis using inv evolves_refl by (simp add: verify_log_def)
next
  case (ran c sig r ares b)
  have "admitted X c sig now st = []" if "\<nexists>resp. res = Ok resp"
    using that ran(5,7) by (auto simp: admitted_def split: sum.splits)
  then show ?thesis
    using evolves_admit [OF inv ran(5,3,4)] ran(1,6) by (cases res) (auto simp: verify_log_def)
qed

lemma reconcile_session_cases:
  assumes "reconcile_session X rid s st = (res, st')"
  obtains "st' = st" | k where "st' = st\<lparr>as_store := snd (store_mark_chain_verified X k (as_store st))\<rparr>"
  using assms unfolding reconcile_session_def
  by (auto split: option.splits sum.splits prod.splits) (metis snd_conv)+

lemma reconcile_session_evolves:
  assumes inv: "gw_inv X st" and h: "reconcile_session X rid s st = (res, st')"
  shows "gw_inv X st' \<and> evolves X (gw_view X st) (gw_view X st') []"
  by (rule reconcile_session_cases [OF h]) (use inv evolves_refl evolves_verified [OF inv] in auto)

lemma route_settle_session_evolves:
  assumes inv: "gw_inv X st" and h: "route_settle_session X R I rid s mr st = (res, st')"
  shows "gw_inv X st' \<and> evolves X (gw_view X st) (gw_view X st') []"
proof -
  consider "st' = st" | k where "st' = st\<lparr>as_store := snd (store_mark_settled X k (as_store st))\<rparr>"
    using h unfolding route_settle_session_def settle_mark_def by (auto split: sum.splits)
  then show ?thesis
    by cases (use inv evolves_refl evolves_settled [OF inv] in auto)
qed

subsection \<open>The control plane's tables do not touch the sessions\<close>

definition same_sessions :: "app_state \<Rightarrow> app_state \<Rightarrow> bool" where
  "same_sessions st st' \<longleftrightarrow> (case as_store st of
     Ephemeral m \<Rightarrow> as_store st' = Ephemeral m | Durable db _ \<Rightarrow> (\<exists>cdb. as_store st' = Durable db cdb))"

lemma same_sessions_refl [simp]: "same_sessions st st"
  by (simp add: same_sessions_def split: backend.splits)

lemma same_sessions_trans: "same_sessions st st' \<Longrightarrow> same_sessions st' st'' \<Longrightarrow> same_sessions st st''"
  by (auto simp: same_sessions_def split: backend.splits)

lemma same_sessions_view:
  "same_sessions st st' \<Longrightarrow> gw_view X st' = gw_view X st \<and> gw_inv X st' = gw_inv X st"
  by (auto simp: same_sessions_def backend_view_def backend_inv_def split: backend.splits)

lemma set_control_same [simp]: "same_sessions st (set_control cdb st)"
  by (auto simp: same_sessions_def set_control_def split: backend.splits)

lemma meter_same [simp]: "same_sessions st (meter X i s r p d st)"
  by (auto simp: meter_def split: option.splits)

lemma upstream_same [simp]: "same_sessions st (st\<lparr>as_upstream := u\<rparr>)"
  by (auto simp: same_sessions_def split: backend.splits)

lemma enforce_same: "same_sessions st (snd (enforce_agent_policy X rid uuid agent session resource price st))"
  unfolding enforce_agent_policy_def Let_def
  by (auto split: option.splits sum.splits prod.splits policy_decision.splits bool.splits
      intro: same_sessions_trans [OF set_control_same meter_same])

lemma enforce_upstream [simp]:
  "as_upstream (snd (enforce_agent_policy X rid uuid agent session resource price st)) = as_upstream st"
  unfolding enforce_agent_policy_def Let_def
  by (auto simp: meter_def set_control_def
      split: option.splits sum.splits prod.splits policy_decision.splits bool.splits backend.splits)

subsection \<open>The two halves of a purchase\<close>

lemma buy_check_claim_Ok:
  assumes "gw_inv X st" and "buy_check_claim X J now rid raw price st = Ok (c, sig, r)"
  shows "decode_header X J raw = Some (c, sig)" and "\<not> is_expired c now"
    and "gw_view X st (cl_session c) = Some r" and "verify_claim_signature X (sr_agent r) c sig = Valid"
    and "unat (cl_cumulative_amount c) = unat (sr_cumulative_accepted r) + unat price"
  using assms(2) gws.get_view [OF assms(1)] checked_add_u64_unat
  unfolding buy_check_claim_def
  by (auto split: option.splits sum.splits if_splits)

lemma buy_prepare_Paying:
  assumes "buy_prepare X J W now instant rid uuid resource header st = (Ok (Paying t), st', urls)"
  obtains u u' raw r where "as_upstream st = Some u" "header = Some raw"
    "bt_resource t = normalise_resource resource"
    "price_of W instant (bt_resource t) u = (Ok (bt_price t), u', urls)"
    "buy_check_claim X J now rid raw (bt_price t) (st\<lparr>as_upstream := Some u'\<rparr>)
       = Ok (bt_claim t, bt_signature t, r)"
    "enforce_agent_policy X rid uuid (sr_agent r) (cl_session (bt_claim t)) (bt_resource t) (bt_price t)
       (st\<lparr>as_upstream := Some u'\<rparr>) = (Ok (bt_identity t), st')"
  using assms unfolding buy_prepare_def Let_def
  by (auto split: option.splits sum.splits prod.splits)

lemma buy_prepare_same:
  "same_sessions st (fst (snd (buy_prepare X J W now instant rid uuid resource header st)))"
proof -
  have "same_sessions st st\<^sub>2"
    if "enforce_agent_policy X rid uuid a k p q (st\<lparr>as_upstream := u\<rparr>) = (res, st\<^sub>2)" for a k p q u res st\<^sub>2
    using same_sessions_trans [OF upstream_same enforce_same] that by (metis snd_conv)
  then show ?thesis
    unfolding buy_prepare_def Let_def
    by (auto split: option.splits sum.splits prod.splits)
qed

lemma price_of_result: "price_of W instant resource u = (res, u', urls) \<Longrightarrow>
    set urls \<subseteq> {catalogue_url u} \<and> up_base_url u' = up_base_url u"
  using price_of_urls [of W instant resource u] price_of_keeps_url [of W instant resource u]
  by (metis fst_conv snd_conv)

lemma buy_prepare_urls:
  "buy_prepare X J W now instant rid uuid resource header st = (res, st', urls) \<Longrightarrow>
     set urls \<subseteq> {url. \<exists>u. as_upstream st = Some u \<and> url = catalogue_url u}"
  unfolding buy_prepare_def Let_def
  by (auto split: option.splits sum.splits prod.splits dest!: price_of_result)

lemma buy_finish_urls:
  assumes "buy_finish X J W now rid query t st = (res, st', urls)"
  shows "urls = [] \<or> (\<exists>a u. admitted X (bt_claim t) (bt_signature t) now st = [(bt_claim t, a)]
      \<and> as_upstream st = Some u \<and> urls = [forward_url u (bt_resource t) query])"
  using assms unfolding buy_finish_def Let_def
  by (auto simp: admitted_def forward_def Let_def split: option.splits sum.splits prod.splits)

lemma buy_finish_Ok:
  assumes "buy_finish X J W now rid query t st = (Ok reply, st', urls)"
  obtains a br where "admitted X (bt_claim t) (bt_signature t) now st = [(bt_claim t, a)]"
    "reply = Reply200 br" "br_delta br = show_u64 (ca_delta a)" "br_price br = show_u64 (bt_price t)"
  using assms unfolding buy_finish_def Let_def
  by (auto simp: admitted_def split: option.splits sum.splits prod.splits)

lemma buy_finish_sessions:
  assumes "buy_finish X J W now rid query t st = (res, st', urls)"
  shows "same_sessions (st\<lparr>as_store := snd (store_admit_claim X (bt_claim t) (bt_signature t) now (as_store st))\<rparr>) st'"
  using assms unfolding buy_finish_def Let_def
  by (auto split: option.splits sum.splits prod.splits)

lemma buy_finish_evolves:
  assumes inv: "gw_inv X st" and h: "buy_finish X J W now rid query t st = (res, st', urls)"
    and r: "gw_view X st (cl_session (bt_claim t)) = Some r"
      "verify_claim_signature X (sr_agent r) (bt_claim t) (bt_signature t) = Valid"
  shows "gw_inv X st' \<and> evolves X (gw_view X st) (gw_view X st')
     (admitted X (bt_claim t) (bt_signature t) now st)"
  using evolves_admit [OF inv prod.collapse [symmetric] r] same_sessions_view [OF buy_finish_sessions [OF h]]
  by simp

subsection \<open>The gateway as a state machine\<close>

text \<open>
  A configuration is the shared state, the purchases that passed \<open>buy_prepare\<close> and
  have not yet been admitted, and the claims accepted so far. Requests interleave freely;
  \<open>env\<close> stands for everything else that happens to the gateway: chain reads change,
  the database comes and goes, the control plane edits agents, approvals and operators,
  while the session tables stay as they are.
\<close>

record gw =
  gs_state :: app_state
  gs_tickets :: "buy_ticket list"
  gs_log :: "(claim \<times> claim_accepted) list"

definition new_tickets :: "(buy_step, 'e) result \<Rightarrow> buy_ticket list" where
  "new_tickets res = (case res of Ok (Paying t) \<Rightarrow> [t] | _ \<Rightarrow> [])"

inductive gw_step :: "externals \<Rightarrow> runtime \<Rightarrow> solana_ids \<Rightarrow> serde \<Rightarrow> web \<Rightarrow> gw \<Rightarrow> gw \<Rightarrow> bool"
  for X R I J W where
  gw_open: "route_open_session X rid req (gs_state g) = (res, st') \<Longrightarrow>
     gw_step X R I J W g (g\<lparr>gs_state := st'\<rparr>)"
| gw_verify: "verify_claim X now rid w (gs_state g) = (res, st') \<Longrightarrow>
     gw_step X R I J W g (g\<lparr>gs_state := st',
       gs_log := gs_log g @ verify_log X now w res (gs_state g)\<rparr>)"
| gw_reconcile: "reconcile_session X rid s (gs_state g) = (res, st') \<Longrightarrow>
     gw_step X R I J W g (g\<lparr>gs_state := st'\<rparr>)"
| gw_settle: "route_settle_session X R I rid s mr (gs_state g) = (res, st') \<Longrightarrow>
     gw_step X R I J W g (g\<lparr>gs_state := st'\<rparr>)"
| gw_mark: "gw_step X R I J W g (g\<lparr>gs_state := settle_mark X p (gs_state g)\<rparr>)"
     \<comment> \<open>the last write of a settlement, whatever was served since its transaction was submitted\<close>
| gw_prepare: "buy_prepare X J W now instant rid uuid resource header (gs_state g) = (res, st', urls) \<Longrightarrow>
     gw_step X R I J W g (g\<lparr>gs_state := st',
       gs_tickets := new_tickets res @ gs_tickets g\<rparr>)"
| gw_finish: "t \<in> set (gs_tickets g) \<Longrightarrow>
     buy_finish X J W now rid query t (gs_state g) = (res, st', urls) \<Longrightarrow>
     gw_step X R I J W g (g\<lparr>gs_state := st', gs_tickets := remove1 t (gs_tickets g),
       gs_log := gs_log g @ admitted X (bt_claim t) (bt_signature t) now (gs_state g)\<rparr>)"
| gw_env: "gw_inv X st' \<Longrightarrow> gw_view X st' = gw_view X (gs_state g) \<Longrightarrow>
     gw_step X R I J W g (g\<lparr>gs_state := st'\<rparr>)"

inductive_cases gw_stepE: "gw_step X R I J W g g'"

definition ticket_ok :: "externals \<Rightarrow> (pubkey \<rightharpoonup> session_record) \<Rightarrow> buy_ticket \<Rightarrow> bool" where
  "ticket_ok X v t \<longleftrightarrow> (\<exists>r. v (cl_session (bt_claim t)) = Some r
     \<and> verify_claim_signature X (sr_agent r) (bt_claim t) (bt_signature t) = Valid)"

definition record_signed :: "externals \<Rightarrow> session_record \<Rightarrow> bool" where
  "record_signed X r \<longleftrightarrow> (\<forall>sc. sr_highest_claim r = Some sc \<longrightarrow> signed_by X (sr_agent r) sc)"

definition gw_ok :: "externals \<Rightarrow> gw \<Rightarrow> bool" where
  "gw_ok X g \<longleftrightarrow> gw_inv X (gs_state g)
     \<and> (\<forall>k r. gw_view X (gs_state g) k = Some r \<longrightarrow> record_ok k r \<and> record_signed X r)
     \<and> (\<forall>t \<in> set (gs_tickets g). ticket_ok X (gw_view X (gs_state g)) t)
     \<and> (\<forall>k. progress k None (gw_view X (gs_state g) k) (log_of k (gs_log g)))"

lemma log_of_append [simp]: "log_of k (a @ b) = log_of k a @ log_of k b"
  by (simp add: log_of_def)

lemma progress_NoneD:
  "progress k None (Some r) log \<Longrightarrow> record_ok k r
     \<and> ladder 0 None log (sr_cumulative_accepted r) (sr_last_nonce r)"
  by (simp add: progress_def mark_def mark_nonce_def)

lemma progress_terms:
  "progress k (Some r) v log \<Longrightarrow> record_ok k r \<Longrightarrow> \<exists>r'. v = Some r' \<and> record_terms r' = record_terms r"
  by (auto simp: progress_def)

lemma gw_ok_evolves:
  assumes ok: "gw_ok X g" and inv: "gw_inv X (gs_state g')"
    and ev: "evolves X (gw_view X (gs_state g)) (gw_view X (gs_state g')) log"
    and ts: "\<forall>t \<in> set (gs_tickets g'). t \<in> set (gs_tickets g) \<or> ticket_ok X (gw_view X (gs_state g')) t"
    and log: "gs_log g' = gs_log g @ log"
  shows "gw_ok X g'"
proof -
  let ?v = "gw_view X (gs_state g)" and ?v' = "gw_view X (gs_state g')"
  have pr: "progress k (?v k) (?v' k) (log_of k log)" for k using ev by (simp add: evolves_def)
  have pr': "progress k None (?v' k) (log_of k (gs_log g @ log))" for k
    using progress_trans [OF _ pr] ok by (simp add: gw_ok_def)
  have signed: "record_signed X r'" if "?v' k = Some r'" for k r'
    using ev ok that unfolding evolves_def keeps_signed_def gw_ok_def record_signed_def by metis
  have tick: "ticket_ok X ?v' t" if t: "t \<in> set (gs_tickets g)" for t
  proof -
    obtain r where r: "?v (cl_session (bt_claim t)) = Some r"
      "verify_claim_signature X (sr_agent r) (bt_claim t) (bt_signature t) = Valid"
      using ok t by (auto simp: gw_ok_def ticket_ok_def)
    then have "record_ok (cl_session (bt_claim t)) r" using ok by (simp add: gw_ok_def)
    then show ?thesis
      using progress_terms [OF pr [of "cl_session (bt_claim t)", unfolded r(1)]] r(2)
      by (auto simp: ticket_ok_def record_terms_def)
  qed
  have ok': "record_ok k r'" if "?v' k = Some r'" for k r'
    using progress_NoneD [OF pr' [of k, unfolded that]] by blast
  show ?thesis
    unfolding gw_ok_def log
    by (intro conjI allI impI ballI) (use inv ok' signed pr' tick ts in blast)+
qed

lemma gw_step_evolves:
  assumes "gw_step X R I J W g g'" and ok: "gw_ok X g"
  shows "\<exists>log. gw_inv X (gs_state g') \<and> evolves X (gw_view X (gs_state g)) (gw_view X (gs_state g')) log
    \<and> gs_log g' = gs_log g @ log
    \<and> (\<forall>t \<in> set (gs_tickets g'). t \<in> set (gs_tickets g) \<or> ticket_ok X (gw_view X (gs_state g')) t)"
proof -
  have inv: "gw_inv X (gs_state g)" using ok by (simp add: gw_ok_def)
  show ?thesis
    using assms(1)
  proof cases
    case (gw_open rid req res st')
    then show ?thesis using route_open_session_evolves [OF inv gw_open(2)] by (intro exI [of _ "[]"]) simp
  next
    case (gw_verify now rid w res st')
    then show ?thesis using verify_claim_evolves [OF inv gw_verify(2)] by simp
  next
    case (gw_reconcile rid s res st')
    then show ?thesis using reconcile_session_evolves [OF inv gw_reconcile(2)] by (intro exI [of _ "[]"]) simp
  next
    case (gw_settle rid s mr res st')
    then show ?thesis using route_settle_session_evolves [OF inv gw_settle(2)] by (intro exI [of _ "[]"]) simp
  next
    case (gw_mark p)
    then show ?thesis using evolves_settled [OF inv] by (intro exI [of _ "[]"]) (simp add: settle_mark_def)
  next
    case (gw_prepare now instant rid uuid resource header res st' urls)
    have sv: "gw_view X st' = gw_view X (gs_state g) \<and> gw_inv X st' = gw_inv X (gs_state g)"
      using same_sessions_view [OF buy_prepare_same] gw_prepare(2) by (metis fst_conv snd_conv)
    have "ticket_ok X (gw_view X st') t" if "t \<in> set (new_tickets res)" for t
    proof -
      have "res = Ok (Paying t)" using that by (auto simp: new_tickets_def split: sum.splits buy_step.splits)
      with gw_prepare(2) obtain u' raw r where c: "buy_check_claim X J now rid raw (bt_price t)
          (gs_state g\<lparr>as_upstream := Some u'\<rparr>) = Ok (bt_claim t, bt_signature t, r)"
        by (auto elim: buy_prepare_Paying)
      have "gw_inv X (gs_state g\<lparr>as_upstream := Some u'\<rparr>)" using inv by simp
      from buy_check_claim_Ok(3,4) [OF this c] show ?thesis using sv by (simp add: ticket_ok_def)
    qed
    then show ?thesis using sv inv evolves_refl gw_prepare(1) by (intro exI [of _ "[]"]) auto
  next
    case (gw_finish t now rid query res st' urls)
    obtain r where r: "gw_view X (gs_state g) (cl_session (bt_claim t)) = Some r"
      "verify_claim_signature X (sr_agent r) (bt_claim t) (bt_signature t) = Valid"
      using ok gw_finish(2) by (auto simp: gw_ok_def ticket_ok_def)
    have "set (gs_tickets g') \<subseteq> set (gs_tickets g)" using gw_finish(1) by (simp add: set_remove1_subset)
    then show ?thesis
      using buy_finish_evolves [OF inv gw_finish(3) r] gw_finish(1)
      by (intro exI [of _ "admitted X (bt_claim t) (bt_signature t) now (gs_state g)"]) auto
  next
    case (gw_env st')
    then show ?thesis using evolves_refl by (intro exI [of _ "[]"]) simp
  qed
qed

lemma gw_ok_step: "gw_step X R I J W g g' \<Longrightarrow> gw_ok X g \<Longrightarrow> gw_ok X g'"
  using gw_step_evolves gw_ok_evolves by blast

definition gw_start :: "externals \<Rightarrow> gw \<Rightarrow> bool" where
  \<comment> \<open>a gateway that tracks no session yet\<close>
  "gw_start X g \<longleftrightarrow> gw_inv X (gs_state g) \<and> gw_view X (gs_state g) = Map.empty
     \<and> gs_tickets g = [] \<and> gs_log g = []"

lemma gw_ok_reachable:
  assumes "gw_start X g\<^sub>0" and "(gw_step X R I J W)\<^sup>*\<^sup>* g\<^sub>0 g"
  shows "gw_ok X g"
  using assms(2)
proof (induction rule: rtranclp_induct)
  case base
  then show ?case using assms(1) by (simp add: gw_start_def gw_ok_def progress_refl log_of_def)
next
  case (step g g')
  then show ?case using gw_ok_step by blast
qed

end
