(* ===== verification/Gateway_Props.thy ===== *)
theory Gateway_Props
  imports Gateway_Safety
begin

section \<open>What the gateway guarantees\<close>

text \<open>
  The properties of the session routes: the accounting over all interleavings of
  requests, what opening a session requires, what a refused caller can learn, which
  root a settlement commits, and that every recorded decision has a proof.
\<close>

subsection \<open>A gateway to exercise the handlers on\<close>

definition demo_app :: "backend \<Rightarrow> app_state" where
  "demo_app b = \<lparr>as_store = b, as_program_id = 9, as_legacy_program_id = None, as_rpc = None,
     as_provider_keypair = None, as_settlement_authority = Some 3, as_session_fetcher = None,
     as_upstream = Some demo_upstream, as_network = ''devnet'', as_registry = [],
     as_admin_token = None, as_require_agent_policy = False\<rparr>"

definition demo_wire :: "claim \<Rightarrow> claim_wire" where
  \<comment> \<open>a claim as text, with the signature the demonstration key accepts\<close>
  "demo_wire c = \<lparr>cw_session = pk_show demo_externals (cl_session c),
     cw_cumulative_amount = show_u64 (cl_cumulative_amount c), cw_nonce = show_u64 (cl_nonce c),
     cw_expires_at = show_i64 (cl_expires_at c),
     cw_signature = map (\<lambda>b. char_of (unat b)) (to_le_bytes 64 (ucast (cl_cumulative_amount c) :: sig64))\<rparr>"

lemma demo_decode:
  "decode demo_externals (demo_wire c) = Ok (c, ucast (cl_cumulative_amount c))"
proof -
  have "bs58_decode demo_externals (cw_signature (demo_wire c))
      = Some (to_le_bytes 64 (ucast (cl_cumulative_amount c) :: sig64))"
    by (simp only: demo_wire_def claim_wire.simps demo_externals_def externals.simps bytes_of_chars)
  then show ?thesis
    using demo_pk_text unfolding decode_def by (simp add: demo_wire_def)
qed

lemma demo_signed:
  "verify_claim_signature demo_externals agent c (ucast (cl_cumulative_amount c)) = Valid"
proof -
  have "take 8 (drop 49 (signing_bytes c)) = to_le_bytes 8 (cl_cumulative_amount c)"
    by (simp add: signing_bytes_concat)
  moreover have "ucast (ucast w :: sig64) = w" for w :: u64
    by (rule bit_word_eqI) (simp add: bit_ucast_iff)
  ultimately show ?thesis
    by (simp add: verify_claim_signature_def demo_externals_def)
qed

subsection \<open>Accounting over all interleavings\<close>

text \<open>
  C7. The gateway's books balance. From a gateway that tracks no session, after any
  interleaving of its requests, purchases half done included, and whatever else happens
  to its environment: the deltas accepted for a session add up to its high-water mark,
  within its deposit; accepted amounts and nonces strictly increase; and the claim kept
  for settlement is a claim of this session, at the mark, signed by the session's agent.
\<close>

theorem gateway_accounts:
  assumes "gw_start X g\<^sub>0" and "(gw_step X R I J W)\<^sup>*\<^sup>* g\<^sub>0 g"
    and "gw_view X (gs_state g) k = Some r"
  shows "total_delta (log_of k (gs_log g)) = unat (sr_cumulative_accepted r)
     \<and> sr_cumulative_accepted r \<le> sr_deposited_total r
     \<and> sorted_wrt (<) (map (\<lambda>(c, _). cl_cumulative_amount c) (log_of k (gs_log g)))
     \<and> sorted_wrt (<) (map (\<lambda>(c, _). cl_nonce c) (log_of k (gs_log g)))
     \<and> (\<forall>sc. sr_highest_claim r = Some sc \<longrightarrow> cl_session (sc_claim sc) = k
          \<and> cl_cumulative_amount (sc_claim sc) = sr_cumulative_accepted r
          \<and> verify_claim_signature X (sr_agent r) (sc_claim sc) (sc_signature sc) = Valid)"
proof -
  have ok: "gw_ok X g" by (rule gw_ok_reachable [OF assms(1,2)])
  have "progress k None (Some r) (log_of k (gs_log g))" using ok assms(3) unfolding gw_ok_def by metis
  then have l: "ladder 0 None (log_of k (gs_log g)) (sr_cumulative_accepted r) (sr_last_nonce r)"
    and rok: "record_ok k r" using progress_NoneD by blast+
  moreover have "record_signed X r" using ok assms(3) by (simp add: gw_ok_def)
  ultimately show ?thesis
    using ladder_total [OF l] ladder_increasing [OF l]
    by (auto simp: record_ok_def record_signed_def)
qed

definition demo_gw\<^sub>0 :: gw where
  "demo_gw\<^sub>0 = \<lparr>gs_state = demo_app (Ephemeral mem_new), gs_tickets = [], gs_log = []\<rparr>"

definition demo_open :: open_session_request where
  "demo_open = \<lparr>oq_session = pk_show demo_externals 7, oq_agent = pk_show demo_externals 1,
     oq_provider = pk_show demo_externals 2, oq_mint = pk_show demo_externals 50,
     oq_deposited_total = show_u64 100, oq_expires_at = show_i64 2000\<rparr>"

definition mem_with :: "session_record \<Rightarrow> mem_store" where
  "mem_with r = \<lparr>ms_inner = [sr_key r \<mapsto> r], ms_poisoned = False\<rparr>"

lemma demo_gw_opened:
  "snd (route_open_session demo_externals ''r'' demo_open (demo_app (Ephemeral mem_new)))
     = demo_app (Ephemeral (mem_with demo_record))"
  using demo_pk_text
  by (simp add: route_open_session_def demo_open_def demo_app_def store_open_def mem_open_def mem_new_def
      mem_with_def demo_record_def session_record_new_def Let_def)

lemma demo_verified:
  "verify_claim demo_externals 1500 ''r'' (demo_wire (demo_claim_of 40 2)) (demo_app (Ephemeral (mem_with demo_record)))
     = (Ok \<lparr>vc_decision = ''ALLOW'', vc_session = pk_show demo_externals 7,
          vc_cumulative_amount = show_u64 40, vc_previous_cumulative = show_u64 0, vc_delta = show_u64 40,
          vc_nonce = show_u64 2, vc_request_id = ''r''\<rparr>,
        demo_app (Ephemeral (mem_with (advance demo_record (demo_claim_of 40 2) 40))))"
proof -
  have "\<not> is_expired (demo_claim_of 40 2) 1500" by (simp add: is_expired_iff demo_claim_of_def)
  moreover have "ucast (40 :: u64) = (40 :: sig64)" by simp
  moreover note demo_decode [of "demo_claim_of 40 2"] demo_signed [of _ "demo_claim_of 40 2"]
  ultimately show ?thesis
    using demo_eval [of 2]
    by (simp add: verify_claim_def demo_app_def store_get_def mem_get_def store_admit_claim_def
        mem_admit_claim_def mem_with_def advance_def demo_claim_of_def demo_record_def session_record_new_def)
qed

theorem gateway_accounts_witness:
  "\<forall>R I J W. \<exists>g r. (gw_step demo_externals R I J W)\<^sup>*\<^sup>* demo_gw\<^sub>0 g
     \<and> gw_view demo_externals (gs_state g) 7 = Some r \<and> length (gs_log g) = 1
     \<and> total_delta (log_of 7 (gs_log g)) = 40 \<and> sr_cumulative_accepted r = 40"
proof (intro allI)
  fix R I J W
  let ?c = "demo_claim_of 40 2" and ?st = "demo_app (Ephemeral (mem_with demo_record))"
  let ?r = "advance demo_record (demo_claim_of 40 2) 40"
  let ?g1 = "demo_gw\<^sub>0\<lparr>gs_state := ?st\<rparr>"
  let ?g2 = "?g1\<lparr>gs_state := demo_app (Ephemeral (mem_with ?r)),
    gs_log := gs_log ?g1 @ admitted demo_externals ?c 40 1500 ?st\<rparr>"
  have start: "gw_start demo_externals demo_gw\<^sub>0"
    by (simp add: gw_start_def demo_gw\<^sub>0_def demo_app_def backend_inv_def backend_view_def mem_new_def)
  have "gw_step demo_externals R I J W demo_gw\<^sub>0 ?g1"
    using gw_open [of demo_externals "''r''" demo_open demo_gw\<^sub>0 "fst (route_open_session demo_externals ''r'' demo_open
        (gs_state demo_gw\<^sub>0))" ?st] demo_gw_opened
    by (simp add: prod_eq_iff demo_gw\<^sub>0_def)
  moreover have "gw_step demo_externals R I J W ?g1 ?g2"
  proof -
    have dec: "decode demo_externals (demo_wire ?c) = Ok (?c, 40)"
      using demo_decode [of ?c] by (simp add: demo_claim_of_def)
    obtain resp where "verify_claim demo_externals 1500 ''r'' (demo_wire ?c) (gs_state ?g1)
        = (Ok resp, demo_app (Ephemeral (mem_with ?r)))" using demo_verified by simp
    from gw_verify [OF this] show ?thesis by (simp add: verify_log_def dec)
  qed
  ultimately have reach: "(gw_step demo_externals R I J W)\<^sup>*\<^sup>* demo_gw\<^sub>0 ?g2" by simp
  have adm: "admitted demo_externals ?c 40 1500 ?st = [(?c, \<lparr>ca_cumulative_amount = 40, ca_previous_cumulative = 0,
      ca_delta = 40, ca_nonce = 2\<rparr>)]"
    using demo_eval [of 2]
    by (simp add: admitted_def store_admit_claim_def mem_admit_claim_def demo_app_def mem_with_def
        demo_record_def session_record_new_def demo_claim_of_def)
  have view: "gw_view demo_externals (gs_state ?g2) 7 = Some ?r"
    by (simp add: demo_app_def backend_view_def mem_with_def demo_record_def session_record_new_def advance_def)
  show "\<exists>g r. (gw_step demo_externals R I J W)\<^sup>*\<^sup>* demo_gw\<^sub>0 g
     \<and> gw_view demo_externals (gs_state g) 7 = Some r \<and> length (gs_log g) = 1
     \<and> total_delta (log_of 7 (gs_log g)) = 40 \<and> sr_cumulative_accepted r = 40"
    using gateway_accounts [OF start reach view] reach view adm
    by (intro exI [of _ ?g2] exI [of _ ?r]) (simp add: advance_def demo_claim_of_def demo_gw\<^sub>0_def)
qed

subsection \<open>Opening needs an escrow\<close>

lemma route_open_session_Ok:
  assumes "route_open_session X rid req st = (Ok resp, st')" and "as_session_fetcher st = Some fetch"
  obtains session agent provider mint dep expiry b acc where
    "pk_parse X (oq_session req) = Some session"
    "store_open X ((session_record_new session agent provider mint dep expiry)
       \<lparr>sr_chain_verified := True\<rparr>) (as_store st) = (Ok (), b)" "st' = st\<lparr>as_store := b\<rparr>"
    "verify_on_chain_session X fetch (as_program_id st) (as_legacy_program_id st) session
       \<lparr>cs_agent = agent, cs_provider = provider, cs_mint = mint, cs_deposited_total = dep,
        cs_expires_at = expiry\<rparr> = Ok acc"
  using assms unfolding route_open_session_def Let_def
  by (auto split: option.splits sum.splits prod.splits)

lemma verify_on_chain_session_Ok:
  assumes "verify_on_chain_session X fetch prog legacy session claimed = Ok acc"
  shows "\<exists>owner data. fetch session = Ok (Some (owner, data)) \<and> (owner = prog \<or> legacy = Some owner)
     \<and> parse data = Ok acc \<and> \<not> acc_is_settled acc \<and> acc_deposited_total acc = cs_deposited_total claimed
     \<and> acc_agent acc = cs_agent claimed \<and> acc_provider acc = cs_provider claimed
     \<and> acc_mint acc = cs_mint claimed \<and> acc_expires_at acc = cs_expires_at claimed"
  using assms unfolding verify_on_chain_session_def Let_def
  by (auto split: sum.splits option.splits prod.splits if_splits)

lemma opened_backed:
  assumes "gw_inv X st" and "as_session_fetcher st = Some fetch"
    and "route_open_session X rid req st = (res, st')"
  shows "case res of
     Err d \<Rightarrow> gw_view X st' = gw_view X st
   | Ok resp \<Rightarrow> \<exists>k r owner data acc. pk_parse X (oq_session req) = Some k
       \<and> gw_view X st k = None \<and> gw_view X st' = (gw_view X st)(k \<mapsto> r)
       \<and> sr_cumulative_accepted r = 0 \<and> sr_last_nonce r = None \<and> sr_chain_verified r
       \<and> fetch k = Ok (Some (owner, data)) \<and> (owner = as_program_id st \<or> as_legacy_program_id st = Some owner)
       \<and> parse data = Ok acc \<and> \<not> acc_is_settled acc
       \<and> acc_agent acc = sr_agent r \<and> acc_provider acc = sr_provider r \<and> acc_mint acc = sr_mint r
       \<and> acc_deposited_total acc = sr_deposited_total r \<and> acc_expires_at acc = sr_expires_at r"
proof (cases res)
  case (Inl d)
  have e: "backend_view X b = gw_view X st"
    if "store_open X r (as_store st) = (Err e, b)" and "fresh_record r" for r e b
    using gws.opn_view [OF assms(1) that(2,1)] by simp
  have "gw_view X st' = gw_view X st"
    using assms(3) unfolding Inl route_open_session_def Let_def
    by (auto split: option.splits sum.splits prod.splits intro!: e
        simp: fresh_record_def session_record_new_def)
  then show ?thesis using Inl by simp
next
  case (Inr resp)
  from assms(3) [unfolded Inr] assms(2) show ?thesis
  proof (rule route_open_session_Ok)
    fix k agent provider mint dep expiry b acc
    let ?r = "(session_record_new k agent provider mint dep expiry)\<lparr>sr_chain_verified := True\<rparr>"
    assume k: "pk_parse X (oq_session req) = Some k"
      and o: "store_open X ?r (as_store st) = (Ok (), b)" and st': "st' = st\<lparr>as_store := b\<rparr>"
      and acc: "verify_on_chain_session X fetch (as_program_id st) (as_legacy_program_id st) k
        \<lparr>cs_agent = agent, cs_provider = provider, cs_mint = mint, cs_deposited_total = dep,
         cs_expires_at = expiry\<rparr> = Ok acc"
    have "fresh_record ?r" by (simp add: fresh_record_def session_record_new_def)
    from gws.opn_view [OF assms(1) this o]
    have view: "gw_view X st k = None" "gw_view X st' = (gw_view X st)(k \<mapsto> ?r)"
      by (simp_all add: st' session_record_new_def)
    from verify_on_chain_session_Ok [OF acc] show ?thesis
      using k view by (auto simp: Inr session_record_new_def)
  qed
qed

text \<open>
  C12. No credit without escrow. While reconciliation is on, a session that
  \<open>/v1/session/open\<close> starts to track is one the chain holds: an unsettled account of
  a recognised program at that address with the same agent, provider, mint, deposit and
  expiry; the session was not tracked before, starts at zero and is recorded as
  verified; no other session changes. A refused request changes no session.
\<close>

theorem open_session_backed:
  assumes "gw_inv X st" and "as_session_fetcher st = Some fetch"
    and "route_open_session X rid req st = (res, st')"
  shows "case res of
     Err d \<Rightarrow> gw_view X st' = gw_view X st
   | Ok resp \<Rightarrow> \<exists>k r owner data acc. pk_parse X (oq_session req) = Some k
       \<and> gw_view X st k = None \<and> gw_view X st' = (gw_view X st)(k \<mapsto> r)
       \<and> sr_cumulative_accepted r = 0 \<and> sr_last_nonce r = None \<and> sr_chain_verified r
       \<and> fetch k = Ok (Some (owner, data)) \<and> (owner = as_program_id st \<or> as_legacy_program_id st = Some owner)
       \<and> parse data = Ok acc \<and> \<not> acc_is_settled acc
       \<and> acc_agent acc = sr_agent r \<and> acc_provider acc = sr_provider r \<and> acc_mint acc = sr_mint r
       \<and> acc_deposited_total acc = sr_deposited_total r \<and> acc_expires_at acc = sr_expires_at r"
  by (rule opened_backed [OF assms])

definition demo_account :: session_account where
  "demo_account = \<lparr>acc_agent = 1, acc_provider = 2, acc_settlement_authority = Some 3, acc_mint = 50,
     acc_vault = 60, acc_deposited_total = 100, acc_cumulative_settled = 0, acc_refunded_total = 0,
     acc_expires_at = 2000, acc_session_id = 0, acc_bump = 255, acc_vault_bump = 255, acc_is_settled = False\<rparr>"

definition demo_chain_app :: "backend \<Rightarrow> app_state" where
  "demo_chain_app b = (demo_app b)\<lparr>as_session_fetcher := Some (\<lambda>k. if k = 7
     then Ok (Some (9, account_bytes demo_account)) else Ok None)\<rparr>"

theorem open_session_backed_witness:
  "gw_view demo_externals (snd (route_open_session demo_externals ''r'' demo_open
      (demo_chain_app (Ephemeral mem_new)))) 7 \<noteq> None"
proof -
  let ?st = "demo_chain_app (Ephemeral mem_new)"
  obtain res st' where o: "route_open_session demo_externals ''r'' demo_open ?st = (res, st')" by fastforce
  have p: "parse (account_bytes demo_account) = Ok demo_account"
    by (rule parse_account_bytes)
  have k: "pk_parse demo_externals (oq_session demo_open) = Some 7"
    using demo_pk_text by (simp add: demo_open_def)
  have "\<exists>resp. res = Ok resp"
    using o demo_pk_text
    by (simp add: route_open_session_def demo_open_def demo_chain_app_def demo_app_def
        verify_on_chain_session_def p Let_def store_open_def mem_open_def mem_new_def)
      (auto simp: demo_account_def store_open_def mem_open_def)
  moreover have "gw_inv demo_externals ?st" "as_session_fetcher ?st = Some (\<lambda>k. if k = 7
     then Ok (Some (9, account_bytes demo_account)) else Ok None)"
    by (simp_all add: demo_chain_app_def demo_app_def backend_inv_def)
  note open_session_backed [OF this o]
  ultimately show ?thesis using k o by auto
qed

subsection \<open>A refusal tells a stranger nothing\<close>

definition same_agents :: "externals \<Rightarrow> app_state \<Rightarrow> app_state \<Rightarrow> bool" where
  \<comment> \<open>the stores answer alike for every session, up to everything but its agent\<close>
  "same_agents X st st' \<longleftrightarrow> (\<forall>k. case (store_get X k (as_store st), store_get X k (as_store st')) of
     (Ok r, Ok r') \<Rightarrow> sr_agent r = sr_agent r' | (Err e, Err e') \<Rightarrow> e = e' | _ \<Rightarrow> False)"

lemma same_agentsE:
  assumes "same_agents X st st'"
  obtains (known) r r' where "store_get X k (as_store st) = Ok r" "store_get X k (as_store st') = Ok r'"
      "sr_agent r = sr_agent r'"
    | (unknown) e where "store_get X k (as_store st) = Err e" "store_get X k (as_store st') = Err e"
  using assms unfolding same_agents_def
  by (cases "store_get X k (as_store st)"; cases "store_get X k (as_store st')") (auto dest: spec [of _ k])

text \<open>
  C14. Without the agent's key a caller cannot probe a session. If a claim does not carry
  the signature of the session's agent, then \<open>/v1/claim/verify\<close> and the claim check of
  \<open>/v1/buy\<close> answer the same whatever the session's balance, high-water mark, nonce,
  deposit, expiry or settlement state are, and change nothing.
\<close>

theorem stranger_learns_nothing:
  assumes "same_agents X st st'" and "decode X w = Ok (c, sig)"
    and "\<forall>r. store_get X (cl_session c) (as_store st) = Ok r \<longrightarrow> verify_claim_signature X (sr_agent r) c sig \<noteq> Valid"
  shows "fst (verify_claim X now rid w st) = fst (verify_claim X now rid w st')
     \<and> snd (verify_claim X now rid w st) = st
     \<and> (decode_header X J raw = Some (c, sig) \<longrightarrow>
          buy_check_claim X J now rid raw price st = buy_check_claim X J now rid raw price' st')"
  using assms(1)
proof (cases rule: same_agentsE [of X st st' "cl_session c"])
  case (known r r')
  then have "verify_claim_signature X (sr_agent r) c sig \<noteq> Valid" using assms(3) by blast
  then show ?thesis using known assms(2) by (simp add: verify_claim_def buy_check_claim_def)
next
  case (unknown e)
  then show ?thesis using assms(2) by (simp add: verify_claim_def buy_check_claim_def)
qed

definition demo_marked :: session_record where
  "demo_marked = advance demo_record (demo_claim_of 40 2) 40"

theorem stranger_learns_nothing_witness:
  "fst (verify_claim demo_externals 1500 ''r'' ((demo_wire (demo_claim_of 70 3))\<lparr>cw_signature :=
      cw_signature (demo_wire (demo_claim_of 41 3))\<rparr>) (demo_app (Ephemeral (mem_with demo_record))))
   = fst (verify_claim demo_externals 1500 ''r'' ((demo_wire (demo_claim_of 70 3))\<lparr>cw_signature :=
      cw_signature (demo_wire (demo_claim_of 41 3))\<rparr>) (demo_app (Ephemeral (mem_with demo_marked))))"
proof -
  let ?w = "(demo_wire (demo_claim_of 70 3))\<lparr>cw_signature := cw_signature (demo_wire (demo_claim_of 41 3))\<rparr>"
  let ?st = "demo_app (Ephemeral (mem_with demo_record))" and ?st' = "demo_app (Ephemeral (mem_with demo_marked))"
  have same: "same_agents demo_externals ?st ?st'"
    by (auto simp: same_agents_def demo_app_def store_get_def mem_get_def mem_with_def demo_marked_def
        advance_def demo_record_def session_record_new_def)
  have "bs58_decode demo_externals (cw_signature (demo_wire (demo_claim_of 41 3)))
      = Some (to_le_bytes 64 (41 :: sig64))"
    by (simp only: demo_wire_def claim_wire.simps demo_externals_def externals.simps bytes_of_chars)
      (simp add: demo_claim_of_def)
  then have dec: "decode demo_externals ?w = Ok (demo_claim_of 70 3, 41)"
    using demo_pk_text unfolding decode_def by (simp add: demo_wire_def demo_claim_of_def)
  have "take 8 (drop 49 (signing_bytes (demo_claim_of 70 3))) = to_le_bytes 8 (70 :: u64)"
    by (simp add: signing_bytes_concat demo_claim_of_def)
  then have "verify_claim_signature demo_externals a (demo_claim_of 70 3) 41 \<noteq> Valid" for a
    by (simp add: verify_claim_signature_def demo_externals_def)
  then show ?thesis using stranger_learns_nothing [OF same dec, of 1500 "''r''"] by blast
qed

subsection \<open>The evidence behind a settlement\<close>

lemma session_evidence_published:
  assumes "as_store st = Durable db cdb" and "pg_inv X db" and "pg_online db" and "pk_parse X s = Some k"
  shows "\<exists>es ev. load_evidence_chain X k db = Ok es \<and> load_evidence_leaves X k db = Ok (map ev_entry_hash es)
     \<and> session_evidence X rid s st = Ok ev \<and> sv_chain_valid ev \<and> sv_entry_count ev = length es
     \<and> sv_merkle_root ev = hex32 (root (merkle_new X (map ev_entry_hash es)))"
  using pg_inv_evidence [OF assms(2,3), of k] assms(1,4)
  by (auto simp: session_evidence_def as_db_def Let_def)

lemma submit_settlement_Ok:
  assumes "submit_settlement X R I rpc prog settler provider k mint c sig agent mroot = Ok outcome"
  obtains tp bh where "rpc_send_and_confirm rpc (settlement_instructions X R I prog settler provider k mint
      tp c sig agent mroot) [settler] bh = Ok (so_signature outcome)"
    "so_cumulative_amount outcome = cl_cumulative_amount c"
  using assms unfolding submit_settlement_def by (auto split: option.splits sum.splits)

lemma choose_settler_Ok:
  assumes "choose_settler rid k r st = Ok (prog, settler)"
  shows "(prog = as_program_id st \<or> as_legacy_program_id st = Some prog)
     \<and> (as_settlement_authority st = Some settler \<or> settler = sr_provider r)"
  using assms unfolding choose_settler_def Let_def
  by (auto split: option.splits sum.splits if_splits)

lemma route_settle_session_Ok:
  assumes "route_settle_session X R I rid s mr st = (Ok resp, st')"
  obtains k mroot n rpc r sc prog settler outcome where "pk_parse X s = Some k"
    "settle_root X rid k mr st = Ok (mroot, n)" "as_rpc st = Some rpc" "store_get X k (as_store st) = Ok r"
    "\<not> sr_is_settled r" "sr_highest_claim r = Some sc" "choose_settler rid k r st = Ok (prog, settler)"
    "submit_settlement X R I rpc prog settler (sr_provider r) k (sr_mint r) (sc_claim sc) (sc_signature sc)
       (sr_agent r) mroot = Ok outcome"
    "ss_merkle_root resp = hex32 mroot" "ss_evidence_entries resp = n" "ss_signature resp = so_signature outcome"
    "ss_cumulative_amount resp = show_u64 (so_cumulative_amount outcome)"
    "st' = st\<lparr>as_store := snd (store_mark_settled X k (as_store st))\<rparr>"
proof -
  obtain p where p: "settle_submit X R I rid s mr st = Ok p" "resp = settled_response X rid p" "st' = settle_mark X p st"
    using assms by (auto simp: route_settle_session_def split: sum.splits)
  from p(1) show thesis
    by (rule settle_submit_Ok) (rule that [of "ps_session p"], simp_all add: p(2,3) settled_response_def settle_mark_def Let_def)
qed

lemma pg_get_online: "pg_get X k db = Ok r \<Longrightarrow> pg_online db"
  by (auto simp: pg_get_def load_session_def split: if_splits)

text \<open>
  C13. A settlement commits the published evidence. When \<open>/v1/session/settle\<close> reports a
  settlement, the chain confirmed a transaction for the highest accepted claim, paying the
  session's provider, submitted to a recognised program and signed by the gateway's
  authority or the provider; the root in it is the one \<open>/v1/session/{session}/evidence\<close>
  publishes, over as many decisions, for a chain that verifies; and the session, unsettled
  before, is marked settled.
\<close>

theorem settlement_commits_published_evidence:
  assumes "pg_inv X db" and "as_store st = Durable db cdb"
    and "route_settle_session X R I rid s mr st = (Ok resp, st')"
  shows "\<exists>k r sc rpc prog settler tp bh mroot ev. pk_parse X s = Some k \<and> gw_view X st k = Some r
     \<and> sr_highest_claim r = Some sc \<and> \<not> sr_is_settled r
     \<and> (prog = as_program_id st \<or> as_legacy_program_id st = Some prog)
     \<and> (as_settlement_authority st = Some settler \<or> settler = sr_provider r)
     \<and> as_rpc st = Some rpc
     \<and> rpc_send_and_confirm rpc (settlement_instructions X R I prog settler (sr_provider r) k (sr_mint r)
         tp (sc_claim sc) (sc_signature sc) (sr_agent r) mroot) [settler] bh = Ok (ss_signature resp)
     \<and> ss_cumulative_amount resp = show_u64 (cl_cumulative_amount (sc_claim sc))
     \<and> ss_merkle_root resp = hex32 mroot
     \<and> session_evidence X rid s st = Ok ev \<and> sv_chain_valid ev
     \<and> sv_merkle_root ev = ss_merkle_root resp \<and> sv_entry_count ev = ss_evidence_entries resp
     \<and> gw_view X st' = (gw_view X st)(k \<mapsto> r\<lparr>sr_is_settled := True\<rparr>)"
  using assms(3)
proof (rule route_settle_session_Ok)
  fix k mroot n rpc r sc prog settler outcome
  assume h: "pk_parse X s = Some k" "settle_root X rid k mr st = Ok (mroot, n)" "as_rpc st = Some rpc"
    "store_get X k (as_store st) = Ok r" "\<not> sr_is_settled r" "sr_highest_claim r = Some sc"
    and settler: "choose_settler rid k r st = Ok (prog, settler)"
    and sub: "submit_settlement X R I rpc prog settler (sr_provider r) k (sr_mint r) (sc_claim sc)
      (sc_signature sc) (sr_agent r) mroot = Ok outcome"
    and resp: "ss_merkle_root resp = hex32 mroot" "ss_evidence_entries resp = n"
      "ss_signature resp = so_signature outcome" "ss_cumulative_amount resp = show_u64 (so_cumulative_amount outcome)"
    and st': "st' = st\<lparr>as_store := snd (store_mark_settled X k (as_store st))\<rparr>"
  have get: "pg_get X k db = Ok r" using h(4) assms(2) by (simp add: store_get_def)
  have on: "pg_online db" by (rule pg_get_online [OF get])
  have r: "gw_view X st k = Some r" using pg_get_view [OF assms(1) get] assms(2) by (simp add: backend_view_def)
  obtain es :: "evidence_entry list" and ev where ev: "load_evidence_leaves X k db = Ok (map ev_entry_hash es)"
    "session_evidence X rid s st = Ok ev" "sv_chain_valid ev" "sv_entry_count ev = length es"
    "sv_merkle_root ev = hex32 (root (merkle_new X (map ev_entry_hash es)))"
    using session_evidence_published [OF assms(2,1) on h(1), of rid] by blast
  have mroot: "mroot = root (merkle_new X (map ev_entry_hash es))" "n = length es"
    using h(2) ev(1) assms(2) by (auto simp: settle_root_def as_db_def)
  have view: "gw_view X st' = (gw_view X st)(k \<mapsto> r\<lparr>sr_is_settled := True\<rparr>)"
    using pg_mark_settled_view [OF assms(1) on, of k] r assms(2)
    by (simp add: st' store_mark_settled_def backend_view_def case_prod_unfold)
  from sub obtain tp bh where tx: "rpc_send_and_confirm rpc (settlement_instructions X R I prog settler
      (sr_provider r) k (sr_mint r) tp (sc_claim sc) (sc_signature sc) (sr_agent r) mroot) [settler] bh
      = Ok (ss_signature resp)" "so_cumulative_amount outcome = cl_cumulative_amount (sc_claim sc)"
    unfolding resp(3) by (rule submit_settlement_Ok)
  have out: "ss_cumulative_amount resp = show_u64 (cl_cumulative_amount (sc_claim sc))"
    "sv_merkle_root ev = ss_merkle_root resp" "sv_entry_count ev = ss_evidence_entries resp"
    unfolding resp(1,2,4) tx(2) ev(4,5) mroot by (rule refl)+
  note keys = choose_settler_Ok [OF settler]
  show ?thesis
    by (rule exI [of _ k] exI [of _ r] exI [of _ sc] exI [of _ rpc] exI [of _ prog] exI [of _ settler]
        exI [of _ tp] exI [of _ bh] exI [of _ mroot] exI [of _ ev] conjI h(1) r h(6) h(5)
        conjunct1 [OF keys] conjunct2 [OF keys] h(3) tx(1) out(1) resp(1) ev(2,3) out(2,3) view)+
qed

lemma pg_get_complete:
  assumes "pg_inv X db" and "pg_online db" and "pg_view X db k = Some r"
  shows "pg_get X k db = Ok r"
proof -
  obtain row where row: "session_row_of db (pk_show X k) = Some row"
    "row_to_record X row (claim_row_of db (pk_show X k)) = Ok r"
    using assms(3) by (auto simp: pg_view_def split: option.splits sum.splits)
  moreover from this have "se_session_pubkey row = pk_show X k" using session_row_ofD [OF assms(1)] by blast
  ultimately show ?thesis using assms(2) by (simp add: pg_get_def load_session_def)
qed

definition demo_db\<^sub>1 :: pg where
  \<comment> \<open>the database after a first claim\<close>
  "demo_db\<^sub>1 = snd (pg_admit_claim demo_externals (demo_claim_of 40 2) 40 1500 demo_db)"

lemma demo_db\<^sub>1_facts:
  "pg_inv demo_externals demo_db\<^sub>1" "pg_view demo_externals demo_db\<^sub>1 7 = Some demo_marked"
  "pg_online demo_db\<^sub>1"
proof -
  have "unat (cl_nonce (demo_claim_of 40 2)) < 2 ^ 63" "cl_session (demo_claim_of 40 2) = 7"
    by (simp_all add: demo_claim_of_def)
  with pg_admit_accepts [OF demo_db_facts(1,2), of "demo_claim_of 40 2"] demo_db_facts(3,4) demo_eval
  obtain db' where db': "pg_admit_claim demo_externals (demo_claim_of 40 2) 40 1500 demo_db
      = (Ok (Ok \<lparr>ca_cumulative_amount = 40, ca_previous_cumulative = 0, ca_delta = 40, ca_nonce = 2\<rparr>), db')"
    "pg_view demo_externals db' = (pg_view demo_externals demo_db)(7 \<mapsto> advance demo_record (demo_claim_of 40 2) 40)"
    by (metis list.size(3) zero_less_numeral zero_less_power)
  then show "pg_view demo_externals demo_db\<^sub>1 7 = Some demo_marked" by (simp add: demo_db\<^sub>1_def demo_marked_def)
  show "pg_inv demo_externals demo_db\<^sub>1"
    unfolding demo_db\<^sub>1_def by (rule pg_admit_claim_inv [OF demo_db_facts(1)])
  have "pg_run demo_externals [OpAdmit (demo_claim_of 40 2) 40 1500] demo_db = ([(demo_claim_of 40 2,
      \<lparr>ca_cumulative_amount = 40, ca_previous_cumulative = 0, ca_delta = 40, ca_nonce = 2\<rparr>)], demo_db\<^sub>1)"
    by (simp add: pg_run_def db' demo_db\<^sub>1_def)
  from run_store_online [OF this] show "pg_online demo_db\<^sub>1" using demo_db_facts(2) by simp
qed

definition demo_settle_app :: app_state where
  "demo_settle_app = (demo_chain_app (Durable demo_db\<^sub>1 demo_control))\<lparr>as_rpc := Some
     \<lparr>rpc_mint_owner = (\<lambda>_. Some 200), rpc_latest_blockhash = Ok 1,
      rpc_send_and_confirm = (\<lambda>_ _ _. Ok ''confirmed'')\<rparr>\<rparr>"

lemma demo_account_len: "length (account_bytes demo_account) = SESSION_ACCOUNT_LEN_V2"
  by (simp add: account_bytes_def demo_account_def SESSION_ACCOUNT_LEN_V2_def)

theorem settlement_commits_published_evidence_witness:
  "\<forall>R I. \<exists>resp st' ev. route_settle_session demo_externals R I ''r'' (pk_show demo_externals 7) None demo_settle_app
       = (Ok resp, st')
     \<and> session_evidence demo_externals ''r'' (pk_show demo_externals 7) demo_settle_app = Ok ev
     \<and> sv_merkle_root ev = ss_merkle_root resp"
proof (intro allI)
  fix R I
  let ?s = "pk_show demo_externals 7"
  have store: "as_store demo_settle_app = Durable demo_db\<^sub>1 demo_control"
    by (simp add: demo_settle_app_def demo_chain_app_def demo_app_def)
  have get: "store_get demo_externals 7 (as_store demo_settle_app) = Ok demo_marked"
    using pg_get_complete [OF demo_db\<^sub>1_facts(1,3,2)] by (simp add: store store_get_def)
  obtain es where es: "load_evidence_leaves demo_externals 7 demo_db\<^sub>1 = Ok (map ev_entry_hash (es :: evidence_entry list))"
    using pg_inv_evidence [OF demo_db\<^sub>1_facts(1,3)] by blast
  have settler: "choose_settler ''r'' 7 demo_marked demo_settle_app = Ok (9, 3)"
    by (simp add: choose_settler_def demo_settle_app_def demo_chain_app_def demo_app_def demo_account_len)
  have rpc: "as_rpc demo_settle_app = Some \<lparr>rpc_mint_owner = (\<lambda>_. Some 200), rpc_latest_blockhash = Ok 1,
      rpc_send_and_confirm = (\<lambda>_ _ _. Ok ''confirmed'')\<rparr>"
    by (simp add: demo_settle_app_def)
  have marked: "\<not> sr_is_settled demo_marked" "sr_highest_claim demo_marked = Some
      \<lparr>sc_claim = demo_claim_of 40 2, sc_signature = 40\<rparr>"
    by (simp_all add: demo_marked_def advance_def demo_record_def session_record_new_def)
  have "\<exists>resp st'. route_settle_session demo_externals R I ''r'' ?s None demo_settle_app = (Ok resp, st')"
    using demo_pk_text es get settler marked
    by (simp add: route_settle_session_def settle_submit_def settle_mark_def settled_response_def Let_def settle_root_def as_db_def store submit_settlement_def rpc)
  then obtain resp st' where r: "route_settle_session demo_externals R I ''r'' ?s None demo_settle_app = (Ok resp, st')"
    by blast
  from settlement_commits_published_evidence [OF demo_db\<^sub>1_facts(1) store r]
  show "\<exists>resp st' ev. route_settle_session demo_externals R I ''r'' ?s None demo_settle_app = (Ok resp, st')
     \<and> session_evidence demo_externals ''r'' ?s demo_settle_app = Ok ev
     \<and> sv_merkle_root ev = ss_merkle_root resp"
    using r by blast
qed

subsection \<open>Every decision has a proof\<close>

lemma position_Some: "position P xs = Some i \<Longrightarrow> i < length xs \<and> P (xs ! i) \<and> (\<forall>j < i. \<not> P (xs ! j))"
  by (induction P xs arbitrary: i rule: position.induct) (auto simp: less_Suc_eq_0_disj split: if_splits)

lemma position_None: "position P xs = None \<longleftrightarrow> (\<forall>x \<in> set xs. \<not> P x)"
  by (induction P xs rule: position.induct) auto

lemma merkle_proof_exists:
  "i < length ls \<Longrightarrow> \<exists>p. merkle_proof (merkle_new X ls) i = Some p
     \<and> verify_proof X (ls ! i) p (root (merkle_new X ls))"
  using proof_path_folds [of i ls X]
  by (cases "ls = []") (simp_all add: merkle_proof_def verify_proof_def root_merkle_new, simp add: merkle_new_def)

lemma traverse_nth:
  "traverse f xs = Ok ys \<Longrightarrow> length ys = length xs \<and> (\<forall>i < length xs. f (xs ! i) = Ok (ys ! i))"
proof (induction xs arbitrary: ys)
  case (Cons x xs)
  then obtain y zs where "f x = Ok y" "traverse f xs = Ok zs" "ys = y # zs" by (auto split: sum.splits)
  with Cons.IH [of zs] show ?case by (auto simp: less_Suc_eq_0_disj)
qed simp

lemma stored_sequence:
  assumes "pg_inv X db" and "load_evidence_chain X k db = Ok es" and "i < length es"
  shows "sint (ev_sequence_id (es ! i)) = int i"
proof -
  let ?rows = "rows_of X db k"
  have ck: "chain_stored X k ?rows" using assms(1) by (simp add: pg_inv_def)
  have t: "traverse evidence_entry_of ?rows = Ok es"
    using assms(2) by (auto simp: load_evidence_chain_def evidence_of_rows [OF ck] split: if_splits)
  from traverse_nth [OF t] assms(3)
  have "i < length ?rows" "evidence_entry_of (?rows ! i) = Ok (es ! i)" by auto
  moreover have "ev_sequence_id e = el_sequence_id r" if "evidence_entry_of r = Ok e" for r e
    using that by (auto simp: evidence_entry_of_def split: sum.splits)
  ultimately have "ev_sequence_id (es ! i) = el_sequence_id (?rows ! i)" by blast
  then show ?thesis using ck \<open>i < length ?rows\<close> by (simp add: chain_stored_def)
qed

text \<open>
  Every recorded decision can be proved. For a session with the recorded entries
  \<open>es\<close>, \<open>/v1/evidence/proof\<close> answers sequence number \<open>i\<close> with entry
  \<open>i\<close> and a proof that reconstructs the published root from its hash, for every
  entry, refusals included; any other number is reported as not found.
\<close>

theorem evidence_proof_total:
  assumes "pg_inv X db" and "as_store st = Durable db cdb" and "pk_parse X s = Some k"
    and "load_evidence_chain X k db = Ok es"
  shows "case evidence_proof X rid s n st of
     Ok resp \<Rightarrow> \<exists>i pr. sint n = int i \<and> i < length es \<and> pp_leaf_index resp = i
       \<and> pp_decision resp = ev_decision (es ! i) \<and> pp_leaf_hash resp = hex32 (ev_entry_hash (es ! i))
       \<and> pp_total_leaves resp = length es
       \<and> pp_merkle_root resp = hex32 (root (merkle_new X (map ev_entry_hash es)))
       \<and> pp_proof resp = map (\<lambda>p. (hex32 (pn_hash p), side_str (pn_side p))) pr
       \<and> verify_proof X (ev_entry_hash (es ! i)) pr (root (merkle_new X (map ev_entry_hash es)))
   | Err d \<Rightarrow> d = denial_new ERR_EVIDENCE_NOT_FOUND rid \<and> \<not> (0 \<le> sint n \<and> sint n < int (length es))"
proof (cases "position (\<lambda>e. ev_sequence_id e = n) es")
  case None
  then have none: "\<forall>i < length es. ev_sequence_id (es ! i) \<noteq> n"
    unfolding position_None by simp
  have "\<not> (0 \<le> sint n \<and> sint n < int (length es))"
  proof
    assume n: "0 \<le> sint n \<and> sint n < int (length es)"
    then have lt: "nat (sint n) < length es" by linarith
    then have "sint (ev_sequence_id (es ! nat (sint n))) = sint n"
      using stored_sequence [OF assms(1,4) lt] n by simp
    then have "ev_sequence_id (es ! nat (sint n)) = n" by (rule signed_word_eqI)
    then show False using none lt by blast
  qed
  then show ?thesis using None assms(2-4) by (simp add: evidence_proof_def as_db_def)
next
  case (Some i)
  have i: "i < length es" "ev_sequence_id (es ! i) = n" using position_Some [OF Some] by auto
  have "sint n = int i" using stored_sequence [OF assms(1,4) i(1)] i(2) by simp
  moreover obtain pr where "merkle_proof (merkle_new X (map ev_entry_hash es)) i = Some pr"
    "verify_proof X (ev_entry_hash (es ! i)) pr (root (merkle_new X (map ev_entry_hash es)))"
    using merkle_proof_exists [of i "map ev_entry_hash es" X] i(1) by auto
  ultimately show ?thesis
    using Some i assms(2-4) by (auto simp: evidence_proof_def as_db_def Let_def)
qed

theorem evidence_proof_total_witness:
  "\<exists>es. load_evidence_chain demo_externals 7 demo_db\<^sub>1 = Ok es
     \<and> (\<forall>i < length es. \<exists>resp. evidence_proof demo_externals ''r'' (pk_show demo_externals 7) (of_nat i) demo_settle_app
          = Ok resp)"
proof -
  have store: "as_store demo_settle_app = Durable demo_db\<^sub>1 demo_control"
    by (simp add: demo_settle_app_def demo_chain_app_def demo_app_def)
  obtain es where es: "load_evidence_chain demo_externals 7 demo_db\<^sub>1 = Ok es"
    using pg_inv_evidence [OF demo_db\<^sub>1_facts(1,3)] by blast
  have k: "pk_parse demo_externals (pk_show demo_externals 7) = Some 7" using demo_pk_text by simp
  have "\<exists>resp. evidence_proof demo_externals ''r'' (pk_show demo_externals 7) (of_nat i) demo_settle_app = Ok resp"
    if i: "i < length es" for i
  proof -
    have "sint (of_nat i :: i64) = int i"
      using stored_sequence [OF demo_db\<^sub>1_facts(1) es i] of_nat_sint by metis
    then show ?thesis
      using evidence_proof_total [OF demo_db\<^sub>1_facts(1) store k es, of "''r''" "of_nat i"] i
      by (auto split: sum.splits)
  qed
  then show ?thesis using es by blast
qed

end
