(* ===== verification/Buy_Props.thy ===== *)
theory Buy_Props
  imports Gateway_Props
begin

section \<open>What a purchase guarantees\<close>

text \<open>
  The properties of the paid path: a provider is asked for a resource only after a
  signed claim for exactly its price was admitted within the agent's envelope; the
  derived spend of an agent grows by exactly what was charged and stays within its
  budget; the claim header's base64 is inverted; and where two purchases overlap, or a
  claim is presented to \<open>/v1/claim/verify\<close> instead, these bounds do not hold.
\<close>

subsection \<open>The spend of an agent\<close>

definition committed :: "(string \<Rightarrow> bool) \<Rightarrow> claim_row list \<Rightarrow> int" where
  "committed P cs = sum_list (map (\<lambda>c. sint (ct_cumulative_amount c)) (filter (\<lambda>c. P (ct_session_pubkey c)) cs))"

definition allowed_calls :: "(string \<Rightarrow> bool) \<Rightarrow> evidence_row list \<Rightarrow> nat" where
  "allowed_calls P es = length (filter (\<lambda>e. P (el_session_pubkey e) \<and> el_decision e = ''ALLOWED'') es)"

lemma agent_spend_Ok:
  "agent_spend agent db = Ok s \<longleftrightarrow> pg_online db
     \<and> (let total = committed (session_of_agent db agent) (pg_claims db);
            calls = allowed_calls (session_of_agent db agent) (pg_evidence db)
        in 0 \<le> total \<and> total < 2 ^ 63
           \<and> s = \<lparr>sp_spent = word_of_int total, sp_calls = (if calls < 2 ^ 32 then of_nat calls else - 1)\<rparr>)"
proof -
  have "sint (word_of_int t :: i64) = t" if "- (2 ^ 63) \<le> t" "t < 2 ^ 63" for t
    using that sint_sbintrunc' [of t, where ?'a = 64] by (simp add: signed_take_bit_int_eq_self)
  then show ?thesis
    unfolding agent_spend_def committed_def [symmetric] allowed_calls_def [symmetric] Let_def
    by (auto simp: to_u64_def not_less)
qed

lemma committed_snoc: "committed P (cs @ [t]) = committed P cs
    + (if P (ct_session_pubkey t) then sint (ct_cumulative_amount t) else 0)"
  by (simp add: committed_def)

lemma committed_absent:
  "ct_session_pubkey t \<notin> ct_session_pubkey ` set cs \<Longrightarrow>
     map (\<lambda>r. if ct_session_pubkey r = ct_session_pubkey t then t else r) cs = cs"
  by (induction cs) auto

lemma committed_replace:
  assumes "distinct (map ct_session_pubkey cs)" and "old \<in> set cs"
    and "ct_session_pubkey old = ct_session_pubkey t"
  shows "committed P (map (\<lambda>r. if ct_session_pubkey r = ct_session_pubkey t then t else r) cs)
     = committed P cs + (if P (ct_session_pubkey t)
         then sint (ct_cumulative_amount t) - sint (ct_cumulative_amount old) else 0)"
  using assms
proof (induction cs)
  case (Cons c cs)
  show ?case
  proof (cases "c = old")
    case True
    then have "ct_session_pubkey t \<notin> ct_session_pubkey ` set cs" using Cons.prems by auto
    from committed_absent [OF this] show ?thesis using True Cons.prems(3) by (simp add: committed_def)
  next
    case False
    then have m: "old \<in> set cs" using Cons.prems(2) by simp
    then have "ct_session_pubkey t \<in> ct_session_pubkey ` set cs" using Cons.prems(3) by (metis imageI)
    then have "ct_session_pubkey c \<noteq> ct_session_pubkey t" using Cons.prems(1) by auto
    then show ?thesis using Cons.IH m Cons.prems by (auto simp: committed_def)
  qed
qed simp

lemma allowed_calls_snoc: "allowed_calls P (es @ [e]) = allowed_calls P es
    + (if P (el_session_pubkey e) \<and> el_decision e = ''ALLOWED'' then 1 else 0)"
  by (simp add: allowed_calls_def)

lemma view_agent:
  assumes "pg_inv X db" and "pg_view X db k = Some r"
  shows "session_of_agent db (pk_show X (sr_agent r)) (pk_show X k)"
proof -
  obtain row where row: "session_row_of db (pk_show X k) = Some row"
    "r = decoded X k row (claim_row_of db (pk_show X k))"
    using assms(2) by (auto simp: pg_view_decoded [OF assms(1)])
  have "row \<in> set (pg_sessions db)" using find_SomeD [OF row(1) [unfolded session_row_of_def]] by simp
  moreover have "se_session_pubkey row = pk_show X k" "se_agent_pubkey row = pk_show X (sr_agent r)"
    using session_row_ofD [OF assms(1) row(1)] row(2) pg_inv_text [OF assms(1)]
    by (auto simp: row_ok_def decoded_def)
  ultimately show ?thesis by (auto simp: session_of_agent_def list_ex_iff)
qed

lemma view_mark:
  assumes "pg_inv X db" and "pg_view X db k = Some r"
  shows "case claim_row_of db (pk_show X k) of None \<Rightarrow> sr_cumulative_accepted r = 0
     | Some ct \<Rightarrow> sr_cumulative_accepted r = ct_cumulative_amount ct \<and> 0 \<le> sint (ct_cumulative_amount ct)"
proof -
  have "0 \<le> sint (ct_cumulative_amount ct)" if "claim_row_of db (pk_show X k) = Some ct" for ct
    using claim_row_ofD [OF assms(1) that] by (simp add: claim_ok_def)
  then show ?thesis
    using assms(2) by (auto simp: pg_view_decoded [OF assms(1)] decoded_def mark_of_def split: option.splits)
qed

lemma admit_tables:
  assumes inv: "pg_inv X db" and adm: "pg_admit_claim X c sig now db = (Ok (Ok a), db')"
  obtains r row where "pg_view X db (cl_session c) = Some r" "evaluate_claim r c now = Ok a"
    "pg_inv X db'" "pg_online db'" "pg_sessions db' = pg_sessions db"
    "pg_evidence db' = pg_evidence db @ [row]" "el_session_pubkey row = pk_show X (cl_session c)"
    "el_decision row = ''ALLOWED''"
    "committed P (pg_claims db') = committed P (pg_claims db)
       + (if P (pk_show X (cl_session c)) then sint (cl_cumulative_amount c) - sint (sr_cumulative_accepted r) else 0)"
    "0 \<le> sint (cl_cumulative_amount c)" "0 \<le> sint (sr_cumulative_accepted r)"
proof -
  have up: "upsert_claim_high_water_mark X c sig now db = (Ok (Ok a), db')"
    using adm by (auto simp: pg_admit_claim_def split: prod.splits sum.splits db_error.splits)
  then have on: "pg_online db" by (auto simp: upsert_claim_high_water_mark_def split: if_splits)
  from inv up show ?thesis
  proof (cases rule: upsert_cases)
    case (accepted r b db\<^sub>1)
    then have [simp]: "b = a" by simp
    have ca: "ca_cumulative_amount a = cl_cumulative_amount c" "ca_nonce a = cl_nonce c"
      using accepted(3) by (auto simp: evaluate_claim_Ok)
    note f = append_evidence_frame [OF accepted(4)]
    have i1: "pg_inv X db\<^sub>1" using append_evidence_inv [OF inv accepted(4)] .
    obtain row where row: "db\<^sub>1 = db\<lparr>pg_evidence := pg_evidence db @ [row]\<rparr>"
      "el_session_pubkey row = pk_show X (cl_session c)" "el_decision row = ''ALLOWED''"
      using accepted(4) by (auto simp: append_evidence_def Let_def split: if_splits sum.splits)
    let ?t = "ticket X c sig"
    have key: "ct_session_pubkey ?t = pk_show X (cl_session c)" "ct_cumulative_amount ?t = cl_cumulative_amount c"
      by (simp_all add: ticket_def)
    note cs = write_mark_cases [OF accepted(5) [simplified] ca]
    have rest: "pg_sessions db' = pg_sessions db" "pg_evidence db' = pg_evidence db @ [row]" "pg_online db' = pg_online db"
      using cs row(1) by auto
    have m: "case claim_row_of db (pk_show X (cl_session c)) of None \<Rightarrow> sr_cumulative_accepted r = 0
       | Some ct \<Rightarrow> sr_cumulative_accepted r = ct_cumulative_amount ct \<and> 0 \<le> sint (ct_cumulative_amount ct)"
      by (rule view_mark [OF inv accepted(2)])
    have same: "claim_row_of db\<^sub>1 = claim_row_of db" "pg_claims db\<^sub>1 = pg_claims db"
      using row(1) by (auto simp: claim_row_of_def)
    have "committed P (pg_claims db') = committed P (pg_claims db)
       + (if P (pk_show X (cl_session c)) then sint (cl_cumulative_amount c) - sint (sr_cumulative_accepted r) else 0)"
    proof (cases "claim_row_of db (pk_show X (cl_session c))")
      case None
      then show ?thesis using cs m key by (auto simp: same committed_snoc)
    next
      case (Some old)
      have "old \<in> set (pg_claims db)" "ct_session_pubkey old = ct_session_pubkey ?t"
        using find_SomeD [OF Some [unfolded claim_row_of_def]] key by auto
      with committed_replace [of "pg_claims db" old ?t P] inv show ?thesis
        using cs m key Some by (auto simp: same pg_inv_def)
    qed
    moreover have "0 \<le> sint (cl_cumulative_amount c)" using cs key by (auto simp: claims_check_def)
    moreover have "0 \<le> sint (sr_cumulative_accepted r)" using m by (auto split: option.splits)
    ultimately show ?thesis using that accepted(2,3,6) rest row(2,3) on by simp
  qed simp_all
qed

lemma admit_spend:
  assumes inv: "pg_inv X db" and adm: "pg_admit_claim X c sig now db = (Ok (Ok a), db')"
    and r: "pg_view X db (cl_session c) = Some r" and s: "agent_spend (pk_show X (sr_agent r)) db = Ok s"
    and bound: "unat (sp_spent s) + unat (ca_delta a) < 2 ^ 63"
  shows "\<exists>s'. agent_spend (pk_show X (sr_agent r)) db' = Ok s'
     \<and> unat (sp_spent s') = unat (sp_spent s) + unat (ca_delta a)
     \<and> unat (sp_calls s') = min (unat (sp_calls s) + 1) (2 ^ 32 - 1)"
proof -
  let ?ag = "pk_show X (sr_agent r)"
  let ?P = "session_of_agent db ?ag"
  let ?T = "committed ?P (pg_claims db)" and ?C = "allowed_calls ?P (pg_evidence db)"
  have own: "?P (pk_show X (cl_session c))" by (rule view_agent [OF inv r])
  obtain r' row where t: "pg_view X db (cl_session c) = Some r'" "evaluate_claim r' c now = Ok a" "pg_online db'"
    "pg_sessions db' = pg_sessions db" "pg_evidence db' = pg_evidence db @ [row]"
    "el_session_pubkey row = pk_show X (cl_session c)" "el_decision row = ''ALLOWED''"
    "committed ?P (pg_claims db') = ?T + (sint (cl_cumulative_amount c) - sint (sr_cumulative_accepted r'))"
    "0 \<le> sint (cl_cumulative_amount c)" "0 \<le> sint (sr_cumulative_accepted r')"
    using own by (auto intro: admit_tables [OF inv adm, where P = ?P])
  have [simp]: "r' = r" using t(1) r by simp
  have lt: "sr_cumulative_accepted r < cl_cumulative_amount c"
    and d: "ca_delta a = cl_cumulative_amount c - sr_cumulative_accepted r"
    using t(2) by (auto simp: evaluate_claim_Ok)
  define D where "D = unat (ca_delta a)"
  have delta: "sint (cl_cumulative_amount c) - sint (sr_cumulative_accepted r) = int D"
  proof -
    have "unat (sr_cumulative_accepted r) < unat (cl_cumulative_amount c)" using lt by (simp add: word_less_nat_alt)
    moreover have "D = unat (cl_cumulative_amount c) - unat (sr_cumulative_accepted r)"
      using lt by (simp add: D_def d unat_sub order_less_imp_le)
    ultimately show ?thesis
      using t(9,10) sint_small [of "cl_cumulative_amount c"] sint_small [of "sr_cumulative_accepted r"]
      by (simp add: sint_nonneg of_nat_diff)
  qed
  have P': "session_of_agent db' ?ag = ?P" by (auto simp: session_of_agent_def t(4))
  have T': "committed ?P (pg_claims db') = ?T + int D" using t(8) delta by simp
  have C': "allowed_calls ?P (pg_evidence db') = Suc ?C" using t(5-7) own by (simp add: allowed_calls_snoc)
  have s': "0 \<le> ?T" "?T < 2 ^ 63" "s = \<lparr>sp_spent = word_of_int ?T, sp_calls = (if ?C < 2 ^ 32 then of_nat ?C else - 1)\<rparr>"
    using s by (auto simp: agent_spend_Ok Let_def)
  have word: "unat (word_of_int n :: u64) = nat n" if "0 \<le> n" "n < 2 ^ 63" for n
    using that by (simp add: unat_eq_nat_uint uint_word_of_int take_bit_int_eq_self)
  have spent: "unat (sp_spent s) = nat ?T" using s' word by simp
  have "int (nat ?T + D) < int (2 ^ 63)"
    using bound unfolding D_def [symmetric] spent by (simp only: of_nat_less_iff)
  then have room: "?T + int D < 2 ^ 63" using s'(1) by simp
  have calls: "unat (if n < 2 ^ 32 then of_nat n else - 1 :: u32) = min n (2 ^ 32 - 1)" for n
    by (auto simp: unat_of_nat take_bit_nat_eq_self unsigned_minus_1_eq_mask mask_eq_exp_minus_1)
  let ?s' = "\<lparr>sp_spent = word_of_int (?T + int D), sp_calls = (if Suc ?C < 2 ^ 32 then of_nat (Suc ?C) else - 1)\<rparr>"
  have "agent_spend ?ag db' = Ok ?s'"
    unfolding agent_spend_Ok Let_def P' T' C' using t(3) s'(1) room by simp
  moreover have "unat (sp_spent ?s') = unat (sp_spent s) + D"
    using word [of "?T + int D"] s'(1) room spent by (simp add: nat_add_distrib)
  moreover have "unat (sp_calls ?s') = min (unat (sp_calls s) + 1) (2 ^ 32 - 1)"
    using calls [of ?C] calls [of "Suc ?C"] s'(3) by simp
  ultimately show ?thesis unfolding D_def by blast
qed

subsection \<open>What a purchase does\<close>

lemma forward_url_cong: "up_base_url u = up_base_url u' \<Longrightarrow> forward_url u = forward_url u'"
  by (intro ext) (simp add: forward_url_def Let_def)

lemma as_db_set_control [simp]: "as_db st = Some (db, c) \<Longrightarrow> as_db (set_control cdb st) = Some (db, cdb)"
  by (auto simp: as_db_def set_control_def split: backend.splits)

lemma usage_record_approvals: "usage_record e (Some c) = Some c' \<Longrightarrow> cd_approvals c' = cd_approvals c"
  by (auto simp: usage_record_def Let_def split: if_splits)

lemma meter_db:
  assumes "as_db st = Some (db, c)"
  shows "\<exists>c'. as_db (meter X i k r p d st) = Some (db, c') \<and> cd_approvals c' = cd_approvals c"
  using assms usage_record_approvals
  by (auto simp: meter_def split: option.splits)

definition approvals_of :: "app_state \<Rightarrow> approval_row list" where
  "approvals_of st = (case as_db st of None \<Rightarrow> [] | Some (db, cdb) \<Rightarrow> cd_approvals cdb)"

lemma meter_approvals [simp]: "approvals_of (meter X i k r p d st) = approvals_of st"
proof (cases "as_db st")
  case None
  then show ?thesis by (simp add: meter_def usage_record_def)
next
  case (Some dc)
  then show ?thesis using meter_db [of st "fst dc" "snd dc" X i k r p d] by (auto simp: approvals_of_def split: prod.splits)
qed

lemma buy_finish_approvals:
  assumes "buy_finish X J W now rid query t st = (res, st', urls)"
    and "store_admit_claim X (bt_claim t) (bt_signature t) now (as_store st) = (ares, b)"
  shows "approvals_of st' = approvals_of (st\<lparr>as_store := b\<rparr>)"
  using assms unfolding buy_finish_def Let_def by (auto split: sum.splits option.splits prod.splits)

lemma buy_cases:
  assumes inv: "gw_inv X st" and u: "as_upstream st = Some u"
    and h: "buy X J W now instant rid uuid resource query header st = (res, st', urls)"
  obtains (free) "gw_view X st' = gw_view X st" "set urls \<subseteq> {catalogue_url u}" "\<nexists>b. res = Ok (Reply200 b)"
  | (charged) raw c sig r price identity u' urls\<^sub>0 st\<^sub>1 a b where
      "price_of W instant (normalise_resource resource) u = (Ok price, u', urls\<^sub>0)" "header = Some raw"
      "buy_check_claim X J now rid raw price (st\<lparr>as_upstream := Some u'\<rparr>) = Ok (c, sig, r)"
      "enforce_agent_policy X rid uuid (sr_agent r) (cl_session c) (normalise_resource resource) price
         (st\<lparr>as_upstream := Some u'\<rparr>) = (Ok identity, st\<^sub>1)"
      "store_admit_claim X c sig now (as_store st\<^sub>1) = (Ok (Ok a), b)"
      "same_sessions (st\<^sub>1\<lparr>as_store := b\<rparr>) st'"
      "urls = urls\<^sub>0 @ [forward_url u (normalise_resource resource) query]"
      "approvals_of st' = approvals_of (st\<^sub>1\<lparr>as_store := b\<rparr>)"
proof -
  obtain pres st\<^sub>1 urls\<^sub>0 where p: "buy_prepare X J W now instant rid uuid resource header st = (pres, st\<^sub>1, urls\<^sub>0)"
    using prod_cases3 by blast
  have same: "gw_view X st\<^sub>1 = gw_view X st" "gw_inv X st\<^sub>1"
    using same_sessions_view [OF buy_prepare_same [of st X J W now instant rid uuid resource header], of X] p inv by auto
  have urls\<^sub>0: "set urls\<^sub>0 \<subseteq> {catalogue_url u}" using buy_prepare_urls [OF p] u by auto
  show ?thesis
  proof (cases "\<exists>t. pres = Ok (Paying t)")
    case False
    then show ?thesis
      using h p same urls\<^sub>0 free
      by (auto simp: buy_def split: sum.splits buy_step.splits)
  next
    case True
    then obtain t where t: "pres = Ok (Paying t)" by blast
    from p [unfolded t] obtain u' raw r where pp: "header = Some raw"
      "bt_resource t = normalise_resource resource"
      "price_of W instant (bt_resource t) u = (Ok (bt_price t), u', urls\<^sub>0)"
      "buy_check_claim X J now rid raw (bt_price t) (st\<lparr>as_upstream := Some u'\<rparr>)
         = Ok (bt_claim t, bt_signature t, r)"
      "enforce_agent_policy X rid uuid (sr_agent r) (cl_session (bt_claim t)) (bt_resource t) (bt_price t)
         (st\<lparr>as_upstream := Some u'\<rparr>) = (Ok (bt_identity t), st\<^sub>1)"
      using u by (elim buy_prepare_Paying) auto
    have up: "as_upstream st\<^sub>1 = Some u'"
      using enforce_upstream [of X rid uuid "sr_agent r" "cl_session (bt_claim t)" "bt_resource t" "bt_price t"
          "st\<lparr>as_upstream := Some u'\<rparr>"] pp(5) by simp
    obtain fres urls\<^sub>1 where f: "buy_finish X J W now rid query t st\<^sub>1 = (fres, st', urls\<^sub>1)"
      "res = fres" "urls = urls\<^sub>0 @ urls\<^sub>1"
      using h p t by (auto simp: buy_def split: prod.splits)
    obtain ares b where a: "store_admit_claim X (bt_claim t) (bt_signature t) now (as_store st\<^sub>1) = (ares, b)"
      by fastforce
    have same': "same_sessions (st\<^sub>1\<lparr>as_store := b\<rparr>) st'" using buy_finish_sessions [OF f(1)] a by simp
    show ?thesis
    proof (cases "\<exists>acc. ares = Ok (Ok acc)")
      case True
      then obtain acc where acc: "ares = Ok (Ok acc)" by blast
      have "urls\<^sub>1 = [forward_url u' (bt_resource t) query]"
        using f(1) a acc up
        by (auto simp: buy_finish_def forward_def Let_def split: sum.splits prod.splits)
      moreover have "forward_url u' = forward_url u"
        using price_of_result [OF pp(3)] by (intro forward_url_cong) simp
      ultimately show ?thesis
        using charged pp a acc same' f(3) buy_finish_approvals [OF f(1) a] by metis
    next
      case False
      then have "urls\<^sub>1 = []" "\<nexists>r. fres = Ok r"
        using f(1) a by (auto simp: buy_finish_def Let_def split: sum.splits prod.splits)
      moreover have "gw_view X st' = gw_view X st"
        using gws.admit_view [OF same(2) a] False same same_sessions_view [OF same', of X]
        by (auto split: sum.splits)
      ultimately show ?thesis using free urls\<^sub>0 f(2,3) by auto
    qed
  qed
qed

text \<open>
  C10. Goods only for an admitted payment of the exact price. A call of \<open>/v1/buy\<close> either
  changes no session and asks the provider for nothing but its price list, or it charged:
  the header carried an unexpired claim signed by the session's agent, whose admission
  moved the session's mark by exactly the listed price, with the agent's envelope
  consulted first; and only then, after the price list, the resource itself was requested.
  A success response is of the second kind.
\<close>

theorem buy_serves_only_paid:
  assumes "gw_inv X st" and "as_upstream st = Some u"
    and "buy X J W now instant rid uuid resource query header st = (res, st', urls)"
  shows "(gw_view X st' = gw_view X st \<and> set urls \<subseteq> {catalogue_url u} \<and> (\<nexists>b. res = Ok (Reply200 b)))
   \<or> (\<exists>raw c sig r price u' urls\<^sub>0 a identity.
        header = Some raw \<and> decode_header X J raw = Some (c, sig) \<and> \<not> is_expired c now
      \<and> gw_view X st (cl_session c) = Some r \<and> verify_claim_signature X (sr_agent r) c sig = Valid
      \<and> price_of W instant (normalise_resource resource) u = (Ok price, u', urls\<^sub>0)
      \<and> fst (enforce_agent_policy X rid uuid (sr_agent r) (cl_session c) (normalise_resource resource) price
          (st\<lparr>as_upstream := Some u'\<rparr>)) = Ok identity
      \<and> evaluate_claim r c now = Ok a \<and> ca_delta a = price
      \<and> gw_view X st' = (gw_view X st)(cl_session c \<mapsto> advance r c sig)
      \<and> set urls\<^sub>0 \<subseteq> {catalogue_url u}
      \<and> urls = urls\<^sub>0 @ [forward_url u (normalise_resource resource) query])"
  using assms
proof (cases rule: buy_cases)
  case free
  then show ?thesis by blast
next
  case (charged raw c sig r price identity u' urls\<^sub>0 st\<^sub>1 a b)
  have inv': "gw_inv X (st\<lparr>as_upstream := Some u'\<rparr>)" using assms(1) by simp
  note chk = buy_check_claim_Ok [OF inv' charged(3)]
  have v1: "gw_view X st\<^sub>1 = gw_view X st" "gw_inv X st\<^sub>1"
    using same_sessions_view [OF enforce_same [of "st\<lparr>as_upstream := Some u'\<rparr>" X rid uuid "sr_agent r"
        "cl_session c" "normalise_resource resource" price], of X] charged(4) assms(1) by auto
  from gws.admit_view [OF v1(2) charged(5)] v1(1) chk(3)
  have ev: "evaluate_claim r c now = Ok a" and v: "backend_view X b = (gw_view X st)(cl_session c \<mapsto> advance r c sig)"
    by auto
  have lt: "sr_cumulative_accepted r < cl_cumulative_amount c"
    and d: "ca_delta a = cl_cumulative_amount c - sr_cumulative_accepted r" using ev by (auto simp: evaluate_claim_Ok)
  have "unat (ca_delta a) = unat price" using chk(5) lt by (simp add: d unat_sub order_less_imp_le)
  then have "ca_delta a = price" by (simp add: word_unat_eq_iff)
  moreover have "gw_view X st' = (gw_view X st)(cl_session c \<mapsto> advance r c sig)"
    using same_sessions_view [OF charged(6), of X] v by simp
  ultimately show ?thesis
    using charged(1,2,4,7) chk(1-4) ev price_of_result [OF charged(1)] by auto
qed

definition demo_serde :: "claim_wire \<Rightarrow> serde" where
  "demo_serde w = \<lparr>serde_claim = (\<lambda>_. Some w), serde_is_json = (\<lambda>_. False)\<rparr>"

lemma normalise_weather: "normalise_resource ''weather'' = ''/weather''"
  "normalise_resource ''/weather'' = ''/weather''"
  by (simp_all add: normalise_resource_def trim_matches_def trim_end_matches_def trim_start_matches_def)

lemma demo_price_path:
  "price_of demo_web 5 ''/weather'' demo_upstream =
     (Ok 40, demo_upstream\<lparr>up_cached := Some (demo_catalogue, 5)\<rparr>, [''http://p/_catalogue''])"
  using demo_price unfolding price_of_def normalise_weather .

lemma demo_header: "decode_header demo_externals (demo_serde (demo_wire c)) [] = Some (c, ucast (cl_cumulative_amount c))"
  by (simp add: decode_header_def base64_decode_def utf8_def demo_serde_def demo_decode)

lemma demo_check:
  "buy_check_claim demo_externals (demo_serde (demo_wire (demo_claim_of 40 2))) 1500 rid [] 40
     (demo_app b\<lparr>as_upstream := u\<rparr>) = Ok (demo_claim_of 40 2, 40, demo_record)"
  if "store_get demo_externals 7 b = Ok demo_record"
proof -
  let ?c = "demo_claim_of 40 2"
  have "decode_header demo_externals (demo_serde (demo_wire ?c)) [] = Some (?c, 40)"
    "verify_claim_signature demo_externals a ?c 40 = Valid" for a
    using demo_header [of ?c] demo_signed [of a ?c] by (simp_all add: demo_claim_of_def)
  moreover have "\<not> is_expired ?c 1500" by (simp add: is_expired_iff demo_claim_of_def)
  moreover have "checked_add_u64 (sr_cumulative_accepted demo_record) 40 = Some 40"
    by (simp add: checked_add_u64_def demo_record_def session_record_new_def)
  ultimately show ?thesis
    using that by (simp add: buy_check_claim_def demo_app_def demo_claim_of_def)
qed

lemma demo_admit:
  "store_admit_claim demo_externals (demo_claim_of 40 2) 40 1500 (Ephemeral (mem_with demo_record))
     = (Ok (Ok \<lparr>ca_cumulative_amount = 40, ca_previous_cumulative = 0, ca_delta = 40, ca_nonce = 2\<rparr>),
        Ephemeral (mem_with demo_marked))"
  using demo_eval [of 2]
  by (simp add: store_admit_claim_def mem_admit_claim_def mem_with_def demo_marked_def advance_def
      demo_claim_of_def demo_record_def session_record_new_def)

lemma demo_app_store [simp]: "as_store (demo_app b) = b"
  by (simp add: demo_app_def)

lemma demo_forward: "\<exists>r. forward demo_web p q u = (Ok r, [forward_url u p q])"
  by (simp add: forward_def demo_web_def)

theorem buy_serves_only_paid_witness:
  "gw_inv demo_externals (demo_app (Ephemeral (mem_with demo_record)))
   \<and> (\<exists>b st'. buy demo_externals (demo_serde (demo_wire (demo_claim_of 40 2))) demo_web 1500 5 ''r'' ''u'' ''weather'' []
        (Some []) (demo_app (Ephemeral (mem_with demo_record)))
      = (Ok (Reply200 b), st', [''http://p/_catalogue'', ''http://p/weather''])
      \<and> gw_view demo_externals st' 7 = Some demo_marked)"
proof -
  let ?st = "demo_app (Ephemeral (mem_with demo_record))" and ?J = "demo_serde (demo_wire (demo_claim_of 40 2))"
  obtain res st' urls where h: "buy demo_externals ?J demo_web 1500 5 ''r'' ''u'' ''weather'' [] (Some []) ?st
      = (res, st', urls)" using prod_cases3 by blast
  have get: "store_get demo_externals 7 (Ephemeral (mem_with demo_record)) = Ok demo_record"
    by (simp add: store_get_def mem_get_def mem_with_def demo_record_def session_record_new_def)
  have inv: "gw_inv demo_externals ?st" by (simp add: demo_app_def backend_inv_def)
  have up: "as_upstream ?st = Some demo_upstream" by (simp add: demo_app_def)
  have url: "forward_url demo_upstream ''/weather'' [] = ''http://p/weather''"
    by (simp add: forward_url_def normalise_weather demo_upstream_def upstream_new_def trim_end_matches_def)
  have enf: "enforce_agent_policy demo_externals ''r'' ''u'' a k p q (?st\<lparr>as_upstream := u\<rparr>)
      = (Ok agent_identity_default, ?st\<lparr>as_upstream := u\<rparr>)" for a k p q u
    by (simp add: enforce_agent_policy_def as_db_def demo_app_def)
  have ok: "\<exists>b. res = Ok (Reply200 b)"
    using h demo_check [OF get, of "''r''"] demo_forward [of "''/weather''" "[]"
      "demo_upstream\<lparr>up_cached := Some (demo_catalogue, 5)\<rparr>"]
    by (auto simp: buy_def buy_prepare_def up normalise_weather demo_price_path enf Let_def buy_finish_def
        demo_admit)
  from buy_serves_only_paid [OF inv up h] ok obtain raw c sig r price u' urls\<^sub>0 where p: "Some [] = Some raw"
    "decode_header demo_externals ?J raw = Some (c, sig)" "gw_view demo_externals ?st (cl_session c) = Some r"
    "price_of demo_web 5 (normalise_resource ''weather'') demo_upstream = (Ok price, u', urls\<^sub>0)"
    "gw_view demo_externals st' = (gw_view demo_externals ?st)(cl_session c \<mapsto> advance r c sig)"
    "urls = urls\<^sub>0 @ [forward_url demo_upstream (normalise_resource ''weather'') []]" by blast
  have c: "c = demo_claim_of 40 2" "sig = 40" using p(1,2) demo_header [of "demo_claim_of 40 2"]
    by (auto simp: demo_claim_of_def)
  then have "r = demo_record" using p(3)
    by (simp add: demo_app_def backend_view_def mem_with_def demo_claim_of_def demo_record_def session_record_new_def)
  then show ?thesis
    using h ok inv p(4-6) c url
    by (auto simp: normalise_weather demo_price_path demo_marked_def demo_claim_of_def)
qed

subsection \<open>The envelope bounds what is spent\<close>

lemma agent_policy_fits:
  assumes "get_agent_by_pubkey key cdb = Ok (Some rec)" and "ar_policy rec = Some p"
  shows "unat (ap_max_total p) < 2 ^ 63"
  using assms
  by (auto simp: get_agent_by_pubkey_def optional_agent_def agent_from_row_def policy_from_row_def
      to_u64_def sint_nonneg split: if_splits option.splits sum.splits)

definition consumes_one :: "string \<Rightarrow> string \<Rightarrow> u64 \<Rightarrow> control \<Rightarrow> control \<Rightarrow> bool" where
  \<comment> \<open>the oldest approved row for this agent, resource and price is marked as used, and no other row changes\<close>
  "consumes_one agent_id resource price c c' \<longleftrightarrow>
     (\<exists>v\<^sub>0 \<in> set (cd_approvals c). approval_matches agent_id resource price ''approved'' v\<^sub>0
       \<and> (\<forall>v \<in> set (cd_approvals c). approval_matches agent_id resource price ''approved'' v \<longrightarrow>
            sint (vw_created_at v\<^sub>0) \<le> sint (vw_created_at v))
       \<and> cd_approvals c' = map (\<lambda>v. if vw_approval_id v = vw_approval_id v\<^sub>0
            then v\<lparr>vw_state := ''consumed''\<rparr> else v) (cd_approvals c))"

definition asks_human :: "string \<Rightarrow> string \<Rightarrow> string \<Rightarrow> u64 \<Rightarrow> control \<Rightarrow> control \<Rightarrow> bool" where
  \<comment> \<open>one pending proposal is on the table: the one that was there, or a new one (whose id must be free)\<close>
  "asks_human uuid agent_id resource price c c' \<longleftrightarrow>
     (if list_ex (approval_matches agent_id resource price ''pending'') (cd_approvals c) \<or> 60 < length uuid
         \<or> list_ex (\<lambda>v. vw_approval_id v = ''apr_'' @ uuid) (cd_approvals c)
      then cd_approvals c' = cd_approvals c
      else \<exists>v. cd_approvals c' = cd_approvals c @ [v] \<and> vw_approval_id v = ''apr_'' @ uuid \<and> vw_calls v = 1
        \<and> approval_matches agent_id resource price ''pending'' v)"

definition enforced :: "string \<Rightarrow> string \<Rightarrow> agent_record \<Rightarrow> agent_policy \<Rightarrow> string \<Rightarrow> u64 \<Rightarrow> spend \<Rightarrow> app_state
    \<Rightarrow> (agent_identity, denial) result \<times> app_state \<Rightarrow> bool" where
  \<comment> \<open>what the paid path answers an active agent with policy \<open>p\<close>, and what it does to the approvals\<close>
  "enforced rid uuid a p resource price spend st out \<longleftrightarrow>
     (\<exists>db cdb cdb' identity. as_db st = Some (db, cdb) \<and> as_db (snd out) = Some (db, cdb')
       \<and> identity = \<lparr>ai_agent_id = Some (ar_agent_id a), ai_workspace_id = ar_workspace_id a\<rparr>
       \<and> (if \<not> within_envelope p resource price spend
          then fst out = Err (denial_new (policy_denial (refusal_of Active p resource price spend)) rid)
            \<and> cd_approvals cdb' = cd_approvals cdb
          else if \<not> must_ask (ar_mode a) p price then out = (Ok identity, st)
          else if list_ex (approval_matches (ar_agent_id a) resource price ''approved'') (cd_approvals cdb)
          then out = (Ok identity, set_control (cdb\<lparr>cd_approvals := cd_approvals cdb'\<rparr>) st)
            \<and> consumes_one (ar_agent_id a) resource price cdb cdb'
          else fst out = Err (denial_new ERR_APPROVAL_REQUIRED rid)
            \<and> asks_human uuid (ar_agent_id a) resource price cdb cdb'))"

lemma sort_key_least:
  assumes "sort_key f xs = x # rest"
  shows "x \<in> set xs" and "\<forall>y \<in> set xs. f x \<le> f y"
proof -
  have m: "set (x # rest) = set xs" using assms set_sort [of f xs] by simp
  then show "x \<in> set xs" by auto
  have "sorted (map f (x # rest))" using sorted_sort_key [of f xs] unfolding assms .
  then have "\<forall>y \<in> set (x # rest). f x \<le> f y" by simp
  then show "\<forall>y \<in> set xs. f x \<le> f y" unfolding m .
qed

lemma consume_approval_exact:
  assumes "cd_online c" and "unat price < 2 ^ 63"
  obtains (used) c' where "list_ex (approval_matches a r price ''approved'') (cd_approvals c)"
      "consume_approval a r price c = (Ok True, c')" "consumes_one a r price c c'"
      "c' = c\<lparr>cd_approvals := cd_approvals c'\<rparr>"
  | (missing) "\<not> list_ex (approval_matches a r price ''approved'') (cd_approvals c)"
      "consume_approval a r price c = (Ok False, c)"
proof -
  let ?open = "filter (approval_matches a r price ''approved'') (cd_approvals c)"
  show thesis
  proof (cases "sort_key (\<lambda>v. sint (vw_created_at v)) ?open")
    case Nil
    then have "set ?open = {}" using set_sort [of "\<lambda>v. sint (vw_created_at v)" ?open] by simp
    then have no: "\<not> list_ex (approval_matches a r price ''approved'') (cd_approvals c)"
      by (auto simp: list_ex_iff)
    have "consume_approval a r price c = (Ok False, c)" using Nil assms by (simp add: consume_approval_def to_i64_def)
    with no show thesis by (rule missing)
  next
    case (Cons v\<^sub>0 rest)
    let ?c' = "c\<lparr>cd_approvals := map (\<lambda>v. if vw_approval_id v = vw_approval_id v\<^sub>0
       then v\<lparr>vw_state := ''consumed''\<rparr> else v) (cd_approvals c)\<rparr>"
    note least = sort_key_least [OF Cons]
    have "v\<^sub>0 \<in> set (cd_approvals c)" "approval_matches a r price ''approved'' v\<^sub>0" using least(1) by simp_all
    moreover have "\<forall>v \<in> set (cd_approvals c). approval_matches a r price ''approved'' v \<longrightarrow>
        sint (vw_created_at v\<^sub>0) \<le> sint (vw_created_at v)" using least(2) by simp
    ultimately have "consumes_one a r price c ?c'" unfolding consumes_one_def by (intro bexI [of _ v\<^sub>0] conjI) simp_all
    moreover have "consume_approval a r price c = (Ok True, ?c')" using Cons assms by (simp add: consume_approval_def to_i64_def)
    moreover have "list_ex (approval_matches a r price ''approved'') (cd_approvals c)"
      using least(1) unfolding list_ex_iff by auto
    moreover have "?c' = c\<lparr>cd_approvals := cd_approvals ?c'\<rparr>" by simp
    ultimately show thesis by (intro used [of ?c'])
  qed
qed

lemma raise_approval_asks:
  assumes "cd_online c" and "unat price < 2 ^ 63" and "list_ex (\<lambda>r. aw_agent_id r = a) (cd_agents c)"
  shows "asks_human uuid a resource price c (raise_approval uuid a resource price c)"
  using assms
  by (simp add: asks_human_def raise_approval_def has_pending_approval_def to_i64_def create_approval_def fits_def
      approval_matches_def split: bool.splits)

lemma agent_by_key_listed:
  assumes "get_agent_by_pubkey key c = Ok (Some a)"
  shows "cd_online c" and "list_ex (\<lambda>r. aw_agent_id r = ar_agent_id a) (cd_agents c)"
  using assms
  by (auto simp: get_agent_by_pubkey_def optional_agent_def agent_from_row_def list_ex_iff
      split: if_splits option.splits sum.splits dest!: find_SomeD)

lemma enforce_exact:
  assumes db: "as_db st = Some (db, cdb)" and a: "get_agent_by_pubkey (pk_show X key) cdb = Ok (Some a)"
    and active: "ar_status a = Active" and p: "ar_policy a = Some p" and s: "agent_spend (pk_show X key) db = Ok spend"
  shows "enforced rid uuid a p resource price spend st (enforce_agent_policy X rid uuid key session resource price st)"
proof -
  let ?i = "\<lparr>ai_agent_id = Some (ar_agent_id a), ai_workspace_id = ar_workspace_id a\<rparr>"
  let ?out = "enforce_agent_policy X rid uuid key session resource price st"
  note run = enforce_agent_policy_def [of X rid uuid key session resource price st, unfolded Let_def db, simplified,
      unfolded a, simplified active p s option.case sum.case, simplified, unfolded evaluate_envelope]
  consider (refused) "\<not> within_envelope p resource price spend"
    | (allowed) "within_envelope p resource price spend" "\<not> must_ask (ar_mode a) p price"
    | (asked) "within_envelope p resource price spend" "must_ask (ar_mode a) p price" by blast
  then show ?thesis
  proof cases
    case refused
    then have out: "?out = (Err (denial_new (policy_denial (refusal_of Active p resource price spend)) rid),
        meter X ?i (Some session) resource price (reason_as_str (policy_denial (refusal_of Active p resource price spend))) st)"
      by (simp add: run)
    show ?thesis unfolding enforced_def out using refused db meter_db [OF db] by auto
  next
    case allowed
    then show ?thesis using db by (simp add: enforced_def run)
  next
    case asked
    have "unat price < 2 ^ 63" using asked(1) agent_policy_fits [OF a p] by (simp add: within_envelope_def)
    with agent_by_key_listed(1) [OF a] show ?thesis
    proof (cases rule: consume_approval_exact [of cdb price "ar_agent_id a" resource])
      case (used c')
      then show ?thesis using asked db by (auto simp: enforced_def run intro!: exI [of _ c'])
    next
      case missing
      let ?c = "raise_approval uuid (ar_agent_id a) resource price cdb"
      have out: "?out = (Err (denial_new ERR_APPROVAL_REQUIRED rid),
          meter X ?i (Some session) resource price (reason_as_str ERR_APPROVAL_REQUIRED) (set_control ?c st))"
        using asked missing(2) by (simp add: run)
      obtain c' where c': "as_db (snd ?out) = Some (db, c')" "cd_approvals c' = cd_approvals ?c"
        using meter_db [OF as_db_set_control [OF db], of X ?i "Some session" resource price "reason_as_str ERR_APPROVAL_REQUIRED" ?c]
        unfolding out by auto
      have "asks_human uuid (ar_agent_id a) resource price cdb ?c"
        by (rule raise_approval_asks) (use \<open>unat price < 2 ^ 63\<close> agent_by_key_listed [OF a] in auto)
      then have "asks_human uuid (ar_agent_id a) resource price cdb c'" unfolding asks_human_def c'(2) .
      then show ?thesis unfolding enforced_def using asked missing(1) db c'(1) out by auto
    qed
  qed
qed

lemma enforce_Ok:
  assumes "enforce_agent_policy X rid uuid agent session resource price st = (Ok identity, st')"
    and "as_db st = Some (db, cdb)"
  shows "case get_agent_by_pubkey (pk_show X agent) cdb of
     Err e \<Rightarrow> False
   | Ok None \<Rightarrow> \<not> as_require_agent_policy st
   | Ok (Some rec) \<Rightarrow> ar_status rec = Active \<and>
       (case ar_policy rec of
          None \<Rightarrow> \<not> as_require_agent_policy st
        | Some p \<Rightarrow> \<exists>s cdb'. agent_spend (pk_show X agent) db = Ok s \<and> within_envelope p resource price s
            \<and> as_db st' = Some (db, cdb')
            \<and> (if must_ask (ar_mode rec) p price then consumes_one (ar_agent_id rec) resource price cdb cdb'
               else cd_approvals cdb' = cd_approvals cdb))"
proof -
  note h = assms(1) [unfolded enforce_agent_policy_def Let_def assms(2), simplified]
  show ?thesis
  proof (cases "get_agent_by_pubkey (pk_show X agent) cdb")
    case (Inl e)
    then show ?thesis using h by simp
  next
    case (Inr found)
    show ?thesis
    proof (cases found)
      case None
      then show ?thesis using h Inr by (simp split: if_splits)
    next
      case (Some rec)
      note g = Inr [unfolded Some]
      have active: "ar_status rec = Active" using h g by (simp split: if_splits)
      show ?thesis
      proof (cases "ar_policy rec")
        case None
        then show ?thesis using h g active by (simp split: if_splits)
      next
        case (Some p)
        obtain s where s: "agent_spend (pk_show X agent) db = Ok s"
          using h g active Some by (cases "agent_spend (pk_show X agent) db") simp_all
        from enforce_exact [OF assms(2) g active Some s, of rid uuid resource price session]
        show ?thesis using g active Some s assms(2) unfolding assms(1) enforced_def by (auto split: if_splits)
      qed
    qed
  qed
qed

text \<open>
  C11. The envelope binds every purchase. If a call of \<open>/v1/buy\<close> on a durable gateway
  charged a session, then the control plane could be read and the session's agent, if
  registered, is active; if it has a policy, the purchase was within it (allowlist, price
  cap, call count), and the agent's derived spend grew by exactly the price and is still
  within the authorized total. If the purchase needed a human (human mode, or a price at the
  threshold), the table after it differs from the table before it in the oldest approved
  row for this agent, resource and price, which is now consumed; if it needed none, no
  approval changed. With \<open>AGENTPAY_REQUIRE_AGENT_POLICY\<close> an agent without record or
  policy is never charged.
\<close>

theorem purchase_within_envelope:
  assumes "pg_inv X db" and "as_store st = Durable db cdb" and "as_upstream st = Some u"
    and "buy X J W now instant rid uuid resource query header st = (res, st', urls)"
    and "gw_view X st k = Some r" and "gw_view X st' k \<noteq> Some r"
  shows "case get_agent_by_pubkey (pk_show X (sr_agent r)) cdb of
     Err e \<Rightarrow> False
   | Ok None \<Rightarrow> \<not> as_require_agent_policy st
   | Ok (Some rec) \<Rightarrow> ar_status rec = Active \<and>
       (case ar_policy rec of
          None \<Rightarrow> \<not> as_require_agent_policy st
        | Some p \<Rightarrow> \<exists>price s s' db' cdb'. fst (price_of W instant (normalise_resource resource) u) = Ok price
            \<and> agent_spend (pk_show X (sr_agent r)) db = Ok s
            \<and> within_envelope p (normalise_resource resource) price s
            \<and> as_store st' = Durable db' cdb'
            \<and> (if must_ask (ar_mode rec) p price
               then consumes_one (ar_agent_id rec) (normalise_resource resource) price cdb cdb'
               else cd_approvals cdb' = cd_approvals cdb)
            \<and> agent_spend (pk_show X (sr_agent r)) db' = Ok s'
            \<and> unat (sp_spent s') = unat (sp_spent s) + unat price
            \<and> sp_spent s' \<le> ap_max_total p)"
proof -
  have inv: "gw_inv X st" using assms(1,2) by (simp add: backend_inv_def)
  from inv assms(3,4) show ?thesis
  proof (cases rule: buy_cases)
    case free
    then show ?thesis using assms(5,6) by simp
  next
    case (charged raw c sig r' price identity u' urls\<^sub>0 st\<^sub>1 a b)
    let ?st = "st\<lparr>as_upstream := Some u'\<rparr>"
    have inv': "gw_inv X ?st" using inv by simp
    note chk = buy_check_claim_Ok [OF inv' charged(3)]
    have same: "same_sessions ?st st\<^sub>1" using enforce_same charged(4) by (metis snd_conv)
    then obtain cdb\<^sub>1 where st\<^sub>1: "as_store st\<^sub>1 = Durable db cdb\<^sub>1" using assms(2) by (auto simp: same_sessions_def)
    obtain db' where adm: "pg_admit_claim X c sig now db = (Ok (Ok a), db')" "b = Durable db' cdb\<^sub>1"
      using charged(5) by (auto simp: st\<^sub>1 store_admit_claim_def split: prod.splits)
    obtain cdb' where st': "as_store st' = Durable db' cdb'" using charged(6) adm(2) by (auto simp: same_sessions_def)
    have view: "pg_view X db (cl_session c) = Some r'" using chk(3) assms(2) by (simp add: backend_view_def)
    have "pg_view X db' = (pg_view X db)(cl_session c \<mapsto> advance r' c sig)" and ev: "evaluate_claim r' c now = Ok a"
      using pgs.admit_view [OF assms(1) adm(1)] view by auto
    then have "k = cl_session c" using assms(2,5,6) st' by (auto simp: backend_view_def split: if_splits)
    then have [simp]: "r' = r" using chk(3) assms(5) by simp
    have lt: "sr_cumulative_accepted r < cl_cumulative_amount c"
      and d: "ca_delta a = cl_cumulative_amount c - sr_cumulative_accepted r" using ev by (auto simp: evaluate_claim_Ok)
    have delta: "unat (ca_delta a) = unat price" using chk(5) lt by (simp add: d unat_sub order_less_imp_le)
    have db: "as_db ?st = Some (db, cdb)" using assms(2) by (simp add: as_db_def)
    note enf = enforce_Ok [OF charged(4) db, simplified]
    have kept: "cd_approvals cdb' = cd_approvals cdb\<^sub>1"
      using charged(8) st' adm(2) by (simp add: approvals_of_def as_db_def)
    have db\<^sub>1: "as_db st\<^sub>1 = Some (db, cdb\<^sub>1)" using st\<^sub>1 by (simp add: as_db_def)
    have spend: "\<exists>s'. agent_spend (pk_show X (sr_agent r)) db' = Ok s'
        \<and> unat (sp_spent s') = unat (sp_spent s) + unat price \<and> sp_spent s' \<le> ap_max_total p"
      if s: "agent_spend (pk_show X (sr_agent r)) db = Ok s"
        and within: "within_envelope p (normalise_resource resource) price s" and fits: "unat (ap_max_total p) < 2 ^ 63" for s p
    proof -
      have le: "unat (sp_spent s) + unat price \<le> unat (ap_max_total p)" using within by (simp add: within_envelope_def)
      with admit_spend [OF assms(1) adm(1) view, simplified, OF s] delta fits show ?thesis
        by (auto simp: word_le_nat_alt)
    qed
    have pays: "\<exists>price s s' db' cdb'. fst (price_of W instant (normalise_resource resource) u) = Ok price
            \<and> agent_spend (pk_show X (sr_agent r)) db = Ok s
            \<and> within_envelope p (normalise_resource resource) price s
            \<and> as_store st' = Durable db' cdb'
            \<and> (if must_ask (ar_mode rec) p price
               then consumes_one (ar_agent_id rec) (normalise_resource resource) price cdb cdb'
               else cd_approvals cdb' = cd_approvals cdb)
            \<and> agent_spend (pk_show X (sr_agent r)) db' = Ok s'
            \<and> unat (sp_spent s') = unat (sp_spent s) + unat price
            \<and> sp_spent s' \<le> ap_max_total p"
      if g: "get_agent_by_pubkey (pk_show X (sr_agent r)) cdb = Ok (Some rec)" "ar_policy rec = Some p" for rec p
    proof -
      obtain s where s: "agent_spend (pk_show X (sr_agent r)) db = Ok s" "within_envelope p (normalise_resource resource) price s"
        and ap: "if must_ask (ar_mode rec) p price then consumes_one (ar_agent_id rec) (normalise_resource resource) price cdb cdb\<^sub>1
          else cd_approvals cdb\<^sub>1 = cd_approvals cdb"
        using enf g db\<^sub>1 by auto
      have "if must_ask (ar_mode rec) p price then consumes_one (ar_agent_id rec) (normalise_resource resource) price cdb cdb'
          else cd_approvals cdb' = cd_approvals cdb"
        using ap unfolding consumes_one_def kept .
      then show ?thesis using spend [OF s agent_policy_fits [OF g]] s charged(1) st' by (metis fst_conv)
    qed
    show ?thesis
    proof (cases "\<exists>rec p. get_agent_by_pubkey (pk_show X (sr_agent r)) cdb = Ok (Some rec) \<and> ar_policy rec = Some p")
      case True
      then obtain rec p where g: "get_agent_by_pubkey (pk_show X (sr_agent r)) cdb = Ok (Some rec)" "ar_policy rec = Some p"
        by blast
      have "ar_status rec = Active" using enf g by simp
      then show ?thesis unfolding g(1) sum.case option.case g(2) using pays [OF g] by (rule conjI)
    next
      case False
      then show ?thesis using enf by (auto split: sum.splits option.splits)
    qed
  qed
qed

definition demo_envelope :: control where
  "demo_envelope = demo_control\<lparr>cd_agents := map (\<lambda>a. a\<lparr>aw_mode := ''autonomous''\<rparr>) (cd_agents demo_control),
     cd_policies := [\<lparr>pl_agent_id = ''agt1'', pl_max_total = 100, pl_max_per_call = 40,
       pl_approval_threshold = None, pl_allowed_resources = None, pl_max_calls = None\<rparr>]\<rparr>"

lemma demo_db_empty: "pg_claims demo_db = []" "pg_evidence demo_db = []"
  using pg_open_cases [of demo_externals demo_record "pg_empty 1000" "Ok ()" demo_db] demo_pg_opened
  by (auto simp: demo_db_def prod_eq_iff pg_empty_def)

definition demo_yes :: "string \<Rightarrow> approval_row" where
  "demo_yes state = \<lparr>vw_approval_id = ''apr_1'', vw_agent_id = ''agt1'', vw_session_pubkey = None, vw_resource = ''/weather'',
     vw_price = 40, vw_calls = 1, vw_state = state, vw_reason = None, vw_created_at = 3, vw_decided_at = Some 4,
     vw_decided_by = Some ''op1'', vw_decided_by_label = Some ''Ann''\<rparr>"

definition demo_asking :: "string \<Rightarrow> control" where
  \<comment> \<open>an agent in human mode, with one approval\<close>
  "demo_asking state = demo_envelope\<lparr>cd_agents := cd_agents demo_control, cd_approvals := [demo_yes state]\<rparr>"

lemma demo_agent:
  "\<exists>rec. get_agent_by_pubkey (pk_show demo_externals 1) (demo_asking state) = Ok (Some rec) \<and> ar_status rec = Active
     \<and> ar_mode rec = Human \<and> ar_agent_id rec = ''agt1'' \<and> ar_policy rec = Some \<lparr>ap_max_total = 100, ap_max_per_call = 40,
       ap_approval_threshold = None, ap_allowed_resources = None, ap_max_calls = None\<rparr>"
  by (simp add: get_agent_by_pubkey_def optional_agent_def demo_asking_def demo_envelope_def demo_control_def agent_from_row_def
      policy_row_of_def policy_from_row_def to_u64_def from_str_or_human_def from_str_or_suspended_def)

lemma demo_spend: "agent_spend a demo_db = Ok \<lparr>sp_spent = 0, sp_calls = 0\<rparr>"
  using demo_db_facts(2) by (simp add: agent_spend_Ok demo_db_empty committed_def allowed_calls_def)

lemma demo_consume: "consume_approval ''agt1'' ''/weather'' 40 (demo_asking ''approved'') = (Ok True, demo_asking ''consumed'')"
  by (simp add: consume_approval_def to_i64_def demo_asking_def demo_envelope_def demo_control_def demo_yes_def approval_matches_def)

lemma demo_enforce:
  "\<exists>i. enforce_agent_policy demo_externals rid uuid 1 7 ''/weather'' 40
       (demo_app (Durable demo_db (demo_asking ''approved''))\<lparr>as_upstream := u\<rparr>)
     = (Ok i, demo_app (Durable demo_db (demo_asking ''consumed''))\<lparr>as_upstream := u\<rparr>)"
proof -
  obtain rec where "get_agent_by_pubkey (pk_show demo_externals 1) (demo_asking ''approved'') = Ok (Some rec)" "ar_status rec = Active"
    "ar_mode rec = Human" "ar_agent_id rec = ''agt1''" "ar_policy rec = Some \<lparr>ap_max_total = 100, ap_max_per_call = 40,
       ap_approval_threshold = None, ap_allowed_resources = None, ap_max_calls = None\<rparr>" using demo_agent by blast
  then show ?thesis
    by (simp add: enforce_agent_policy_def as_db_def Let_def demo_spend evaluate_def checked_add_u64_def demo_consume
        set_control_def demo_app_def)
qed

lemma demo_pg_admit:
  "\<exists>db'. pg_admit_claim demo_externals (demo_claim_of 40 2) 40 1500 demo_db
      = (Ok (Ok \<lparr>ca_cumulative_amount = 40, ca_previous_cumulative = 0, ca_delta = 40, ca_nonce = 2\<rparr>), db')
     \<and> pg_view demo_externals db' 7 = Some demo_marked"
  using pg_admit_accepts [OF demo_db_facts(1,2), of "demo_claim_of 40 2" demo_record 1500 _ 40, OF _ _ _ demo_eval]
    demo_db_facts(3,4) by (auto simp: demo_claim_of_def demo_marked_def)

theorem purchase_within_envelope_witness:
  "\<exists>res db' cdb' urls s' st'. cd_approvals (demo_asking ''approved'') = [demo_yes ''approved''] \<and> buy demo_externals (demo_serde (demo_wire (demo_claim_of 40 2))) demo_web 1500 5 ''r'' ''u''
        ''weather'' [] (Some []) (demo_app (Durable demo_db (demo_asking ''approved''))) = (res, st', urls)
     \<and> as_store st' = Durable db' cdb' \<and> cd_approvals cdb' = [demo_yes ''consumed''] \<and> agent_spend (pk_show demo_externals 1) db' = Ok s' \<and> sp_spent s' \<le> 100"
proof -
  let ?st = "demo_app (Durable demo_db (demo_asking ''approved''))" and ?st' = "demo_app (Durable demo_db (demo_asking ''consumed''))" and ?J = "demo_serde (demo_wire (demo_claim_of 40 2))"
  obtain res st' urls where h: "buy demo_externals ?J demo_web 1500 5 ''r'' ''u'' ''weather'' [] (Some []) ?st
      = (res, st', urls)" using prod_cases3 by blast
  have get: "store_get demo_externals 7 (Durable demo_db (demo_asking ''approved'')) = Ok demo_record"
    using demo_pg_get by (simp add: store_get_def)
  have up: "as_upstream ?st = Some demo_upstream" by (simp add: demo_app_def)
  obtain i where enf: "enforce_agent_policy demo_externals ''r'' ''u'' (sr_agent demo_record) (cl_session (demo_claim_of 40 2))
      ''/weather'' 40 (?st\<lparr>as_upstream := Some (demo_upstream\<lparr>up_cached := Some (demo_catalogue, 5)\<rparr>)\<rparr>)
      = (Ok i, ?st'\<lparr>as_upstream := Some (demo_upstream\<lparr>up_cached := Some (demo_catalogue, 5)\<rparr>)\<rparr>)"
    using demo_enforce [of "''r''" "''u''" "Some (demo_upstream\<lparr>up_cached := Some (demo_catalogue, 5)\<rparr>)"]
    by (auto simp: demo_record_def session_record_new_def demo_claim_of_def)
  obtain db' where adm: "pg_admit_claim demo_externals (demo_claim_of 40 2) 40 1500 demo_db
      = (Ok (Ok \<lparr>ca_cumulative_amount = 40, ca_previous_cumulative = 0, ca_delta = 40, ca_nonce = 2\<rparr>), db')"
    "pg_view demo_externals db' 7 = Some demo_marked" using demo_pg_admit by blast
  obtain f where f: "forward demo_web ''/weather'' [] (demo_upstream\<lparr>up_cached := Some (demo_catalogue, 5)\<rparr>)
      = (Ok f, [forward_url (demo_upstream\<lparr>up_cached := Some (demo_catalogue, 5)\<rparr>) ''/weather'' []])"
    using demo_forward by blast
  have "\<exists>cdb'. as_store st' = Durable db' cdb'"
  proof -
    have "same_sessions (?st'\<lparr>as_upstream := Some (demo_upstream\<lparr>up_cached := Some (demo_catalogue, 5)\<rparr>),
        as_store := Durable db' (demo_asking ''consumed'')\<rparr>) st'"
      using h demo_check [OF get, of "''r''"] f
      by (auto simp: buy_def buy_prepare_def up normalise_weather demo_price_path enf Let_def buy_finish_def
          store_admit_claim_def adm)
    then show ?thesis by (auto simp: same_sessions_def)
  qed
  then obtain cdb' where st': "as_store st' = Durable db' cdb'" by blast
  have store: "as_store ?st = Durable demo_db (demo_asking ''approved'')" by simp
  have v: "gw_view demo_externals ?st 7 = Some demo_record" "gw_view demo_externals st' 7 \<noteq> Some demo_record"
    using demo_db_facts(3) adm(2)
    by (simp_all add: st' backend_view_def demo_marked_def demo_record_def session_record_new_def advance_def demo_claim_of_def)
  have one: "cd_approvals (demo_asking ''approved'') = [demo_yes ''approved'']"
    "(demo_yes ''approved'')\<lparr>vw_state := ''consumed''\<rparr> = demo_yes ''consumed''"
    by (simp_all add: demo_asking_def demo_yes_def)
  obtain rec where rec: "get_agent_by_pubkey (pk_show demo_externals (sr_agent demo_record)) (demo_asking ''approved'') = Ok (Some rec)"
    "ar_mode rec = Human" "ar_policy rec = Some \<lparr>ap_max_total = 100, ap_max_per_call = 40,
       ap_approval_threshold = None, ap_allowed_resources = None, ap_max_calls = None\<rparr>"
    using demo_agent [of "''approved''"] by (auto simp: demo_record_def session_record_new_def)
  from purchase_within_envelope [OF demo_db_facts(1) store up h v, unfolded rec(1) sum.case option.case rec(3)]
  obtain price s' where "consumes_one (ar_agent_id rec) (normalise_resource ''weather'') price (demo_asking ''approved'') cdb'"
    "agent_spend (pk_show demo_externals (sr_agent demo_record)) db' = Ok s'" "sp_spent s' \<le> 100"
    using st' rec(2) by (auto simp: must_ask_def)
  then show ?thesis using h st' one by (auto simp: consumes_one_def demo_record_def session_record_new_def)
qed

subsection \<open>Where the bounds stop\<close>

lemma prepared_exact:
  assumes p: "buy_prepare X J W now i rid uuid resource header s = (Ok (Paying t), s', urls)"
    and s: "gw_inv X s" "gw_view X s k = Some r" and k: "cl_session (bt_claim t) = k"
  shows "unat (cl_cumulative_amount (bt_claim t)) = unat (sr_cumulative_accepted r) + unat (bt_price t)
    \<and> gw_view X s' = gw_view X s \<and> gw_inv X s'
    \<and> verify_claim_signature X (sr_agent r) (bt_claim t) (bt_signature t) = Valid"
proof -
  from p obtain u' raw q where c: "buy_check_claim X J now rid raw (bt_price t) (s\<lparr>as_upstream := Some u'\<rparr>)
      = Ok (bt_claim t, bt_signature t, q)" by (auto elim: buy_prepare_Paying)
  have "gw_inv X (s\<lparr>as_upstream := Some u'\<rparr>)" using s(1) by simp
  note chk = buy_check_claim_Ok [OF this c]
  have "q = r" using chk(3) s(2) k by simp
  moreover have "gw_view X s' = gw_view X s \<and> gw_inv X s' = gw_inv X s"
    using same_sessions_view [OF buy_prepare_same [of s X J W now i rid uuid resource header], of X] p by simp
  ultimately show ?thesis using chk(4,5) s(1) by simp
qed

lemma finished_served:
  assumes f: "buy_finish X J W now rid query t s = (Ok reply, s', urls)" and s: "gw_inv X s" and k: "cl_session (bt_claim t) = k"
  shows "\<exists>a q. urls \<noteq> [] \<and> gw_view X s k = Some q \<and> evaluate_claim q (bt_claim t) now = Ok a
    \<and> gw_view X s' k = Some (advance q (bt_claim t) (bt_signature t)) \<and> gw_inv X s'"
proof -
  obtain ares b where a: "store_admit_claim X (bt_claim t) (bt_signature t) now (as_store s) = (ares, b)" by fastforce
  from f a obtain acc where acc: "ares = Ok (Ok acc)" and u: "urls \<noteq> []"
    unfolding buy_finish_def by (auto simp: Let_def forward_def split: sum.splits prod.splits option.splits)
  have "backend_inv X b" using gws.admit_inv [OF s, of "bt_claim t" "bt_signature t" now] a by simp
  with gws.admit_view [OF s a] acc u same_sessions_view [OF buy_finish_sessions [OF f], of X] a k show ?thesis by auto
qed

text \<open>
  C15. Overlapping purchases are underpaid. If two purchases of one session pass
  \<open>buy_prepare\<close> before either is admitted, and both are then served, the session is
  charged for the second alone: its mark ends where the second claim puts it, and the
  first price is never paid. The exact-price check reads the mark outside the
  admission's lock, and the admission itself only asks for an increase.
\<close>

theorem overlapping_purchases_underpaid:
  assumes "gw_inv X st" and "gw_view X st k = Some r"
    and "buy_prepare X J W now i\<^sub>1 rid\<^sub>1 uuid\<^sub>1 resource\<^sub>1 header\<^sub>1 st = (Ok (Paying t\<^sub>1), st\<^sub>1, urls\<^sub>1)"
    and "buy_prepare X J W now i\<^sub>2 rid\<^sub>2 uuid\<^sub>2 resource\<^sub>2 header\<^sub>2 st\<^sub>1 = (Ok (Paying t\<^sub>2), st\<^sub>2, urls\<^sub>2)"
    and "cl_session (bt_claim t\<^sub>1) = k" and "cl_session (bt_claim t\<^sub>2) = k"
    and "buy_finish X J W now rid\<^sub>1 query\<^sub>1 t\<^sub>1 st\<^sub>2 = (Ok reply\<^sub>1, st\<^sub>3, urls\<^sub>3)"
    and "buy_finish X J W now rid\<^sub>2 query\<^sub>2 t\<^sub>2 st\<^sub>3 = (Ok reply\<^sub>2, st\<^sub>4, urls\<^sub>4)"
  shows "urls\<^sub>3 \<noteq> [] \<and> urls\<^sub>4 \<noteq> [] \<and> bt_price t\<^sub>1 < bt_price t\<^sub>2
     \<and> (\<exists>r'. gw_view X st\<^sub>4 k = Some r'
         \<and> unat (sr_cumulative_accepted r') = unat (sr_cumulative_accepted r) + unat (bt_price t\<^sub>2))"
proof -
  note e1 = prepared_exact [OF assms(3,1,2,5)]
  note e2 = prepared_exact [OF assms(4) _ _ assms(6)]
  have i1: "gw_inv X st\<^sub>1" "gw_view X st\<^sub>1 k = Some r" using e1 assms(2) by auto
  note e2 = e2 [OF i1]
  have i2: "gw_inv X st\<^sub>2" using e2 by blast
  from finished_served [OF assms(7) i2 assms(5)] e2 obtain a\<^sub>1 where s1: "urls\<^sub>3 \<noteq> []"
    "gw_view X st\<^sub>3 k = Some (advance r (bt_claim t\<^sub>1) (bt_signature t\<^sub>1))" "gw_inv X st\<^sub>3"
    using i1 by auto
  from finished_served [OF assms(8) s1(3) assms(6)] obtain a\<^sub>2 q where s2: "urls\<^sub>4 \<noteq> []"
    "gw_view X st\<^sub>3 k = Some q" "evaluate_claim q (bt_claim t\<^sub>2) now = Ok a\<^sub>2"
    "gw_view X st\<^sub>4 k = Some (advance q (bt_claim t\<^sub>2) (bt_signature t\<^sub>2))" by blast
  have "cl_cumulative_amount (bt_claim t\<^sub>1) < cl_cumulative_amount (bt_claim t\<^sub>2)"
    using s1(2) s2(2,3) by (auto simp: evaluate_claim_Ok advance_def)
  then have "bt_price t\<^sub>1 < bt_price t\<^sub>2" using e1 e2 by (simp add: word_less_nat_alt)
  then show ?thesis using s1(1) s2(1,4) e2 by (simp add: advance_def)
qed

definition demo_shop :: catalogue where
  "demo_shop = \<lparr>cat_provider = ''shop'', cat_resources = [(''/weather'', \<lparr>rp_price = ''40'', rp_description = []\<rparr>),
     (''/quote'', \<lparr>rp_price = ''7'', rp_description = []\<rparr>)]\<rparr>"

definition demo_shop_upstream :: upstream where
  "demo_shop_upstream = \<lparr>up_base_url = ''http://p'', up_cached = Some (demo_shop, 5)\<rparr>"

definition demo_shop_app :: "session_record \<Rightarrow> app_state" where
  "demo_shop_app r = (demo_app (Ephemeral (mem_with r)))\<lparr>as_upstream := Some demo_shop_upstream\<rparr>"

definition demo_shop_serde :: serde where
  \<comment> \<open>the header's first byte tells the claim\<close>
  "demo_shop_serde = \<lparr>serde_claim = (\<lambda>bs. Some (demo_wire (if bs = [] then demo_claim_of 7 2 else demo_claim_of 40 3))),
     serde_is_json = (\<lambda>_. False)\<rparr>"

definition demo_ticket :: "claim \<Rightarrow> sig64 \<Rightarrow> string \<Rightarrow> u64 \<Rightarrow> buy_ticket" where
  "demo_ticket c sig path price = \<lparr>bt_claim = c, bt_signature = sig, bt_resource = path, bt_price = price,
     bt_identity = agent_identity_default\<rparr>"

lemma demo_shop_prices:
  "normalise_resource ''quote'' = ''/quote''"
  "price_of demo_web 6 ''/quote'' demo_shop_upstream = (Ok 7, demo_shop_upstream, [])"
  "price_of demo_web 6 ''/weather'' demo_shop_upstream = (Ok 40, demo_shop_upstream, [])"
  by (simp_all add: price_of_def catalogue_of_def demo_shop_upstream_def demo_shop_def normalise_resource_def
      trim_matches_def trim_end_matches_def trim_start_matches_def CATALOGUE_TTL_def parse_u64_def strip_plus_def
      parse_nat_def digit_of_def Let_def)

lemma demo_shop_same: "demo_shop_app r\<lparr>as_upstream := Some demo_shop_upstream\<rparr> = demo_shop_app r"
  by (simp add: demo_shop_app_def demo_app_def)

lemma demo_shop_app_fields [simp]:
  "as_upstream (demo_shop_app r) = Some demo_shop_upstream" "as_store (demo_shop_app r) = Ephemeral (mem_with r)"
  by (simp_all add: demo_shop_app_def)

lemma demo_shop_enforce:
  "enforce_agent_policy demo_externals ''r'' ''u'' a k p q (demo_shop_app r) = (Ok agent_identity_default, demo_shop_app r)"
  by (simp add: enforce_agent_policy_def as_db_def demo_shop_app_def demo_app_def)

lemma demo_shop_prepare:
  assumes c: "c = demo_claim_of price nonce" and header: "decode_header demo_externals demo_shop_serde raw = Some (c, ucast price)"
    and price: "normalise_resource resource = path" "price_of demo_web 6 path demo_shop_upstream = (Ok price, demo_shop_upstream, [])"
    and fits: "checked_add_u64 0 price = Some price"
  shows "buy_prepare demo_externals demo_shop_serde demo_web 1500 6 ''r'' ''u'' resource (Some raw) (demo_shop_app demo_record)
    = (Ok (Paying (demo_ticket c (ucast price) path price)), demo_shop_app demo_record, [])"
proof -
  have "verify_claim_signature demo_externals a c (ucast price) = Valid" for a
    using demo_signed [of a c] by (simp add: c demo_claim_of_def)
  moreover have "\<not> is_expired c 1500" by (simp add: c is_expired_iff demo_claim_of_def)
  moreover have "store_get demo_externals 7 (Ephemeral (mem_with demo_record)) = Ok demo_record"
    by (simp add: store_get_def mem_get_def mem_with_def demo_record_def session_record_new_def)
  moreover have "cl_session c = 7" "cl_cumulative_amount c = price" by (simp_all add: c demo_claim_of_def)
  moreover have "sr_cumulative_accepted demo_record = 0" by (simp add: demo_record_def session_record_new_def)
  ultimately have "buy_check_claim demo_externals demo_shop_serde 1500 ''r'' raw price (demo_shop_app demo_record)
      = Ok (c, ucast price, demo_record)"
    using header fits by (simp add: buy_check_claim_def)
  then show ?thesis
    using price by (simp add: buy_prepare_def Let_def demo_ticket_def demo_shop_same demo_shop_enforce)
qed

lemma demo_shop_finish:
  assumes "evaluate_claim r c 1500 = Ok a" and "cl_session c = 7" and "sr_key r = 7"
  shows "\<exists>reply. buy_finish demo_externals demo_shop_serde demo_web 1500 ''r'' [] (demo_ticket c sig path price) (demo_shop_app r)
    = (Ok reply, demo_shop_app (advance r c sig), [forward_url demo_shop_upstream path []])"
proof -
  have "store_admit_claim demo_externals c sig 1500 (Ephemeral (mem_with r)) = (Ok (Ok a), Ephemeral (mem_with (advance r c sig)))"
  proof -
    have "ca_cumulative_amount a = cl_cumulative_amount c" "ca_nonce a = cl_nonce c"
      using assms(1) by (auto simp: evaluate_claim_Ok)
    then show ?thesis
      using assms by (simp add: store_admit_claim_def mem_admit_claim_def mem_with_def advance_def)
  qed
  moreover have "meter demo_externals i s p q d (demo_shop_app r') = demo_shop_app r'" for i s p q d r' 
    by (simp add: meter_def usage_record_def as_db_def)
  moreover have "demo_shop_app r\<lparr>as_store := Ephemeral (mem_with r')\<rparr> = demo_shop_app r'" for r'
    by (simp add: demo_shop_app_def demo_app_def)
  moreover obtain f where "forward demo_web path [] demo_shop_upstream = (Ok f, [forward_url demo_shop_upstream path []])"
    using demo_forward by blast
  ultimately show ?thesis by (simp add: buy_finish_def demo_ticket_def)
qed

lemma demo_b64: "base64_decode [] = Some []" "base64_decode ''AA'' = Some [0]"
  by (simp add: base64_decode_def utf8_def)
    (simp add: base64_decode_def utf8_def utf8_char_def is_ascii_whitespace_def chunk_bytes_def BASE64_TABLE_def)

theorem overlapping_purchases_underpaid_witness:
  "\<exists>st\<^sub>4 r'. gw_view demo_externals st\<^sub>4 7 = Some r' \<and> unat (sr_cumulative_accepted r') = 40
     \<and> (\<exists>reply\<^sub>1 reply\<^sub>2 st\<^sub>3 urls\<^sub>3 urls\<^sub>4.
         buy_finish demo_externals demo_shop_serde demo_web 1500 ''r'' [] (demo_ticket (demo_claim_of 7 2) 7 ''/quote'' 7)
           (demo_shop_app demo_record) = (Ok reply\<^sub>1, st\<^sub>3, urls\<^sub>3)
       \<and> buy_finish demo_externals demo_shop_serde demo_web 1500 ''r'' [] (demo_ticket (demo_claim_of 40 3) 40 ''/weather'' 40)
           st\<^sub>3 = (Ok reply\<^sub>2, st\<^sub>4, urls\<^sub>4))"
proof -
  let ?c\<^sub>1 = "demo_claim_of 7 2" and ?c\<^sub>2 = "demo_claim_of 40 3"
  let ?t\<^sub>1 = "demo_ticket ?c\<^sub>1 7 ''/quote'' 7" and ?t\<^sub>2 = "demo_ticket ?c\<^sub>2 40 ''/weather'' 40"
  let ?r\<^sub>1 = "advance demo_record ?c\<^sub>1 7"
  have h: "decode_header demo_externals demo_shop_serde [] = Some (?c\<^sub>1, ucast (7 :: u64))"
    "decode_header demo_externals demo_shop_serde ''AA'' = Some (?c\<^sub>2, ucast (40 :: u64))"
    using demo_decode [of ?c\<^sub>1] demo_decode [of ?c\<^sub>2]
    by (simp_all add: decode_header_def demo_b64 demo_shop_serde_def demo_claim_of_def)
  have p\<^sub>1: "buy_prepare demo_externals demo_shop_serde demo_web 1500 6 ''r'' ''u'' ''quote'' (Some []) (demo_shop_app demo_record)
      = (Ok (Paying ?t\<^sub>1), demo_shop_app demo_record, [])"
    using demo_shop_prepare [OF refl h(1), of "''quote''" "''/quote''"] demo_shop_prices by (simp add: checked_add_u64_def)
  have p\<^sub>2: "buy_prepare demo_externals demo_shop_serde demo_web 1500 6 ''r'' ''u'' ''weather'' (Some ''AA'') (demo_shop_app demo_record)
      = (Ok (Paying ?t\<^sub>2), demo_shop_app demo_record, [])"
    using demo_shop_prepare [OF refl h(2), of "''weather''" "''/weather''"] demo_shop_prices normalise_weather
    by (simp add: checked_add_u64_def)
  have e: "\<exists>a. evaluate_claim demo_record ?c\<^sub>1 1500 = Ok a" "\<exists>a. evaluate_claim ?r\<^sub>1 ?c\<^sub>2 1500 = Ok a"
    by (simp_all add: evaluate_claim_Ok demo_record_def session_record_new_def demo_claim_of_def advance_def)
  have k: "cl_session ?c\<^sub>1 = 7" "cl_session ?c\<^sub>2 = 7" "sr_key demo_record = 7" "sr_key ?r\<^sub>1 = 7"
    by (simp_all add: demo_claim_of_def demo_record_def session_record_new_def advance_def)
  obtain reply\<^sub>1 where f\<^sub>1: "buy_finish demo_externals demo_shop_serde demo_web 1500 ''r'' [] ?t\<^sub>1 (demo_shop_app demo_record)
      = (Ok reply\<^sub>1, demo_shop_app ?r\<^sub>1, [forward_url demo_shop_upstream ''/quote'' []])"
    using e(1) demo_shop_finish [OF _ k(1,3)] by blast
  obtain reply\<^sub>2 where f\<^sub>2: "buy_finish demo_externals demo_shop_serde demo_web 1500 ''r'' [] ?t\<^sub>2 (demo_shop_app ?r\<^sub>1)
      = (Ok reply\<^sub>2, demo_shop_app (advance ?r\<^sub>1 ?c\<^sub>2 40), [forward_url demo_shop_upstream ''/weather'' []])"
    using e(2) demo_shop_finish [OF _ k(2,4)] by blast
  have st: "gw_inv demo_externals (demo_shop_app demo_record)" "gw_view demo_externals (demo_shop_app demo_record) 7 = Some demo_record"
    using k(3) by (simp_all add: backend_inv_def backend_view_def mem_with_def)
  have t: "cl_session (bt_claim ?t\<^sub>1) = 7" "cl_session (bt_claim ?t\<^sub>2) = 7" using k by (simp_all add: demo_ticket_def)
  from overlapping_purchases_underpaid [OF st p\<^sub>1 p\<^sub>2 t f\<^sub>1 f\<^sub>2] obtain r' where
    "gw_view demo_externals (demo_shop_app (advance ?r\<^sub>1 ?c\<^sub>2 40)) 7 = Some r'" "unat (sr_cumulative_accepted r') = 40"
    by (auto simp: demo_ticket_def demo_record_def session_record_new_def)
  then show ?thesis using f\<^sub>1 f\<^sub>2 by blast
qed

text \<open>
  \<open>/v1/claim/verify\<close> does not look at the envelope: its answer and its effect on
  the sessions are the same whatever the agents, policies, approvals and suspensions of
  the control plane are. A claim a suspended agent could not spend at \<open>/v1/buy\<close> is
  admitted here, advances the mark and becomes settleable.
\<close>

theorem claim_verify_ignores_envelope:
  "verify_claim X now rid w (set_control cdb st)
     = (case verify_claim X now rid w st of (res, st') \<Rightarrow> (res, set_control cdb st'))"
proof (cases "as_store st")
  case (Ephemeral m)
  then show ?thesis
    by (auto simp: verify_claim_def store_admit_claim_def store_get_def set_control_def
        split: sum.splits prod.splits)
next
  case (Durable db c0)
  then show ?thesis
    by (auto simp: verify_claim_def store_admit_claim_def store_get_def set_control_def
        split: sum.splits prod.splits)
qed

end
