(* ===== verification/Base64_Props.thy ===== *)
theory Base64_Props
  imports Buy
begin

section \<open>The claim header's base64\<close>

text \<open>
  \<open>base64_decode\<close> of theory \<open>Buy\<close> inverts the standard encoding (RFC 4648), with
  or without padding and with white space anywhere.
\<close>

definition b64_char :: "nat \<Rightarrow> u8" where
  \<comment> \<open>the letter of a six-bit value\<close>
  "b64_char v = BASE64_TABLE ! v"

fun b64_letters :: "bytes \<Rightarrow> bytes" where
  \<comment> \<open>the letters of the encoding, unpadded\<close>
  "b64_letters [] = []"
| "b64_letters [a] = [b64_char (unat a div 4), b64_char (unat a mod 4 * 16)]"
| "b64_letters [a, b] = [b64_char (unat a div 4), b64_char (unat a mod 4 * 16 + unat b div 16),
     b64_char (unat b mod 16 * 4)]"
| "b64_letters (a # b # c # bs) = b64_char (unat a div 4) # b64_char (unat a mod 4 * 16 + unat b div 16)
     # b64_char (unat b mod 16 * 4 + unat c div 64) # b64_char (unat c mod 64) # b64_letters bs"

definition b64_string :: "bytes \<Rightarrow> string" where
  "b64_string bs = map (\<lambda>b. char_of (unat b)) bs"

definition base64_encode :: "bytes \<Rightarrow> string" where
  \<comment> \<open>with padding to a multiple of four\<close>
  "base64_encode bs = b64_string (b64_letters bs) @ replicate ((3 - length bs mod 3) mod 3) (CHR ''='')"

lemma table_length: "length BASE64_TABLE = 64"
  by (simp add: BASE64_TABLE_def utf8_def utf8_char_def)

lemma table_distinct: "distinct BASE64_TABLE"
  by (simp add: BASE64_TABLE_def utf8_def utf8_char_def)

lemma table_chars: "t \<in> set BASE64_TABLE \<Longrightarrow> unat t < 128 \<and> \<not> is_ascii_whitespace t \<and> t \<noteq> 61"
proof -
  have "list_all (\<lambda>t. unat t < 128 \<and> \<not> is_ascii_whitespace t \<and> t \<noteq> 61) BASE64_TABLE"
    by (simp add: BASE64_TABLE_def utf8_def utf8_char_def is_ascii_whitespace_def)
  then show "t \<in> set BASE64_TABLE \<Longrightarrow> unat t < 128 \<and> \<not> is_ascii_whitespace t \<and> t \<noteq> 61"
    by (simp add: list_all_iff)
qed

lemma position_nth: "distinct xs \<Longrightarrow> i < length xs \<Longrightarrow> position (\<lambda>t. t = xs ! i) xs = Some i"
proof (induction xs arbitrary: i)
  case (Cons x xs)
  then show ?case by (cases i) auto
qed simp

lemma position_b64: "v < 64 \<Longrightarrow> position (\<lambda>t. t = b64_char v) BASE64_TABLE = Some v"
  using position_nth [OF table_distinct, of v] by (simp add: b64_char_def table_length)

lemma or_shifted:
  "or (2 ^ m * q) (r :: nat) = 2 ^ m * q + r" if "r < 2 ^ m"
proof -
  have r: "take_bit m r = r" using that by (simp add: take_bit_nat_eq_self)
  have "and (2 ^ m * q) r = 0"
  proof (rule bit_eqI)
    fix n
    have "bit r n \<Longrightarrow> n < m" using r by (metis bit_take_bit_iff)
    then show "bit (and (2 ^ m * q) r) n = bit 0 n"
      by (auto simp: bit_and_iff push_bit_eq_mult [symmetric] bit_push_bit_iff mult.commute [of "2 ^ m"])
  qed
  then show ?thesis by (simp add: disjunctive_add_eq_or)
qed

lemma chunk_step:
  fixes buf :: u32
  assumes v: "v < 64" and i: "i < 4" and buf: "unat buf = 2 ^ (24 - 6 * i) * q" "unat buf < 2 ^ 24"
  shows "unat (or buf (push_bit (18 - 6 * i) (of_nat v))) = 2 ^ (18 - 6 * i) * (64 * q + v)"
proof -
  have i': "i = 0 \<or> i = 1 \<or> i = 2 \<or> i = 3" using i by auto
  have p: "unat (push_bit (18 - 6 * i) (of_nat v :: u32)) = 2 ^ (18 - 6 * i) * v"
  proof -
    have "push_bit (18 - 6 * i) (of_nat v :: u32) = of_nat (2 ^ (18 - 6 * i) * v)"
      by (simp add: push_bit_eq_mult mult.commute)
    moreover have "2 ^ (18 - 6 * i) * v < 2 ^ 32" using v i' by auto
    ultimately show ?thesis by (simp only: unat_of_nat len_bit0 len_num1 take_bit_nat_eq_self) (simp add: take_bit_nat_eq_self)
  qed
  have "2 ^ (18 - 6 * i) * v < 2 ^ (24 - 6 * i)" using v i' by auto
  then have "or (unat buf) (2 ^ (18 - 6 * i) * v) = unat buf + 2 ^ (18 - 6 * i) * v"
    unfolding buf(1) by (rule or_shifted)
  then show ?thesis
    using buf(1) i' by (auto simp: unsigned_or_eq p)
qed

lemma chunk_bits_value:
  assumes "\<forall>v \<in> set vs. v < 64" and "i + length vs \<le> 4" and "unat buf = 2 ^ (24 - 6 * i) * q" and "q < 64 ^ i"
  shows "\<exists>buf'. chunk_bits i (map b64_char vs) buf = Some buf'
     \<and> unat buf' = 2 ^ (24 - 6 * (i + length vs)) * foldl (\<lambda>q v. 64 * q + v) q vs"
  using assms
proof (induction vs arbitrary: i buf q)
  case Nil
  then show ?case by simp
next
  case (Cons v vs)
  let ?buf = "or buf (push_bit (18 - 6 * i) (of_nat v))"
  have v: "v < 64" and i: "i < 4" using Cons.prems by auto
  have pw: "2 ^ (24 - 6 * i) * (64 :: nat) ^ i = 2 ^ 24"
  proof -
    have "i = 0 \<or> i = 1 \<or> i = 2 \<or> i = 3" using i by auto
    then show ?thesis by auto
  qed
  have "unat buf < 2 ^ (24 - 6 * i) * 64 ^ i" unfolding Cons.prems(3) using Cons.prems(4) by simp
  then have lt: "unat buf < 2 ^ 24" unfolding pw .
  have step: "unat ?buf = 2 ^ (24 - 6 * Suc i) * (64 * q + v)"
    using chunk_step [OF v i Cons.prems(3) lt] by simp
  have "64 * q + v < 64 ^ Suc i" using v Cons.prems(4) by simp
  from Cons.IH [OF _ _ step this] Cons.prems position_b64 [OF v] show ?case by simp
qed

lemma bytes24:
  assumes "b < 256" and "c < 256" and "n = 65536 * a + 256 * b + (c :: nat)"
  shows "n div 65536 = a" "n div 256 = 256 * a + b" "n mod 256 = c"
proof -
  have g: "(256 * k + c) div 256 = k" "(256 * k + c) mod 256 = c" for k using assms(2) by simp_all
  have n: "n = 256 * (256 * a + b) + c" using assms(3) by simp
  show d: "n div 256 = 256 * a + b" "n mod 256 = c" unfolding n by (rule g)+
  have "n div 65536 = n div 256 div 256" by (simp add: div_mult2_eq [symmetric])
  then show "n div 65536 = a" unfolding d using assms(1) by simp
qed

lemma chunk_bytes_letters:
  assumes "\<forall>v \<in> set vs. v < 64" and "length vs \<le> 4"
    and "n = 2 ^ (24 - 6 * length vs) * foldl (\<lambda>q v. 64 * q + v) 0 vs" and "n = 65536 * unat a + 256 * unat b + unat c"
  shows "chunk_bytes (map b64_char vs) = Some ([a] @ (if length vs > 2 then [b] else []) @ (if length vs > 3 then [c] else []))"
proof -
  obtain buf where buf: "chunk_bits 0 (map b64_char vs) 0 = Some buf" "unat buf = n"
    using chunk_bits_value [OF assms(1), of 0 0 0] assms(2,3) by auto
  have lt: "unat a < 256" "unat b < 256" "unat c < 256"
    using unsigned_less [of a, where ?'a = nat] unsigned_less [of b, where ?'a = nat]
      unsigned_less [of c, where ?'a = nat] by simp_all
  have byte: "ucast (w :: u32) = x" if "unat w mod 256 = unat x" for w :: u32 and x :: u8
    using that by (simp add: word_unat_eq_iff unsigned_ucast_eq take_bit_eq_mod)
  have "unat (drop_bit 16 buf) = n div 65536" "unat (drop_bit 8 buf) = n div 256"
    using buf(2) by (simp_all add: drop_bit_eq_div unat_div_distrib)
  then have "ucast (drop_bit 16 buf) = a" "ucast (drop_bit 8 buf) = b" "ucast buf = c"
    using lt bytes24 [OF lt(2,3) assms(4)] buf(2) by (auto intro!: byte)
  then show ?thesis using buf(1) by (simp add: chunk_bytes_def)
qed

lemma byte_split: "unat (a :: u8) div 4 < 64" "unat a mod 4 * 16 + unat (b :: u8) div 16 < 64"
  "unat b mod 16 * 4 + unat (c :: u8) div 64 < 64" "unat c mod 64 < 64" "unat a mod 4 * 16 < 64" "unat b mod 16 * 4 < 64"
  using unsigned_less [of a, where ?'a = nat] unsigned_less [of b, where ?'a = nat]
    unsigned_less [of c, where ?'a = nat] by (simp_all add: less_mult_imp_div_less)

lemma sextet_sum:
  "x = 4 * (x div 4) + x mod (4 :: nat)" "y = 16 * (y div 16) + y mod (16 :: nat)" "z = 64 * (z div 64) + z mod (64 :: nat)"
  by simp_all

lemma decode_letters: "decode_chunks (b64_letters bs) = Some bs"
proof (induction bs rule: b64_letters.induct)
  case (2 a)
  let ?vs = "[unat a div 4, unat a mod 4 * 16]"
  have "65536 * unat a = 2 ^ (24 - 6 * length ?vs) * foldl (\<lambda>q v. 64 * q + v) 0 ?vs"
    by (simp, insert sextet_sum(1) [of "unat a"], linarith)
  from chunk_bytes_letters [OF _ _ this, of a 0 0] have "chunk_bytes (map b64_char ?vs) = Some [a]"
    by (simp add: byte_split)
  then show ?case by simp
next
  case (3 a b)
  let ?vs = "[unat a div 4, unat a mod 4 * 16 + unat b div 16, unat b mod 16 * 4]"
  have "65536 * unat a + 256 * unat b = 2 ^ (24 - 6 * length ?vs) * foldl (\<lambda>q v. 64 * q + v) 0 ?vs"
    by (simp, insert sextet_sum(1) [of "unat a"] sextet_sum(2) [of "unat b"], linarith)
  from chunk_bytes_letters [OF _ _ this, of a b 0] have "chunk_bytes (map b64_char ?vs) = Some [a, b]"
    by (simp add: byte_split)
  then show ?case by simp
next
  case (4 a b c bs)
  let ?vs = "[unat a div 4, unat a mod 4 * 16 + unat b div 16, unat b mod 16 * 4 + unat c div 64, unat c mod 64]"
  have "65536 * unat a + 256 * unat b + unat c = 2 ^ (24 - 6 * length ?vs) * foldl (\<lambda>q v. 64 * q + v) 0 ?vs"
    by (simp, insert sextet_sum(1) [of "unat a"] sextet_sum(2) [of "unat b"] sextet_sum(3) [of "unat c"], linarith)
  from chunk_bytes_letters [OF _ _ this, of a b c] have "chunk_bytes (map b64_char ?vs) = Some [a, b, c]"
    by (simp add: byte_split)
  then show ?case using 4 by simp
qed simp

lemma letters_table: "t \<in> set (b64_letters bs) \<Longrightarrow> t \<in> set BASE64_TABLE"
proof (induction bs rule: b64_letters.induct)
  case (4 a b c bs)
  then show ?case by (auto simp: b64_char_def table_length byte_split intro!: nth_mem)
qed (auto simp: b64_char_def table_length byte_split intro!: nth_mem)

lemma utf8_b64: "\<forall>t \<in> set ts. unat t < 128 \<Longrightarrow> utf8 (b64_string ts) = (ts :: bytes)"
proof (induction ts)
  case (Cons t ts)
  have "utf8_char (char_of (unat t)) = [t]" using Cons.prems by (simp add: utf8_char_def)
  with Cons show ?case by (simp add: b64_string_def utf8_def)
qed (simp add: b64_string_def utf8_def)

definition kept :: "u8 \<Rightarrow> bool" where
  "kept c \<longleftrightarrow> \<not> is_ascii_whitespace c \<and> c \<noteq> 61"

definition not_blank :: "char \<Rightarrow> bool" where
  "not_blank c \<longleftrightarrow> c \<notin> {CHR '' '', CHR 0x0A, CHR 0x0D, CHR 0x09}"

lemma filter_blanks: "filter kept (utf8 (filter not_blank s)) = filter kept (utf8 s)"
proof (induction s)
  case (Cons c s)
  have "filter kept (utf8_char c) = []" if "\<not> not_blank c"
    using that by (auto simp: not_blank_def utf8_char_def kept_def is_ascii_whitespace_def)
  with Cons show ?case by (auto simp: utf8_def)
qed simp

lemma filter_letters: "filter kept (utf8 (b64_string (b64_letters bs) @ replicate n (CHR ''=''))) = b64_letters bs"
proof -
  have t: "\<forall>t \<in> set (b64_letters bs). unat t < 128 \<and> kept t"
    using table_chars letters_table unfolding kept_def by blast
  have "filter kept (utf8 (replicate n (CHR ''=''))) = []"
    by (induction n) (simp_all add: utf8_def utf8_char_def kept_def)
  moreover have "filter kept (b64_letters bs) = b64_letters bs" using t by (simp add: filter_id_conv)
  moreover have "utf8 (xs @ ys) = utf8 xs @ utf8 ys" for xs ys by (simp add: utf8_def)
  ultimately show ?thesis using utf8_b64 t by simp
qed

text \<open>
  The header's base64 is inverted. Decoding the standard encoding of any bytes, with
  padding or without it, and with blanks and line breaks between the characters, gives
  the bytes back.
\<close>

theorem base64_roundtrip:
  assumes "filter not_blank s = base64_encode bs \<or> filter not_blank s = b64_string (b64_letters bs)"
  shows "base64_decode s = Some bs"
proof -
  have "filter kept (utf8 (filter not_blank s)) = b64_letters bs"
    using assms filter_letters [of bs] filter_letters [of bs 0] by (auto simp: base64_encode_def)
  then show ?thesis
    unfolding filter_blanks base64_decode_def kept_def using decode_letters by simp
qed

theorem base64_roundtrip_witness: "base64_decode (''aGV5I'' @ [CHR 0x0A] @ ''Q=='') = Some (utf8 ''hey!'')"
proof -
  have "filter not_blank (''aGV5I'' @ [CHR 0x0A] @ ''Q=='') = base64_encode (utf8 ''hey!'')"
    by (simp add: not_blank_def base64_encode_def b64_string_def utf8_def utf8_char_def b64_char_def BASE64_TABLE_def) code_simp
  then show ?thesis using base64_roundtrip by blast
qed

end
