(* ===== verification/Net_Addr.thy ===== *)
theory Net_Addr
  imports Prelude
begin

section \<open>Network addresses as text\<close>

text \<open>
  \<open>std::net::IpAddr\<close> and \<open>SocketAddr\<close> and the parser of the standard library that
  reads them: the configuration reads the bind address and the trusted proxies with it, the
  rate limiter the entries of \<open>X-Forwarded-For\<close>. A reader takes the remaining text and
  returns the value with what is left, or \<open>None\<close>, in which case its caller goes on from
  where it stood (\<open>read_atomically\<close>).
\<close>

datatype ip_addr = V4 "32 word" | V6 "128 word"

record socket_addr =
  sock_ip :: ip_addr
  sock_port :: u16

type_synonym 'a reader = "string \<Rightarrow> ('a \<times> string) option"

definition to_digit :: "nat \<Rightarrow> char \<Rightarrow> nat option" where
  "to_digit radix c =
     (let n = of_char c :: nat;
          d = (if 48 \<le> n \<and> n \<le> 57 then Some (n - 48)
               else if 97 \<le> n \<and> n \<le> 122 then Some (n - 87)
               else if 65 \<le> n \<and> n \<le> 90 then Some (n - 55) else None)
      in case d of None \<Rightarrow> None | Some k \<Rightarrow> if k < radix then Some k else None)"

fun read_digits :: "nat \<Rightarrow> nat \<Rightarrow> nat option \<Rightarrow> nat \<Rightarrow> nat \<Rightarrow> string \<Rightarrow> (nat \<times> nat \<times> string) option" where
  \<comment> \<open>value and number of digits so far; a value the type cannot hold or a digit too many fails\<close>
  "read_digits radix bound most acc k [] = Some (acc, k, [])"
| "read_digits radix bound most acc k (c # cs) =
     (case to_digit radix c of
        None \<Rightarrow> Some (acc, k, c # cs)
      | Some d \<Rightarrow>
          if acc * radix + d \<ge> bound then None
          else if (case most of None \<Rightarrow> False | Some m \<Rightarrow> k + 1 > m) then None
          else read_digits radix bound most (acc * radix + d) (k + 1) cs)"

definition read_number :: "nat \<Rightarrow> nat \<Rightarrow> nat option \<Rightarrow> bool \<Rightarrow> nat reader" where
  "read_number radix bound most allow_zero_prefix s =
     (case read_digits radix bound most 0 0 s of
        None \<Rightarrow> None
      | Some (n, k, rest) \<Rightarrow>
          if k = 0 then None
          else if \<not> allow_zero_prefix \<and> take 1 s = ''0'' \<and> k > 1 then None
          else Some (n, rest))"

definition read_given_char :: "char \<Rightarrow> unit reader" where
  "read_given_char c s = (case s of [] \<Rightarrow> None | d # rest \<Rightarrow> if d = c then Some ((), rest) else None)"

definition read_separator :: "char \<Rightarrow> bool \<Rightarrow> 'a reader \<Rightarrow> 'a reader" where
  \<comment> \<open>every element but the first is preceded by the separator\<close>
  "read_separator sep first inner s =
     (if first then inner s
      else case read_given_char sep s of None \<Rightarrow> None | Some (_, rest) \<Rightarrow> inner rest)"

primrec read_octets :: "bool \<Rightarrow> nat \<Rightarrow> nat list reader" where
  "read_octets first 0 s = Some ([], s)"
| "read_octets first (Suc m) s =
     (case read_separator (CHR ''.'') first (read_number 10 256 (Some 3) False) s of
        None \<Rightarrow> None
      | Some (n, rest) \<Rightarrow>
      case read_octets False m rest of
        None \<Rightarrow> None
      | Some (ns, rest') \<Rightarrow> Some (n # ns, rest'))"

definition read_ipv4_addr :: "nat list reader" where
  "read_ipv4_addr s = read_octets True 4 s"

primrec read_groups :: "bool \<Rightarrow> nat \<Rightarrow> string \<Rightarrow> nat list \<times> bool \<times> string" where
  \<comment> \<open>up to that many 16-bit groups; the last two may be written as an IPv4 address\<close>
  "read_groups first 0 s = ([], False, s)"
| "read_groups first (Suc m) s =
     (case (if m > 0 then read_separator (CHR '':'') first read_ipv4_addr s else None) of
        Some (ns, rest) \<Rightarrow> ([ns ! 0 * 256 + ns ! 1, ns ! 2 * 256 + ns ! 3], True, rest)
      | None \<Rightarrow>
      case read_separator (CHR '':'') first (read_number 16 65536 (Some 4) True) s of
        None \<Rightarrow> ([], False, s)
      | Some (g, rest) \<Rightarrow>
      case read_groups False m rest of (gs, v4, rest') \<Rightarrow> (g # gs, v4, rest'))"

definition read_ipv6_addr :: "nat list reader" where
  "read_ipv6_addr s =
     (case read_groups True 8 s of (head, head_v4, rest) \<Rightarrow>
      if length head = 8 then Some (head, rest)
      else if head_v4 then None
      else case read_given_char (CHR '':'') rest of
        None \<Rightarrow> None
      | Some (_, rest\<^sub>1) \<Rightarrow>
      case read_given_char (CHR '':'') rest\<^sub>1 of
        None \<Rightarrow> None
      | Some (_, rest\<^sub>2) \<Rightarrow>
      case read_groups True (8 - (length head + 1)) rest\<^sub>2 of (tail, _, rest\<^sub>3) \<Rightarrow>
      Some (head @ replicate (8 - length head - length tail) 0 @ tail, rest\<^sub>3))"

definition be_value :: "nat \<Rightarrow> nat list \<Rightarrow> nat" where
  "be_value base ns = foldl (\<lambda>acc n. acc * base + n) 0 ns"

definition ipv4_of :: "nat list \<Rightarrow> ip_addr" where
  "ipv4_of ns = V4 (of_nat (be_value 256 ns))"

definition ipv6_of :: "nat list \<Rightarrow> ip_addr" where
  "ipv6_of ns = V6 (of_nat (be_value 65536 ns))"

definition read_ip_addr :: "ip_addr reader" where
  "read_ip_addr s =
     (case read_ipv4_addr s of
        Some (ns, rest) \<Rightarrow> Some (ipv4_of ns, rest)
      | None \<Rightarrow> map_option (\<lambda>(ns, rest). (ipv6_of ns, rest)) (read_ipv6_addr s))"

definition read_port :: "nat reader" where
  "read_port s = (case read_given_char (CHR '':'') s of
     None \<Rightarrow> None | Some (_, rest) \<Rightarrow> read_number 10 65536 None True rest)"

definition read_scope_id :: "string \<Rightarrow> string" where
  \<comment> \<open>skips a scope id; the configuration does not look at it\<close>
  "read_scope_id s = (case read_given_char (CHR ''%'') s of
     None \<Rightarrow> s
   | Some (_, rest) \<Rightarrow> (case read_number 10 (2 ^ 32) None True rest of
       None \<Rightarrow> s | Some (_, rest') \<Rightarrow> rest'))"

definition read_socket_addr :: "socket_addr reader" where
  "read_socket_addr s =
     (case (case read_ipv4_addr s of None \<Rightarrow> None | Some (ns, rest) \<Rightarrow>
            case read_port rest of None \<Rightarrow> None | Some (p, rest') \<Rightarrow>
            Some (\<lparr>sock_ip = ipv4_of ns, sock_port = of_nat p\<rparr>, rest')) of
        Some r \<Rightarrow> Some r
      | None \<Rightarrow>
      case read_given_char (CHR ''['') s of None \<Rightarrow> None | Some (_, rest) \<Rightarrow>
      case read_ipv6_addr rest of None \<Rightarrow> None | Some (ns, rest\<^sub>1) \<Rightarrow>
      case read_given_char (CHR '']'') (read_scope_id rest\<^sub>1) of None \<Rightarrow> None | Some (_, rest\<^sub>2) \<Rightarrow>
      case read_port rest\<^sub>2 of None \<Rightarrow> None | Some (p, rest\<^sub>3) \<Rightarrow>
      Some (\<lparr>sock_ip = ipv6_of ns, sock_port = of_nat p\<rparr>, rest\<^sub>3))"

definition parse_with :: "'a reader \<Rightarrow> string \<Rightarrow> 'a option" where
  \<comment> \<open>the whole text must be read\<close>
  "parse_with inner s = (case inner s of None \<Rightarrow> None | Some (x, rest) \<Rightarrow> if rest = [] then Some x else None)"

definition parse_ip :: "string \<Rightarrow> ip_addr option" where
  "parse_ip = parse_with read_ip_addr"

definition parse_socket_addr :: "string \<Rightarrow> socket_addr option" where
  "parse_socket_addr = parse_with read_socket_addr"

primrec is_loopback :: "ip_addr \<Rightarrow> bool" where
  "is_loopback (V4 a) = (drop_bit 24 a = 127)"
| "is_loopback (V6 a) = (a = 1)"

primrec split_on :: "char \<Rightarrow> string \<Rightarrow> string list" where
  \<comment> \<open>\<open>str::split\<close>: the empty text is one empty piece\<close>
  "split_on c [] = [[]]"
| "split_on c (x # xs) =
     (if x = c then [] # split_on c xs
      else case split_on c xs of [] \<Rightarrow> [[x]] | w # ws \<Rightarrow> (x # w) # ws)"

lemma read_octets_numeral [simp]:
  "read_octets first (numeral k) s =
     (case read_separator (CHR ''.'') first (read_number 10 256 (Some 3) False) s of
        None \<Rightarrow> None
      | Some (n, rest) \<Rightarrow>
      case read_octets False (pred_numeral k) rest of
        None \<Rightarrow> None
      | Some (ns, rest') \<Rightarrow> Some (n # ns, rest'))"
  by (simp add: numeral_eq_Suc)

lemma read_groups_numeral [simp]:
  "read_groups first (numeral k) s =
     (case (if pred_numeral k > 0 then read_separator (CHR '':'') first read_ipv4_addr s else None) of
        Some (ns, rest) \<Rightarrow> ([ns ! 0 * 256 + ns ! 1, ns ! 2 * 256 + ns ! 3], True, rest)
      | None \<Rightarrow>
      case read_separator (CHR '':'') first (read_number 16 65536 (Some 4) True) s of
        None \<Rightarrow> ([], False, s)
      | Some (g, rest) \<Rightarrow>
      case read_groups False (pred_numeral k) rest of (gs, v4, rest') \<Rightarrow> (g # gs, v4, rest'))"
  by (simp add: numeral_eq_Suc)

lemmas addr_reader_defs = read_number_def read_given_char_def read_separator_def read_ipv4_addr_def
  read_ipv6_addr_def be_value_def ipv4_of_def ipv6_of_def read_ip_addr_def read_port_def
  read_scope_id_def read_socket_addr_def parse_with_def parse_ip_def parse_socket_addr_def

end
