(* ===== verification/Config.thy ===== *)
theory Config
  imports Net_Addr Account Auth
begin

section \<open>Configuration\<close>

text \<open>
  \<open>gateway/src/config.rs\<close>. The process environment is a partial function from names to
  values (a value that is not Unicode reads as unset, as \<open>std::env::var\<close> fails on it).
  The texts inside \<open>ConfigError\<close> that only describe a parse failure are left out.
\<close>

type_synonym env = "string \<Rightarrow> string option"

definition CHAIN_TIMEOUT_MIN_SECS :: u64 where
  "CHAIN_TIMEOUT_MIN_SECS = 15"

definition CHAIN_TIMEOUT_MAX_SECS :: u64 where
  "CHAIN_TIMEOUT_MAX_SECS = 300"

definition CHAIN_TIMEOUT_DEFAULT_SECS :: u64 where
  "CHAIN_TIMEOUT_DEFAULT_SECS = 60"

definition GENERAL_TIMEOUT :: u64 where
  "GENERAL_TIMEOUT = 15"

record config =
  cf_bind_addr :: socket_addr
  cf_rpc_url :: string
  cf_program_id :: pubkey
  cf_legacy_program_id :: "pubkey option"
  cf_provider_keypair_path :: "string option"
  cf_settlement_authority_keypair_path :: "string option"
  cf_database_url :: "string option"
  cf_trust_open_requests :: bool
  cf_upstream_url :: "string option"
  cf_network :: string
  cf_admin_token :: "string option"
  cf_open_rate_limit :: u32
  cf_general_rate_limit :: u32
  cf_chain_timeout :: u64
  cf_require_agent_policy :: bool
  cf_trusted_proxies :: "ip_addr list"

datatype config_error =
    Missing string
  | Invalid string
  | MainnetRefused string
  | AdminTokenRequired socket_addr
  | AdminTokenTooShort nat nat

definition chain_timeout_from :: "string option \<Rightarrow> u64" where
  "chain_timeout_from raw =
     (case (case raw of None \<Rightarrow> None | Some v \<Rightarrow> parse_u64 (trim v)) of
        Some v \<Rightarrow> max CHAIN_TIMEOUT_MIN_SECS (min v CHAIN_TIMEOUT_MAX_SECS)
      | None \<Rightarrow> CHAIN_TIMEOUT_DEFAULT_SECS)"

definition optional_env :: "env \<Rightarrow> string \<Rightarrow> string option" where
  "optional_env env key = (case env key of Some v \<Rightarrow> if trim v \<noteq> [] then Some v else None | None \<Rightarrow> None)"

definition require :: "env \<Rightarrow> string \<Rightarrow> (string, config_error) result" where
  "require env key = (case optional_env env key of Some v \<Rightarrow> Ok v | None \<Rightarrow> Err (Missing key))"

definition parse_u32 :: "string \<Rightarrow> u32 option" where
  "parse_u32 s = (case parse_nat (strip_plus s) of
     None \<Rightarrow> None | Some n \<Rightarrow> if n < 2 ^ 32 then Some (of_nat n) else None)"

definition rate_limit_of :: "env \<Rightarrow> string \<Rightarrow> u32 \<Rightarrow> u32" where
  "rate_limit_of env key fallback =
     (case (case optional_env env key of None \<Rightarrow> None | Some v \<Rightarrow> parse_u32 v) of
        Some v \<Rightarrow> if v > 0 then v else fallback
      | None \<Rightarrow> fallback)"

definition flag_set :: "env \<Rightarrow> string \<Rightarrow> bool" where
  \<comment> \<open>\<open>std::env::var(key).is_ok_and(|v| v == "1")\<close>\<close>
  "flag_set env key = (env key = Some ''1'')"

definition trusted_proxies_of :: "env \<Rightarrow> ip_addr list" where
  \<comment> \<open>an entry that is empty or does not parse is dropped\<close>
  "trusted_proxies_of env = (case optional_env env ''AGENTPAY_TRUSTED_PROXIES'' of
     None \<Rightarrow> []
   | Some raw \<Rightarrow> List.map_filter (\<lambda>p. if trim p = [] then None else parse_ip (trim p))
       (split_on (CHR '','') raw))"

definition network_of :: "string \<Rightarrow> string" where
  "network_of rpc_url =
     (if contains_text rpc_url ''devnet'' then ''solana:devnet''
      else if contains_text rpc_url ''testnet'' then ''solana:testnet''
      else if contains_text rpc_url ''mainnet'' then ''solana:mainnet''
      else ''solana:localnet'')"

definition bind_addr_of :: "env \<Rightarrow> socket_addr option" where
  "bind_addr_of env =
     parse_socket_addr (case env ''AGENTPAY_BIND_ADDR'' of Some v \<Rightarrow> v | None \<Rightarrow> ''127.0.0.1:8080'')"

definition legacy_program_of :: "externals \<Rightarrow> env \<Rightarrow> (pubkey option, config_error) result" where
  "legacy_program_of X env = (case optional_env env ''AGENTPAY_LEGACY_PROGRAM_ID'' of
     None \<Rightarrow> Ok None
   | Some v \<Rightarrow> (case pk_parse X v of
       None \<Rightarrow> Err (Invalid ''AGENTPAY_LEGACY_PROGRAM_ID'') | Some k \<Rightarrow> Ok (Some k)))"

definition program_of :: "externals \<Rightarrow> env \<Rightarrow> (pubkey, config_error) result" where
  "program_of X env = (case require env ''AGENTPAY_PROGRAM_ID'' of
     Err e \<Rightarrow> Err e
   | Ok v \<Rightarrow> (case pk_parse X v of None \<Rightarrow> Err (Invalid ''AGENTPAY_PROGRAM_ID'') | Some k \<Rightarrow> Ok k))"

definition admin_token_error :: "socket_addr \<Rightarrow> string option \<Rightarrow> config_error option" where
  "admin_token_error bind_addr admin_token = (case admin_token of
     Some t \<Rightarrow> if length (utf8 t) < MIN_TOKEN_LEN
       then Some (AdminTokenTooShort (length (utf8 t)) MIN_TOKEN_LEN) else None
   | None \<Rightarrow> if \<not> is_loopback (sock_ip bind_addr)
       then Some (AdminTokenRequired bind_addr) else None)"

definition from_env :: "externals \<Rightarrow> env \<Rightarrow> (config, config_error) result" where
  "from_env X env =
     (case bind_addr_of env of
        None \<Rightarrow> Err (Invalid ''AGENTPAY_BIND_ADDR'')
      | Some bind_addr \<Rightarrow>
      case require env ''AGENTPAY_RPC_URL'' of
        Err e \<Rightarrow> Err e
      | Ok rpc_url \<Rightarrow>
      if contains_text rpc_url ''mainnet'' \<and> \<not> flag_set env ''AGENTPAY_ALLOW_MAINNET''
      then Err (MainnetRefused rpc_url)
      else case legacy_program_of X env of
        Err e \<Rightarrow> Err e
      | Ok legacy_program_id \<Rightarrow>
      case program_of X env of
        Err e \<Rightarrow> Err e
      | Ok program_id \<Rightarrow>
      let admin_token = optional_env env ''AGENTPAY_ADMIN_TOKEN'' in
      case admin_token_error bind_addr admin_token of
        Some e \<Rightarrow> Err e
      | None \<Rightarrow>
      Ok \<lparr>cf_bind_addr = bind_addr, cf_rpc_url = rpc_url, cf_program_id = program_id,
          cf_legacy_program_id = legacy_program_id,
          cf_provider_keypair_path = optional_env env ''AGENTPAY_PROVIDER_KEYPAIR'',
          cf_settlement_authority_keypair_path = optional_env env ''AGENTPAY_SETTLEMENT_AUTHORITY_KEYPAIR'',
          cf_database_url = optional_env env ''DATABASE_URL'',
          cf_trust_open_requests = flag_set env ''AGENTPAY_TRUST_OPEN_REQUESTS'',
          cf_upstream_url = optional_env env ''AGENTPAY_UPSTREAM_URL'',
          cf_network = (case optional_env env ''AGENTPAY_NETWORK'' of Some v \<Rightarrow> v | None \<Rightarrow> network_of rpc_url),
          cf_admin_token = admin_token,
          cf_open_rate_limit = rate_limit_of env ''AGENTPAY_OPEN_RATE_LIMIT'' 20,
          cf_general_rate_limit = rate_limit_of env ''AGENTPAY_RATE_LIMIT'' 600,
          cf_chain_timeout = chain_timeout_from (optional_env env ''AGENTPAY_CHAIN_TIMEOUT_SECS''),
          cf_require_agent_policy = flag_set env ''AGENTPAY_REQUIRE_AGENT_POLICY'',
          cf_trusted_proxies = trusted_proxies_of env\<rparr>)"

lemma chain_timeout_bounds:
  "CHAIN_TIMEOUT_MIN_SECS \<le> chain_timeout_from raw" "chain_timeout_from raw \<le> CHAIN_TIMEOUT_MAX_SECS"
  by (auto simp: chain_timeout_from_def CHAIN_TIMEOUT_MIN_SECS_def CHAIN_TIMEOUT_MAX_SECS_def
      CHAIN_TIMEOUT_DEFAULT_SECS_def max_def min_def split: option.splits)

lemma rate_limit_positive: "fallback > 0 \<Longrightarrow> rate_limit_of env key fallback > 0"
  by (auto simp: rate_limit_of_def split: option.splits)

lemma from_env_Ok:
  assumes "from_env X env = Ok cf"
  shows "bind_addr_of env = Some (cf_bind_addr cf)" and "env ''AGENTPAY_RPC_URL'' = Some (cf_rpc_url cf)"
    and "contains_text (cf_rpc_url cf) ''mainnet'' \<longrightarrow> flag_set env ''AGENTPAY_ALLOW_MAINNET''"
    and "admin_token_error (cf_bind_addr cf) (cf_admin_token cf) = None"
    and "cf_trust_open_requests cf \<longleftrightarrow> flag_set env ''AGENTPAY_TRUST_OPEN_REQUESTS''"
    and "cf_database_url cf = optional_env env ''DATABASE_URL''"
    and "cf_open_rate_limit cf = rate_limit_of env ''AGENTPAY_OPEN_RATE_LIMIT'' 20"
    and "cf_general_rate_limit cf = rate_limit_of env ''AGENTPAY_RATE_LIMIT'' 600"
    and "cf_chain_timeout cf = chain_timeout_from (optional_env env ''AGENTPAY_CHAIN_TIMEOUT_SECS'')"
proof -
  obtain bind where b: "bind_addr_of env = Some bind"
    using assms by (cases "bind_addr_of env") (simp_all add: from_env_def)
  obtain rpc where r: "require env ''AGENTPAY_RPC_URL'' = Ok rpc"
    using assms b by (cases "require env ''AGENTPAY_RPC_URL''") (simp_all add: from_env_def)
  have m: "\<not> (contains_text rpc ''mainnet'' \<and> \<not> flag_set env ''AGENTPAY_ALLOW_MAINNET'')"
    using assms b r by (cases "contains_text rpc ''mainnet'' \<and> \<not> flag_set env ''AGENTPAY_ALLOW_MAINNET''")
      (simp_all add: from_env_def)
  obtain l where l: "legacy_program_of X env = Ok l"
    using assms b r m by (cases "legacy_program_of X env") (simp_all add: from_env_def)
  obtain p where p: "program_of X env = Ok p"
    using assms b r m l by (cases "program_of X env") (simp_all add: from_env_def)
  have a: "admin_token_error bind (optional_env env ''AGENTPAY_ADMIN_TOKEN'') = None"
    using assms b r m l p by (cases "admin_token_error bind (optional_env env ''AGENTPAY_ADMIN_TOKEN'')")
      (simp_all add: from_env_def)
  have rpc: "env ''AGENTPAY_RPC_URL'' = Some rpc"
    using r by (auto simp: require_def optional_env_def split: option.splits if_splits)
  note cf = assms [unfolded from_env_def Let_def b r l p a option.case sum.case if_not_P [OF m] sum.inject, symmetric]
  show "bind_addr_of env = Some (cf_bind_addr cf)" "env ''AGENTPAY_RPC_URL'' = Some (cf_rpc_url cf)"
    "contains_text (cf_rpc_url cf) ''mainnet'' \<longrightarrow> flag_set env ''AGENTPAY_ALLOW_MAINNET''"
    "admin_token_error (cf_bind_addr cf) (cf_admin_token cf) = None"
    "cf_trust_open_requests cf \<longleftrightarrow> flag_set env ''AGENTPAY_TRUST_OPEN_REQUESTS''"
    "cf_database_url cf = optional_env env ''DATABASE_URL''"
    "cf_open_rate_limit cf = rate_limit_of env ''AGENTPAY_OPEN_RATE_LIMIT'' 20"
    "cf_general_rate_limit cf = rate_limit_of env ''AGENTPAY_RATE_LIMIT'' 600"
    "cf_chain_timeout cf = chain_timeout_from (optional_env env ''AGENTPAY_CHAIN_TIMEOUT_SECS'')"
    using m a b rpc unfolding cf by simp_all
qed

end
