(* ===== verification/Float64.thy ===== *)
theory Float64
  imports Prelude Complex_Main "HOL-Library.Log_Nat"
begin

section \<open>Double-precision arithmetic\<close>

text \<open>
  The rate limiter counts its tokens in \<open>f64\<close>. A finite double is the rational it
  stands for, and an operation is the exact one followed by \<open>f64_round\<close>: IEEE 754
  rounding to nearest, ties to even, with the 53 significant bits of a normal number. Every
  value the gateway computes lies between \<open>2 ^ - 90\<close> and \<open>2 ^ 110\<close> or is zero,
  so neither subnormal numbers nor overflow arise. The laws proved here are the ones error
  analysis rests on: rounding is monotone, exact on integers up to \<open>2 ^ 53\<close>, and off by
  at most one part in \<open>2 ^ 53\<close>.
\<close>

definition round_half_even :: "rat \<Rightarrow> int" where
  "round_half_even x =
     (let n = \<lfloor>x\<rfloor>; d = x - of_int n in
      if d < 1 / 2 then n else if d > 1 / 2 then n + 1 else if even n then n else n + 1)"

definition ilog2 :: "rat \<Rightarrow> int" where
  \<comment> \<open>the binary exponent of a positive rational\<close>
  "ilog2 x = (case quotient_of x of (p, q) \<Rightarrow>
     let e = int (floorlog 2 (nat p)) - int (floorlog 2 (nat q)) in
     if 2 powi e \<le> x then e else e - 1)"

definition f64_ulp :: "rat \<Rightarrow> rat" where
  "f64_ulp x = 2 powi (ilog2 \<bar>x\<bar> - 52)"

definition f64_round :: "rat \<Rightarrow> rat" where
  "f64_round x = (if x = 0 then 0 else of_int (round_half_even (x / f64_ulp x)) * f64_ulp x)"

definition f64_add :: "rat \<Rightarrow> rat \<Rightarrow> rat" where
  "f64_add a b = f64_round (a + b)"

definition f64_sub :: "rat \<Rightarrow> rat \<Rightarrow> rat" where
  "f64_sub a b = f64_round (a - b)"

definition f64_mul :: "rat \<Rightarrow> rat \<Rightarrow> rat" where
  "f64_mul a b = f64_round (a * b)"

definition f64_div :: "rat \<Rightarrow> rat \<Rightarrow> rat" where
  "f64_div a b = f64_round (a / b)"

definition f64_of_nat :: "nat \<Rightarrow> rat" where
  \<comment> \<open>\<open>n as f64\<close>\<close>
  "f64_of_nat n = f64_round (of_nat n)"

subsection \<open>Rounding to an integer\<close>

lemma round_half_even_cases:
  "round_half_even x = \<lfloor>x\<rfloor> \<and> x - of_int \<lfloor>x\<rfloor> \<le> 1 / 2
     \<or> round_half_even x = \<lfloor>x\<rfloor> + 1 \<and> x - of_int \<lfloor>x\<rfloor> \<ge> 1 / 2"
  by (auto simp: round_half_even_def Let_def)

lemma round_half_even_near: "\<bar>of_int (round_half_even x) - x\<bar> \<le> 1 / 2"
proof -
  have "of_int \<lfloor>x\<rfloor> \<le> x" "x < of_int \<lfloor>x\<rfloor> + 1" by linarith+
  then show ?thesis using round_half_even_cases [of x] by auto
qed

lemma round_half_even_of_int [simp]: "round_half_even (of_int k) = k"
  by (simp add: round_half_even_def)

lemma round_half_even_mono:
  assumes "x \<le> y" shows "round_half_even x \<le> round_half_even y"
proof (cases "\<lfloor>x\<rfloor> = \<lfloor>y\<rfloor>")
  case True
  then show ?thesis using assms by (auto simp: round_half_even_def Let_def)
next
  case False
  then have "\<lfloor>x\<rfloor> + 1 \<le> \<lfloor>y\<rfloor>" using floor_mono [OF assms] by linarith
  then show ?thesis using round_half_even_cases [of x] round_half_even_cases [of y] by linarith
qed

subsection \<open>The exponent\<close>

lemma powi_mono2: "a \<le> b \<Longrightarrow> (2 :: rat) powi a \<le> 2 powi b"
  by (rule power_int_increasing) auto

lemma floorlog2_bounds:
  assumes "p > 0"
  shows "(2 :: rat) powi (int (floorlog 2 (nat p)) - 1) \<le> of_int p"
    and "of_int p < (2 :: rat) powi int (floorlog 2 (nat p))"
proof -
  define l where "l = floorlog 2 (nat p)"
  have b: "2 ^ (l - 1) \<le> nat p" "nat p < 2 ^ l"
    using floorlog_bounds [of "nat p" 2] assms by (simp_all add: l_def)
  have l: "l \<noteq> 0" using b assms by (cases l) auto
  have "of_nat (2 ^ (l - 1)) \<le> (of_nat (nat p) :: rat)" "(of_nat (nat p) :: rat) < of_nat (2 ^ l)"
    using b by (simp_all only: of_nat_le_iff of_nat_less_iff)
  then have "(2 :: rat) ^ (l - 1) \<le> of_int p" "of_int p < (2 :: rat) ^ l"
    using assms by simp_all
  moreover have "(2 :: rat) powi (int l - 1) = 2 ^ (l - 1)"
    using l by (simp add: power_int_def nat_diff_distrib)
  ultimately show "(2 :: rat) powi (int (floorlog 2 (nat p)) - 1) \<le> of_int p"
    and "of_int p < (2 :: rat) powi int (floorlog 2 (nat p))"
    by (simp_all add: l_def [symmetric])
qed

lemma ilog2_bounds:
  assumes "x > 0" shows "2 powi ilog2 x \<le> x" and "x < 2 powi (ilog2 x + 1)"
proof -
  obtain p q where pq: "quotient_of x = (p, q)" by fastforce
  then have x: "x = of_int p / of_int q" and q: "q > 0"
    using quotient_of_div quotient_of_denom_pos by blast+
  have p: "p > 0" using assms x q by (simp add: zero_less_divide_iff)
  define a where "a = int (floorlog 2 (nat p))"
  define b where "b = int (floorlog 2 (nat q))"
  have lo: "(2 :: rat) powi (a - 1) \<le> of_int p" "of_int p < (2 :: rat) powi a"
    "(2 :: rat) powi (b - 1) \<le> of_int q" "of_int q < (2 :: rat) powi b"
    using floorlog2_bounds [OF p] floorlog2_bounds [OF q] by (simp_all add: a_def b_def)
  have "x < 2 powi a / 2 powi (b - 1)"
    using lo p q unfolding x by (intro frac_less) auto
  also have "\<dots> = 2 powi (a - b + 1)" by (simp add: power_int_diff power_int_add)
  finally have up: "x < 2 powi (a - b + 1)" .
  have "2 powi (a - b - 1) = 2 powi (a - 1) / (2 :: rat) powi b"
    by (simp add: power_int_diff)
  also have "\<dots> \<le> x"
    using lo p q unfolding x by (intro frac_le) auto
  finally have down: "2 powi (a - b - 1) \<le> x" .
  have "ilog2 x = (if 2 powi (a - b) \<le> x then a - b else a - b - 1)"
    by (simp add: ilog2_def pq a_def b_def Let_def)
  then show "2 powi ilog2 x \<le> x" "x < 2 powi (ilog2 x + 1)" using up down by auto
qed

lemma powi_less_iff: "(2 :: rat) powi a < 2 powi b \<longleftrightarrow> a < b"
  by (meson linorder_not_less one_less_numeral_iff power_int_mono_iff powi_mono2 semiring_norm(76)
      power_int_strict_increasing)

lemma ilog2_mono: "0 < x \<Longrightarrow> x \<le> y \<Longrightarrow> ilog2 x \<le> ilog2 y"
proof -
  assume x: "0 < x" "x \<le> y"
  then have "2 powi ilog2 x < (2 :: rat) powi (ilog2 y + 1)"
    using ilog2_bounds(1) [OF x(1)] ilog2_bounds(2) [of y] by linarith
  then show ?thesis by (simp add: powi_less_iff)
qed

lemma f64_ulp_pos [simp]: "f64_ulp x > 0"
  by (simp add: f64_ulp_def)

lemma f64_ulp_nonzero [simp]: "f64_ulp x \<noteq> 0"
  using f64_ulp_pos [of x] by (simp del: f64_ulp_pos)

lemma f64_ulp_nonneg [simp]: "0 \<le> f64_ulp x"
  using f64_ulp_pos [of x] by (simp del: f64_ulp_pos)

lemma f64_ulp_le: "x > 0 \<Longrightarrow> f64_ulp x * 2 ^ 52 \<le> x"
  using ilog2_bounds(1) [of x] by (simp add: f64_ulp_def power_int_diff)

lemma f64_ulp_gt: "x > 0 \<Longrightarrow> x < f64_ulp x * 2 ^ 53"
  using ilog2_bounds(2) [of x] by (simp add: f64_ulp_def power_int_diff power_int_add)

subsection \<open>The laws of rounding\<close>

lemma f64_round_zero [simp]: "f64_round 0 = 0"
  by (simp add: f64_round_def)

lemma f64_round_multiple: "f64_ulp x * of_int k = x \<Longrightarrow> f64_round x = x"
proof -
  assume k: "f64_ulp x * of_int k = x"
  have "x / f64_ulp x = of_int k" by (metis k f64_ulp_nonzero nonzero_mult_div_cancel_left)
  then show ?thesis using k by (simp add: f64_round_def mult.commute)
qed

lemma f64_round_of_nat [simp]:
  assumes "n \<le> 2 ^ 53" shows "f64_round (of_nat n) = of_nat n"
proof (cases "n = 0")
  case False
  define e where "e = ilog2 (of_nat n)"
  have n: "(of_nat n :: rat) > 0" using False by simp
  have ulp: "f64_ulp (of_nat n) = 2 powi (e - 52)" using n by (simp add: f64_ulp_def e_def)
  have "2 powi e \<le> (2 :: rat) powi 53"
    using ilog2_bounds(1) [OF n] assms of_nat_le_iff [of n "2 ^ 53", where ?'a = rat] by (simp add: e_def)
  then have e: "e \<le> 53" using powi_less_iff [of 53 e] by linarith
  show ?thesis
  proof (cases "e = 53")
    case True
    then have "(of_nat n :: rat) \<ge> 2 ^ 53" using ilog2_bounds(1) [OF n] by (simp add: e_def)
    then have "n = 2 ^ 53"
      using assms by (metis antisym of_nat_le_iff of_nat_numeral of_nat_power)
    then show ?thesis using ulp True
      by (intro f64_round_multiple [of _ "2 ^ 52"]) simp
  next
    case False
    then have "(2 :: rat) powi (e - 52) * 2 ^ nat (52 - e) = 1"
      using e by (subst power_int_of_nat [symmetric]) (simp flip: power_int_add)
    then have "f64_ulp (of_nat n) * of_int (2 ^ nat (52 - e) * int n) = of_nat n"
      unfolding ulp by (simp flip: mult.assoc)
    then show ?thesis by (rule f64_round_multiple)
  qed
qed simp

lemma f64_round_one [simp]: "f64_round 1 = 1"
  using f64_round_of_nat [of 1] by simp

lemma f64_round_numeral [simp]: "numeral n \<le> (2 ^ 53 :: nat) \<Longrightarrow> f64_round (numeral n) = numeral n"
  using f64_round_of_nat [of "numeral n"] by simp

lemma f64_of_nat_exact [simp]: "n \<le> 2 ^ 53 \<Longrightarrow> f64_of_nat n = of_nat n"
  by (simp add: f64_of_nat_def)

lemma f64_round_between:
  assumes "x > 0"
  shows "2 powi ilog2 x \<le> f64_round x" and "f64_round x \<le> 2 powi (ilog2 x + 1)"
proof -
  let ?u = "f64_ulp x"
  have lo: "of_int (2 ^ 52) \<le> x / ?u" and up: "x / ?u \<le> of_int (2 ^ 53)"
    using f64_ulp_le [OF assms] f64_ulp_gt [OF assms]
    by (simp_all add: pos_le_divide_eq pos_divide_le_eq mult.commute less_imp_le)
  have "2 ^ 52 \<le> round_half_even (x / ?u)" "round_half_even (x / ?u) \<le> 2 ^ 53"
    using round_half_even_mono [OF lo] round_half_even_mono [OF up]
    by (simp_all only: round_half_even_of_int)
  then have "(2 :: rat) ^ 52 \<le> of_int (round_half_even (x / ?u))"
    "of_int (round_half_even (x / ?u)) \<le> (2 :: rat) ^ 53"
    by (metis of_int_le_iff of_int_numeral of_int_power)+
  then have "2 ^ 52 * ?u \<le> f64_round x" "f64_round x \<le> 2 ^ 53 * ?u"
    using assms by (simp_all add: f64_round_def mult_right_mono)
  moreover have "2 ^ 52 * ?u = 2 powi ilog2 x" "2 ^ 53 * ?u = 2 powi (ilog2 x + 1)"
    using assms by (simp_all add: f64_ulp_def power_int_diff power_int_add)
  ultimately show "2 powi ilog2 x \<le> f64_round x" "f64_round x \<le> 2 powi (ilog2 x + 1)" by simp_all
qed

lemma f64_round_nonneg [simp]: "0 \<le> x \<Longrightarrow> 0 \<le> f64_round x"
  using f64_round_between(1) [of x] by (cases "x = 0") (auto intro: order_trans [of _ "2 powi ilog2 x"])

lemma f64_round_mono:
  assumes "0 \<le> x" and "x \<le> y" shows "f64_round x \<le> f64_round y"
proof (cases "x = 0")
  case False
  then have x: "x > 0" and y: "y > 0" using assms by auto
  show ?thesis
  proof (cases "ilog2 x = ilog2 y")
    case True
    then have u: "f64_ulp x = f64_ulp y" using x y by (simp add: f64_ulp_def)
    have "x / f64_ulp y \<le> y / f64_ulp y" using assms by (simp add: divide_right_mono)
    then show ?thesis using x y u
      by (simp add: f64_round_def mult_right_mono round_half_even_mono)
  next
    case False
    then have "ilog2 x + 1 \<le> ilog2 y" using ilog2_mono [OF x assms(2)] by linarith
    then show ?thesis
      using f64_round_between(2) [OF x] f64_round_between(1) [OF y] powi_mono2 by (meson order_trans)
  qed
qed (use assms in simp)

lemma f64_round_error:
  assumes "0 \<le> x" shows "f64_round x \<le> x * (1 + 1 / 2 ^ 53)"
proof (cases "x = 0")
  case False
  then have x: "x > 0" using assms by simp
  let ?u = "f64_ulp x"
  have "of_int (round_half_even (x / ?u)) \<le> x / ?u + 1 / 2"
    using round_half_even_near [of "x / ?u"] by linarith
  then have "of_int (round_half_even (x / ?u)) * ?u \<le> (x / ?u + 1 / 2) * ?u"
    by (rule mult_right_mono) (simp add: less_imp_le)
  also have "\<dots> = x + ?u / 2" by (simp add: field_simps)
  also have "\<dots> \<le> x + x / 2 ^ 53" using f64_ulp_le [OF x] by simp
  finally show ?thesis using x by (simp add: f64_round_def algebra_simps)
qed simp

end
