(* ===== verification/Ratelimit.thy ===== *)
theory Ratelimit
  imports Float64 Net_Addr Errors "HOL-Library.AList"
begin

section \<open>Rate limiting\<close>

text \<open>
  \<open>gateway/src/ratelimit.rs\<close>: a token bucket per client address, and the address a
  request is counted under. A bucket map is an association list with distinct keys; an
  \<open>Instant\<close> and a \<open>Duration\<close> are a number of nanoseconds, and
  \<open>duration_since\<close> of a later instant is zero, as truncated subtraction is. Tokens are
  doubles (theory \<open>Float64\<close>).
\<close>

definition MAX_BUCKETS :: nat where
  "MAX_BUCKETS = 50000"

definition NANOS_PER_SEC :: nat where
  "NANOS_PER_SEC = 10 ^ 9"

definition IDLE_EVICTION :: nat where
  "IDLE_EVICTION = 300 * NANOS_PER_SEC"

definition as_secs_f64 :: "nat \<Rightarrow> rat" where
  "as_secs_f64 d = f64_add (f64_of_nat (d div NANOS_PER_SEC))
     (f64_div (f64_of_nat (d mod NANOS_PER_SEC)) (f64_of_nat NANOS_PER_SEC))"

record quota =
  qu_capacity :: u32
  qu_period :: nat

definition per_minute :: "u32 \<Rightarrow> quota" where
  "per_minute capacity = \<lparr>qu_capacity = capacity, qu_period = 60 * NANOS_PER_SEC\<rparr>"

definition refill_per_sec :: "quota \<Rightarrow> rat" where
  "refill_per_sec q = f64_div (f64_of_nat (unat (qu_capacity q))) (as_secs_f64 (qu_period q))"

record bucket =
  bk_tokens :: rat
  bk_last :: nat

datatype limit_decision = LimAllow | LimRefuse (retry_after_secs: u64)

record rate_limiter =
  rl_buckets :: "(ip_addr \<times> bucket) list"
  rl_poisoned :: bool
  rl_quota :: quota

definition limiter_new :: "quota \<Rightarrow> rate_limiter" where
  "limiter_new q = \<lparr>rl_buckets = [], rl_poisoned = False, rl_quota = q\<rparr>"

definition retry_after :: "rat \<Rightarrow> rat \<Rightarrow> u64" where
  \<comment> \<open>\<open>needed.ceil().max(1.0) as u64\<close>; a refill of zero makes the quotient infinite, and
    the cast saturates\<close>
  "retry_after tokens refill =
     (if refill = 0 then - 1
      else let needed = f64_div (f64_sub 1 tokens) refill in
        of_nat (min (2 ^ 64 - 1) (nat (max \<lceil>needed\<rceil> 1))))"

definition evict_idle :: "nat \<Rightarrow> (ip_addr \<times> bucket) list \<Rightarrow> (ip_addr \<times> bucket) list" where
  \<comment> \<open>only a full map is swept\<close>
  "evict_idle now buckets =
     (if length buckets \<ge> MAX_BUCKETS
      then filter (\<lambda>(_, b). now - bk_last b < IDLE_EVICTION) buckets else buckets)"

definition capacity_of :: "rate_limiter \<Rightarrow> rat" where
  "capacity_of rl = f64_of_nat (unat (qu_capacity (rl_quota rl)))"

definition refilled :: "rate_limiter \<Rightarrow> nat \<Rightarrow> bucket \<Rightarrow> rat" where
  "refilled rl now b =
     (let elapsed = as_secs_f64 (now - bk_last b) in
      min (f64_add (bk_tokens b) (f64_mul elapsed (refill_per_sec (rl_quota rl)))) (capacity_of rl))"

definition check_at :: "ip_addr \<Rightarrow> nat \<Rightarrow> rate_limiter \<Rightarrow> limit_decision \<times> rate_limiter" where
  "check_at key now rl =
     (if rl_poisoned rl then (LimRefuse 1, rl)
      else let buckets = evict_idle now (rl_buckets rl) in
      case map_of buckets key of
        Some b \<Rightarrow>
          let tokens = refilled rl now b in
          if tokens \<ge> 1
          then (LimAllow, rl\<lparr>rl_buckets :=
                 AList.update key \<lparr>bk_tokens = f64_sub tokens 1, bk_last = now\<rparr> buckets\<rparr>)
          else (LimRefuse (retry_after tokens (refill_per_sec (rl_quota rl))), rl\<lparr>rl_buckets :=
                 AList.update key \<lparr>bk_tokens = tokens, bk_last = now\<rparr> buckets\<rparr>)
      | None \<Rightarrow>
          if length buckets \<ge> MAX_BUCKETS then (LimRefuse 1, rl\<lparr>rl_buckets := buckets\<rparr>)
          else (LimAllow, rl\<lparr>rl_buckets :=
                 AList.update key \<lparr>bk_tokens = f64_sub (capacity_of rl) 1, bk_last = now\<rparr> buckets\<rparr>))"

definition tracked :: "rate_limiter \<Rightarrow> nat" where
  "tracked rl = (if rl_poisoned rl then 0 else length (rl_buckets rl))"

primrec check_all :: "(ip_addr \<times> nat) list \<Rightarrow> rate_limiter \<Rightarrow> limit_decision list \<times> rate_limiter" where
  \<comment> \<open>the calls of \<open>check\<close> in the order in which they take the lock\<close>
  "check_all [] rl = ([], rl)"
| "check_all (r # rs) rl =
     (case check_at (fst r) (snd r) rl of (d, rl') \<Rightarrow>
      case check_all rs rl' of (ds, rl'') \<Rightarrow> (d # ds, rl''))"

subsection \<open>The address a request is counted under\<close>

record http_request =
  rq_peer :: "ip_addr option"
  rq_forwarded_for :: "string option" \<comment> \<open>the first \<open>X-Forwarded-For\<close>, when it is visible ASCII\<close>

primrec first_untrusted :: "ip_addr list \<Rightarrow> string list \<Rightarrow> ip_addr option" where
  "first_untrusted trusted [] = None"
| "first_untrusted trusted (hop # hops) =
     (case parse_ip (trim hop) of
        None \<Rightarrow> first_untrusted trusted hops
      | Some ip \<Rightarrow> if ip \<notin> set trusted then Some ip else first_untrusted trusted hops)"

definition client_ip_with :: "http_request \<Rightarrow> ip_addr list \<Rightarrow> ip_addr" where
  "client_ip_with req trusted =
     (let peer = (case rq_peer req of Some ip \<Rightarrow> ip | None \<Rightarrow> V4 0) in
      if trusted = [] \<or> peer \<notin> set trusted then peer
      else case rq_forwarded_for req of
        None \<Rightarrow> peer
      | Some xff \<Rightarrow>
          (case first_untrusted trusted (rev (split_on (CHR '','') xff)) of
             Some ip \<Rightarrow> ip
           | None \<Rightarrow> peer))"

subsection \<open>The buckets stay bounded\<close>

definition limiter_ok :: "nat \<Rightarrow> rate_limiter \<Rightarrow> bool" where
  "limiter_ok c rl \<longleftrightarrow> length (rl_buckets rl) \<le> MAX_BUCKETS \<and> distinct (map fst (rl_buckets rl))
     \<and> unat (qu_capacity (rl_quota rl)) = c
     \<and> (\<forall>(k, b) \<in> set (rl_buckets rl). 0 \<le> bk_tokens b \<and> bk_tokens b \<le> of_nat c)"

lemma unat_u32_less: "unat (c :: u32) < 2 ^ 32"
  using unsigned_less [of c, where ?'a = nat] by simp

lemma limiter_ok_capacity:
  assumes "limiter_ok c rl" shows "capacity_of rl = of_nat c" and "c \<le> 2 ^ 32"
proof -
  have "unat (qu_capacity (rl_quota rl)) = c" using assms by (simp add: limiter_ok_def)
  moreover from this have c: "c < 2 ^ 32" using unat_u32_less by metis
  ultimately show "capacity_of rl = of_nat c" by (simp only: capacity_of_def) (simp add: f64_of_nat_exact)
  show "c \<le> 2 ^ 32" using c by simp
qed

lemma nanos_pos [simp]: "0 < NANOS_PER_SEC"
  by (simp add: NANOS_PER_SEC_def)

lemma nanos_exact [simp]: "NANOS_PER_SEC \<le> 2 ^ 53"
  by (simp add: NANOS_PER_SEC_def)

lemma as_secs_f64_nonneg [simp]: "0 \<le> as_secs_f64 d"
  by (simp add: as_secs_f64_def f64_add_def f64_div_def f64_of_nat_def)

lemma refill_nonneg [simp]: "0 \<le> refill_per_sec q"
  unfolding refill_per_sec_def f64_div_def f64_of_nat_def
  by (intro f64_round_nonneg divide_nonneg_nonneg as_secs_f64_nonneg of_nat_0_le_iff)

lemma set_update_subset: "set (AList.update k v xs) \<subseteq> insert (k, v) (set xs)"
  by (induction xs) auto

lemma length_update: "length (AList.update k v xs) = (if map_of xs k = None then Suc (length xs) else length xs)"
  by (induction xs) auto

lemma f64_sub_of_nat: "0 < c \<Longrightarrow> c \<le> 2 ^ 53 \<Longrightarrow> f64_sub (of_nat c) 1 = of_nat c - 1"
  using f64_round_of_nat [of "c - 1"] by (simp add: f64_sub_def of_nat_diff)

lemma f64_sub_one_bounds:
  assumes "1 \<le> t" and "t \<le> of_nat c" and "c \<le> 2 ^ 32"
  shows "0 \<le> f64_sub t 1" and "f64_sub t 1 \<le> of_nat c"
proof -
  show "0 \<le> f64_sub t 1" using assms by (simp add: f64_sub_def)
  have "f64_round (t - 1) \<le> f64_round (of_nat c)" using assms by (intro f64_round_mono) auto
  then show "f64_sub t 1 \<le> of_nat c" using assms by (simp add: f64_sub_def)
qed

lemma refilled_bounds:
  assumes "limiter_ok c rl" and "0 \<le> bk_tokens b"
  shows "0 \<le> refilled rl now b" and "refilled rl now b \<le> of_nat c"
  using assms limiter_ok_capacity(1) [OF assms(1)]
  by (simp_all add: refilled_def Let_def f64_add_def f64_mul_def)

lemma evict_idle_sub:
  "set (evict_idle now bs) \<subseteq> set bs" "length (evict_idle now bs) \<le> length bs"
  "distinct (map fst bs) \<Longrightarrow> distinct (map fst (evict_idle now bs))"
  by (auto simp: evict_idle_def distinct_map_filter)

lemma limiter_ok_update:
  assumes "limiter_ok c rl" and "k \<in> fst ` set (evict_idle now (rl_buckets rl))
      \<or> length (evict_idle now (rl_buckets rl)) < MAX_BUCKETS"
    and "0 \<le> bk_tokens b" and "bk_tokens b \<le> of_nat c"
  shows "limiter_ok c (rl\<lparr>rl_buckets := AList.update k b (evict_idle now (rl_buckets rl))\<rparr>)"
proof -
  let ?bs = "evict_idle now (rl_buckets rl)"
  have "length (AList.update k b ?bs) \<le> MAX_BUCKETS"
    using assms evict_idle_sub(2) [where now = now and bs = "rl_buckets rl"]
    by (auto simp: length_update limiter_ok_def map_of_eq_None_iff)
  then show ?thesis
    using assms set_update_subset [of k b ?bs] evict_idle_sub [where now = now and bs = "rl_buckets rl"]
    by (auto simp: limiter_ok_def distinct_update)
qed

lemma check_at_cases:
  assumes "limiter_ok c rl" and "0 < c" and "check_at key now rl = (d, rl')"
  obtains (poisoned) "rl' = rl" "d \<noteq> LimAllow"
  | (full) "map_of (evict_idle now (rl_buckets rl)) key = None" "d \<noteq> LimAllow"
      "rl' = rl\<lparr>rl_buckets := evict_idle now (rl_buckets rl)\<rparr>"
  | (fresh) "map_of (evict_idle now (rl_buckets rl)) key = None" "d = LimAllow"
      "length (evict_idle now (rl_buckets rl)) < MAX_BUCKETS"
      "rl' = rl\<lparr>rl_buckets := AList.update key \<lparr>bk_tokens = of_nat c - 1, bk_last = now\<rparr>
         (evict_idle now (rl_buckets rl))\<rparr>"
  | (known) b where "map_of (evict_idle now (rl_buckets rl)) key = Some b"
      "d = LimAllow \<longleftrightarrow> refilled rl now b \<ge> 1"
      "rl' = rl\<lparr>rl_buckets := AList.update key
         \<lparr>bk_tokens = (if refilled rl now b \<ge> 1 then f64_sub (refilled rl now b) 1 else refilled rl now b),
          bk_last = now\<rparr> (evict_idle now (rl_buckets rl))\<rparr>"
proof (cases "rl_poisoned rl")
  case True
  then show ?thesis using assms(3) poisoned by (auto simp: check_at_def)
next
  case ok: False
  have cap: "f64_sub (capacity_of rl) 1 = of_nat c - 1"
    using assms(2) limiter_ok_capacity [OF assms(1)] by (simp add: f64_sub_of_nat)
  show ?thesis
  proof (cases "map_of (evict_idle now (rl_buckets rl)) key")
    case None
    then have "(d, rl') = (if length (evict_idle now (rl_buckets rl)) \<ge> MAX_BUCKETS
        then (LimRefuse 1, rl\<lparr>rl_buckets := evict_idle now (rl_buckets rl)\<rparr>)
        else (LimAllow, rl\<lparr>rl_buckets := AList.update key \<lparr>bk_tokens = of_nat c - 1, bk_last = now\<rparr>
               (evict_idle now (rl_buckets rl))\<rparr>))"
      using assms(3) ok by (auto simp: check_at_def Let_def cap split: if_splits)
    then show ?thesis using full fresh None by (auto split: if_splits)
  next
    case (Some b)
    then show ?thesis using assms(3) known [OF Some] ok
      by (cases "refilled rl now b \<ge> 1") (auto simp: check_at_def Let_def)
  qed
qed

lemma check_at_ok:
  assumes ok: "limiter_ok c rl" and c: "0 < c" and step: "check_at key now rl = (d, rl')"
  shows "limiter_ok c rl'"
  using ok c step
proof (cases rule: check_at_cases)
  case full
  then show ?thesis using ok evict_idle_sub [where now = now and bs = "rl_buckets rl"] by (auto simp: limiter_ok_def)
next
  case fresh
  then show ?thesis using ok c by (simp add: limiter_ok_update)
next
  case (known b)
  then have b: "0 \<le> bk_tokens b"
    using ok evict_idle_sub(1) [where now = now and bs = "rl_buckets rl"] by (auto simp: limiter_ok_def dest!: map_of_SomeD)
  have "key \<in> fst ` set (evict_idle now (rl_buckets rl))"
    using known(1) by (metis map_of_eq_None_iff option.distinct(1))
  then show ?thesis
    using known(3) refilled_bounds [OF ok b, of now] limiter_ok_capacity(2) [OF ok]
      f64_sub_one_bounds [of "refilled rl now b" c]
    by (auto intro!: limiter_ok_update [OF ok])
qed (use ok in simp)

lemma check_all_ok:
  assumes "limiter_ok c rl" and "0 < c" shows "limiter_ok c (snd (check_all rs rl))"
  using assms(1)
proof (induction rs arbitrary: rl)
  case (Cons r rs)
  obtain d rl' where "check_at (fst r) (snd r) rl = (d, rl')" by fastforce
  then show ?case using Cons.IH check_at_ok [OF Cons.prems assms(2)] by (simp add: case_prod_unfold)
qed simp

lemma limiter_new_ok: "limiter_ok (unat c) (limiter_new (per_minute c))"
  by (simp add: limiter_ok_def limiter_new_def per_minute_def)

end
