(* ===== verification/Server.thy ===== *)
theory Server
  imports Config Ratelimit Buy
begin

section \<open>Starting the gateway\<close>

text \<open>
  \<open>gateway/src/main.rs\<close>: how a process environment becomes a serving gateway, and the
  rate limits in front of the open routes. What lies outside the repository is a record of
  parameters: connecting to a database (with its migrations), the public key of a keypair
  file, and the node behind an RPC URL. Logging is left out.
\<close>

record world =
  wd_connect :: "string \<Rightarrow> (pg \<times> control) option"
  wd_load_keypair :: "string \<Rightarrow> pubkey option"
  wd_rpc :: "string \<Rightarrow> rpc_node"
  wd_get_account :: "string \<Rightarrow> pubkey \<Rightarrow> string + (pubkey \<times> bytes)"

datatype boot_error =
    BadConfig config_error
  | DatabaseError
  | KeypairError string

record server =
  sv_app :: app_state
  sv_open_limiter :: rate_limiter
  sv_general_limiter :: rate_limiter
  sv_trusted_proxies :: "ip_addr list"
  sv_chain_timeout :: u64
  sv_bind_addr :: socket_addr

definition open_backend :: "externals \<Rightarrow> world \<Rightarrow> config \<Rightarrow> (backend, boot_error) result" where
  \<comment> \<open>the database with its sessions rehydrated, or the in-memory store\<close>
  "open_backend X W cf = (case cf_database_url cf of
     None \<Rightarrow> Ok (Ephemeral mem_new)
   | Some url \<Rightarrow> (case wd_connect W url of
       None \<Rightarrow> Err DatabaseError
     | Some (db, cdb) \<Rightarrow> (case load_active_sessions X db of
         Err _ \<Rightarrow> Err DatabaseError
       | Ok active \<Rightarrow> Ok (Durable db cdb))))"

definition load_key :: "world \<Rightarrow> string option \<Rightarrow> (pubkey option, boot_error) result" where
  "load_key W path = (case path of
     None \<Rightarrow> Ok None
   | Some p \<Rightarrow> (case wd_load_keypair W p of None \<Rightarrow> Err (KeypairError p) | Some k \<Rightarrow> Ok (Some k)))"

definition default_provider :: "externals \<Rightarrow> pubkey option \<Rightarrow> string \<Rightarrow> provider_record" where
  "default_provider X provider_keypair url =
     \<lparr>pv_provider_id = DEFAULT_PROVIDER_ID, pv_label = ''Configured upstream'', pv_base_url = url,
      pv_provider_pubkey = map_option (pk_show X) provider_keypair, pv_enabled = True\<rparr>"

definition boot_registry :: "externals \<Rightarrow> config \<Rightarrow> pubkey option \<Rightarrow> backend \<Rightarrow> registry \<times> backend" where
  \<comment> \<open>the stored providers, then the configured upstream over them, also in the table\<close>
  "boot_registry X cf provider_keypair b =
     (let loaded = (case b of
            Ephemeral _ \<Rightarrow> registry_new
          | Durable db cdb \<Rightarrow> (case list_providers None cdb of
              Ok rows \<Rightarrow> foldl (\<lambda>reg r. registry_upsert r reg) registry_new rows
            | Err _ \<Rightarrow> registry_new))
      in case cf_upstream_url cf of
        None \<Rightarrow> (loaded, b)
      | Some url \<Rightarrow>
          let p = default_provider X provider_keypair url in
          (registry_upsert p loaded,
           case b of Ephemeral m \<Rightarrow> Ephemeral m
           | Durable db cdb \<Rightarrow> Durable db (snd (upsert_provider p None cdb))))"

definition boot :: "externals \<Rightarrow> world \<Rightarrow> env \<Rightarrow> (server, boot_error) result" where
  "boot X W env =
     (case from_env X env of
        Err e \<Rightarrow> Err (BadConfig e)
      | Ok cf \<Rightarrow>
      case open_backend X W cf of
        Err e \<Rightarrow> Err e
      | Ok store \<Rightarrow>
      case load_key W (cf_provider_keypair_path cf) of
        Err e \<Rightarrow> Err e
      | Ok provider_keypair \<Rightarrow>
      case load_key W (cf_settlement_authority_keypair_path cf) of
        Err e \<Rightarrow> Err e
      | Ok settlement_authority \<Rightarrow>
      case boot_registry X cf provider_keypair store of (registry, store') \<Rightarrow>
      Ok \<lparr>sv_app = \<lparr>as_store = store', as_program_id = cf_program_id cf,
              as_legacy_program_id = cf_legacy_program_id cf,
              as_rpc = (if provider_keypair \<noteq> None \<or> settlement_authority \<noteq> None
                        then Some (wd_rpc W (cf_rpc_url cf)) else None),
              as_provider_keypair = provider_keypair,
              as_settlement_authority = settlement_authority,
              as_session_fetcher = (if cf_trust_open_requests cf then None
                        else Some (rpc_fetch (wd_get_account W (cf_rpc_url cf)))),
              as_upstream = map_option upstream_new (cf_upstream_url cf),
              as_network = cf_network cf, as_registry = registry,
              as_admin_token = cf_admin_token cf,
              as_require_agent_policy = cf_require_agent_policy cf\<rparr>,
          sv_open_limiter = limiter_new (per_minute (cf_open_rate_limit cf)),
          sv_general_limiter = limiter_new (per_minute (cf_general_rate_limit cf)),
          sv_trusted_proxies = cf_trusted_proxies cf,
          sv_chain_timeout = cf_chain_timeout cf,
          sv_bind_addr = cf_bind_addr cf\<rparr>)"

subsection \<open>The limits in front of the routes\<close>

type_synonym 'a handler = "server \<Rightarrow> ('a, denial) result \<times> server"

definition with_app :: "(app_state \<Rightarrow> ('a, denial) result \<times> app_state) \<Rightarrow> 'a handler" where
  "with_app h sv = (case h (sv_app sv) of (res, st) \<Rightarrow> (res, sv\<lparr>sv_app := st\<rparr>))"

definition guard ::
    "(server \<Rightarrow> rate_limiter) \<Rightarrow> (rate_limiter \<Rightarrow> server \<Rightarrow> server) \<Rightarrow> http_request \<Rightarrow> nat \<Rightarrow> string
      \<Rightarrow> 'a handler \<Rightarrow> 'a handler" where
  \<comment> \<open>the limiter is read and written back through the first two arguments\<close>
  "guard limiter set_limiter req now rid next sv =
     (case check_at (client_ip_with req (sv_trusted_proxies sv)) now (limiter sv) of
        (LimAllow, l) \<Rightarrow> next (set_limiter l sv)
      | (LimRefuse _, l) \<Rightarrow> (Err (denial_new ERR_RATE_LIMITED rid), set_limiter l sv))"

definition limit_open :: "http_request \<Rightarrow> nat \<Rightarrow> string \<Rightarrow> 'a handler \<Rightarrow> 'a handler" where
  "limit_open = guard sv_open_limiter (\<lambda>l sv. sv\<lparr>sv_open_limiter := l\<rparr>)"

definition limit_general :: "http_request \<Rightarrow> nat \<Rightarrow> string \<Rightarrow> 'a handler \<Rightarrow> 'a handler" where
  "limit_general = guard sv_general_limiter (\<lambda>l sv. sv\<lparr>sv_general_limiter := l\<rparr>)"

definition serve_open_session ::
    "externals \<Rightarrow> http_request \<Rightarrow> nat \<Rightarrow> string \<Rightarrow> open_session_request \<Rightarrow> open_session_response handler" where
  "serve_open_session X req now rid body =
     limit_general req now rid (limit_open req now rid (with_app (route_open_session X rid body)))"

definition serve_control ::
    "externals \<Rightarrow> admin_request \<Rightarrow> string
      \<Rightarrow> (operator \<Rightarrow> app_state \<Rightarrow> ('a, denial) result \<times> app_state) \<Rightarrow> 'a handler" where
  \<comment> \<open>the guard in front of every control-plane route; no rate limit\<close>
  "serve_control X areq rid h sv =
     (case require_admin X (as_admin_token (sv_app sv)) rid areq (map_option snd (as_db (sv_app sv))) of
        (Err d, _) \<Rightarrow> (Err d, sv)
      | (Ok op, cdb) \<Rightarrow>
          with_app (h op) (sv\<lparr>sv_app := (case cdb of None \<Rightarrow> sv_app sv | Some c \<Rightarrow> set_control c (sv_app sv))\<rparr>))"

end
