(* ===== verification/Ratelimit_Props.thy ===== *)
theory Ratelimit_Props
  imports Ratelimit
begin

section \<open>What the rate limiter guarantees\<close>

text \<open>
  The memory bound, the rate a client can reach in any window, and which part of a
  forwarding header decides the address a request is counted under. The rate bound is a
  potential argument: the allowance a client has at an instant grows by the refill rate, an
  allowed request uses one unit of it, an evicted client had the full allowance anyway, and
  each request loses at most a rounding error.
\<close>

subsection \<open>Rounding errors of one refill\<close>

abbreviation rounding :: rat where
  "rounding \<equiv> 1 + 1 / 2 ^ 53"

lemma f64_round_le: "0 \<le> x \<Longrightarrow> x \<le> y \<Longrightarrow> f64_round x \<le> y * rounding"
  using f64_round_error [of x] mult_right_mono [of x y rounding] by simp

lemma as_secs_f64_le: "as_secs_f64 d \<le> of_nat d / 10 ^ 9 * rounding ^ 2"
proof -
  define s where "s = d div NANOS_PER_SEC"
  define n where "n = d mod NANOS_PER_SEC"
  have d: "d = s * NANOS_PER_SEC + n" by (simp add: s_def n_def)
  have n: "n \<le> 2 ^ 53" using mod_less_divisor [OF nanos_pos, of d] by (simp add: n_def NANOS_PER_SEC_def)
  have "f64_of_nat s \<le> of_nat s * rounding"
    unfolding f64_of_nat_def by (rule f64_round_le) simp_all
  moreover have "f64_div (f64_of_nat n) (f64_of_nat NANOS_PER_SEC) \<le> of_nat n / 10 ^ 9 * rounding"
    unfolding f64_div_def using n by (intro f64_round_le) (simp_all add: NANOS_PER_SEC_def)
  ultimately have "f64_of_nat s + f64_div (f64_of_nat n) (f64_of_nat NANOS_PER_SEC)
      \<le> (of_nat s + of_nat n / 10 ^ 9) * rounding"
    by (simp add: algebra_simps)
  moreover have "0 \<le> f64_of_nat s + f64_div (f64_of_nat n) (f64_of_nat NANOS_PER_SEC)"
    by (simp add: f64_of_nat_def f64_div_def)
  ultimately have "as_secs_f64 d \<le> (of_nat s + of_nat n / 10 ^ 9) * rounding * rounding"
    unfolding as_secs_f64_def f64_add_def s_def [symmetric] n_def [symmetric] by (intro f64_round_le)
  moreover have "of_nat s + of_nat n / 10 ^ 9 = (of_nat d / 10 ^ 9 :: rat)"
    by (simp add: d NANOS_PER_SEC_def field_simps)
  ultimately show ?thesis by (simp add: power2_eq_square mult.assoc)
qed

lemma minute_exact: "as_secs_f64 (60 * NANOS_PER_SEC) = 60"
  using f64_round_of_nat [of 60] by (simp add: as_secs_f64_def f64_add_def f64_div_def)

lemma refill_le:
  assumes "q = per_minute c" shows "refill_per_sec q \<le> of_nat (unat c) / 60 * rounding"
proof -
  define n where "n = unat c"
  have "n \<le> 2 ^ 53" using unat_u32_less [of c] by (simp add: n_def)
  then have "refill_per_sec q = f64_round (of_nat n / 60)"
    by (simp add: assms refill_per_sec_def per_minute_def minute_exact f64_div_def flip: n_def)
  then show ?thesis unfolding n_def [symmetric] using f64_round_error [of "of_nat n / 60"] by simp
qed

definition slack :: "nat \<Rightarrow> rat" where
  \<comment> \<open>the rounding error of one request\<close>
  "slack c = 7 * of_nat c / 2 ^ 53"

definition allowance_rate :: "nat \<Rightarrow> rat" where
  \<comment> \<open>tokens per nanosecond\<close>
  "allowance_rate c = of_nat c / 60 / 10 ^ 9"

lemma allowance_rate_nonneg [simp]: "0 \<le> allowance_rate c"
  by (simp add: allowance_rate_def)

lemma refilled_le:
  assumes ok: "limiter_ok n rl" and q: "rl_quota rl = per_minute c" and b: "0 \<le> bk_tokens b"
  shows "refilled rl now b
    \<le> min (of_nat n) (bk_tokens b + allowance_rate n * of_nat (now - bk_last b)) + 6 * of_nat n / 2 ^ 53"
proof -
  define e where "e = now - bk_last b"
  define x where "x = allowance_rate n * of_nat e"
  have n: "n = unat c" using ok q by (simp add: limiter_ok_def per_minute_def)
  have x: "0 \<le> x" by (simp add: x_def)
  let ?m = "f64_mul (as_secs_f64 e) (refill_per_sec (rl_quota rl))"
  have "as_secs_f64 e * refill_per_sec (rl_quota rl)
      \<le> (of_nat e / 10 ^ 9 * rounding ^ 2) * (of_nat n / 60 * rounding)"
    unfolding n by (intro mult_mono as_secs_f64_le refill_le [OF q]) simp_all
  also have "\<dots> = x * rounding ^ 3"
    by (simp add: x_def allowance_rate_def power2_eq_square power3_eq_cube)
  finally have "?m \<le> x * rounding ^ 3 * rounding"
    unfolding f64_mul_def by (intro f64_round_le mult_nonneg_nonneg) simp_all
  then have m: "?m \<le> x * rounding ^ 4" by (simp add: power4_eq_xxxx power3_eq_cube mult.assoc)
  have "bk_tokens b * 1 \<le> bk_tokens b * rounding ^ 4"
    by (rule mult_left_mono) (simp_all add: b)
  then have "bk_tokens b + ?m \<le> (bk_tokens b + x) * rounding ^ 4"
    using m by (simp add: algebra_simps)
  then have "f64_add (bk_tokens b) ?m \<le> (bk_tokens b + x) * rounding ^ 4 * rounding"
    unfolding f64_add_def using b by (intro f64_round_le) (simp_all add: f64_mul_def)
  also have "\<dots> = (bk_tokens b + x) * rounding ^ 5"
    by (simp only: mult.assoc power_Suc2 [symmetric] eval_nat_numeral)
  also have "\<dots> \<le> (bk_tokens b + x) * (1 + 6 / 2 ^ 53)"
    using b x by (intro mult_left_mono) (simp_all add: power_numeral_odd power_numeral_even)
  finally have s: "f64_add (bk_tokens b) ?m \<le> (bk_tokens b + x) + 6 * (bk_tokens b + x) / 2 ^ 53"
    by (simp only: distrib_left mult_1_right times_divide_eq_right mult.commute [of _ 6])
  have r: "refilled rl now b = min (f64_add (bk_tokens b) ?m) (of_nat n)"
    using limiter_ok_capacity(1) [OF ok] by (simp add: refilled_def e_def)
  show ?thesis
  proof (cases "bk_tokens b + x \<le> of_nat n")
    case True
    have "6 * (bk_tokens b + x) / 2 ^ 53 \<le> 6 * of_nat n / 2 ^ 53"
      using True by (intro divide_right_mono mult_left_mono) simp_all
    then have "f64_add (bk_tokens b) ?m \<le> (bk_tokens b + x) + 6 * of_nat n / 2 ^ 53"
      using s by linarith
    then show ?thesis using True unfolding r e_def [symmetric] x_def [symmetric]
      by (simp only: min_absorb2 min.coboundedI1)
  next
    case False
    then show ?thesis unfolding r e_def [symmetric] x_def [symmetric] by simp
  qed
qed

subsection \<open>The potential\<close>

definition allowance :: "nat \<Rightarrow> rate_limiter \<Rightarrow> ip_addr \<Rightarrow> nat \<Rightarrow> rat" where
  \<comment> \<open>what a client may still spend at an instant, in exact arithmetic\<close>
  "allowance n rl key now = (case map_of (rl_buckets rl) key of
     None \<Rightarrow> of_nat n
   | Some b \<Rightarrow> min (of_nat n) (bk_tokens b + allowance_rate n * of_nat (now - bk_last b)))"

definition no_later :: "nat \<Rightarrow> rate_limiter \<Rightarrow> bool" where
  "no_later now rl \<longleftrightarrow> (\<forall>(k, b) \<in> set (rl_buckets rl). bk_last b \<le> now)"

lemma allowance_le: "allowance n rl key now \<le> of_nat n"
  by (simp add: allowance_def split: option.splits)

lemma allowance_nonneg: "limiter_ok n rl \<Longrightarrow> 0 \<le> allowance n rl key now"
  by (auto simp: allowance_def limiter_ok_def split: option.splits dest!: map_of_SomeD)

lemma min_shift: "0 \<le> d \<Longrightarrow> min m (a + (e + d)) \<le> min m (a + e) + (d :: rat)"
  by (auto simp: min_def)

lemma allowance_later:
  assumes "no_later t rl" and "t \<le> now"
  shows "allowance n rl key now \<le> allowance n rl key t + allowance_rate n * of_nat (now - t)"
proof (cases "map_of (rl_buckets rl) key")
  case (Some b)
  then have "bk_last b \<le> t" using assms by (auto simp: no_later_def dest!: map_of_SomeD)
  then have "of_nat (now - bk_last b) = (of_nat (t - bk_last b) + of_nat (now - t) :: rat)"
    using assms(2) by (simp add: of_nat_diff)
  moreover have "0 \<le> allowance_rate n * of_nat (now - t)" by simp
  ultimately show ?thesis using Some
    by (simp only: allowance_def option.case distrib_left min_shift)
qed (simp add: allowance_def)

lemma map_of_filter_distinct:
  "distinct (map fst xs) \<Longrightarrow> map_of (filter (\<lambda>(_, b). P b) xs) k
     = (case map_of xs k of None \<Rightarrow> None | Some b \<Rightarrow> if P b then Some b else None)"
proof (induction xs)
  case (Cons x xs)
  then show ?case by (cases x) (auto simp: map_of_eq_None_iff split: option.splits)
qed simp

lemma evicted_had_all:
  assumes "limiter_ok n rl"
  shows "allowance n (rl\<lparr>rl_buckets := evict_idle now (rl_buckets rl)\<rparr>) key now = allowance n rl key now"
proof (cases "map_of (rl_buckets rl) key")
  case (Some b)
  have tokens: "0 \<le> bk_tokens b" using assms Some by (auto simp: limiter_ok_def dest!: map_of_SomeD)
  have "of_nat n \<le> bk_tokens b + allowance_rate n * of_nat (now - bk_last b)"
    if "\<not> now - bk_last b < IDLE_EVICTION"
  proof -
    have "allowance_rate n * of_nat IDLE_EVICTION \<le> allowance_rate n * of_nat (now - bk_last b)"
      using that by (intro mult_left_mono) (simp_all only: of_nat_le_iff not_less allowance_rate_nonneg)
    then show ?thesis using tokens by (simp add: allowance_rate_def IDLE_EVICTION_def NANOS_PER_SEC_def)
  qed
  then show ?thesis using assms Some
    by (auto simp: allowance_def evict_idle_def map_of_filter_distinct limiter_ok_def)
qed (use assms in \<open>auto simp: allowance_def evict_idle_def map_of_filter_distinct limiter_ok_def\<close>)

lemma allowance_update_other:
  "k \<noteq> key \<Longrightarrow> allowance n (rl\<lparr>rl_buckets := AList.update key b bs\<rparr>) k now
     = allowance n (rl\<lparr>rl_buckets := bs\<rparr>) k now"
  by (simp add: allowance_def update_conv')

lemma allowance_update_same:
  "bk_tokens b \<le> of_nat n \<Longrightarrow> bk_last b = now \<Longrightarrow>
     allowance n (rl\<lparr>rl_buckets := AList.update key b bs\<rparr>) key now = bk_tokens b"
  by (simp add: allowance_def update_conv')

lemma check_at_other:
  assumes ok: "limiter_ok n rl" and n: "0 < n" and step: "check_at key now rl = (d, rl')"
    and "k \<noteq> key"
  shows "allowance n rl' k now = allowance n rl k now"
  using ok n step
  by (cases rule: check_at_cases) (simp_all add: assms(4) allowance_update_other evicted_had_all [OF ok])

lemma check_at_later:
  assumes ok: "limiter_ok n rl" and n: "0 < n" and step: "check_at key now rl = (d, rl')"
    and later: "no_later now rl"
  shows "no_later now rl'"
proof -
  have "no_later now (rl\<lparr>rl_buckets := bs\<rparr>)" if "set bs \<subseteq> insert (key, b) (set (rl_buckets rl))"
    and "bk_last b = now" for b bs
    using that later by (auto simp: no_later_def)
  then have *: "no_later now (rl\<lparr>rl_buckets := AList.update key b (evict_idle now (rl_buckets rl))\<rparr>)"
    if "bk_last b = now" for b
    using that set_update_subset [of key b] evict_idle_sub(1) [where now = now and bs = "rl_buckets rl"] by blast
  show ?thesis using ok n step
  proof (cases rule: check_at_cases)
    case full
    then show ?thesis using later evict_idle_sub(1) [where now = now and bs = "rl_buckets rl"]
      by (auto simp: no_later_def)
  qed (simp_all add: * later)
qed

lemma check_at_quota: "check_at key now rl = (d, rl') \<Longrightarrow> rl_quota rl' = rl_quota rl"
  by (auto simp: check_at_def Let_def split: if_splits option.splits)

lemma check_at_spends:
  assumes ok: "limiter_ok n rl" and n: "0 < n" and q: "rl_quota rl = per_minute c"
    and step: "check_at key now rl = (d, rl')"
  shows "(if d = LimAllow then 1 else 0) + allowance n rl' key now \<le> allowance n rl key now + slack n"
  using ok n step
proof (cases rule: check_at_cases)
  case fresh
  then have "allowance n rl key now = of_nat n"
    using evicted_had_all [OF ok, of now key] by (simp add: allowance_def)
  then show ?thesis using fresh by (simp add: allowance_update_same slack_def)
next
  case (known b)
  let ?t = "refilled rl now b"
  have b: "0 \<le> bk_tokens b" using known(1) ok evict_idle_sub(1) [where now = now and bs = "rl_buckets rl"]
    by (auto simp: limiter_ok_def dest!: map_of_SomeD)
  have "allowance n rl key now = min (of_nat n) (bk_tokens b + allowance_rate n * of_nat (now - bk_last b))"
    using evicted_had_all [OF ok, of now key] known(1) by (simp add: allowance_def)
  then have t: "?t \<le> allowance n rl key now + 6 * of_nat n / 2 ^ 53"
    using refilled_le [OF ok q b, of now] by simp
  have tn: "?t \<le> of_nat n" using refilled_bounds(2) [OF ok b] .
  show ?thesis
  proof (cases "?t \<ge> 1")
    case True
    have "f64_sub ?t 1 \<le> (?t - 1) * rounding"
      using f64_round_error [of "?t - 1"] True by (simp add: f64_sub_def)
    also have "\<dots> = ?t - 1 + (?t - 1) / 2 ^ 53"
      by (simp only: distrib_left mult_1_right times_divide_eq_right)
    also have "\<dots> \<le> ?t - 1 + of_nat n / 2 ^ 53"
      using tn by (intro add_left_mono divide_right_mono) simp_all
    finally have "f64_sub ?t 1 \<le> ?t - 1 + of_nat n / 2 ^ 53" .
    moreover have "f64_sub ?t 1 \<le> of_nat n"
      using f64_sub_one_bounds(2) [OF True tn limiter_ok_capacity(2) [OF ok]] .
    ultimately show ?thesis using known True t
      by (simp add: allowance_update_same slack_def)
  next
    case False
    then show ?thesis using known tn t
      by (simp add: allowance_update_same slack_def)
  qed
qed (simp_all add: slack_def evicted_had_all ok)

subsection \<open>The rate a client can reach\<close>

definition allowed_for :: "ip_addr \<Rightarrow> (ip_addr \<times> nat) list \<Rightarrow> limit_decision list \<Rightarrow> nat" where
  "allowed_for key reqs ds = length (filter (\<lambda>((k, t), d). k = key \<and> d = LimAllow) (zip reqs ds))"

definition asked_for :: "ip_addr \<Rightarrow> (ip_addr \<times> nat) list \<Rightarrow> nat" where
  "asked_for key reqs = length (filter (\<lambda>(k, t). k = key) reqs)"

text \<open>
  What the bound on a window needs of a limiter: a state that is good up to an instant stays
  good, and an allowance that grows with time at a fixed rate, is spent by a client's own
  allowed requests up to an error, and is untouched by those of the others.
\<close>

locale allowance_spec =
  fixes good :: "nat \<Rightarrow> rate_limiter \<Rightarrow> bool" and left :: "rate_limiter \<Rightarrow> ip_addr \<Rightarrow> nat \<Rightarrow> rat"
    and rate err :: rat
  assumes good_check: "good t rl \<Longrightarrow> t \<le> now \<Longrightarrow> check_at key now rl = (d, rl') \<Longrightarrow> good now rl'"
    and left_nonneg: "good t rl \<Longrightarrow> 0 \<le> left rl key t"
    and left_grows: "good t rl \<Longrightarrow> t \<le> now \<Longrightarrow> left rl key now \<le> left rl key t + rate * of_nat (now - t)"
    and left_spent: "good t rl \<Longrightarrow> t \<le> now \<Longrightarrow> check_at key now rl = (d, rl') \<Longrightarrow>
      (if d = LimAllow then 1 else 0) + left rl' key now \<le> left rl key now + err"
    and left_other: "good t rl \<Longrightarrow> t \<le> now \<Longrightarrow> check_at key now rl = (d, rl') \<Longrightarrow> k \<noteq> key \<Longrightarrow>
      left rl' k now = left rl k now"
begin

lemma good_all: "good t rl \<Longrightarrow> sorted (t # map snd reqs) \<Longrightarrow>
    good (last (t # map snd reqs)) (snd (check_all reqs rl))"
proof (induction reqs arbitrary: rl t)
  case (Cons r reqs)
  obtain d rl' where step: "check_at (fst r) (snd r) rl = (d, rl')" by fastforce
  have "good (snd r) rl'" using good_check [OF Cons.prems(1) _ step] Cons.prems(2) by simp
  from Cons.IH [OF this] step Cons.prems(2) show ?case by (simp add: case_prod_unfold)
qed simp

lemma step_bound:
  assumes "good t rl" and "t \<le> now" and step: "check_at k now rl = (d, rl')"
  shows "(if k = key \<and> d = LimAllow then 1 else 0) + left rl' key now
    \<le> left rl key t + rate * of_nat (now - t) + (if k = key then err else 0)"
proof (cases "k = key")
  case True
  define i :: rat where "i = (if d = LimAllow then 1 else 0)"
  have "i + left rl' key now \<le> left rl key now + err"
    using left_spent [OF assms] unfolding True i_def .
  then show ?thesis using left_grows [OF assms(1,2), of key] True by (simp add: i_def)
next
  case False
  then show ?thesis using left_grows [OF assms(1,2), of key] left_other [OF assms, of key] by simp
qed

lemma window_bound:
  "good t rl \<Longrightarrow> sorted (t # map snd reqs) \<Longrightarrow>
     of_nat (allowed_for key reqs (fst (check_all reqs rl)))
       \<le> left rl key t + rate * of_nat (last (t # map snd reqs) - t) + of_nat (asked_for key reqs) * err"
proof (induction reqs arbitrary: rl t)
  case Nil
  then show ?case by (simp add: allowed_for_def asked_for_def left_nonneg)
next
  case (Cons r reqs)
  obtain k now where r: "r = (k, now)" by fastforce
  obtain d rl' where step: "check_at k now rl = (d, rl')" by fastforce
  define end_t where "end_t = last (now # map snd reqs)"
  define i :: rat where "i = (if k = key \<and> d = LimAllow then 1 else 0)"
  define e :: rat where "e = (if k = key then err else 0)"
  have le: "t \<le> now" and sorted: "sorted (now # map snd reqs)" using Cons.prems r by auto
  have now_end: "now \<le> end_t" unfolding end_t_def using sorted
    by (cases "map snd reqs" rule: rev_cases) (auto simp: sorted_append)
  have IH: "of_nat (allowed_for key reqs (fst (check_all reqs rl')))
      \<le> left rl' key now + rate * of_nat (end_t - now) + of_nat (asked_for key reqs) * err"
    unfolding end_t_def using Cons.IH [OF good_check [OF Cons.prems(1) le step] sorted] .
  have "i + left rl' key now \<le> left rl key t + rate * of_nat (now - t) + e"
    using step_bound [OF Cons.prems(1) le step, of key] unfolding i_def e_def .
  moreover have "rate * of_nat (end_t - t) = rate * of_nat (now - t) + rate * of_nat (end_t - now)"
    using le now_end by (simp add: of_nat_diff flip: distrib_left)
  moreover have "of_nat (allowed_for key (r # reqs) (fst (check_all (r # reqs) rl)))
      = i + of_nat (allowed_for key reqs (fst (check_all reqs rl')))"
    using step r by (simp add: allowed_for_def case_prod_unfold i_def)
  moreover have "of_nat (asked_for key (r # reqs)) * err = e + of_nat (asked_for key reqs) * err"
    using r by (simp add: asked_for_def distrib_right e_def)
  ultimately have "of_nat (allowed_for key (r # reqs) (fst (check_all (r # reqs) rl)))
      \<le> left rl key t + rate * of_nat (end_t - t) + of_nat (asked_for key (r # reqs)) * err"
    using IH by linarith
  moreover have "last (t # map snd (r # reqs)) = end_t" by (simp add: r end_t_def)
  ultimately show ?case by simp
qed

end

definition minute_limiter :: "u32 \<Rightarrow> nat \<Rightarrow> rate_limiter \<Rightarrow> bool" where
  \<comment> \<open>a limiter of a positive quota per minute, none of whose buckets was touched later\<close>
  "minute_limiter c t rl \<longleftrightarrow> 0 < unat c \<and> limiter_ok (unat c) rl \<and> rl_quota rl = per_minute c \<and> no_later t rl"

lemma no_later_mono: "no_later t rl \<Longrightarrow> t \<le> now \<Longrightarrow> no_later now rl"
  by (fastforce simp: no_later_def)

interpretation lim: allowance_spec "minute_limiter c" "allowance (unat c)" "allowance_rate (unat c)" "slack (unat c)"
  for c
proof (unfold_locales, goal_cases)
  case (1 t rl now key d rl')
  then show ?case using check_at_ok check_at_later check_at_quota no_later_mono
    unfolding minute_limiter_def by metis
next
  case (2 t rl key)
  then show ?case by (simp add: minute_limiter_def allowance_nonneg)
next
  case (3 t rl now key)
  then show ?case using allowance_later unfolding minute_limiter_def by blast
next
  case (4 t rl now key d rl')
  then show ?case using check_at_spends unfolding minute_limiter_def by blast
next
  case (5 t rl now key d rl' k)
  then show ?case using check_at_other unfolding minute_limiter_def by blast
qed

lemma minute_limiter_new: "0 < c \<Longrightarrow> minute_limiter c t (limiter_new (per_minute c))"
  using limiter_new_ok [of c]
  by (simp add: minute_limiter_def no_later_def limiter_new_def word_neq_0_conv unat_gt_0)

text \<open>
  However many addresses ask, in whatever order and at whatever times, a limiter with a
  positive quota never tracks more than \<open>MAX_BUCKETS\<close> clients, tracks each client
  once, and every bucket holds between zero tokens and its capacity: no client saves up more
  than one full allowance, and the map cannot be grown without bound.
\<close>

theorem limiter_bounded:
  assumes "0 < c" and "check_all reqs (limiter_new (per_minute c)) = (ds, rl)"
  shows "tracked rl \<le> MAX_BUCKETS \<and> distinct (map fst (rl_buckets rl))
    \<and> (\<forall>key b. map_of (rl_buckets rl) key = Some b
        \<longrightarrow> 0 \<le> bk_tokens b \<and> bk_tokens b \<le> of_nat (unat c))"
proof -
  have "0 < unat c" using assms(1) by (simp add: word_neq_0_conv unat_gt_0)
  then have "limiter_ok (unat c) rl"
    using check_all_ok [OF limiter_new_ok, of c reqs] assms(2) by simp
  then show ?thesis
    by (auto simp: limiter_ok_def tracked_def simp del: of_nat_unat dest!: map_of_SomeD)
qed

definition demo_burst :: "(ip_addr \<times> nat) list" where
  "demo_burst = [(V4 1, 7), (V4 1, 7), (V4 2, 7), (V4 1, 7)]"

lemma demo_burst_decided:
  "check_all demo_burst (limiter_new (per_minute 2)) =
     ([LimAllow, LimAllow, LimAllow, LimRefuse (retry_after 0 (refill_per_sec (per_minute 2)))],
      \<lparr>rl_buckets = [(V4 1, \<lparr>bk_tokens = 0, bk_last = 7\<rparr>), (V4 2, \<lparr>bk_tokens = 1, bk_last = 7\<rparr>)],
       rl_poisoned = False, rl_quota = per_minute 2\<rparr>)"
proof -
  have zero: "as_secs_f64 0 = 0" by (simp add: as_secs_f64_def f64_add_def f64_div_def f64_of_nat_def)
  have "qu_capacity (per_minute 2) = 2" by (simp add: per_minute_def)
  then show ?thesis
    by (simp add: demo_burst_def limiter_new_def check_at_def evict_idle_def MAX_BUCKETS_def refilled_def
        capacity_of_def zero f64_mul_def f64_add_def f64_sub_def f64_of_nat_def)
qed

theorem limiter_bounded_witness:
  "tracked (snd (check_all demo_burst (limiter_new (per_minute 2)))) \<le> MAX_BUCKETS
    \<and> (\<exists>b. map_of (rl_buckets (snd (check_all demo_burst (limiter_new (per_minute 2))))) (V4 2) = Some b
        \<and> 0 \<le> bk_tokens b \<and> bk_tokens b \<le> 2)"
  using limiter_bounded [OF _ demo_burst_decided] by (simp add: demo_burst_decided)

text \<open>
  The rate limit, over any window of a limiter's life: between the first and the last
  request of the window a client is allowed at most its capacity plus what the quota refills
  in that time, up to a rounding error of \<open>7 / 2 ^ 53\<close> of the capacity per request it
  made. Other clients' requests, the eviction of idle buckets and re-admission do not add to
  it.
\<close>

theorem limited_rate:
  assumes "0 < c" and "sorted (map snd (before @ window))" and "window \<noteq> []"
    and "check_all before (limiter_new (per_minute c)) = (ds, rl)"
    and "check_all window rl = (ds', rl')"
  shows "of_nat (allowed_for key window ds')
    \<le> of_nat (unat c) + of_nat (unat c) * of_nat (snd (last window) - snd (hd window)) / (60 * 10 ^ 9)
      + of_nat (asked_for key window) * (7 * of_nat (unat c) / (2 ^ 53 :: rat))"
proof -
  let ?t = "snd (hd window)" and ?n = "unat c"
  have sorted: "sorted (?t # map snd window)" and first: "\<forall>t \<in> set (map snd before). t \<le> ?t"
    and start: "sorted (0 # map snd before)"
    using assms(2,3) by (cases window; auto simp: sorted_append)+
  have "minute_limiter c (last (0 # map snd before)) rl"
    using lim.good_all [OF minute_limiter_new [OF assms(1)] start] assms(4) by simp
  moreover have "last (0 # map snd before) \<le> ?t" using first by (cases before rule: rev_cases) auto
  ultimately have "minute_limiter c ?t rl" using no_later_mono by (auto simp: minute_limiter_def)
  from lim.window_bound [OF this sorted, of key]
  have "of_nat (allowed_for key window ds') \<le> allowance ?n rl key ?t
      + allowance_rate ?n * of_nat (last (?t # map snd window) - ?t) + of_nat (asked_for key window) * slack ?n"
    using assms(5) by simp
  moreover have "last (?t # map snd window) = snd (last window)" using assms(3) by (simp add: last_map)
  ultimately show ?thesis
    using allowance_le [of ?n rl key ?t] unfolding allowance_rate_def slack_def
    by (simp del: of_nat_unat)
qed

theorem limited_rate_witness:
  "(of_nat (allowed_for (V4 1) demo_burst (fst (check_all demo_burst (limiter_new (per_minute 2))))) :: rat)
    \<le> 2 + 3 * (14 / 2 ^ 53)"
proof -
  have "sorted (map snd ([] @ demo_burst))" "demo_burst \<noteq> []" "snd (last demo_burst) - snd (hd demo_burst) = 0"
    "asked_for (V4 1) demo_burst = 3"
    by (simp_all add: demo_burst_def asked_for_def)
  with limited_rate [of 2 "[]" demo_burst "[]" "limiter_new (per_minute 2)" _ _ "V4 1", OF _ _ _ _ demo_burst_decided]
  show ?thesis by (simp add: demo_burst_decided)
qed

subsection \<open>Which address counts\<close>

lemma split_on_nonempty [simp]: "split_on c xs \<noteq> []"
  by (cases xs) (auto split: list.splits)

lemma split_on_append:
  "split_on c (xs @ c # ys) = split_on c xs @ split_on c ys"
proof (induction xs)
  case (Cons x xs)
  then show ?case by (cases "split_on c xs") auto
qed simp

lemma split_on_plain: "c \<notin> set xs \<Longrightarrow> split_on c xs = [xs]"
  by (induction xs) auto

lemma first_untrusted_append:
  "first_untrusted trusted (xs @ ys) = (case first_untrusted trusted xs of
     None \<Rightarrow> first_untrusted trusted ys | Some ip \<Rightarrow> Some ip)"
  by (induction xs) (auto split: option.splits)

text \<open>
  What a caller writes into \<open>X-Forwarded-For\<close> cannot choose its bucket. A request
  from a peer that is not a configured proxy is counted under the peer, whatever the header
  says. Behind a configured proxy, the first entry from the right that is an address and not
  itself a configured proxy decides: everything to the left of it, which is what the caller
  supplied, is irrelevant.
\<close>

theorem forwarded_prefix_irrelevant:
  assumes "CHR '','' \<notin> set hop" and "parse_ip (trim hop) = Some ip" and "ip \<notin> set trusted"
    and "first_untrusted trusted (rev nearer) = None" and "\<forall>h \<in> set nearer. CHR '','' \<notin> set h"
  shows "client_ip_with \<lparr>rq_peer = Some peer, rq_forwarded_for =
      Some (supplied @ '','' @ hop @ concat (map (\<lambda>h. '','' @ h) nearer))\<rparr> trusted
    = (if peer \<in> set trusted then ip else peer)"
proof -
  have tail: "split_on (CHR '','') (hop @ concat (map (\<lambda>h. '','' @ h) nearer)) = hop # nearer"
    using assms(1,5)
  proof (induction nearer arbitrary: hop)
    case (Cons h nearer)
    then show ?case using split_on_append [of "CHR '',''" hop] by (simp add: split_on_plain)
  qed (simp add: split_on_plain)
  have "first_untrusted trusted (rev (split_on (CHR '','')
      (supplied @ '','' @ hop @ concat (map (\<lambda>h. '','' @ h) nearer)))) = Some ip"
    using assms(2-4) split_on_append [of "CHR '',''" supplied] tail
    by (simp add: first_untrusted_append)
  then show ?thesis by (auto simp: client_ip_with_def)
qed

lemma demo_addresses:
  "parse_ip (trim '' 198.51.100.7'') = Some (V4 3325256711)"
  "parse_ip (trim ''10.0.0.5'') = Some (V4 167772165)"
  "parse_ip (trim ''1.2.3.4'') = Some (V4 16909060)"
  "parse_ip (trim '' 198.51.100.7:4711'') = None"
  by (simp_all add: addr_reader_defs to_digit_def trim_def trim_matches_def trim_start_matches_def
      trim_end_matches_def is_whitespace_def)

theorem forwarded_prefix_irrelevant_witness:
  "\<forall>supplied. client_ip_with \<lparr>rq_peer = Some (V4 2130706433), rq_forwarded_for =
      Some (supplied @ '', 198.51.100.7,10.0.0.5'')\<rparr> [V4 2130706433, V4 167772165] = V4 3325256711"
  using forwarded_prefix_irrelevant [of "'' 198.51.100.7''" "V4 3325256711" "[V4 2130706433, V4 167772165]"
      "[''10.0.0.5'']" "V4 2130706433"]
  by (simp add: demo_addresses)

text \<open>
  The comment in \<open>client_ip_with\<close> says that a malformed entry must not fall through to
  something the caller controls. It does: when the entry the proxy appended is not a bare
  address (a proxy that writes the port, or \<open>unknown\<close>), it is skipped, and the
  address the caller wrote to the left of it is taken.
\<close>

theorem unreadable_hop_trusts_caller:
  assumes "CHR '','' \<notin> set supplied" and "parse_ip (trim supplied) = Some chosen"
    and "chosen \<notin> set trusted" and "peer \<in> set trusted"
    and "CHR '','' \<notin> set appended" and "parse_ip (trim appended) = None"
  shows "client_ip_with \<lparr>rq_peer = Some peer, rq_forwarded_for = Some (supplied @ '','' @ appended)\<rparr> trusted
    = chosen"
  using assms split_on_append [of "CHR '',''" supplied appended]
  by (auto simp: client_ip_with_def split_on_plain)

theorem unreadable_hop_trusts_caller_witness:
  "client_ip_with \<lparr>rq_peer = Some (V4 2130706433),
     rq_forwarded_for = Some ''1.2.3.4, 198.51.100.7:4711''\<rparr> [V4 2130706433] = V4 16909060"
  using unreadable_hop_trusts_caller [of "''1.2.3.4''" "V4 16909060" "[V4 2130706433]" "V4 2130706433"
      "'' 198.51.100.7:4711''"]
  by (simp add: demo_addresses)

end
