(* ===== verification/Server_Props.thy ===== *)
theory Server_Props
  imports Server Ratelimit_Props Gateway_Props "HOL-Library.Sublist"
begin

section \<open>Properties of a started gateway\<close>

text \<open>
  What starting guarantees: the fail-closed rules of the configuration, the guard in front of
  the control plane of an exposed gateway, the books across a restart, and the rate of
  reconciliation reads a client can cause.
\<close>

lemma boot_Ok:
  assumes "boot X W env = Ok sv"
  obtains cf b pk sa where "from_env X env = Ok cf" "open_backend X W cf = Ok b"
    "load_key W (cf_provider_keypair_path cf) = Ok pk"
    "load_key W (cf_settlement_authority_keypair_path cf) = Ok sa"
    "as_store (sv_app sv) = snd (boot_registry X cf pk b)"
    "as_admin_token (sv_app sv) = cf_admin_token cf"
    "as_rpc (sv_app sv) = None \<longleftrightarrow> as_provider_keypair (sv_app sv) = None
       \<and> as_settlement_authority (sv_app sv) = None"
    "as_session_fetcher (sv_app sv) = None \<longleftrightarrow> cf_trust_open_requests cf"
    "sv_bind_addr sv = cf_bind_addr cf" "sv_chain_timeout sv = cf_chain_timeout cf"
    "sv_open_limiter sv = limiter_new (per_minute (cf_open_rate_limit cf))"
    "sv_general_limiter sv = limiter_new (per_minute (cf_general_rate_limit cf))"
proof -
  obtain cf where cf: "from_env X env = Ok cf" using assms by (auto simp: boot_def split: sum.splits)
  obtain b where b: "open_backend X W cf = Ok b" using assms cf by (auto simp: boot_def split: sum.splits)
  obtain pk where pk: "load_key W (cf_provider_keypair_path cf) = Ok pk"
    using assms cf b by (auto simp: boot_def split: sum.splits)
  obtain sa where sa: "load_key W (cf_settlement_authority_keypair_path cf) = Ok sa"
    using assms cf b pk by (auto simp: boot_def split: sum.splits)
  show ?thesis
    using assms cf b pk sa that [OF cf b pk sa] unfolding boot_def by (auto split: prod.splits)
qed

text \<open>
  Starting fails closed. A gateway that comes up listens on the loopback interface or
  guards its control plane with a token of at least sixteen bytes; reconciles sessions with
  the chain unless the environment turns that off by name; talks to mainnet only by explicit
  override; can settle only when it holds a key; limits both classes of routes; and waits on
  the chain between 15 and 300 seconds, never less than the general deadline.
\<close>

theorem boot_fails_closed:
  assumes "boot X W env = Ok sv"
  shows "(is_loopback (sock_ip (sv_bind_addr sv))
        \<or> (\<exists>t. as_admin_token (sv_app sv) = Some t \<and> MIN_TOKEN_LEN \<le> length (utf8 t)))
    \<and> (as_session_fetcher (sv_app sv) = None \<longleftrightarrow> env ''AGENTPAY_TRUST_OPEN_REQUESTS'' = Some ''1'')
    \<and> (\<exists>url. env ''AGENTPAY_RPC_URL'' = Some url
        \<and> (contains_text url ''mainnet'' \<longrightarrow> env ''AGENTPAY_ALLOW_MAINNET'' = Some ''1''))
    \<and> (as_rpc (sv_app sv) = None \<longleftrightarrow> as_provider_keypair (sv_app sv) = None
        \<and> as_settlement_authority (sv_app sv) = None)
    \<and> 0 < qu_capacity (rl_quota (sv_open_limiter sv)) \<and> 0 < qu_capacity (rl_quota (sv_general_limiter sv))
    \<and> GENERAL_TIMEOUT \<le> sv_chain_timeout sv \<and> sv_chain_timeout sv \<le> CHAIN_TIMEOUT_MAX_SECS"
proof -
  obtain cf where cf: "from_env X env = Ok cf" and s: "as_admin_token (sv_app sv) = cf_admin_token cf"
    "as_rpc (sv_app sv) = None \<longleftrightarrow> as_provider_keypair (sv_app sv) = None
       \<and> as_settlement_authority (sv_app sv) = None"
    "as_session_fetcher (sv_app sv) = None \<longleftrightarrow> cf_trust_open_requests cf"
    "sv_bind_addr sv = cf_bind_addr cf" "sv_chain_timeout sv = cf_chain_timeout cf"
    "sv_open_limiter sv = limiter_new (per_minute (cf_open_rate_limit cf))"
    "sv_general_limiter sv = limiter_new (per_minute (cf_general_rate_limit cf))"
    by (rule boot_Ok [OF assms])
  have "GENERAL_TIMEOUT = CHAIN_TIMEOUT_MIN_SECS"
    by (simp add: GENERAL_TIMEOUT_def CHAIN_TIMEOUT_MIN_SECS_def)
  moreover have "is_loopback (sock_ip (cf_bind_addr cf))
      \<or> (\<exists>t. cf_admin_token cf = Some t \<and> MIN_TOKEN_LEN \<le> length (utf8 t))"
    using from_env_Ok(4) [OF cf] by (auto simp: admin_token_error_def split: option.splits if_splits)
  ultimately show ?thesis using from_env_Ok [OF cf] s(2)
    by (simp add: s limiter_new_def per_minute_def flag_set_def rate_limit_positive chain_timeout_bounds)
qed

text \<open>
  C21. The control plane of an exposed gateway cannot be used without a credential. When the
  gateway started on an address other machines can reach, then at any later time a
  control-plane request that presents no token, or one that is neither the configured token
  nor a live operator credential, is refused and changes nothing, whichever handler it asks
  for.
\<close>

theorem exposed_gateway_guarded:
  assumes "boot X W env = Ok sv" and "\<not> is_loopback (sock_ip (sv_bind_addr sv))"
    and "as_admin_token (sv_app now) = as_admin_token (sv_app sv)"
  shows "\<exists>expected. as_admin_token (sv_app sv) = Some expected \<and> MIN_TOKEN_LEN \<le> length (utf8 expected)
    \<and> ((case presented_token areq of
          None \<Rightarrow> True
        | Some token \<Rightarrow> digest X token \<noteq> digest X expected
            \<and> (\<forall>db cdb. as_db (sv_app now) = Some (db, cdb) \<longrightarrow> \<not> live_credential X token cdb))
       \<longrightarrow> serve_control X areq rid h now = (Err (denial_new ERR_UNAUTHORIZED rid), now))"
proof -
  obtain cf where cf: "from_env X env = Ok cf" and s: "as_admin_token (sv_app sv) = cf_admin_token cf"
    "sv_bind_addr sv = cf_bind_addr cf"
    by (rule boot_Ok [OF assms(1)])
  then obtain t where t: "as_admin_token (sv_app sv) = Some t" "MIN_TOKEN_LEN \<le> length (utf8 t)"
    using from_env_Ok(4) [OF cf] assms(2) by (auto simp: admin_token_error_def split: option.splits if_splits)
  have "fst (require_admin X (Some t) rid areq (map_option snd (as_db (sv_app now)))) = Err (denial_new ERR_UNAUTHORIZED rid)"
    if "case presented_token areq of None \<Rightarrow> True
        | Some token \<Rightarrow> digest X token \<noteq> digest X t
            \<and> (\<forall>db cdb. as_db (sv_app now) = Some (db, cdb) \<longrightarrow> \<not> live_credential X token cdb)"
  proof (cases "as_db (sv_app now)")
    case None
    then show ?thesis using that
      by (auto simp: require_admin_def secret_eq_iff auth_reject_def split: option.splits)
  next
    case (Some d)
    then show ?thesis
      using that require_admin_stranger [of areq _ X t "snd d" rid]
      by (cases d; cases "presented_token areq") (auto simp: require_admin_def auth_reject_def)
  qed
  then show ?thesis using t assms(3)
    by (intro exI [of _ t]) (auto simp: serve_control_def split: prod.splits)
qed

subsection \<open>Restarts\<close>

lemma boot_registry_store:
  "snd (boot_registry X cf pk (Ephemeral m)) = Ephemeral m"
  "\<exists>cdb'. snd (boot_registry X cf pk (Durable db cdb)) = Durable db cdb'"
  by (auto simp: boot_registry_def Let_def split: option.splits)

lemma boot_durable:
  assumes "boot X W env = Ok sv" and "optional_env env ''DATABASE_URL'' = Some url"
    and "wd_connect W url = Some (db, cdb)"
  shows "\<exists>cdb'. as_store (sv_app sv) = Durable db cdb'"
proof -
  obtain cf b pk where "from_env X env = Ok cf" "open_backend X W cf = Ok b"
    "as_store (sv_app sv) = snd (boot_registry X cf pk b)"
    by (rule boot_Ok [OF assms(1)])
  then show ?thesis
    using assms(2,3) from_env_Ok(6) [of X env cf] boot_registry_store(2) [of X cf pk db cdb]
    by (auto simp: open_backend_def split: sum.splits)
qed

lemma boot_ephemeral:
  assumes "boot X W env = Ok sv" and "optional_env env ''DATABASE_URL'' = None"
  shows "as_store (sv_app sv) = Ephemeral mem_new"
proof -
  obtain cf b pk where "from_env X env = Ok cf" "open_backend X W cf = Ok b"
    "as_store (sv_app sv) = snd (boot_registry X cf pk b)"
    by (rule boot_Ok [OF assms(1)])
  then show ?thesis
    using assms(2) from_env_Ok(6) [of X env cf] by (auto simp: open_backend_def boot_registry_store)
qed

lemma rehydration_total:
  assumes "pg_inv X db" and "pg_online db" shows "\<exists>rs. load_active_sessions X db = Ok rs"
proof -
  have "\<exists>r. row_to_record X row (claim_row_of db (se_session_pubkey row)) = Ok r"
    if row: "row \<in> set (pg_sessions db)" for row
  proof -
    have "row_ok X row" using assms row by (simp add: pg_inv_def)
    then obtain k where "se_session_pubkey row = pk_show X k" by (auto simp: row_ok_def)
    then show ?thesis
      using row_to_record_decoded [OF pg_inv_text [OF assms(1)] \<open>row_ok X row\<close>]
        claim_row_ofD [OF assms(1)] by blast
  qed
  then show ?thesis using assms(2) unfolding load_active_sessions_def
    by (auto intro!: traverse_total)
qed

text \<open>
  C20. The books survive a restart. A gateway on Postgres stops at any moment, purchases half
  done included, and a new process starts on the database it left: whatever happens from then
  on, the deltas accepted for a session by both processes together add up to its high-water
  mark, within its deposit, with strictly increasing amounts and nonces, so no claim is
  accepted twice.
\<close>

theorem restart_keeps_books:
  assumes "gw_start X g\<^sub>0" and "(gw_step X R I J W)\<^sup>*\<^sup>* g\<^sub>0 g" and "as_store (gs_state g) = Durable db cdb"
    and "boot X V env = Ok sv" and "optional_env env ''DATABASE_URL'' = Some url"
    and "wd_connect V url = Some (db, cdb)"
    and "(gw_step X R I J W)\<^sup>*\<^sup>* \<lparr>gs_state = sv_app sv, gs_tickets = [], gs_log = gs_log g\<rparr> g'"
    and "gw_view X (gs_state g') k = Some r"
  shows "total_delta (log_of k (gs_log g')) = unat (sr_cumulative_accepted r)
    \<and> sr_cumulative_accepted r \<le> sr_deposited_total r
    \<and> sorted_wrt (<) (map (\<lambda>(c, _). cl_cumulative_amount c) (log_of k (gs_log g')))
    \<and> sorted_wrt (<) (map (\<lambda>(c, _). cl_nonce c) (log_of k (gs_log g')))"
proof -
  let ?g = "\<lparr>gs_state = sv_app sv, gs_tickets = [], gs_log = gs_log g\<rparr>"
  obtain cdb' where s: "as_store (sv_app sv) = Durable db cdb'" using boot_durable [OF assms(4-6)] by blast
  have "gw_ok X g" by (rule gw_ok_reachable [OF assms(1,2)])
  then have "gw_ok X ?g" using s assms(3) by (simp add: gw_ok_def backend_inv_def backend_view_def)
  with assms(7) have "gw_ok X g'" by (induction rule: rtranclp_induct) (auto intro: gw_ok_step)
  then have "progress k None (Some r) (log_of k (gs_log g'))" using assms(8) unfolding gw_ok_def by metis
  then have l: "ladder 0 None (log_of k (gs_log g')) (sr_cumulative_accepted r) (sr_last_nonce r)"
    and "record_ok k r" using progress_NoneD by blast+
  then show ?thesis using ladder_total [OF l] ladder_increasing [OF l] by (auto simp: record_ok_def)
qed

lemma ephemeral_restart_forgets:
  "boot X V env = Ok sv \<Longrightarrow> optional_env env ''DATABASE_URL'' = None \<Longrightarrow> gw_view X (sv_app sv) = Map.empty"
  by (simp add: boot_ephemeral backend_view_def mem_new_def)

subsection \<open>Floods of open requests\<close>

type_synonym open_call = "http_request \<times> nat \<times> string \<times> open_session_request"

primrec serve_opens ::
    "externals \<Rightarrow> open_call list \<Rightarrow> server \<Rightarrow> (open_session_response, denial) result list \<times> server" where
  "serve_opens X [] sv = ([], sv)"
| "serve_opens X (q # qs) sv = (case q of (req, now, rid, body) \<Rightarrow>
     case serve_open_session X req now rid body sv of (res, sv') \<Rightarrow>
     case serve_opens X qs sv' of (rs, sv'') \<Rightarrow> (res # rs, sv''))"

definition not_limited :: "(open_session_response, denial) result \<Rightarrow> bool" where
  "not_limited res \<longleftrightarrow> (\<forall>rid. res \<noteq> Err (denial_new ERR_RATE_LIMITED rid))"

definition caller_of :: "server \<Rightarrow> open_call \<Rightarrow> ip_addr \<times> nat" where
  "caller_of sv q = (client_ip_with (fst q) (sv_trusted_proxies sv), fst (snd q))"

definition opens_served :: "server \<Rightarrow> ip_addr \<Rightarrow> open_call list \<Rightarrow> (open_session_response, denial) result list \<Rightarrow> nat" where
  "opens_served sv key qs rs = length (filter (\<lambda>(q, res). fst (caller_of sv q) = key \<and> not_limited res) (zip qs rs))"

lemma limited_denial: "\<not> not_limited (Err (denial_new ERR_RATE_LIMITED rid))"
  by (auto simp: not_limited_def)

lemma reconciliation_not_limit: "reconciliation_code e \<noteq> ERR_RATE_LIMITED"
  by (cases e) simp_all

lemma store_not_limit: "store_code e \<noteq> ERR_RATE_LIMITED"
  by (cases e) simp_all

lemma open_handler_not_limited: "not_limited (fst (route_open_session X rid body st))"
  using reconciliation_not_limit store_not_limit
  by (auto simp: not_limited_def route_open_session_def Let_def store_denial_def
      denial_new_inject split: option.splits sum.splits prod.splits)

lemma serve_open_cases:
  assumes "serve_open_session X req now rid body sv = (res, sv')"
  obtains (limited) "sv_open_limiter sv' = sv_open_limiter sv" "sv_trusted_proxies sv' = sv_trusted_proxies sv"
      "\<not> not_limited res"
  | (asked) d where "check_at (client_ip_with req (sv_trusted_proxies sv)) now (sv_open_limiter sv)
      = (d, sv_open_limiter sv')" "sv_trusted_proxies sv' = sv_trusted_proxies sv" "d = LimAllow \<longleftrightarrow> not_limited res"
proof -
  obtain d l where g: "check_at (client_ip_with req (sv_trusted_proxies sv)) now (sv_general_limiter sv) = (d, l)"
    by fastforce
  obtain d' l' where o: "check_at (client_ip_with req (sv_trusted_proxies sv)) now (sv_open_limiter sv) = (d', l')"
    by fastforce
  obtain r st where h: "route_open_session X rid body (sv_app sv) = (r, st)" by fastforce
  note defs = serve_open_session_def limit_general_def limit_open_def guard_def with_app_def
  show ?thesis
  proof (cases d)
    case LimRefuse
    then show ?thesis using assms g limited_denial limited by (auto simp: defs)
  next
    case LimAllow
    show ?thesis
    proof (cases d')
      case LimAllow
      then show ?thesis using assms g o h \<open>d = LimAllow\<close> asked [of d'] open_handler_not_limited [of X rid body "sv_app sv"]
        by (auto simp: defs)
    next
      case LimRefuse
      then show ?thesis using assms g o \<open>d = LimAllow\<close> asked [of d'] limited_denial by (auto simp: defs)
    qed
  qed
qed

lemma opens_reach_limiter:
  "serve_opens X qs sv = (rs, sv') \<Longrightarrow> \<exists>reached. subseq reached (map (caller_of sv) qs)
     \<and> opens_served sv key qs rs \<le> allowed_for key reached (fst (check_all reached (sv_open_limiter sv)))"
proof (induction qs arbitrary: sv rs)
  case Nil
  then show ?case by (auto simp: opens_served_def intro: exI [of _ "[]"])
next
  case (Cons q qs)
  obtain req now rid body where q: "q = (req, now, rid, body)" by (metis prod_cases4)
  obtain res sv\<^sub>1 where s: "serve_open_session X req now rid body sv = (res, sv\<^sub>1)" by fastforce
  obtain rs' where rs: "serve_opens X qs sv\<^sub>1 = (rs', sv')" "rs = res # rs'"
    using Cons.prems q s by (auto split: prod.splits)
  obtain reached where r: "subseq reached (map (caller_of sv\<^sub>1) qs)"
    "opens_served sv\<^sub>1 key qs rs' \<le> allowed_for key reached (fst (check_all reached (sv_open_limiter sv\<^sub>1)))"
    using Cons.IH [OF rs(1)] by blast
  from s show ?case
  proof (cases rule: serve_open_cases)
    case limited
    then have "caller_of sv\<^sub>1 = caller_of sv" by (auto simp: caller_of_def)
    then show ?thesis using r limited rs(2) by (intro exI [of _ reached]) (auto simp: opens_served_def)
  next
    case (asked d)
    then have c: "caller_of sv\<^sub>1 = caller_of sv" by (auto simp: caller_of_def)
    have "subseq (caller_of sv q # reached) (map (caller_of sv) (q # qs))" using r c by simp
    moreover have "opens_served sv key (q # qs) rs
        \<le> allowed_for key (caller_of sv q # reached) (fst (check_all (caller_of sv q # reached) (sv_open_limiter sv)))"
      using r asked rs(2) c q by (simp add: opens_served_def allowed_for_def caller_of_def case_prod_unfold)
    ultimately show ?thesis by blast
  qed
qed

lemma subseq_sorted: "subseq xs ys \<Longrightarrow> sorted ys \<Longrightarrow> sorted (xs :: nat list)"
proof (induction rule: list_emb.induct)
  case (list_emb_Cons2 x y xs ys)
  then show ?case using list_emb_set [of "(=)" xs ys] by fastforce
qed auto

lemma subseq_asked: "subseq xs ys \<Longrightarrow> asked_for key xs \<le> asked_for key ys"
  unfolding asked_for_def by (rule list_emb_length [OF subseq_filter])

lemma sorted_hd_le: "sorted xs \<Longrightarrow> x \<in> set xs \<Longrightarrow> hd xs \<le> (x :: nat)"
  by (cases xs) auto

lemma sorted_le_last: "sorted xs \<Longrightarrow> x \<in> set xs \<Longrightarrow> x \<le> last (xs :: nat list)"
  by (cases xs rule: rev_cases) (auto simp: sorted_append)

lemma subseq_window:
  assumes "subseq xs ys" and "sorted (map snd ys)" and "ys \<noteq> []"
  shows "sorted (snd (hd ys) # map snd xs)"
    and "last (snd (hd ys) # map snd xs) \<le> (snd (last ys) :: nat)"
proof -
  let ?xs = "map snd xs" and ?ys = "map snd ys"
  have sub: "subseq ?xs ?ys" using assms(1) by (rule subseq_map)
  have mem: "x \<in> set ?ys" if "x \<in> set ?xs" for x
  proof -
    from sub that obtain y where "y \<in> set ?ys" "x = y" by (rule list_emb_set)
    then show ?thesis by (simp only:)
  qed
  have ends: "hd ?ys = snd (hd ys)" "last ?ys = snd (last ys)" using assms(3) by (simp_all add: hd_map last_map)
  show "sorted (snd (hd ys) # ?xs)"
    using subseq_sorted [OF sub assms(2)] sorted_hd_le [OF assms(2) mem] ends(1) by simp
  show "last (snd (hd ys) # ?xs) \<le> snd (last ys)"
  proof (cases "xs = []")
    case True
    then show ?thesis using sorted_hd_le [OF assms(2), of "snd (last ys)"] assms(3) ends(1) by simp
  next
    case False
    then have "last ?xs \<in> set ?ys" using mem last_in_set [of ?xs] by blast
    then show ?thesis using sorted_le_last [OF assms(2)] ends(2) False by simp
  qed
qed

text \<open>
  C22. An unauthenticated caller cannot burn the gateway's RPC quota. From the start of the
  gateway on, however many open requests arrive and from whatever mix of callers, the ones
  that one client address gets through to the handler that reads the chain number at most the
  configured open limit plus what it refills between the first and the last request, up to
  the rounding error. The handler itself never answers with the rate-limit code, so the
  answers without that code are exactly the ones that reached it.
\<close>

theorem open_flood_bounded:
  assumes "boot X V env = Ok sv" and "sorted (map (fst \<circ> snd) qs)" and "qs \<noteq> []"
    and "serve_opens X qs sv = (rs, sv')"
    and "capacity = of_nat (unat (qu_capacity (rl_quota (sv_open_limiter sv))))"
  shows "of_nat (opens_served sv key qs rs)
    \<le> capacity + capacity * of_nat (fst (snd (last qs)) - fst (snd (hd qs))) / (60 * 10 ^ 9)
      + of_nat (asked_for key (map (caller_of sv) qs)) * (7 * capacity / (2 ^ 53 :: rat))"
proof -
  obtain cf where cf: "from_env X env = Ok cf"
    and l: "sv_open_limiter sv = limiter_new (per_minute (cf_open_rate_limit cf))"
    by (rule boot_Ok [OF assms(1)])
  define c where "c = cf_open_rate_limit cf"
  define t where "t = fst (snd (hd qs))"
  have c: "0 < c" using from_env_Ok(7) [OF cf] rate_limit_positive [of 20] by (simp add: c_def)
  have lc: "sv_open_limiter sv = limiter_new (per_minute c)" using l unfolding c_def .
  then have "qu_capacity (rl_quota (sv_open_limiter sv)) = c" by (simp add: limiter_new_def per_minute_def)
  then have cap: "capacity = of_nat (unat c)" using assms(5) by (simp only:)
  obtain reached where r: "subseq reached (map (caller_of sv) qs)"
    "opens_served sv key qs rs \<le> allowed_for key reached (fst (check_all reached (sv_open_limiter sv)))"
    using opens_reach_limiter [OF assms(4)] by blast
  have "map snd (map (caller_of sv) qs) = map (fst \<circ> snd) qs" by (simp add: caller_of_def)
  with subseq_window [OF r(1)] assms(2,3) have sorted: "sorted (t # map snd reached)"
    and end_le: "last (t # map snd reached) \<le> fst (snd (last qs))"
    by (simp_all only: hd_map last_map caller_of_def snd_conv t_def map_is_Nil_conv not_False_eq_True)
  have "minute_limiter c t (sv_open_limiter sv)" unfolding lc by (rule minute_limiter_new [OF c])
  from lim.window_bound [OF this sorted, of key] of_nat_mono [OF r(2), where ?'a = rat]
  have "of_nat (opens_served sv key qs rs) \<le> allowance (unat c) (sv_open_limiter sv) key t
      + allowance_rate (unat c) * of_nat (last (t # map snd reached) - t) + of_nat (asked_for key reached) * slack (unat c)"
    by (rule order_trans [rotated])
  also have "\<dots> \<le> of_nat (unat c) + allowance_rate (unat c) * of_nat (fst (snd (last qs)) - t)
      + of_nat (asked_for key (map (caller_of sv) qs)) * slack (unat c)"
  proof -
    have "(of_nat (last (t # map snd reached) - t) :: rat) \<le> of_nat (fst (snd (last qs)) - t)"
      using end_le by (intro of_nat_mono diff_le_mono)
    moreover have "(of_nat (asked_for key reached) :: rat) \<le> of_nat (asked_for key (map (caller_of sv) qs))"
      using subseq_asked [OF r(1)] by (rule of_nat_mono)
    moreover have "0 \<le> slack (unat c)" unfolding slack_def by (rule divide_nonneg_nonneg) (simp_all del: of_nat_unat)
    ultimately show ?thesis
      using allowance_le [of "unat c" "sv_open_limiter sv" key t] allowance_rate_nonneg [of "unat c"]
      by (meson add_mono mult_left_mono mult_right_mono)
  qed
  finally show ?thesis
    unfolding cap t_def allowance_rate_def slack_def by (simp del: of_nat_unat)
qed

subsection \<open>A concrete deployment\<close>

definition demo_env :: env where
  \<comment> \<open>exposed on every interface, with a token, a database and an open limit of two\<close>
  "demo_env = [''AGENTPAY_BIND_ADDR'' \<mapsto> ''0.0.0.0:80'', ''AGENTPAY_RPC_URL'' \<mapsto> ''http'',
     ''AGENTPAY_PROGRAM_ID'' \<mapsto> ''ABABABABABABABABABABABABABABABAB'',
     ''AGENTPAY_ADMIN_TOKEN'' \<mapsto> ''0123456789abcdef'', ''DATABASE_URL'' \<mapsto> ''pg'',
     ''AGENTPAY_OPEN_RATE_LIMIT'' \<mapsto> ''2'']"

definition demo_world :: "pg \<Rightarrow> world" where
  "demo_world db = \<lparr>wd_connect = (\<lambda>_. Some (db, demo_control)), wd_load_keypair = (\<lambda>_. None),
     wd_rpc = (\<lambda>_. \<lparr>rpc_mint_owner = (\<lambda>_. None), rpc_latest_blockhash = Ok 1,
        rpc_send_and_confirm = (\<lambda>_ _ _. Err ''offline'')\<rparr>),
     wd_get_account = (\<lambda>_ _. Err ''offline'')\<rparr>"

lemmas text_eval = trim_def trim_matches_def trim_start_matches_def trim_end_matches_def is_whitespace_def

lemma demo_from_env:
  "\<exists>cf. from_env demo_externals demo_env = Ok cf \<and> cf_provider_keypair_path cf = None
     \<and> cf_settlement_authority_keypair_path cf = None \<and> cf_upstream_url cf = None
     \<and> cf_bind_addr cf = \<lparr>sock_ip = V4 0, sock_port = 80\<rparr> \<and> cf_database_url cf = Some ''pg''
     \<and> cf_open_rate_limit cf = 2 \<and> cf_trusted_proxies cf = [] \<and> cf_general_rate_limit cf = 600
     \<and> cf_admin_token cf = Some ''0123456789abcdef''"
proof -
  have b: "bind_addr_of demo_env = Some \<lparr>sock_ip = V4 0, sock_port = 80\<rparr>"
    by (simp add: bind_addr_of_def demo_env_def addr_reader_defs to_digit_def)
  have r: "require demo_env ''AGENTPAY_RPC_URL'' = Ok ''http''" "\<not> contains_text ''http'' ''mainnet''"
    by (simp_all add: require_def optional_env_def demo_env_def text_eval)
  have l: "legacy_program_of demo_externals demo_env = Ok None"
    by (simp add: legacy_program_of_def optional_env_def demo_env_def)
  have p: "\<exists>k. program_of demo_externals demo_env = Ok k"
    by (simp add: program_of_def require_def optional_env_def demo_env_def text_eval demo_externals_def)
  have t: "optional_env demo_env ''AGENTPAY_ADMIN_TOKEN'' = Some ''0123456789abcdef''"
    by (simp add: optional_env_def demo_env_def text_eval)
  have a: "admin_token_error \<lparr>sock_ip = V4 0, sock_port = 80\<rparr> (Some ''0123456789abcdef'') = None"
    by (simp add: admin_token_error_def MIN_TOKEN_LEN_def utf8_def utf8_char_def)
  have o: "rate_limit_of demo_env ''AGENTPAY_OPEN_RATE_LIMIT'' 20 = 2"
    "rate_limit_of demo_env ''AGENTPAY_RATE_LIMIT'' 600 = 600"
    by (simp_all add: rate_limit_of_def optional_env_def demo_env_def text_eval parse_u32_def parse_nat_def
        strip_plus_def digit_of_def)
  have u: "optional_env demo_env ''AGENTPAY_PROVIDER_KEYPAIR'' = None"
    "optional_env demo_env ''AGENTPAY_SETTLEMENT_AUTHORITY_KEYPAIR'' = None"
    "optional_env demo_env ''AGENTPAY_UPSTREAM_URL'' = None" "optional_env demo_env ''DATABASE_URL'' = Some ''pg''"
    "trusted_proxies_of demo_env = []"
    by (simp_all add: optional_env_def trusted_proxies_of_def demo_env_def text_eval)
  show ?thesis using b r l p t a o u by (auto simp: from_env_def)
qed

lemma demo_boot:
  assumes "pg_inv demo_externals db" and "pg_online db"
  shows "\<exists>sv. boot demo_externals (demo_world db) demo_env = Ok sv \<and> as_store (sv_app sv) = Durable db demo_control
    \<and> sv_bind_addr sv = \<lparr>sock_ip = V4 0, sock_port = 80\<rparr> \<and> as_admin_token (sv_app sv) = Some ''0123456789abcdef''
    \<and> sv_open_limiter sv = limiter_new (per_minute 2) \<and> sv_general_limiter sv = limiter_new (per_minute 600)
    \<and> sv_trusted_proxies sv = [] \<and> as_session_fetcher (sv_app sv) \<noteq> None"
proof -
  obtain cf where cf: "from_env demo_externals demo_env = Ok cf" "cf_provider_keypair_path cf = None"
    "cf_settlement_authority_keypair_path cf = None" "cf_upstream_url cf = None"
    "cf_bind_addr cf = \<lparr>sock_ip = V4 0, sock_port = 80\<rparr>" "cf_database_url cf = Some ''pg''"
    "cf_open_rate_limit cf = 2" "cf_trusted_proxies cf = []" "cf_general_rate_limit cf = 600"
    "cf_admin_token cf = Some ''0123456789abcdef''"
    using demo_from_env by blast
  moreover have "\<not> cf_trust_open_requests cf"
    using from_env_Ok(5) [OF cf(1)] by (simp add: flag_set_def demo_env_def)
  moreover have "open_backend demo_externals (demo_world db) cf = Ok (Durable db demo_control)"
    using rehydration_total [OF assms] cf(6) by (auto simp: open_backend_def demo_world_def)
  ultimately show ?thesis
    by (simp add: boot_def load_key_def boot_registry_def demo_control_def list_providers_def)
qed

theorem boot_fails_closed_witness:
  "\<exists>sv. boot demo_externals (demo_world (pg_empty 1000)) demo_env = Ok sv
    \<and> as_session_fetcher (sv_app sv) \<noteq> None \<and> 0 < qu_capacity (rl_quota (sv_open_limiter sv))"
proof -
  obtain sv where "boot demo_externals (demo_world (pg_empty 1000)) demo_env = Ok sv"
    using demo_boot [OF pg_empty_inv [OF demo_pk_text]] by (auto simp: pg_empty_def)
  with boot_fails_closed [OF this] show ?thesis by (auto simp: demo_env_def)
qed

theorem exposed_gateway_guarded_witness:
  "\<exists>sv. boot demo_externals (demo_world (pg_empty 1000)) demo_env = Ok sv
    \<and> serve_control demo_externals \<lparr>rq_authorization = None, rq_admin_header = None\<rparr> ''r''
         (\<lambda>op st. (Ok (), st)) sv = (Err (denial_new ERR_UNAUTHORIZED ''r''), sv)"
proof -
  obtain sv where sv: "boot demo_externals (demo_world (pg_empty 1000)) demo_env = Ok sv"
    "sv_bind_addr sv = \<lparr>sock_ip = V4 0, sock_port = 80\<rparr>"
    using demo_boot [OF pg_empty_inv [OF demo_pk_text]] by (auto simp: pg_empty_def)
  have "presented_token \<lparr>rq_authorization = None, rq_admin_header = None\<rparr> = None"
    by (simp add: presented_token_def)
  with exposed_gateway_guarded [OF sv(1), of sv "\<lparr>rq_authorization = None, rq_admin_header = None\<rparr>" "''r''"
      "\<lambda>op st. (Ok (), st)"] sv
  show ?thesis by auto
qed

lemma demo_durable_opened:
  "route_open_session demo_externals ''r'' demo_open (demo_app (Durable (pg_empty 1000) demo_control))
     = (Ok \<lparr>op_session = pk_show demo_externals 7, op_tracking = True, op_request_id = ''r'',
          op_state_durability = STATE_BACKEND (demo_app (Durable (pg_empty 1000) demo_control))\<rparr>,
        demo_app (Durable demo_db demo_control))"
proof -
  have r: "(session_record_new 7 1 2 50 100 2000)\<lparr>sr_chain_verified := False\<rparr> = demo_record"
    by (simp add: demo_record_def session_record_new_def)
  have "pg_open demo_externals demo_record (pg_empty 1000) = (Ok (), demo_db)"
    using demo_pg_opened by (simp add: prod_eq_iff demo_db_def)
  then show ?thesis
    using demo_pk_text r by (simp add: route_open_session_def demo_open_def demo_app_def store_open_def)
qed

lemma demo_durable_verified:
  assumes "as_store st = Durable demo_db demo_control"
  shows "\<exists>res. verify_claim demo_externals 1500 ''r'' (demo_wire (demo_claim_of 40 2)) st
    = (res, st\<lparr>as_store := Durable demo_db\<^sub>1 demo_control\<rparr>)"
proof -
  have e: "\<not> is_expired (demo_claim_of 40 2) 1500" by (simp add: is_expired_iff demo_claim_of_def)
  have c: "cl_session (demo_claim_of 40 2) = 7" "cl_cumulative_amount (demo_claim_of 40 2) = 40"
    by (simp_all add: demo_claim_of_def)
  obtain res db where a: "pg_admit_claim demo_externals (demo_claim_of 40 2) 40 1500 demo_db = (res, db)" by fastforce
  then have "db = demo_db\<^sub>1" by (simp add: demo_db\<^sub>1_def)
  then show ?thesis
    using a e c assms demo_pg_get demo_decode [of "demo_claim_of 40 2"] demo_signed [of 1 "demo_claim_of 40 2"]
    by (auto simp: verify_claim_def store_get_def store_admit_claim_def demo_record_def session_record_new_def
        split: sum.splits)
qed

theorem restart_keeps_books_witness:
  "\<forall>R I J W. \<exists>sv g'. boot demo_externals (demo_world demo_db) demo_env = Ok sv
    \<and> (gw_step demo_externals R I J W)\<^sup>*\<^sup>* \<lparr>gs_state = sv_app sv, gs_tickets = [], gs_log = []\<rparr> g'
    \<and> total_delta (log_of 7 (gs_log g')) = 40"
proof (intro allI)
  fix R I J W
  let ?step = "gw_step demo_externals R I J W"
  let ?g\<^sub>0 = "\<lparr>gs_state = demo_app (Durable (pg_empty 1000) demo_control), gs_tickets = [], gs_log = []\<rparr>"
  let ?g = "?g\<^sub>0\<lparr>gs_state := demo_app (Durable demo_db demo_control)\<rparr>"
  have start: "gw_start demo_externals ?g\<^sub>0"
    using pg_empty_inv [OF demo_pk_text]
    by (auto simp: gw_start_def demo_app_def backend_inv_def backend_view_def pg_view_def pg_empty_def session_row_of_def)
  have "?step ?g\<^sub>0 ?g" using gw_open [of demo_externals "''r''" demo_open ?g\<^sub>0] demo_durable_opened by simp
  then have reach: "?step\<^sup>*\<^sup>* ?g\<^sub>0 ?g" by blast
  obtain sv where sv: "boot demo_externals (demo_world demo_db) demo_env = Ok sv"
    "as_store (sv_app sv) = Durable demo_db demo_control"
    using demo_boot [OF demo_db_facts(1,2)] by blast
  let ?h = "\<lparr>gs_state = sv_app sv, gs_tickets = [], gs_log = gs_log ?g\<rparr>"
  obtain res where v: "verify_claim demo_externals 1500 ''r'' (demo_wire (demo_claim_of 40 2)) (sv_app sv)
      = (res, (sv_app sv)\<lparr>as_store := Durable demo_db\<^sub>1 demo_control\<rparr>)"
    using demo_durable_verified [OF sv(2)] by blast
  define g' where "g' = ?h\<lparr>gs_state := (sv_app sv)\<lparr>as_store := Durable demo_db\<^sub>1 demo_control\<rparr>,
    gs_log := gs_log ?h @ verify_log demo_externals 1500 (demo_wire (demo_claim_of 40 2)) res (gs_state ?h)\<rparr>"
  have "?step ?h g'"
    unfolding g'_def using gw_verify [of demo_externals 1500 "''r''" "demo_wire (demo_claim_of 40 2)" ?h] v by simp
  then have reach': "?step\<^sup>*\<^sup>* ?h g'" by blast
  have view: "gw_view demo_externals (gs_state g') 7 = Some demo_marked"
    using demo_db\<^sub>1_facts(2) by (simp add: g'_def backend_view_def)
  have env: "optional_env demo_env ''DATABASE_URL'' = Some ''pg''"
    by (simp add: optional_env_def demo_env_def text_eval)
  have "total_delta (log_of 7 (gs_log g')) = unat (sr_cumulative_accepted demo_marked)"
    using restart_keeps_books [OF start reach _ sv(1) env _ reach' view, of demo_db demo_control]
    by (simp add: demo_app_def demo_world_def)
  then show "\<exists>sv g'. boot demo_externals (demo_world demo_db) demo_env = Ok sv
      \<and> ?step\<^sup>*\<^sup>* \<lparr>gs_state = sv_app sv, gs_tickets = [], gs_log = []\<rparr> g' \<and> total_delta (log_of 7 (gs_log g')) = 40"
    using sv(1) reach' by (auto simp: demo_marked_def advance_def demo_claim_of_def)
qed

definition demo_flood :: "open_call list" where
  "demo_flood = replicate 3 (\<lparr>rq_peer = Some (V4 9), rq_forwarded_for = Some ''1.1.1.1''\<rparr>, 5, ''r'', demo_open)"

theorem open_flood_bounded_witness:
  "\<exists>sv rs sv'. boot demo_externals (demo_world (pg_empty 1000)) demo_env = Ok sv
    \<and> serve_opens demo_externals demo_flood sv = (rs, sv') \<and> length rs = 3 \<and> opens_served sv (V4 9) demo_flood rs \<le> 2"
proof -
  obtain sv where sv: "boot demo_externals (demo_world (pg_empty 1000)) demo_env = Ok sv"
    "sv_open_limiter sv = limiter_new (per_minute 2)" "sv_trusted_proxies sv = []"
    using demo_boot [OF pg_empty_inv [OF demo_pk_text]] by (auto simp: pg_empty_def)
  obtain rs sv' where r: "serve_opens demo_externals demo_flood sv = (rs, sv')" by fastforce
  have three: "asked_for (V4 9) (map (caller_of sv) demo_flood) = 3" "fst (snd (last demo_flood)) - fst (snd (hd demo_flood)) = 0"
    "sorted (map (fst \<circ> snd) demo_flood)" "demo_flood \<noteq> []"
    by (simp_all add: demo_flood_def caller_of_def asked_for_def client_ip_with_def sv numeral_eq_Suc)
  have cap: "2 = (of_nat (unat (qu_capacity (rl_quota (sv_open_limiter sv)))) :: rat)"
    by (simp add: sv limiter_new_def per_minute_def)
  from open_flood_bounded [OF sv(1) three(3,4) r cap, of "V4 9"]
  have "of_nat (opens_served sv (V4 9) demo_flood rs) \<le> (2 + 42 / 2 ^ 53 :: rat)"
    unfolding three(1,2) by simp
  then have "opens_served sv (V4 9) demo_flood rs \<le> 2"
    by (cases "opens_served sv (V4 9) demo_flood rs \<le> 2") (auto simp: not_le dest: of_nat_mono [where ?'a = rat, of 3])
  moreover have "length rs = 3" using r by (auto simp: demo_flood_def numeral_eq_Suc split: prod.splits)
  ultimately show ?thesis using sv(1) r by blast
qed

end
