(* ===== verification/Control.thy ===== *)
theory Control
  imports Buy
begin

section \<open>The control plane\<close>

text \<open>
  \<open>gateway/src/control.rs\<close>: the handlers for agents, providers, plans, operators and
  approvals, over the tables of theory \<open>Control_Store\<close> and the shared state of theory
  \<open>Gateway\<close>. The operator is the one the guard of theory \<open>Auth\<close> resolved; fresh
  ids and tokens are arguments; times are kept as the timestamps they are rendered from.
  A handler whose name a table operation already has is prefixed with \<open>route_\<close>.
\<close>

definition control_db :: "string \<Rightarrow> app_state \<Rightarrow> (pg \<times> control, denial) result" where
  "control_db rid st = (case as_db st of
     Some d \<Rightarrow> Ok d | None \<Rightarrow> Err (denial_new ERR_CONTROL_PLANE_UNAVAILABLE rid))"

definition control_down :: "string \<Rightarrow> denial" where
  "control_down rid = denial_new ERR_CONTROL_PLANE_UNAVAILABLE rid"

subsection \<open>Views\<close>

record policy_view =
  pn_max_total :: string
  pn_max_per_call :: string
  pn_approval_threshold :: "string option"
  pn_allowed_resources :: "string list option"
  pn_max_calls :: "u32 option"

definition policy_view_of :: "agent_policy \<Rightarrow> policy_view" where
  "policy_view_of p = \<lparr>pn_max_total = show_u64 (ap_max_total p), pn_max_per_call = show_u64 (ap_max_per_call p),
     pn_approval_threshold = map_option show_u64 (ap_approval_threshold p),
     pn_allowed_resources = ap_allowed_resources p, pn_max_calls = ap_max_calls p\<rparr>"

record agent_view =
  av_agent_id :: string
  av_label :: string
  av_agent_pubkey :: string
  av_owner_pubkey :: "string option"
  av_mode :: agent_mode
  av_status :: agent_status
  av_created_at :: i64
  av_policy :: "policy_view option"
  av_spent :: string
  av_calls :: u32
  av_remaining :: "string option"

definition remaining_of :: "agent_record \<Rightarrow> spend \<Rightarrow> string option" where
  "remaining_of a spend = map_option (\<lambda>p. show_u64 (saturating_sub_u64 (ap_max_total p) (sp_spent spend))) (ar_policy a)"

definition view :: "agent_record \<Rightarrow> spend \<Rightarrow> agent_view" where
  "view a spend = \<lparr>av_agent_id = ar_agent_id a, av_label = ar_label a, av_agent_pubkey = ar_agent_pubkey a,
     av_owner_pubkey = ar_owner_pubkey a, av_mode = ar_mode a, av_status = ar_status a,
     av_created_at = ar_created_at a, av_policy = map_option policy_view_of (ar_policy a),
     av_spent = show_u64 (sp_spent spend), av_calls = sp_calls spend, av_remaining = remaining_of a spend\<rparr>"

record approval_view =
  pv_approval_id :: string
  pv_agent_id :: string
  pv_session :: "string option"
  pv_resource :: string
  pv_price :: string
  pv_calls :: "32 word"
  pv_state :: string
  pv_reason :: "string option"
  pv_created_at :: i64
  pv_decided_at :: "i64 option"
  pv_decided_by :: "string option"
  pv_decided_by_label :: "string option"

definition approval_view_of :: "approval_record \<Rightarrow> approval_view" where
  "approval_view_of a = \<lparr>pv_approval_id = vr_approval_id a, pv_agent_id = vr_agent_id a, pv_session = vr_session a,
     pv_resource = vr_resource a, pv_price = show_u64 (vr_price a), pv_calls = vr_calls a, pv_state = vr_state a,
     pv_reason = vr_reason a, pv_created_at = vr_created_at a, pv_decided_at = vr_decided_at a,
     pv_decided_by = vr_decided_by a, pv_decided_by_label = vr_decided_by_label a\<rparr>"

definition parse_amount :: "string \<Rightarrow> u64 option" where
  "parse_amount s = parse_u64 (trim s)"

definition no_spend :: spend where
  "no_spend = \<lparr>sp_spent = 0, sp_calls = 0\<rparr>"

subsection \<open>Agents\<close>

record create_agent_request =
  cq_label :: string
  cq_agent_pubkey :: string
  cq_owner_pubkey :: "string option"
  cq_mode :: "agent_mode option"

definition unreadable_key :: "externals \<Rightarrow> string option \<Rightarrow> bool" where
  \<comment> \<open>a key that is given, not blank, and not base58 of 32 bytes\<close>
  "unreadable_key X k = (case k of None \<Rightarrow> False | Some s \<Rightarrow> trim s \<noteq> [] \<and> pk_parse X s = None)"

definition nonblank :: "string option \<Rightarrow> string option" where
  "nonblank k = (case k of None \<Rightarrow> None | Some s \<Rightarrow> if trim s \<noteq> [] then Some s else None)"

definition fetch_agent :: "string \<Rightarrow> string \<Rightarrow> operator \<Rightarrow> control \<Rightarrow> (agent_record, denial) result" where
  "fetch_agent rid agent_id op cdb = (case get_agent agent_id (op_workspace_id op) cdb of
     Err _ \<Rightarrow> Err (control_down rid)
   | Ok None \<Rightarrow> Err (denial_new ERR_AGENT_NOT_FOUND rid)
   | Ok (Some r) \<Rightarrow> Ok r)"

definition route_create_agent ::
    "externals \<Rightarrow> string \<Rightarrow> string \<Rightarrow> operator \<Rightarrow> create_agent_request \<Rightarrow> app_state
      \<Rightarrow> (agent_view, denial) result \<times> app_state" where
  "route_create_agent X rid uuid op req st =
     (case control_db rid st of
        Err d \<Rightarrow> (Err d, st)
      | Ok (db, cdb) \<Rightarrow>
      if trim (cq_label req) = [] then (Err (denial_new ERR_MALFORMED_REQUEST rid), st)
      else if pk_parse X (cq_agent_pubkey req) = None then (Err (denial_new ERR_MALFORMED_REQUEST rid), st)
      else if unreadable_key X (cq_owner_pubkey req) then (Err (denial_new ERR_MALFORMED_REQUEST rid), st)
      else
        let agent_id = ''agt_'' @ uuid;
            mode = (case cq_mode req of Some m \<Rightarrow> m | None \<Rightarrow> Human) in
        case create_agent agent_id (trim (cq_label req)) (cq_agent_pubkey req) (nonblank (cq_owner_pubkey req))
               mode (op_workspace_id op) cdb of
          (Err _, _) \<Rightarrow> (Err (control_down rid), st)
        | (Ok False, _) \<Rightarrow> (Err (denial_new ERR_AGENT_EXISTS rid), st)
        | (Ok True, cdb') \<Rightarrow>
            (case fetch_agent rid agent_id op cdb' of
               Err d \<Rightarrow> (Err d, set_control cdb' st)
             | Ok rec \<Rightarrow> (Ok (view rec no_spend), set_control cdb' st)))"

definition spend_or_none :: "string \<Rightarrow> pg \<Rightarrow> spend" where
  "spend_or_none agent_pubkey db = (case agent_spend agent_pubkey db of Ok s \<Rightarrow> s | Err _ \<Rightarrow> no_spend)"

definition route_list_agents :: "string \<Rightarrow> operator \<Rightarrow> app_state \<Rightarrow> (agent_view list, denial) result" where
  "route_list_agents rid op st =
     (case control_db rid st of
        Err d \<Rightarrow> Err d
      | Ok (db, cdb) \<Rightarrow>
      case list_agents (op_workspace_id op) cdb of
        Err _ \<Rightarrow> Err (control_down rid)
      | Ok records \<Rightarrow> Ok (map (\<lambda>r. view r (spend_or_none (ar_agent_pubkey r) db)) records))"

definition route_get_agent :: "string \<Rightarrow> operator \<Rightarrow> string \<Rightarrow> app_state \<Rightarrow> (agent_view, denial) result" where
  "route_get_agent rid op agent_id st =
     (case control_db rid st of
        Err d \<Rightarrow> Err d
      | Ok (db, cdb) \<Rightarrow>
      case fetch_agent rid agent_id op cdb of
        Err d \<Rightarrow> Err d
      | Ok rec \<Rightarrow>
      case agent_spend (ar_agent_pubkey rec) db of
        Err _ \<Rightarrow> Err (control_down rid)
      | Ok spend \<Rightarrow> Ok (view rec spend))"

record authorize_request =
  zq_max_total :: string
  zq_max_per_call :: string
  zq_approval_threshold :: "string option"
  zq_allowed_resources :: "string list option"
  zq_max_calls :: "u32 option"
  zq_mode :: "agent_mode option"

definition parse_threshold :: "string option \<Rightarrow> (u64 option, unit) result" where
  "parse_threshold t = (case t of
     None \<Rightarrow> Ok None
   | Some s \<Rightarrow> if trim s = [] then Ok None
       else (case parse_amount s of Some v \<Rightarrow> Ok (Some v) | None \<Rightarrow> Err ()))"

definition requested_policy :: "authorize_request \<Rightarrow> agent_policy option" where
  \<comment> \<open>the checks on the body; \<open>None\<close> is answered as a malformed request\<close>
  "requested_policy req =
     (case (parse_amount (zq_max_total req), parse_amount (zq_max_per_call req)) of
        (Some max_total, Some max_per_call) \<Rightarrow>
          if max_total = 0 \<or> max_per_call = 0 then None
          else if max_per_call > max_total then None
          else (case parse_threshold (zq_approval_threshold req) of
            Err _ \<Rightarrow> None
          | Ok threshold \<Rightarrow> Some \<lparr>ap_max_total = max_total, ap_max_per_call = max_per_call,
              ap_approval_threshold = threshold, ap_allowed_resources = zq_allowed_resources req,
              ap_max_calls = zq_max_calls req\<rparr>)
      | _ \<Rightarrow> None)"

definition authorize_agent ::
    "string \<Rightarrow> operator \<Rightarrow> string \<Rightarrow> authorize_request \<Rightarrow> app_state
      \<Rightarrow> (agent_view, denial) result \<times> app_state" where
  "authorize_agent rid op agent_id req st =
     (case control_db rid st of
        Err d \<Rightarrow> (Err d, st)
      | Ok (db, cdb) \<Rightarrow>
      case requested_policy req of
        None \<Rightarrow> (Err (denial_new ERR_MALFORMED_REQUEST rid), st)
      | Some policy \<Rightarrow>
      case fetch_agent rid agent_id op cdb of
        Err d \<Rightarrow> (Err d, st)
      | Ok existing \<Rightarrow>
      let mode = (case zq_mode req of Some m \<Rightarrow> m | None \<Rightarrow> ar_mode existing) in
      case set_policy agent_id mode policy (op_workspace_id op) cdb of
        (Err _, _) \<Rightarrow> (Err (control_down rid), st)
      | (Ok False, _) \<Rightarrow> (Err (denial_new ERR_AGENT_NOT_FOUND rid), st)
      | (Ok True, cdb') \<Rightarrow>
          (case fetch_agent rid agent_id op cdb' of
             Err d \<Rightarrow> (Err d, set_control cdb' st)
           | Ok rec \<Rightarrow> (Ok (view rec (spend_or_none (ar_agent_pubkey rec) db)), set_control cdb' st)))"

definition route_set_agent_status ::
    "string \<Rightarrow> operator \<Rightarrow> string \<Rightarrow> agent_status \<Rightarrow> app_state \<Rightarrow> (agent_view, denial) result \<times> app_state" where
  "route_set_agent_status rid op agent_id status st =
     (case control_db rid st of
        Err d \<Rightarrow> (Err d, st)
      | Ok (db, cdb) \<Rightarrow>
      case set_agent_status agent_id status (op_workspace_id op) cdb of
        (Err _, _) \<Rightarrow> (Err (control_down rid), st)
      | (Ok False, _) \<Rightarrow> (Err (denial_new ERR_AGENT_NOT_FOUND rid), st)
      | (Ok True, cdb') \<Rightarrow>
          (case fetch_agent rid agent_id op cdb' of
             Err d \<Rightarrow> (Err d, set_control cdb' st)
           | Ok rec \<Rightarrow> (Ok (view rec (spend_or_none (ar_agent_pubkey rec) db)), set_control cdb' st)))"

subsection \<open>Providers\<close>

record register_provider_request =
  gq_provider_id :: string
  gq_label :: string
  gq_base_url :: string
  gq_provider_pubkey :: "string option"
  gq_enabled :: bool

definition starts_with :: "string \<Rightarrow> string \<Rightarrow> bool" where
  "starts_with s p = (take (length p) s = p)"

definition set_registry :: "registry \<Rightarrow> app_state \<Rightarrow> app_state" where
  "set_registry reg st = st\<lparr>as_registry := reg\<rparr>"

definition register_provider ::
    "externals \<Rightarrow> string \<Rightarrow> operator \<Rightarrow> register_provider_request \<Rightarrow> app_state
      \<Rightarrow> (provider_record list, denial) result \<times> app_state" where
  "register_provider X rid op req st =
     (case control_db rid st of
        Err d \<Rightarrow> (Err d, st)
      | Ok (db, cdb) \<Rightarrow>
      if trim (gq_provider_id req) = [] \<or> trim (gq_label req) = [] \<or> trim (gq_base_url req) = []
      then (Err (denial_new ERR_MALFORMED_REQUEST rid), st)
      else if \<not> (starts_with (gq_base_url req) ''http://'' \<or> starts_with (gq_base_url req) ''https://'')
      then (Err (denial_new ERR_MALFORMED_REQUEST rid), st)
      else if unreadable_key X (gq_provider_pubkey req)
      then (Err (denial_new ERR_MALFORMED_REQUEST rid), st)
      else
        let rec = \<lparr>pv_provider_id = trim (gq_provider_id req), pv_label = trim (gq_label req),
              pv_base_url = trim (gq_base_url req), pv_provider_pubkey = nonblank (gq_provider_pubkey req),
              pv_enabled = gq_enabled req\<rparr> in
        case upsert_provider rec (op_workspace_id op) cdb of
          (Err _, _) \<Rightarrow> (Err (control_down rid), st)
        | (Ok _, cdb') \<Rightarrow>
            let reg = registry_upsert rec (as_registry st) in
            (Ok (registry_list reg), set_registry reg (set_control cdb' st)))"

definition route_list_providers :: "operator \<Rightarrow> app_state \<Rightarrow> provider_record list" where
  "route_list_providers op st =
     (case (op_workspace_id op, as_db st) of
        (Some ws, Some (db, cdb)) \<Rightarrow> (case list_providers (Some ws) cdb of Ok ps \<Rightarrow> ps | Err _ \<Rightarrow> [])
      | _ \<Rightarrow> registry_list (as_registry st))"

definition route_delete_provider ::
    "string \<Rightarrow> operator \<Rightarrow> string \<Rightarrow> app_state \<Rightarrow> (provider_record list, denial) result \<times> app_state" where
  "route_delete_provider rid op provider_id st =
     (case control_db rid st of
        Err d \<Rightarrow> (Err d, st)
      | Ok (db, cdb) \<Rightarrow>
      case delete_provider provider_id (op_workspace_id op) cdb of
        (Err _, _) \<Rightarrow> (Err (control_down rid), st)
      | (Ok removed, cdb') \<Rightarrow>
          let reg = snd (registry_remove provider_id (as_registry st));
              st' = set_registry reg (set_control cdb' st) in
          if \<not> removed then (Err (denial_new ERR_PROVIDER_NOT_FOUND rid), st')
          else (Ok (registry_list reg), st'))"

definition route_catalogue :: "web \<Rightarrow> nat \<Rightarrow> app_state \<Rightarrow> aggregate_catalogue \<times> app_state \<times> string list" where
  "route_catalogue W instant st =
     (case aggregate W instant (as_registry st) of (ag, reg, urls) \<Rightarrow> (ag, set_registry reg st, urls))"

subsection \<open>Plans\<close>

definition saturating_add_u32 :: "u32 \<Rightarrow> u32 \<Rightarrow> u32" where
  "saturating_add_u32 a b = (if unat a + unat b < 2 ^ 32 then a + b else - 1)"

definition saturating_mul_u64 :: "u64 \<Rightarrow> u64 \<Rightarrow> u64" where
  "saturating_mul_u64 a b = (if unat a * unat b < 2 ^ 64 then a * b else - 1)"

record plan_option =
  po_provider_id :: string
  po_provider_label :: string
  po_resource :: string
  po_unit_price :: string
  po_affordable_calls :: u32
  po_total_cost :: string
  po_sufficient :: bool
  po_refused_by :: "string option"
  po_needs_approval :: bool

lemma unat_next_u32: "n < (calls :: u32) \<Longrightarrow> unat (n + 1) = unat n + 1"
  using unsigned_less [of calls, where ?'a = nat] by (simp add: word_less_nat_alt unat_word_ariths)

function affordable_walk ::
    "agent_record \<Rightarrow> agent_policy \<Rightarrow> string \<Rightarrow> u64 \<Rightarrow> u32 \<Rightarrow> u32 \<Rightarrow> spend \<Rightarrow> u32" where
  \<comment> \<open>the loop: \<open>n\<close> calls so far, \<open>running\<close> what they would have spent\<close>
  "affordable_walk agent policy resource unit calls n running =
     (if n < calls then
        (case evaluate (ar_status agent) (ar_mode agent) policy resource unit running of
           Refuse _ \<Rightarrow> n
         | _ \<Rightarrow> affordable_walk agent policy resource unit calls (n + 1)
             \<lparr>sp_spent = saturating_add_u64 (sp_spent running) unit,
              sp_calls = saturating_add_u32 (sp_calls running) 1\<rparr>)
      else n)"
  by pat_completeness auto
termination by (relation "measure (\<lambda>(agent, policy, resource, unit, calls, n, running). unat calls - unat n)")
    (auto simp: unat_next_u32 word_less_nat_alt)

declare affordable_walk.simps [simp del]

definition plan_offer ::
    "agent_record \<Rightarrow> spend \<Rightarrow> u64 \<Rightarrow> string \<Rightarrow> u32 \<Rightarrow> u32 \<times> string option \<times> bool" where
  \<comment> \<open>affordable calls, the rule that refuses the first one, and whether each waits for a human\<close>
  "plan_offer agent spend unit resource calls = (case ar_policy agent of
     None \<Rightarrow> (calls, None, False)
   | Some policy \<Rightarrow>
       (case evaluate (ar_status agent) (ar_mode agent) policy resource unit spend of
          Refuse r \<Rightarrow> (0, Some (refusal_as_str r), False)
        | other \<Rightarrow> (affordable_walk agent policy resource unit calls 0 spend, None, other = NeedsApproval)))"

definition plan_option_of :: "agent_record \<Rightarrow> spend \<Rightarrow> u32 \<Rightarrow> catalogue_entry \<Rightarrow> plan_option option" where
  \<comment> \<open>one offer; a price that is not a u64 is skipped\<close>
  "plan_option_of agent spend calls offer = (case parse_amount (ce_price offer) of
     None \<Rightarrow> None
   | Some unit \<Rightarrow>
       (case plan_offer agent spend unit (ce_resource offer) calls of (affordable, refused_by, needs_approval) \<Rightarrow>
        Some \<lparr>po_provider_id = ce_provider_id offer, po_provider_label = ce_provider_label offer,
          po_resource = ce_resource offer, po_unit_price = show_u64 unit, po_affordable_calls = affordable,
          po_total_cost = show_u64 (saturating_mul_u64 (ucast affordable) unit),
          po_sufficient = (affordable \<ge> calls), po_refused_by = refused_by,
          po_needs_approval = needs_approval\<rparr>))"

definition min_by_key :: "('a \<Rightarrow> u64) \<Rightarrow> 'a list \<Rightarrow> 'a option" where
  \<comment> \<open>\<open>Iterator::min_by_key\<close>: the first of several minima\<close>
  "min_by_key f xs = (case xs of [] \<Rightarrow> None | y # ys \<Rightarrow> Some (foldl (\<lambda>m x. if f x < f m then x else m) y ys))"

definition unit_price_of :: "plan_option \<Rightarrow> u64" where
  "unit_price_of p = (case parse_u64 (po_unit_price p) of Some v \<Rightarrow> v | None \<Rightarrow> - 1)"

definition recommend :: "plan_option list \<Rightarrow> string option" where
  "recommend options =
     map_option po_provider_id (min_by_key unit_price_of (filter (\<lambda>p. po_affordable_calls p > 0) options))"

definition plan_options ::
    "web \<Rightarrow> nat \<Rightarrow> agent_record \<Rightarrow> spend \<Rightarrow> string \<Rightarrow> u32 \<Rightarrow> app_state
      \<Rightarrow> (plan_option list \<times> string option \<times> provider_error list) \<times> app_state \<times> string list" where
  "plan_options W instant agent spend wanted calls st =
     (case aggregate W instant (as_registry st) of (ag, reg, urls) \<Rightarrow>
        let options = List.map_filter (plan_option_of agent spend calls)
              (filter (\<lambda>e. ce_resource e = wanted) (ag_entries ag)) in
        ((options, recommend options, ag_unavailable ag), set_registry reg st, urls))"

record plan_response =
  pr_agent_id :: string
  pr_resource :: string
  pr_requested_calls :: u32
  pr_options :: "plan_option list"
  pr_recommended :: "string option"
  pr_spent :: string
  pr_remaining :: "string option"
  pr_unavailable :: "provider_error list"
  pr_request_id :: string

definition plan ::
    "web \<Rightarrow> nat \<Rightarrow> string \<Rightarrow> operator \<Rightarrow> string \<Rightarrow> string \<Rightarrow> u32 \<Rightarrow> app_state
      \<Rightarrow> (plan_response, denial) result \<times> app_state \<times> string list" where
  "plan W instant rid op agent_id resource calls st =
     (case control_db rid st of
        Err d \<Rightarrow> (Err d, st, [])
      | Ok (db, cdb) \<Rightarrow>
      if calls = 0 then (Err (denial_new ERR_MALFORMED_REQUEST rid), st, [])
      else case fetch_agent rid agent_id op cdb of
        Err d \<Rightarrow> (Err d, st, [])
      | Ok agent \<Rightarrow>
      case agent_spend (ar_agent_pubkey agent) db of
        Err _ \<Rightarrow> (Err (control_down rid), st, [])
      | Ok spend \<Rightarrow>
      let wanted = policy_normalise_resource resource in
      case plan_options W instant agent spend wanted calls st of
        ((options, recommended, unavailable), st', urls) \<Rightarrow>
      (Ok \<lparr>pr_agent_id = ar_agent_id agent, pr_resource = wanted, pr_requested_calls = calls,
         pr_options = options, pr_recommended = recommended, pr_spent = show_u64 (sp_spent spend),
         pr_remaining = remaining_of agent spend, pr_unavailable = unavailable, pr_request_id = rid\<rparr>,
       st', urls))"

record session_plan_request =
  sq_session :: string
  sq_resource :: string
  sq_calls :: u32
  sq_claim :: claim_wire

record session_plan_response =
  sn_session :: string
  sn_resource :: string
  sn_requested_calls :: u32
  sn_options :: "plan_option list"
  sn_recommended :: "string option"
  sn_spent :: string
  sn_remaining :: "string option"
  sn_escrow_remaining :: string
  sn_unavailable :: "provider_error list"
  sn_request_id :: string

definition plan_check_claim ::
    "externals \<Rightarrow> i64 \<Rightarrow> string \<Rightarrow> session_plan_request \<Rightarrow> app_state
      \<Rightarrow> (pubkey \<times> session_record, denial) result" where
  \<comment> \<open>everything \<open>plan_for_session\<close> checks before it looks at the agent\<close>
  "plan_check_claim X now rid req st =
     (if sq_calls req = 0 then Err (denial_new ERR_MALFORMED_REQUEST rid)
      else case pk_parse X (sq_session req) of
        None \<Rightarrow> Err (denial_new ERR_MALFORMED_REQUEST rid)
      | Some session \<Rightarrow>
      case decode X (sq_claim req) of
        Err _ \<Rightarrow> Err (denial_new ERR_MALFORMED_CLAIM rid)
      | Ok (c, sig) \<Rightarrow>
      if cl_session c \<noteq> session then Err (denial_new ERR_MALFORMED_REQUEST rid)
      else if is_expired c now then Err (denial_new ERR_CLAIM_EXPIRED rid)
      else case store_get X session (as_store st) of
        Err e \<Rightarrow> Err (store_denial e rid)
      | Ok rec \<Rightarrow>
      if sr_is_settled rec then Err (denial_new ERR_SESSION_SETTLED rid)
      else if sint now > sint (case checked_add_i64 (sr_expires_at rec) CLOCK_SKEW_TOLERANCE_SECS of
                Some l \<Rightarrow> l | None \<Rightarrow> i64_max)
      then Err (denial_new ERR_SESSION_EXPIRED rid)
      else if cl_cumulative_amount c \<noteq> sr_cumulative_accepted rec
           \<or> cl_nonce c \<noteq> (case sr_last_nonce rec of Some n \<Rightarrow> n | None \<Rightarrow> 0)
      then Err (denial_new ERR_PLAN_CLAIM_MISMATCH rid)
      else if verify_claim_signature X (sr_agent rec) c sig \<noteq> Valid
      then Err (denial_new ERR_INVALID_SIGNATURE rid)
      else Ok (session, rec))"

definition plan_for_session ::
    "externals \<Rightarrow> web \<Rightarrow> i64 \<Rightarrow> nat \<Rightarrow> string \<Rightarrow> session_plan_request \<Rightarrow> app_state
      \<Rightarrow> (session_plan_response, denial) result \<times> app_state \<times> string list" where
  "plan_for_session X W now instant rid req st =
     (case plan_check_claim X now rid req st of
        Err d \<Rightarrow> (Err d, st, [])
      | Ok (session, rec) \<Rightarrow>
      case control_db rid st of
        Err d \<Rightarrow> (Err d, st, [])
      | Ok (db, cdb) \<Rightarrow>
      case get_agent_by_pubkey (pk_show X (sr_agent rec)) cdb of
        Err _ \<Rightarrow> (Err (control_down rid), st, [])
      | Ok None \<Rightarrow> (Err (denial_new ERR_AGENT_NOT_FOUND rid), st, [])
      | Ok (Some agent) \<Rightarrow>
      case agent_spend (ar_agent_pubkey agent) db of
        Err _ \<Rightarrow> (Err (control_down rid), st, [])
      | Ok spend \<Rightarrow>
      let wanted = policy_normalise_resource (sq_resource req) in
      case plan_options W instant agent spend wanted (sq_calls req) st of
        ((options, recommended, unavailable), st', urls) \<Rightarrow>
      (Ok \<lparr>sn_session = pk_show X session, sn_resource = wanted, sn_requested_calls = sq_calls req,
         sn_options = options, sn_recommended = recommended, sn_spent = show_u64 (sp_spent spend),
         sn_remaining = remaining_of agent spend,
         sn_escrow_remaining = show_u64 (saturating_sub_u64 (sr_deposited_total rec) (sr_cumulative_accepted rec)),
         sn_unavailable = unavailable, sn_request_id = rid\<rparr>, st', urls))"

subsection \<open>Operators\<close>

record operator_view =
  ov_operator_id :: string
  ov_label :: string
  ov_role :: string
  ov_enabled :: bool
  ov_created_at :: i64
  ov_last_used_at :: "i64 option"

record created_operator_view =
  co_operator_id :: string
  co_label :: string
  co_token :: string
  co_note :: string

definition route_create_operator ::
    "externals \<Rightarrow> string \<Rightarrow> string \<Rightarrow> string \<Rightarrow> string \<Rightarrow> app_state
      \<Rightarrow> (created_operator_view, denial) result \<times> app_state" where
  \<comment> \<open>\<open>uuid\<close> names the operator, \<open>token\<close> is the text of two fresh UUIDs\<close>
  "route_create_operator X rid uuid token label st =
     (case control_db rid st of
        Err d \<Rightarrow> (Err d, st)
      | Ok (db, cdb) \<Rightarrow>
      if trim label = [] then (Err (denial_new ERR_MALFORMED_REQUEST rid), st)
      else case create_operator (''op_'' @ uuid) (trim label) (token_hash X token) cdb of
        (Err _, _) \<Rightarrow> (Err (control_down rid), st)
      | (Ok False, _) \<Rightarrow> (Err (denial_new ERR_OPERATOR_EXISTS rid), st)
      | (Ok True, cdb') \<Rightarrow>
          (Ok \<lparr>co_operator_id = ''op_'' @ uuid, co_label = trim label, co_token = token,
             co_note = ''Store this now. Only its hash is kept, so it cannot be shown again.''\<rparr>, set_control cdb' st))"

definition operator_view_of :: "operator_record \<Rightarrow> operator_view" where
  "operator_view_of o' = \<lparr>ov_operator_id = or_operator_id o', ov_label = or_label o', ov_role = or_role o',
     ov_enabled = or_enabled o', ov_created_at = or_created_at o', ov_last_used_at = or_last_used_at o'\<rparr>"

definition route_list_operators :: "string \<Rightarrow> app_state \<Rightarrow> (operator_view list, denial) result" where
  "route_list_operators rid st =
     (case control_db rid st of
        Err d \<Rightarrow> Err d
      | Ok (db, cdb) \<Rightarrow>
      case list_operators cdb of
        Err _ \<Rightarrow> Err (control_down rid)
      | Ok rows \<Rightarrow> Ok (map operator_view_of rows))"

definition rotate_own_token ::
    "externals \<Rightarrow> string \<Rightarrow> operator \<Rightarrow> string \<Rightarrow> app_state
      \<Rightarrow> (created_operator_view, denial) result \<times> app_state" where
  "rotate_own_token X rid op token st =
     (case control_db rid st of
        Err d \<Rightarrow> (Err d, st)
      | Ok (db, cdb) \<Rightarrow>
      if op_operator_id op = SHARED_TOKEN_OPERATOR
      then (Err (denial_new ERR_SHARED_TOKEN_NOT_ROTATABLE rid), st)
      else case rotate_operator_token (op_operator_id op) (token_hash X token) cdb of
        (Err _, _) \<Rightarrow> (Err (control_down rid), st)
      | (Ok False, _) \<Rightarrow> (Err (denial_new ERR_OPERATOR_NOT_FOUND rid), st)
      | (Ok True, cdb') \<Rightarrow>
          (Ok \<lparr>co_operator_id = op_operator_id op, co_label = op_label op, co_token = token,
             co_note = ''Store this now. The previous token stopped working immediately, and only a hash of this one is kept.''\<rparr>,
           set_control cdb' st))"

definition set_operator_status ::
    "string \<Rightarrow> string \<Rightarrow> bool \<Rightarrow> app_state \<Rightarrow> (operator_view list, denial) result \<times> app_state" where
  \<comment> \<open>the answer is the list handler's, which draws a request id of its own\<close>
  "set_operator_status rid operator_id enabled st =
     (case control_db rid st of
        Err d \<Rightarrow> (Err d, st)
      | Ok (db, cdb) \<Rightarrow>
      case set_operator_enabled operator_id enabled cdb of
        (Err _, _) \<Rightarrow> (Err (control_down rid), st)
      | (Ok False, _) \<Rightarrow> (Err (denial_new ERR_OPERATOR_NOT_FOUND rid), st)
      | (Ok True, cdb') \<Rightarrow>
          (route_list_operators rid (set_control cdb' st), set_control cdb' st))"

subsection \<open>Approvals\<close>

definition listed_approvals :: "string \<Rightarrow> operator \<Rightarrow> control \<Rightarrow> (approval_view list, denial) result" where
  "listed_approvals rid op cdb = (case list_approvals 200 (op_workspace_id op) cdb of
     Err _ \<Rightarrow> Err (control_down rid) | Ok records \<Rightarrow> Ok (map approval_view_of records))"

definition route_list_approvals :: "string \<Rightarrow> operator \<Rightarrow> app_state \<Rightarrow> (approval_view list, denial) result" where
  "route_list_approvals rid op st =
     (case control_db rid st of Err d \<Rightarrow> Err d | Ok (db, cdb) \<Rightarrow> listed_approvals rid op cdb)"

definition route_decide_approval ::
    "string \<Rightarrow> operator \<Rightarrow> string \<Rightarrow> bool \<Rightarrow> string option \<Rightarrow> app_state
      \<Rightarrow> (approval_view list, denial) result \<times> app_state" where
  "route_decide_approval rid op approval_id approved reason st =
     (case control_db rid st of
        Err d \<Rightarrow> (Err d, st)
      | Ok (db, cdb) \<Rightarrow>
      case decide_approval approval_id approved reason (op_operator_id op) (op_label op) cdb of
        (Err _, _) \<Rightarrow> (Err (control_down rid), st)
      | (Ok False, _) \<Rightarrow> (Err (denial_new ERR_MALFORMED_REQUEST rid), st)
      | (Ok True, cdb') \<Rightarrow> (listed_approvals rid op cdb', set_control cdb' st))"

end
