(* ===== verification/Plan_Props.thy ===== *)
theory Plan_Props
  imports Control Gateway_Safety
begin

section \<open>What a plan promises\<close>

text \<open>
  The planner walks through the purchases one by one under the rules of the paid path. The
  walk ends, and its count has a closed form: the requested calls, the calls the envelope
  still admits and what is left of the budget at that price, whichever is least.
\<close>

definition affordable_more :: "agent_policy \<Rightarrow> u64 \<Rightarrow> spend \<Rightarrow> nat \<Rightarrow> nat" where
  "affordable_more p unit s m =
     min (min m (case ap_max_calls p of None \<Rightarrow> m | Some l \<Rightarrow> unat l - unat (sp_calls s)))
       (if unit = 0 then m else (unat (ap_max_total p) - unat (sp_spent s)) div unat unit)"

definition one_more :: "u64 \<Rightarrow> spend \<Rightarrow> spend" where
  "one_more unit s = \<lparr>sp_spent = saturating_add_u64 (sp_spent s) unit, sp_calls = saturating_add_u32 (sp_calls s) 1\<rparr>"

lemma one_more_spent: "unat (sp_spent s) + unat unit \<le> unat (m :: u64) \<Longrightarrow>
    unat (sp_spent (one_more unit s)) = unat (sp_spent s) + unat unit"
  using unat_u64_less [of m] by (simp add: one_more_def saturating_add_u64_def unat_add_u64)

lemma one_more_calls: "sp_calls s < l \<Longrightarrow> unat (sp_calls (one_more unit s)) = unat (sp_calls s) + 1"
  using unat_next_u32 [of "sp_calls s" l] unsigned_less [of l, where ?'a = nat]
  by (simp add: one_more_def saturating_add_u32_def word_less_nat_alt)

lemma min_Suc3: "0 < m \<Longrightarrow> min (min m (Suc a)) (Suc b) = Suc (min (min (m - 1) a) b)"
  by (cases m) simp_all

lemma affordable_more_step:
  assumes "within_envelope p resource unit s" and "0 < m"
  shows "affordable_more p unit s m = Suc (affordable_more p unit (one_more unit s) (m - 1))"
proof -
  have budget: "unat (sp_spent s) + unat unit \<le> unat (ap_max_total p)"
    and calls: "ap_max_calls p = Some l \<Longrightarrow> sp_calls s < l" for l
    using assms(1) by (auto simp: within_envelope_def)
  have b: "(if unit = 0 then m else (unat (ap_max_total p) - unat (sp_spent s)) div unat unit)
      = Suc (if unit = 0 then m - 1 else (unat (ap_max_total p) - unat (sp_spent (one_more unit s))) div unat unit)"
  proof (cases "unit = 0")
    case False
    then have "0 < unat unit" by (simp add: unat_gt_0)
    moreover have "unat (ap_max_total p) - unat (sp_spent s)
        = unat unit + (unat (ap_max_total p) - unat (sp_spent (one_more unit s)))"
      using budget one_more_spent [OF budget] by simp
    ultimately show ?thesis using False by (simp add: div_add_self1)
  qed (use assms(2) in simp)
  have c: "(case ap_max_calls p of None \<Rightarrow> m | Some l \<Rightarrow> unat l - unat (sp_calls s))
      = Suc (case ap_max_calls p of None \<Rightarrow> m - 1 | Some l \<Rightarrow> unat l - unat (sp_calls (one_more unit s)))"
    using assms(2) calls one_more_calls by (auto simp: word_less_nat_alt split: option.splits)
  show ?thesis unfolding affordable_more_def b c by (rule min_Suc3 [OF assms(2)])
qed

lemma affordable_more_stop:
  assumes "\<not> within_envelope p resource unit s" and "resource_permitted p resource" and "unit \<le> ap_max_per_call p"
    and "unat (sp_spent s) \<le> unat (ap_max_total p)"
  shows "affordable_more p unit s m = 0"
proof -
  consider l where "ap_max_calls p = Some l" "l \<le> sp_calls s"
    | "unat (ap_max_total p) < unat (sp_spent s) + unat unit"
    using assms by (auto simp: within_envelope_def not_less not_le)
  then show ?thesis
  proof cases
    case 1
    then show ?thesis by (simp add: affordable_more_def word_le_nat_alt)
  next
    case 2
    then have "unit \<noteq> 0" using assms(4) by auto
    moreover have "unat (ap_max_total p) - unat (sp_spent s) < unat unit" using 2 assms(4) by linarith
    ultimately show ?thesis by (simp add: affordable_more_def)
  qed
qed

lemma affordable_walk_from:
  assumes "ar_status agent = Active" and "resource_permitted p resource" and "unit \<le> ap_max_per_call p"
    and "n \<le> calls" and "unat (sp_spent s) \<le> unat (ap_max_total p)"
  shows "unat (affordable_walk agent p resource unit calls n s)
    = unat n + affordable_more p unit s (unat calls - unat n)"
  using assms(4,5)
proof (induction "unat calls - unat n" arbitrary: n s)
  case 0
  then have "n = calls" by (simp add: word_le_nat_alt word_unat_eq_iff)
  then show ?case by (simp add: affordable_walk.simps affordable_more_def)
next
  case (Suc k)
  then have less: "n < calls" by (simp add: word_less_nat_alt)
  note next_n = unat_next_u32 [OF less]
  let ?d = "evaluate (ar_status agent) (ar_mode agent) p resource unit s"
  show ?case
  proof (cases "within_envelope p resource unit s")
    case True
    then have "\<forall>r. ?d \<noteq> Refuse r" using assms(1) by (simp add: evaluate_not_refused)
    then have "affordable_walk agent p resource unit calls n s
        = affordable_walk agent p resource unit calls (n + 1) (one_more unit s)"
      using less by (subst affordable_walk.simps) (auto simp: one_more_def split: policy_decision.splits)
    moreover have "unat (sp_spent (one_more unit s)) \<le> unat (ap_max_total p)"
      using True one_more_spent [of s unit "ap_max_total p"] by (simp add: within_envelope_def)
    moreover have "n + 1 \<le> calls" "k = unat calls - unat (n + 1)"
      using less next_n Suc.hyps(2) by (simp_all add: word_le_nat_alt word_less_nat_alt)
    ultimately show ?thesis
      using Suc.hyps(1) [of "n + 1" "one_more unit s"] affordable_more_step [OF True, of "unat calls - unat n"]
        less next_n by (simp add: word_less_nat_alt)
  next
    case False
    then obtain r where "?d = Refuse r" using assms(1) evaluate_not_refused by blast
    then have "affordable_walk agent p resource unit calls n s = n"
      using less by (simp add: affordable_walk.simps)
    then show ?thesis using affordable_more_stop [OF False assms(2,3) Suc.prems(2)] by simp
  qed
qed

text \<open>
  C27. The planner's loop ends for every request, and its answer has a closed form. When the
  envelope does not refuse the first call, the loop runs exactly as many rounds as it
  reports: the requested number of calls, the calls left under the call limit, or the budget
  left divided by the price, whichever is smallest (a price of zero is limited by the first
  two only). No counter saturates on the way.
\<close>

theorem affordable_walk_exact:
  assumes "\<forall>r. evaluate (ar_status agent) (ar_mode agent) policy resource unit spend \<noteq> Refuse r"
  shows "unat (affordable_walk agent policy resource unit calls 0 spend)
    = min (min (unat calls)
          (case ap_max_calls policy of None \<Rightarrow> unat calls | Some l \<Rightarrow> unat l - unat (sp_calls spend)))
        (if unit = 0 then unat calls
         else (unat (ap_max_total policy) - unat (sp_spent spend)) div unat unit)"
proof -
  have "ar_status agent = Active" "within_envelope policy resource unit spend"
    using assms by (simp_all add: evaluate_not_refused)
  then show ?thesis
    using affordable_walk_from [of agent policy resource unit 0 calls spend]
    by (simp add: within_envelope_def affordable_more_def)
qed

definition demo_agent :: agent_record where
  "demo_agent = \<lparr>ar_agent_id = ''agt1'', ar_label = ''bot'', ar_agent_pubkey = ''k'', ar_owner_pubkey = None,
     ar_mode = Autonomous, ar_status = Active, ar_created_at = 1,
     ar_policy = Some \<lparr>ap_max_total = 100, ap_max_per_call = 30, ap_approval_threshold = None,
       ap_allowed_resources = None, ap_max_calls = Some 9\<rparr>, ar_workspace_id = None\<rparr>"

theorem affordable_walk_exact_witness:
  "unat (affordable_walk demo_agent (the (ar_policy demo_agent)) ''/weather'' 15 10 0 \<lparr>sp_spent = 40, sp_calls = 2\<rparr>) = 4"
proof -
  have "\<forall>r. evaluate (ar_status demo_agent) (ar_mode demo_agent) (the (ar_policy demo_agent)) ''/weather'' 15
      \<lparr>sp_spent = 40, sp_calls = 2\<rparr> \<noteq> Refuse r"
    by (simp add: evaluate_not_refused within_envelope_def resource_permitted_def demo_agent_def)
  from affordable_walk_exact [OF this, of 10] show ?thesis by (simp add: demo_agent_def)
qed

subsection \<open>The whole plan\<close>

lemma min_by_key_foldl:
  "foldl (\<lambda>m x. if f x < f m then x else m) y ys \<in> set (y # ys)
   \<and> (\<forall>x \<in> set (y # ys). (f (foldl (\<lambda>m x. if f x < f m then x else m) y ys) :: u64) \<le> f x)"
proof (induction ys arbitrary: y)
  case (Cons z ys)
  show ?case
  proof (cases "f z < f y")
    case True
    then show ?thesis using Cons.IH [of z] by auto
  next
    case False
    then show ?thesis using Cons.IH [of y] by auto
  qed
qed simp

lemma min_by_key_Some:
  "min_by_key f xs = Some x \<Longrightarrow> x \<in> set xs \<and> (\<forall>y \<in> set xs. f x \<le> f y)"
  using min_by_key_foldl [of f] by (auto simp: min_by_key_def split: list.splits)

lemma min_by_key_None: "min_by_key f xs = None \<longleftrightarrow> xs = []"
  by (simp add: min_by_key_def split: list.splits)

lemma affordable_within_budget:
  assumes "within_envelope p resource unit s"
  shows "unat (sp_spent s) + affordable_more p unit s m * unat unit \<le> unat (ap_max_total p)"
proof -
  let ?left = "unat (ap_max_total p) - unat (sp_spent s)"
  have "affordable_more p unit s m * unat unit \<le> ?left"
  proof (cases "unit = 0")
    case False
    then have "affordable_more p unit s m \<le> ?left div unat unit" by (simp add: affordable_more_def)
    then have "affordable_more p unit s m * unat unit \<le> ?left div unat unit * unat unit" by (rule mult_le_mono1)
    also have "\<dots> \<le> ?left" by (rule div_times_less_eq_dividend)
    finally show ?thesis .
  qed simp
  moreover have "unat (sp_spent s) \<le> unat (ap_max_total p)" using assms by (simp add: within_envelope_def)
  ultimately show ?thesis by linarith
qed

definition option_right :: "agent_record \<Rightarrow> spend \<Rightarrow> u32 \<Rightarrow> catalogue_entry \<Rightarrow> plan_option \<Rightarrow> bool" where
  \<comment> \<open>what an option of a plan says about an offer is true\<close>
  "option_right agent s calls offer p \<longleftrightarrow> (\<exists>unit. parse_amount (ce_price offer) = Some unit
     \<and> po_provider_id p = ce_provider_id offer \<and> po_provider_label p = ce_provider_label offer
     \<and> po_resource p = ce_resource offer \<and> po_unit_price p = show_u64 unit
     \<and> po_total_cost p = show_nat (min (unat (po_affordable_calls p) * unat unit) (2 ^ 64 - 1))
     \<and> (po_sufficient p \<longleftrightarrow> calls \<le> po_affordable_calls p)
     \<and> (case ar_policy agent of
          None \<Rightarrow> po_affordable_calls p = calls \<and> po_refused_by p = None \<and> \<not> po_needs_approval p
        | Some policy \<Rightarrow>
            if ar_status agent = Active \<and> within_envelope policy (ce_resource offer) unit s
            then po_refused_by p = None \<and> (po_needs_approval p \<longleftrightarrow> must_ask (ar_mode agent) policy unit)
              \<and> unat (po_affordable_calls p) = affordable_more policy unit s (unat calls)
              \<and> unat (sp_spent s) + unat (po_affordable_calls p) * unat unit \<le> unat (ap_max_total policy)
            else po_affordable_calls p = 0 \<and> \<not> po_needs_approval p
              \<and> po_refused_by p = Some (refusal_as_str (refusal_of (ar_status agent) policy (ce_resource offer) unit s))))"

lemma saturating_mul_text:
  "show_u64 (saturating_mul_u64 (ucast (a :: u32)) b) = show_nat (min (unat a * unat b) (2 ^ 64 - 1))"
proof -
  have a: "unat (ucast a :: u64) = unat a"
    using unsigned_less [of a, where ?'a = nat] by (simp add: unsigned_ucast_eq take_bit_nat_eq_self)
  have "unat (- 1 :: u64) = 2 ^ 64 - 1" by (simp add: unsigned_minus_1_eq_mask mask_eq_exp_minus_1)
  then show ?thesis by (auto simp: saturating_mul_u64_def show_u64_def unat_word_ariths a min_def not_less)
qed

lemma plan_option_right:
  assumes "plan_option_of agent s calls offer = Some p" shows "option_right agent s calls offer p"
proof -
  obtain unit aff refused needs where u: "parse_amount (ce_price offer) = Some unit"
    "plan_offer agent s unit (ce_resource offer) calls = (aff, refused, needs)"
    "p = \<lparr>po_provider_id = ce_provider_id offer, po_provider_label = ce_provider_label offer,
          po_resource = ce_resource offer, po_unit_price = show_u64 unit, po_affordable_calls = aff,
          po_total_cost = show_u64 (saturating_mul_u64 (ucast aff) unit),
          po_sufficient = (calls \<le> aff), po_refused_by = refused, po_needs_approval = needs\<rparr>"
    using assms by (auto simp: plan_option_of_def split: option.splits prod.splits)
  have "case ar_policy agent of None \<Rightarrow> aff = calls \<and> refused = None \<and> \<not> needs
        | Some policy \<Rightarrow>
            if ar_status agent = Active \<and> within_envelope policy (ce_resource offer) unit s
            then refused = None \<and> (needs \<longleftrightarrow> must_ask (ar_mode agent) policy unit)
              \<and> unat aff = affordable_more policy unit s (unat calls)
              \<and> unat (sp_spent s) + unat aff * unat unit \<le> unat (ap_max_total policy)
            else aff = 0 \<and> \<not> needs
              \<and> refused = Some (refusal_as_str (refusal_of (ar_status agent) policy (ce_resource offer) unit s))"
  proof (cases "ar_policy agent")
    case None
    then show ?thesis using u(2) by (simp add: plan_offer_def)
  next
    case (Some policy)
    let ?n = "affordable_walk agent policy (ce_resource offer) unit calls 0 s"
    show ?thesis
    proof (cases "ar_status agent = Active \<and> within_envelope policy (ce_resource offer) unit s")
      case True
      then have n: "unat ?n = affordable_more policy unit s (unat calls)"
        using affordable_walk_from [of agent policy "ce_resource offer" unit 0 calls s]
        by (simp add: within_envelope_def)
      have fits: "unat (sp_spent s) + unat ?n * unat unit \<le> unat (ap_max_total policy)"
        using affordable_within_budget [of policy "ce_resource offer" unit s] True by (simp add: n)
      show ?thesis using True u(2) Some n fits
        by (auto simp: plan_offer_def evaluate_envelope split: if_splits)
    next
      case False
      then have "ar_status agent = Suspended \<or> \<not> within_envelope policy (ce_resource offer) unit s"
        by (cases "ar_status agent") auto
      then show ?thesis using False u(2) Some by (auto simp: plan_offer_def evaluate_envelope)
    qed
  qed
  then show ?thesis unfolding option_right_def
    by (intro exI [of _ unit]) (simp only: u(1,3) plan_option.simps saturating_mul_text simp_thms)
qed

lemma unat_saturating_sub: "unat (saturating_sub_u64 a b) = unat a - unat b"
  by (simp add: saturating_sub_u64_def unat_sub word_le_nat_alt)

lemma option_right_unit:
  assumes "option_right agent s calls offer p"
  shows "parse_amount (ce_price offer) = Some (unit_price_of p)"
  using assms by (auto simp: option_right_def unit_price_of_def)

lemma map_filter_right:
  assumes "\<And>x y. f x = Some y \<Longrightarrow> R x y" and "\<And>x. f x \<noteq> None \<longleftrightarrow> P x"
  shows "list_all2 R (filter P xs) (List.map_filter f xs)"
proof (induction xs)
  case (Cons x xs)
  then show ?case using assms [of x] by (cases "f x") (auto simp: List.map_filter_def)
qed (simp add: List.map_filter_def)

end
