(* ===== verification/Control_Safety.thy ===== *)
theory Control_Safety
  imports Plan_Props Buy_Props
begin

section \<open>What the control plane does to purchases\<close>

text \<open>
  The handlers of theory \<open>Control\<close> against the paid path of theory \<open>Buy\<close>: a plan
  says what the envelope of the agent says and moves nothing, the policy an operator wrote
  is the one the next purchase meets, a suspension stops the next purchase; and what the
  handlers that are not scoped to a tenant let an operator of one tenant do.
\<close>

subsection \<open>Reading an agent back\<close>

lemma control_db_Ok: "control_db rid st = Ok d \<longleftrightarrow> as_db st = Some d"
  by (simp add: control_db_def split: option.splits)

lemma fetch_agent_Ok:
  "fetch_agent rid i op cdb = Ok a \<longleftrightarrow> get_agent i (op_workspace_id op) cdb = Ok (Some a)"
  by (simp add: fetch_agent_def split: sum.splits option.splits)

lemma find_key: "distinct (map f xs) \<Longrightarrow> x \<in> set xs \<Longrightarrow> find (\<lambda>r. f r = f x) xs = Some x"
  by (induction xs) auto

lemma get_agent_row:
  assumes "get_agent i ws cdb = Ok (Some a)"
  obtains r where "r \<in> set (cd_agents cdb)" "aw_agent_id r = i" "in_scope ws (aw_workspace_id r)"
    "agent_from_row cdb r = Ok a" "cd_online cdb"
  using assms by (auto simp: get_agent_def optional_agent_def split: if_splits option.splits sum.splits dest!: find_SomeD)

lemma agent_from_row_Ok:
  assumes "agent_from_row cdb r = Ok a"
  shows "ar_agent_id a = aw_agent_id r" and "ar_agent_pubkey a = aw_agent_pubkey r"
    and "ar_mode a = from_str_or_human (aw_mode r)" and "ar_status a = from_str_or_suspended (aw_status r)"
    and "ar_workspace_id a = aw_workspace_id r"
  using assms by (auto simp: agent_from_row_def split: sum.splits option.splits)

lemma get_agent_by_its_key:
  assumes inv: "control_inv cdb" and get: "get_agent i ws cdb = Ok (Some a)"
  shows "get_agent_by_pubkey (ar_agent_pubkey a) cdb = Ok (Some a)"
proof -
  obtain r where r: "r \<in> set (cd_agents cdb)" "agent_from_row cdb r = Ok a" "cd_online cdb"
    using get by (rule get_agent_row) blast
  have "find (\<lambda>q. aw_agent_pubkey q = ar_agent_pubkey a) (cd_agents cdb) = Some r"
    using find_key [of aw_agent_pubkey "cd_agents cdb" r] inv r(1) agent_from_row_Ok(2) [OF r(2)]
    by (simp add: control_inv_def)
  then show ?thesis using r(2,3) by (simp add: get_agent_by_pubkey_def optional_agent_def)
qed

lemma updated_row:
  assumes "r' \<in> set (cd_agents (snd (update_agent i ws f db)))" and "aw_agent_id r' = i"
    and "in_scope ws (aw_workspace_id r')"
  obtains r where "r' = f r"
  using assms by (auto simp: update_agent_def Let_def split: if_splits)

lemma status_text [simp]: "from_str_or_suspended (status_as_str s) = s"
  by (cases s) (simp_all add: from_str_or_suspended_def)

lemma mode_text [simp]: "from_str_or_human (mode_as_str m) = m"
  by (cases m) (simp_all add: from_str_or_human_def)

lemma tenant_steps_inv:
  assumes "control_inv cdb"
  shows "control_inv (snd (set_agent_status i s ws cdb))" and "control_inv (snd (set_policy i m p ws cdb))"
  using tenant_step_inv [OF assms, of ws "TSetStatus i s"] tenant_step_inv [OF assms, of ws "TSetPolicy i m p"] by simp_all

subsection \<open>Suspension\<close>

lemma set_status_read:
  assumes "set_agent_status i s ws cdb = (Ok True, cdb')" and "get_agent i ws cdb' = Ok (Some a)"
  shows "ar_status a = s"
proof -
  have cdb': "cdb' = snd (update_agent i ws (\<lambda>r. r\<lparr>aw_status := status_as_str s\<rparr>) cdb)"
    using assms(1) by (auto simp: set_agent_status_def split: if_splits prod.splits)
  obtain r' where r': "r' \<in> set (cd_agents cdb')" "aw_agent_id r' = i" "in_scope ws (aw_workspace_id r')"
    "agent_from_row cdb' r' = Ok a" using assms(2) by (rule get_agent_row) blast
  then obtain r where "r' = r\<lparr>aw_status := status_as_str s\<rparr>" unfolding cdb' by (metis updated_row)
  then show ?thesis using agent_from_row_Ok(4) [OF r'(4)] by simp
qed

lemma set_agent_status_Ok:
  assumes "route_set_agent_status rid op i s st = (Ok v, st')"
  obtains db cdb cdb' a where "as_db st = Some (db, cdb)" "set_agent_status i s (op_workspace_id op) cdb = (Ok True, cdb')"
    "st' = set_control cdb' st" "get_agent i (op_workspace_id op) cdb' = Ok (Some a)"
    "v = view a (spend_or_none (ar_agent_pubkey a) db)"
  using assms unfolding route_set_agent_status_def
  by (auto simp: control_db_Ok fetch_agent_Ok split: sum.splits prod.splits bool.splits)

lemma enforce_suspended:
  assumes "as_db st = Some (db, cdb)" and "get_agent_by_pubkey (pk_show X key) cdb = Ok (Some a)"
    and "ar_status a \<noteq> Active"
  shows "fst (enforce_agent_policy X rid uuid key session resource price st) = Err (denial_new ERR_AGENT_SUSPENDED rid)"
  using assms by (simp add: enforce_agent_policy_def Let_def)

lemma as_db_upstream [simp]: "as_db (st\<lparr>as_upstream := u\<rparr>) = as_db st"
  by (simp add: as_db_def)

lemma buy_refused_by_envelope:
  assumes inv: "gw_inv X st" and b: "buy X J W now instant rid uuid resource query (Some raw) st = (res, st', urls)"
    and owner: "\<And>c sig r. decode_header X J raw = Some (c, sig) \<Longrightarrow> gw_view X st (cl_session c) = Some r \<Longrightarrow> sr_agent r = key"
    and refused: "\<And>rid uuid session resource price u.
      \<exists>d. fst (enforce_agent_policy X rid uuid key session resource price (st\<lparr>as_upstream := u\<rparr>)) = Err d"
  shows "(\<exists>d. res = Err d) \<and> gw_view X st' = gw_view X st \<and> set urls \<subseteq> {url. \<exists>u. as_upstream st = Some u \<and> url = catalogue_url u}"
proof -
  obtain pres st1 urls1 where p: "buy_prepare X J W now instant rid uuid resource (Some raw) st = (pres, st1, urls1)"
    using prod_cases3 by blast
  have "pres \<noteq> Ok (Paying t)" for t
  proof
    assume "pres = Ok (Paying t)"
    then have "buy_prepare X J W now instant rid uuid resource (Some raw) st = (Ok (Paying t), st1, urls1)" using p by simp
    then obtain u' r where c: "buy_check_claim X J now rid raw (bt_price t) (st\<lparr>as_upstream := Some u'\<rparr>)
        = Ok (bt_claim t, bt_signature t, r)"
      and e: "enforce_agent_policy X rid uuid (sr_agent r) (cl_session (bt_claim t)) (bt_resource t) (bt_price t)
        (st\<lparr>as_upstream := Some u'\<rparr>) = (Ok (bt_identity t), st1)"
      by (rule buy_prepare_Paying) simp
    have "gw_inv X (st\<lparr>as_upstream := Some u'\<rparr>)" using inv by simp
    from buy_check_claim_Ok(1,3) [OF this c] have "sr_agent r = key" using owner by simp
    then show False using refused [of rid uuid "cl_session (bt_claim t)" "bt_resource t" "bt_price t" "Some u'"] e by simp
  qed
  moreover have "pres \<noteq> Ok (Quote q)" for q
    using p unfolding buy_prepare_def Let_def by (simp split: option.splits sum.splits prod.splits) auto
  ultimately obtain d where d: "pres = Err d" by (cases pres) (auto, metis buy_step.exhaust)
  then have "res = Err d" "st' = st1" "urls = urls1" using b p by (simp_all add: buy_def)
  then show ?thesis
    using buy_prepare_urls [OF p] same_sessions_view [of st st1 X] buy_prepare_same [of st X J W now instant rid uuid resource "Some raw"] p
    by simp
qed

text \<open>
  C24. A suspension holds from the next purchase on. After an operator suspended an agent,
  a purchase with any claim on a session of that agent is refused, whatever its envelope,
  its approvals and its price: no session changes, and the provider is asked for nothing
  but its price list.
\<close>

theorem suspension_stops_purchases:
  assumes "gw_inv X st" and "\<forall>db cdb. as_db st = Some (db, cdb) \<longrightarrow> control_inv cdb"
    and "route_set_agent_status rid op agent_id Suspended st = (Ok v, st')"
    and "pk_show X key = av_agent_pubkey v"
    and "\<forall>c sig r. decode_header X J raw = Some (c, sig) \<longrightarrow> gw_view X st (cl_session c) = Some r \<longrightarrow> sr_agent r = key"
    and "buy X J W now instant rid' uuid resource query (Some raw) st' = (res, st'', urls)"
  shows "(\<exists>d. res = Err d) \<and> gw_view X st'' = gw_view X st
    \<and> set urls \<subseteq> {url. \<exists>u. as_upstream st = Some u \<and> url = catalogue_url u}"
proof -
  obtain db cdb cdb' a where s: "as_db st = Some (db, cdb)" "set_agent_status agent_id Suspended (op_workspace_id op) cdb = (Ok True, cdb')"
    "st' = set_control cdb' st" "get_agent agent_id (op_workspace_id op) cdb' = Ok (Some a)"
    "v = view a (spend_or_none (ar_agent_pubkey a) db)" using assms(3) by (rule set_agent_status_Ok)
  have inv: "control_inv cdb'"
    using tenant_steps_inv(1) [of cdb agent_id Suspended "op_workspace_id op"] assms(2) s(1,2) by simp
  have same: "gw_view X st' = gw_view X st" "gw_inv X st'"
    using same_sessions_view [OF set_control_same, of X cdb' st] assms(1) s(3) by simp_all
  have key: "get_agent_by_pubkey (pk_show X key) cdb' = Ok (Some a)"
    using get_agent_by_its_key [OF inv s(4)] assms(4) s(5) by (simp add: view_def)
  have "as_upstream st' = as_upstream st" using s(3) by (simp add: set_control_def split: backend.splits)
  then show ?thesis
    using buy_refused_by_envelope [OF same(2) assms(6), of key] assms(5) same(1)
      enforce_suspended [OF _ key] set_status_read [OF s(2,4)] s(1,3) by auto
qed

definition demo_boss :: operator where
  "demo_boss = \<lparr>op_operator_id = ''op1'', op_label = ''Ann'', op_workspace_id = None, op_role = ''owner''\<rparr>"

definition demo_governed :: app_state where
  "demo_governed = demo_app (Durable demo_db demo_envelope)"

lemma demo_governed_facts:
  "gw_inv demo_externals demo_governed" "as_db demo_governed = Some (demo_db, demo_envelope)"
  "control_inv demo_envelope" "gw_view demo_externals demo_governed 7 = Some demo_record" "sr_agent demo_record = 1"
  using demo_db_facts demo_pg_get
  by (simp_all add: demo_governed_def as_db_def backend_inv_def backend_view_def demo_record_def session_record_new_def
      control_inv_def demo_envelope_def demo_control_def)

lemma demo_suspend:
  "\<exists>v st'. route_set_agent_status ''r'' demo_boss ''agt1'' Suspended demo_governed = (Ok v, st')
     \<and> av_agent_pubkey v = pk_show demo_externals 1"
  by (simp add: route_set_agent_status_def control_db_def demo_governed_facts set_agent_status_def update_agent_def
      demo_envelope_def demo_control_def in_scope_def demo_boss_def fetch_agent_def get_agent_def optional_agent_def
      agent_from_row_def policy_row_of_def policy_from_row_def to_u64_def view_def)

theorem suspension_stops_purchases_witness:
  "\<exists>v st' d st'' urls. route_set_agent_status ''r'' demo_boss ''agt1'' Suspended demo_governed = (Ok v, st')
     \<and> buy demo_externals (demo_serde (demo_wire (demo_claim_of 40 2))) demo_web 1500 5 ''r'' ''u'' ''weather'' [] (Some []) st'
       = (Err d, st'', urls)
     \<and> gw_view demo_externals st'' = gw_view demo_externals demo_governed"
proof -
  let ?J = "demo_serde (demo_wire (demo_claim_of 40 2))"
  obtain v st' where s: "route_set_agent_status ''r'' demo_boss ''agt1'' Suspended demo_governed = (Ok v, st')"
    "pk_show demo_externals 1 = av_agent_pubkey v" using demo_suspend by metis
  obtain res st'' urls where b: "buy demo_externals ?J demo_web 1500 5 ''r'' ''u'' ''weather'' [] (Some []) st'
      = (res, st'', urls)" using prod_cases3 by blast
  have o: "\<forall>c sig r. decode_header demo_externals ?J [] = Some (c, sig) \<longrightarrow>
      gw_view demo_externals demo_governed (cl_session c) = Some r \<longrightarrow> sr_agent r = 1"
    using demo_governed_facts(4,5) by (auto simp: demo_header demo_claim_of_def)
  have i: "\<forall>db cdb. as_db demo_governed = Some (db, cdb) \<longrightarrow> control_inv cdb"
    using demo_governed_facts(2,3) by simp
  from suspension_stops_purchases [OF demo_governed_facts(1) i s o b] s(1) b show ?thesis by auto
qed

subsection \<open>Authorization\<close>

lemma policy_row_roundtrip:
  assumes "policy_to_row i p = Ok row" and "policies_check row"
  shows "policy_from_row row = Ok p" and "pl_agent_id row = i"
  using assms
  by (auto simp: policy_to_row_def policy_from_row_def policies_check_def to_i64_def map_option_case
      split: sum.splits option.splits if_splits intro!: agent_policy.equality)

lemma find_upsert_same: "find (\<lambda>p. pl_agent_id p = pl_agent_id row) (upsert_policy_row row rows) = Some row"
proof -
  have "find (\<lambda>p. pl_agent_id p = pl_agent_id row) (map (\<lambda>p. if pl_agent_id p = pl_agent_id row then row else p) ps) = Some row"
    if "list_ex (\<lambda>p. pl_agent_id p = pl_agent_id row) ps" for ps
    using that by (induction ps) auto
  moreover have "find (\<lambda>p. pl_agent_id p = pl_agent_id row) rows = None"
    if "\<not> list_ex (\<lambda>p. pl_agent_id p = pl_agent_id row) rows"
    using that by (auto simp: find_None_iff list_ex_iff)
  ultimately show ?thesis by (simp add: upsert_policy_row_def find_append)
qed

lemma set_policy_read:
  assumes "set_policy i m p ws cdb = (Ok True, cdb')" and "get_agent i ws cdb' = Ok (Some a)"
  shows "ar_policy a = Some p" and "ar_mode a = m"
proof -
  obtain row where row: "policy_to_row i p = Ok row" "policies_check row"
    and cdb': "cdb' = (snd (update_agent i ws (\<lambda>r. r\<lparr>aw_mode := mode_as_str m\<rparr>) cdb))
        \<lparr>cd_policies := upsert_policy_row row (cd_policies cdb)\<rparr>"
    using assms(1) by (auto simp: set_policy_def update_agent_def Let_def split: if_splits prod.splits sum.splits)
  obtain r' where r': "r' \<in> set (cd_agents cdb')" "aw_agent_id r' = i" "in_scope ws (aw_workspace_id r')"
    "agent_from_row cdb' r' = Ok a" using assms(2) by (rule get_agent_row) blast
  have "policy_row_of cdb' i = Some row"
    using find_upsert_same [of row] policy_row_roundtrip(2) [OF row] by (simp add: policy_row_of_def cdb')
  then show "ar_policy a = Some p"
    using r'(2,4) policy_row_roundtrip(1) [OF row] by (auto simp: agent_from_row_def)
  obtain r where "r' = r\<lparr>aw_mode := mode_as_str m\<rparr>"
    using r'(1-3) unfolding cdb' by (simp, metis updated_row)
  then show "ar_mode a = m" using agent_from_row_Ok(3) [OF r'(4)] by simp
qed

lemma authorize_agent_Ok:
  assumes "authorize_agent rid op i req st = (Ok v, st')"
  obtains db cdb cdb' p existing a where "as_db st = Some (db, cdb)" "requested_policy req = Some p"
    "get_agent i (op_workspace_id op) cdb = Ok (Some existing)"
    "set_policy i (case zq_mode req of Some m \<Rightarrow> m | None \<Rightarrow> ar_mode existing) p (op_workspace_id op) cdb = (Ok True, cdb')"
    "st' = set_control cdb' st" "get_agent i (op_workspace_id op) cdb' = Ok (Some a)"
    "v = view a (spend_or_none (ar_agent_pubkey a) db)"
  using assms unfolding authorize_agent_def Let_def
  by (simp add: control_db_Ok fetch_agent_Ok split: sum.splits prod.splits bool.splits option.splits)

definition grants :: "authorize_request \<Rightarrow> agent_policy \<Rightarrow> bool" where
  \<comment> \<open>the policy has every limit the request spells, and a per-call cap between one unit and the total\<close>
  "grants req p \<longleftrightarrow> parse_amount (zq_max_total req) = Some (ap_max_total p)
     \<and> parse_amount (zq_max_per_call req) = Some (ap_max_per_call p)
     \<and> 0 < ap_max_per_call p \<and> ap_max_per_call p \<le> ap_max_total p
     \<and> (case zq_approval_threshold req of
          None \<Rightarrow> ap_approval_threshold p = None
        | Some t \<Rightarrow> if trim t = [] then ap_approval_threshold p = None
            else \<exists>x. parse_amount t = Some x \<and> ap_approval_threshold p = Some x)
     \<and> ap_allowed_resources p = zq_allowed_resources req \<and> ap_max_calls p = zq_max_calls req"

lemma requested_policy_grants: "requested_policy req = Some p \<Longrightarrow> grants req p"
  by (auto simp: requested_policy_def grants_def parse_threshold_def word_gt_0 split: option.splits sum.splits if_splits)

lemma set_policy_approvals: "set_policy i m p ws cdb = (res, cdb') \<Longrightarrow> cd_approvals cdb' = cd_approvals cdb"
  by (auto simp: set_policy_def update_agent_def Let_def split: if_splits prod.splits sum.splits)

text \<open>
  C23. The envelope an operator grants is the envelope that is enforced. When authorizing an
  agent succeeds, the request parses to a policy with exactly its limits, and a per-call cap
  between one unit and the total; exactly that policy is stored and shown in the answer,
  with the requested mode, or the one the agent had. Then the next purchase of the agent's
  key, at any price: a suspended agent is refused. For an active one, what is outside the
  envelope is refused by the first rule it breaks. What is inside, and below the threshold
  for an autonomous agent, is allowed and changes nothing. What is inside and needs a human
  is allowed exactly when an approval for this agent, resource and price is there, and the
  oldest such approval is consumed by it; otherwise it is refused as waiting for approval,
  and a pending proposal is there afterwards (unless the id drawn for a new one is taken or
  too long for its column).
\<close>

theorem authorize_roundtrip:
  assumes "\<forall>db cdb. as_db st = Some (db, cdb) \<longrightarrow> control_inv cdb"
    and "authorize_agent rid op agent_id req st = (Ok v, st')"
  shows "\<exists>p db cdb cdb' a\<^sub>0 a. requested_policy req = Some p \<and> grants req p
    \<and> as_db st = Some (db, cdb) \<and> get_agent agent_id (op_workspace_id op) cdb = Ok (Some a\<^sub>0)
    \<and> as_db st' = Some (db, cdb') \<and> cd_approvals cdb' = cd_approvals cdb
    \<and> get_agent_by_pubkey (av_agent_pubkey v) cdb' = Ok (Some a) \<and> ar_agent_id a = agent_id
    \<and> ar_policy a = Some p \<and> ar_mode a = (case zq_mode req of Some m \<Rightarrow> m | None \<Rightarrow> ar_mode a\<^sub>0)
    \<and> av_policy v = Some (policy_view_of p) \<and> av_mode v = ar_mode a \<and> av_status v = ar_status a
    \<and> (\<forall>X key spend resource price session uuid rid'. pk_show X key = av_agent_pubkey v \<longrightarrow>
         (if ar_status a = Active
          then agent_spend (pk_show X key) db = Ok spend \<longrightarrow>
            enforced rid' uuid a p resource price spend st' (enforce_agent_policy X rid' uuid key session resource price st')
          else fst (enforce_agent_policy X rid' uuid key session resource price st')
            = Err (denial_new ERR_AGENT_SUSPENDED rid')))"
proof -
  obtain db cdb cdb' p a\<^sub>0 a where z: "as_db st = Some (db, cdb)" "requested_policy req = Some p"
    "get_agent agent_id (op_workspace_id op) cdb = Ok (Some a\<^sub>0)"
    "set_policy agent_id (case zq_mode req of Some m \<Rightarrow> m | None \<Rightarrow> ar_mode a\<^sub>0) p (op_workspace_id op) cdb = (Ok True, cdb')"
    "st' = set_control cdb' st" "get_agent agent_id (op_workspace_id op) cdb' = Ok (Some a)"
    "v = view a (spend_or_none (ar_agent_pubkey a) db)" using assms(2) by (rule authorize_agent_Ok)
  have inv: "control_inv cdb'" using tenant_steps_inv(2) [of cdb] assms(1) z(1,4) by (metis snd_conv)
  note read = set_policy_read [OF z(4,6)]
  have db: "as_db st' = Some (db, cdb')" using z(1,5) by simp
  have key: "get_agent_by_pubkey (av_agent_pubkey v) cdb' = Ok (Some a)"
    using get_agent_by_its_key [OF inv z(6)] z(7) by (simp add: view_def)
  have "av_policy v = Some (policy_view_of p)" "av_mode v = ar_mode a" "av_status v = ar_status a" using z(7) read(1) by (simp_all add: view_def)
  moreover have "ar_agent_id a = agent_id" using z(6) agent_from_row_Ok(1) by (auto elim: get_agent_row)
  moreover have "if ar_status a = Active
      then agent_spend (pk_show X key) db = Ok spend \<longrightarrow>
        enforced rid' uuid a p resource price spend st' (enforce_agent_policy X rid' uuid key session resource price st')
      else fst (enforce_agent_policy X rid' uuid key session resource price st') = Err (denial_new ERR_AGENT_SUSPENDED rid')"
    if "pk_show X key = av_agent_pubkey v" for X key spend resource price session uuid rid'
    using enforce_exact [OF db _ _ read(1)] enforce_suspended [OF db] that key by simp
  ultimately show ?thesis
    using requested_policy_grants [OF z(2)] z(1,2,3) db key read set_policy_approvals [OF z(4)] by blast
qed

definition demo_grant :: authorize_request where
  "demo_grant = \<lparr>zq_max_total = ''200'', zq_max_per_call = '' 50'', zq_approval_threshold = Some '' '',
     zq_allowed_resources = None, zq_max_calls = Some 3, zq_mode = Some Human\<rparr>"

definition demo_granted :: agent_policy where
  "demo_granted = \<lparr>ap_max_total = 200, ap_max_per_call = 50, ap_approval_threshold = None,
     ap_allowed_resources = None, ap_max_calls = Some 3\<rparr>"

lemma demo_grant_policy: "requested_policy demo_grant = Some demo_granted"
  by (simp add: requested_policy_def demo_grant_def demo_granted_def parse_amount_def parse_threshold_def parse_u64_def
      parse_nat_def strip_plus_def digit_of_def
      trim_def trim_matches_def trim_end_matches_def trim_start_matches_def is_whitespace_def)

lemma demo_authorize:
  "\<exists>v st'. authorize_agent ''r'' demo_boss ''agt1'' demo_grant demo_governed = (Ok v, st')
     \<and> av_agent_pubkey v = pk_show demo_externals 1 \<and> av_status v = Active"
  by (simp add: authorize_agent_def control_db_def demo_governed_facts demo_grant_policy set_policy_def update_agent_def
      demo_envelope_def demo_control_def in_scope_def demo_boss_def fetch_agent_def get_agent_def optional_agent_def
      agent_from_row_def policy_row_of_def policy_from_row_def to_u64_def policy_to_row_def to_i64_def demo_granted_def
      policies_check_def upsert_policy_row_def Let_def view_def from_str_or_suspended_def)

lemma demo_within: "within_envelope demo_granted ''/weather'' 40 \<lparr>sp_spent = 0, sp_calls = 0\<rparr>"
  "\<not> within_envelope demo_granted ''/weather'' 60 \<lparr>sp_spent = 0, sp_calls = 0\<rparr>"
  "refusal_of Active demo_granted ''/weather'' 60 \<lparr>sp_spent = 0, sp_calls = 0\<rparr> = RefPriceCap"
  by (simp_all add: within_envelope_def refusal_of_def resource_permitted_def demo_granted_def)

theorem authorize_roundtrip_witness:
  "\<exists>v st' db cdb a c'. authorize_agent ''r'' demo_boss ''agt1'' demo_grant demo_governed = (Ok v, st')
     \<and> as_db st' = Some (db, cdb) \<and> get_agent_by_pubkey (av_agent_pubkey v) cdb = Ok (Some a)
     \<and> ar_policy a = Some demo_granted \<and> ar_mode a = Human \<and> av_policy v = Some (policy_view_of demo_granted)
     \<and> fst (enforce_agent_policy demo_externals ''q'' ''u'' 1 7 ''/weather'' 60 st') = Err (denial_new ERR_POLICY_PRICE_CAP ''q'')
     \<and> fst (enforce_agent_policy demo_externals ''q'' ''u'' 1 7 ''/weather'' 40 st') = Err (denial_new ERR_APPROVAL_REQUIRED ''q'')
     \<and> as_db (snd (enforce_agent_policy demo_externals ''q'' ''u'' 1 7 ''/weather'' 40 st')) = Some (db, c')
     \<and> asks_human ''u'' ''agt1'' ''/weather'' 40 cdb c'"
proof -
  obtain v st' where z: "authorize_agent ''r'' demo_boss ''agt1'' demo_grant demo_governed = (Ok v, st')"
    "av_agent_pubkey v = pk_show demo_externals 1" "av_status v = Active" using demo_authorize by blast
  have i: "\<forall>db cdb. as_db demo_governed = Some (db, cdb) \<longrightarrow> control_inv cdb"
    using demo_governed_facts(2,3) by simp
  from authorize_roundtrip [OF i z(1)] demo_grant_policy demo_governed_facts(2) obtain cdb' a where r:
    "as_db st' = Some (demo_db, cdb')" "cd_approvals cdb' = cd_approvals demo_envelope"
    "get_agent_by_pubkey (av_agent_pubkey v) cdb' = Ok (Some a)" "ar_agent_id a = ''agt1''"
    "ar_policy a = Some demo_granted" "ar_mode a = Human" "av_policy v = Some (policy_view_of demo_granted)"
    "av_status v = ar_status a"
    "\<forall>X key spend resource price session uuid rid'. pk_show X key = av_agent_pubkey v \<longrightarrow>
       (if ar_status a = Active
        then agent_spend (pk_show X key) demo_db = Ok spend \<longrightarrow>
          enforced rid' uuid a demo_granted resource price spend st' (enforce_agent_policy X rid' uuid key session resource price st')
        else fst (enforce_agent_policy X rid' uuid key session resource price st')
          = Err (denial_new ERR_AGENT_SUSPENDED rid'))"
    by (auto simp: demo_grant_def)
  have active: "ar_status a = Active" using r(8) z(3) by simp
  have run: "enforced ''q'' ''u'' a demo_granted ''/weather'' price \<lparr>sp_spent = 0, sp_calls = 0\<rparr> st'
      (enforce_agent_policy demo_externals ''q'' ''u'' 1 7 ''/weather'' price st')" for price
    using r(9) z(2) active demo_spend by metis
  have none: "cd_approvals demo_envelope = []" by (simp add: demo_envelope_def demo_control_def)
  have ask: "must_ask (ar_mode a) demo_granted 40" using r(6) by (simp add: must_ask_def)
  show ?thesis
    using z(1) r(1-7) run [of 60, unfolded enforced_def] run [of 40, unfolded enforced_def] demo_within ask none
    by auto
qed

subsection \<open>Plans\<close>

definition plan_right ::
    "agent_record \<Rightarrow> spend \<Rightarrow> u32 \<Rightarrow> string \<Rightarrow> catalogue_entry list \<Rightarrow> plan_option list \<Rightarrow> string option \<Rightarrow> bool" where
  \<comment> \<open>one right option for every priced offer of the resource, in their order, and the recommended one is a
     cheapest usable one\<close>
  "plan_right agent spend calls wanted offers options recommended \<longleftrightarrow>
     list_all2 (option_right agent spend calls)
       (filter (\<lambda>e. ce_resource e = wanted \<and> parse_amount (ce_price e) \<noteq> None) offers) options
   \<and> (case recommended of
        None \<Rightarrow> (\<forall>p \<in> set options. po_affordable_calls p = 0)
      | Some i \<Rightarrow> (\<exists>p \<in> set options. po_provider_id p = i \<and> 0 < po_affordable_calls p
          \<and> (\<forall>q \<in> set options. 0 < po_affordable_calls q \<longrightarrow> unit_price_of p \<le> unit_price_of q)))"

lemma list_all2_source: "list_all2 P xs ys \<Longrightarrow> y \<in> set ys \<Longrightarrow> \<exists>x \<in> set xs. P x y"
  by (induction rule: list_all2_induct) auto

lemma plan_right_option:
  assumes "plan_right agent spend calls wanted offers options recommended" and "p \<in> set options"
  shows "\<exists>offer \<in> set offers. ce_resource offer = wanted \<and> option_right agent spend calls offer p"
  using list_all2_source [OF conjunct1 [OF assms(1) [unfolded plan_right_def]] assms(2)] by auto

lemma plan_options_right:
  assumes "plan_options W instant agent spend wanted calls st = ((options, recommended, unavailable), st', urls)"
  shows "plan_right agent spend calls wanted (ag_entries (fst (aggregate W instant (as_registry st)))) options recommended"
    and "\<exists>reg. st' = st\<lparr>as_registry := reg\<rparr>"
proof -
  obtain ag reg us where ag: "aggregate W instant (as_registry st) = (ag, reg, us)" using prod_cases3 by blast
  let ?offers = "filter (\<lambda>e. ce_resource e = wanted) (ag_entries ag)"
  have o: "options = List.map_filter (plan_option_of agent spend calls) ?offers"
    and r: "recommended = recommend options" and st': "st' = st\<lparr>as_registry := reg\<rparr>"
    using assms ag by (auto simp: plan_options_def Let_def set_registry_def)
  have "list_all2 (option_right agent spend calls) (filter (\<lambda>e. parse_amount (ce_price e) \<noteq> None) ?offers) options"
    unfolding o by (rule map_filter_right) (auto simp: plan_option_right plan_option_of_def split: option.splits prod.splits)
  then have opts: "list_all2 (option_right agent spend calls)
      (filter (\<lambda>e. ce_resource e = wanted \<and> parse_amount (ce_price e) \<noteq> None) (ag_entries ag)) options"
    by (simp add: filter_filter conj_commute)
  let ?u = "filter (\<lambda>p. 0 < po_affordable_calls p) options"
  show "plan_right agent spend calls wanted (ag_entries (fst (aggregate W instant (as_registry st)))) options recommended"
  proof (cases "min_by_key unit_price_of ?u")
    case None
    then have "\<forall>p \<in> set options. po_affordable_calls p = 0"
      by (simp add: min_by_key_None filter_empty_conv word_gt_0)
    then show ?thesis using None r opts by (simp add: plan_right_def recommend_def ag)
  next
    case (Some p)
    then show ?thesis using r opts min_by_key_Some [OF Some] by (auto simp: plan_right_def recommend_def ag)
  qed
  show "\<exists>reg. st' = st\<lparr>as_registry := reg\<rparr>" using st' by blast
qed

definition purchase_meets ::
    "string \<Rightarrow> bool \<Rightarrow> agent_record \<Rightarrow> control \<Rightarrow> plan_option \<Rightarrow> (agent_identity, denial) result \<Rightarrow> bool" where
  \<comment> \<open>what the envelope answers a purchase at the price of a plan's option\<close>
  "purchase_meets rid require agent cdb p res \<longleftrightarrow>
     (let passed = Ok \<lparr>ai_agent_id = Some (ar_agent_id agent), ai_workspace_id = ar_workspace_id agent\<rparr> in
      case ar_policy agent of
        None \<Rightarrow> res = (if ar_status agent \<noteq> Active then Err (denial_new ERR_AGENT_SUSPENDED rid)
          else if require then Err (denial_new ERR_AGENT_POLICY_REQUIRED rid) else passed)
      | Some policy \<Rightarrow> (case po_refused_by p of
          Some why \<Rightarrow> \<exists>reason. why = refusal_as_str reason \<and> res = Err (denial_new (policy_denial reason) rid)
        | None \<Rightarrow> res = (if po_needs_approval p
             \<and> \<not> list_ex (approval_matches (ar_agent_id agent) (po_resource p) (unit_price_of p) ''approved'') (cd_approvals cdb)
             then Err (denial_new ERR_APPROVAL_REQUIRED rid) else passed)))"

lemma enforce_as_planned:
  assumes db: "as_db st = Some (db, cdb)" and a: "get_agent_by_pubkey (pk_show X key) cdb = Ok (Some agent)"
    and s: "agent_spend (pk_show X key) db = Ok spend" and o: "option_right agent spend calls offer p"
  shows "purchase_meets rid (as_require_agent_policy st) agent cdb p
    (fst (enforce_agent_policy X rid uuid key session (po_resource p) (unit_price_of p) st))"
proof (cases "ar_policy agent")
  case None
  then show ?thesis using db a by (simp add: purchase_meets_def enforce_agent_policy_def Let_def)
next
  case (Some policy)
  let ?out = "enforce_agent_policy X rid uuid key session (po_resource p) (unit_price_of p) st"
  have p: "if ar_status agent = Active \<and> within_envelope policy (po_resource p) (unit_price_of p) spend
      then po_refused_by p = None \<and> (po_needs_approval p \<longleftrightarrow> must_ask (ar_mode agent) policy (unit_price_of p))
      else po_refused_by p = Some (refusal_as_str (refusal_of (ar_status agent) policy (po_resource p) (unit_price_of p) spend))"
    using o option_right_unit [OF o] Some by (auto simp: option_right_def split: if_splits)
  show ?thesis
  proof (cases "ar_status agent")
    case Active
    from enforce_exact [OF db a this Some s, of rid uuid "po_resource p" "unit_price_of p" session]
    show ?thesis using p Active Some db by (auto simp: enforced_def purchase_meets_def Let_def split: if_splits)
  next
    case Suspended
    then have "fst ?out = Err (denial_new (policy_denial RefSuspended) rid)" using enforce_suspended [OF db a] by simp
    moreover have "po_refused_by p = Some (refusal_as_str RefSuspended)" using p Suspended by (simp add: refusal_of_def)
    ultimately show ?thesis using Some by (auto simp: purchase_meets_def intro!: exI [of _ RefSuspended])
  qed
qed

text \<open>
  C25. A plan is right and moves nothing. It has one option for each offer of the asked
  resource whose price is readable, with that offer's provider and price. The cost of an
  option is its number of calls times the price, saturating at the largest \<open>u64\<close> and
  never wrapping, and it is sufficient exactly when it affords the requested calls. For an
  agent with an envelope the number of calls is exact under that envelope and the recorded
  spend, their cost stays within the budget, a refused option names the first broken rule
  (the suspension first), and a purchase at that price meets exactly what the option says:
  that refusal, the wait for an approval unless one is there, or neither. For an agent
  without an envelope the plan affords what was asked for and names no refusal, whereas a
  purchase is refused if the agent is suspended or the gateway requires a policy. The
  recommended provider is a cheapest one that affords a call, and there is none exactly when
  no option affords one. No session, agent or approval changes.
\<close>

theorem plan_exact:
  assumes "\<forall>db cdb. as_db st = Some (db, cdb) \<longrightarrow> control_inv cdb"
    and "plan W instant rid op agent_id resource calls st = (Ok r, st', urls)"
  shows "\<exists>db cdb agent spend. as_db st = Some (db, cdb)
    \<and> get_agent agent_id (op_workspace_id op) cdb = Ok (Some agent)
    \<and> agent_spend (ar_agent_pubkey agent) db = Ok spend \<and> pr_resource r = policy_normalise_resource resource
    \<and> pr_requested_calls r = calls \<and> pr_spent r = show_u64 (sp_spent spend)
    \<and> pr_remaining r = map_option (\<lambda>p. show_nat (unat (ap_max_total p) - unat (sp_spent spend))) (ar_policy agent)
    \<and> plan_right agent spend calls (pr_resource r) (ag_entries (fst (aggregate W instant (as_registry st))))
        (pr_options r) (pr_recommended r)
    \<and> (\<exists>reg. st' = st\<lparr>as_registry := reg\<rparr>)
    \<and> (\<forall>p X key rid' uuid session. p \<in> set (pr_options r) \<longrightarrow> pk_show X key = ar_agent_pubkey agent \<longrightarrow>
         purchase_meets rid' (as_require_agent_policy st) agent cdb p
           (fst (enforce_agent_policy X rid' uuid key session (po_resource p) (unit_price_of p) st)))"
proof -
  obtain db cdb agent spend un where p: "as_db st = Some (db, cdb)"
    "get_agent agent_id (op_workspace_id op) cdb = Ok (Some agent)" "agent_spend (ar_agent_pubkey agent) db = Ok spend"
    "plan_options W instant agent spend (policy_normalise_resource resource) calls st
       = ((pr_options r, pr_recommended r, un), st', urls)" "pr_resource r = policy_normalise_resource resource"
    "pr_requested_calls r = calls" "pr_spent r = show_u64 (sp_spent spend)" "pr_remaining r = remaining_of agent spend"
    using assms(2) unfolding plan_def Let_def
    by (auto simp: control_db_Ok fetch_agent_Ok split: sum.splits prod.splits if_splits)
  note right = plan_options_right(1) [OF p(4)]
  have key: "get_agent_by_pubkey (ar_agent_pubkey agent) cdb = Ok (Some agent)"
    using get_agent_by_its_key [OF _ p(2)] assms(1) p(1) by blast
  have "purchase_meets rid' (as_require_agent_policy st) agent cdb q
      (fst (enforce_agent_policy X rid' uuid key session (po_resource q) (unit_price_of q) st))"
    if "q \<in> set (pr_options r)" "pk_show X key = ar_agent_pubkey agent" for q X key rid' uuid session
    using plan_right_option [OF right that(1)] enforce_as_planned [OF p(1), of X key agent spend] key p(3) that(2) by auto
  moreover have "remaining_of agent spend
      = map_option (\<lambda>p. show_nat (unat (ap_max_total p) - unat (sp_spent spend))) (ar_policy agent)"
    by (simp add: remaining_of_def show_u64_def unat_saturating_sub)
  ultimately show ?thesis using p right plan_options_right(2) [OF p(4)] by auto
qed

definition demo_market :: app_state where
  "demo_market = demo_governed\<lparr>as_registry := [(''d'', demo_provider, demo_upstream)]\<rparr>"

lemma demo_market_entries:
  "filter (\<lambda>e. ce_resource e = ''/weather'') (ag_entries (fst (aggregate demo_web 5 (as_registry demo_market))))
     = [\<lparr>ce_provider_id = ''d'', ce_provider_label = ''D'', ce_resource = ''/weather'', ce_price = ''40'', ce_description = ''w''\<rparr>]"
  by (simp add: demo_market_def aggregate_def registry_snapshot_def demo_provider_def demo_web_def demo_upstream_def
      upstream_new_def catalogue_of_def demo_catalogue_def entries_of_def normalise_resource_def trim_matches_def
      trim_end_matches_def trim_start_matches_def Let_def offer_key_def price_key_def parse_u64_def parse_nat_def
      strip_plus_def digit_of_def)

lemma demo_market_facts:
  "as_db demo_market = Some (demo_db, demo_envelope)" "as_store demo_market = Durable demo_db demo_envelope"
  "gw_inv demo_externals demo_market" "gw_view demo_externals demo_market 7 = Some demo_record"
  using demo_governed_facts by (simp_all add: demo_market_def as_db_def demo_governed_def)

definition demo_planned :: agent_record where
  "demo_planned = \<lparr>ar_agent_id = ''agt1'', ar_label = ''bot'', ar_agent_pubkey = pk_show demo_externals 1,
     ar_owner_pubkey = None, ar_mode = Autonomous, ar_status = Active, ar_created_at = 1,
     ar_policy = Some \<lparr>ap_max_total = 100, ap_max_per_call = 40, ap_approval_threshold = None,
       ap_allowed_resources = None, ap_max_calls = None\<rparr>, ar_workspace_id = Some ''b''\<rparr>"

lemma demo_planned_read:
  "get_agent ''agt1'' None demo_envelope = Ok (Some demo_planned)"
  "get_agent_by_pubkey (pk_show demo_externals 1) demo_envelope = Ok (Some demo_planned)"
  by (simp_all add: get_agent_def get_agent_by_pubkey_def optional_agent_def in_scope_def demo_envelope_def demo_control_def
      agent_from_row_def policy_row_of_def policy_from_row_def to_u64_def from_str_or_human_def
      from_str_or_suspended_def demo_planned_def)

lemma demo_market_options:
  "\<exists>p rec un st' urls. plan_options demo_web 5 demo_planned \<lparr>sp_spent = 0, sp_calls = 0\<rparr> ''/weather'' 5 demo_market
      = (([p], rec, un), st', urls) \<and> po_provider_id p = ''d'' \<and> unit_price_of p = 40"
proof -
  obtain ag reg us where ag: "aggregate demo_web 5 (as_registry demo_market) = (ag, reg, us)" using prod_cases3 by blast
  have "parse_amount ''40'' = Some 40"
    by (simp add: parse_amount_def trim_def trim_matches_def trim_end_matches_def trim_start_matches_def is_whitespace_def
        parse_u64_def parse_nat_def strip_plus_def digit_of_def)
  then obtain p where "plan_option_of demo_planned \<lparr>sp_spent = 0, sp_calls = 0\<rparr> 5 \<lparr>ce_provider_id = ''d'',
      ce_provider_label = ''D'', ce_resource = ''/weather'', ce_price = ''40'', ce_description = ''w''\<rparr> = Some p"
    "po_provider_id p = ''d''" "unit_price_of p = 40"
    by (cases "plan_offer demo_planned \<lparr>sp_spent = 0, sp_calls = 0\<rparr> 40 ''/weather'' 5")
      (simp add: plan_option_of_def unit_price_of_def)
  moreover have "filter (\<lambda>e. ce_resource e = ''/weather'') (ag_entries ag) = [\<lparr>ce_provider_id = ''d'',
      ce_provider_label = ''D'', ce_resource = ''/weather'', ce_price = ''40'', ce_description = ''w''\<rparr>]"
    using demo_market_entries ag by simp
  ultimately have "List.map_filter (plan_option_of demo_planned \<lparr>sp_spent = 0, sp_calls = 0\<rparr> 5)
      (filter (\<lambda>e. ce_resource e = ''/weather'') (ag_entries ag)) = [p]" by (simp only: map_filter_simps option.case)
  then show ?thesis
    using ag \<open>po_provider_id p = ''d''\<close> \<open>unit_price_of p = 40\<close> by (simp add: plan_options_def Let_def)
qed

lemma policy_normalise_weather: "policy_normalise_resource ''weather'' = ''/weather''"
  by (simp add: policy_normalise_resource_def Let_def trim_def trim_matches_def trim_end_matches_def trim_start_matches_def
      is_whitespace_def)

theorem plan_exact_witness:
  "\<exists>r st' urls p. plan demo_web 5 ''r'' demo_boss ''agt1'' ''weather'' 5 demo_market = (Ok r, st', urls)
     \<and> pr_options r = [p] \<and> unat (po_affordable_calls p) = 2 \<and> po_total_cost p = show_nat 80 \<and> \<not> po_sufficient p
     \<and> pr_recommended r = Some ''d'' \<and> as_store st' = as_store demo_market
     \<and> fst (enforce_agent_policy demo_externals ''q'' ''u'' 1 7 (po_resource p) (unit_price_of p) demo_market)
       = Ok \<lparr>ai_agent_id = Some ''agt1'', ai_workspace_id = Some ''b''\<rparr>"
proof -
  obtain p rec un st' urls where o: "plan_options demo_web 5 demo_planned \<lparr>sp_spent = 0, sp_calls = 0\<rparr> ''/weather'' 5 demo_market
      = (([p], rec, un), st', urls)" "po_provider_id p = ''d''" "unit_price_of p = 40" using demo_market_options by blast
  obtain r where r: "plan demo_web 5 ''r'' demo_boss ''agt1'' ''weather'' 5 demo_market = (Ok r, st', urls)"
    "pr_options r = [p]" "pr_recommended r = rec" "pr_resource r = ''/weather''"
    using o(1) demo_market_facts(1)
    by (simp add: plan_def control_db_def fetch_agent_def demo_boss_def demo_planned_read policy_normalise_weather
        demo_spend Let_def)
  have i: "\<forall>db cdb. as_db demo_market = Some (db, cdb) \<longrightarrow> control_inv cdb"
    using demo_market_facts(1) demo_governed_facts(3) by simp
  from plan_exact [OF i r(1)] obtain a s where
    "get_agent ''agt1'' None demo_envelope = Ok (Some a)" "agent_spend (ar_agent_pubkey a) demo_db = Ok s"
    "plan_right a s 5 ''/weather'' (ag_entries (fst (aggregate demo_web 5 (as_registry demo_market)))) [p] rec"
    "\<exists>reg. st' = demo_market\<lparr>as_registry := reg\<rparr>"
    "\<forall>q X key rid' uuid session. q \<in> set [p] \<longrightarrow> pk_show X key = ar_agent_pubkey a \<longrightarrow>
       purchase_meets rid' (as_require_agent_policy demo_market) a demo_envelope q
         (fst (enforce_agent_policy X rid' uuid key session (po_resource q) (unit_price_of q) demo_market))"
    using r(2-4) demo_market_facts(1) by (auto simp: demo_boss_def)
  then have right: "plan_right demo_planned \<lparr>sp_spent = 0, sp_calls = 0\<rparr> 5 ''/weather''
      (ag_entries (fst (aggregate demo_web 5 (as_registry demo_market)))) [p] rec"
    and same: "as_store st' = as_store demo_market"
    and meets: "purchase_meets ''q'' (as_require_agent_policy demo_market) demo_planned demo_envelope p
      (fst (enforce_agent_policy demo_externals ''q'' ''u'' 1 7 (po_resource p) (unit_price_of p) demo_market))"
    using demo_planned_read(1) demo_spend by (auto simp: demo_planned_def)
  obtain offer where opt: "option_right demo_planned \<lparr>sp_spent = 0, sp_calls = 0\<rparr> 5 offer p"
    using plan_right_option [OF right] by auto
  obtain P where P: "ar_policy demo_planned = Some P"
    and in_env: "within_envelope P res 40 \<lparr>sp_spent = 0, sp_calls = 0\<rparr>" "\<not> must_ask (ar_mode demo_planned) P 40"
      "affordable_more P 40 \<lparr>sp_spent = 0, sp_calls = 0\<rparr> 5 = 2" "ar_status demo_planned = Active" for res
    by (simp add: demo_planned_def within_envelope_def resource_permitted_def must_ask_def affordable_more_def)
  note unit = option_right_unit [OF opt, unfolded o(3)]
  have aff: "unat (po_affordable_calls p) = 2" and free: "po_refused_by p = None" "\<not> po_needs_approval p"
    using opt [unfolded option_right_def P option.case] unit in_env by auto
  have cost: "po_total_cost p = show_nat 80" and few: "po_sufficient p \<longleftrightarrow> 5 \<le> po_affordable_calls p"
    using opt [unfolded option_right_def] unit aff by auto
  have "\<not> po_sufficient p" using aff few by (simp add: word_le_nat_alt)
  moreover have "pr_recommended r = Some ''d''"
    using right r(3) o(2) aff by (auto simp: plan_right_def word_gt_0 split: option.splits)
  ultimately show ?thesis
    using r same aff cost meets free P by (auto simp: purchase_meets_def demo_planned_def)
qed

lemma evaluate_claim_not_above:
  "cl_cumulative_amount c \<le> sr_cumulative_accepted r \<Longrightarrow> evaluate_claim r c now \<noteq> Ok a"
  by (simp add: evaluate_claim_def Let_def)

lemma not_admitted:
  assumes inv: "gw_inv X st" and r: "gw_view X st (cl_session c) = Some r"
    and le: "cl_cumulative_amount c \<le> sr_cumulative_accepted r"
    and a: "store_admit_claim X c sig now (as_store st) = (ares, b)"
  shows "ares \<noteq> Ok (Ok acc)" and "backend_view X b = gw_view X st"
  using gws.admit_view [OF inv a] r evaluate_claim_not_above [OF le] by (auto split: sum.splits)

lemma plan_check_claim_Ok:
  assumes "gw_inv X st" and "plan_check_claim X now rid req st = Ok (session, r)"
  obtains c sig where "decode X (sq_claim req) = Ok (c, sig)" "cl_session c = session"
    "gw_view X st session = Some r" "cl_cumulative_amount c = sr_cumulative_accepted r"
    "verify_claim_signature X (sr_agent r) c sig = Valid" "\<not> sr_is_settled r"
  using assms(2) gws.get_view [OF assms(1)] unfolding plan_check_claim_def
  by (auto split: option.splits sum.splits prod.splits if_splits)

lemma plan_for_session_Ok:
  assumes "plan_for_session X W now instant rid req st = (Ok reply, st', urls)"
  obtains session r where "plan_check_claim X now rid req st = Ok (session, r)" "as_store st' = as_store st"
proof -
  obtain session r where c: "plan_check_claim X now rid req st = Ok (session, r)"
    using assms by (auto simp: plan_for_session_def split: sum.splits)
  then obtain agent spend o' rec un where
    "plan_options W instant agent spend (policy_normalise_resource (sq_resource req)) (sq_calls req) st = ((o', rec, un), st', urls)"
    using assms unfolding plan_for_session_def Let_def
    by (simp split: sum.splits option.splits prod.splits)
  from plan_options_right(2) [OF this] have "as_store st' = as_store st" by auto
  then show thesis using c that by blast
qed

lemma verify_claim_spent:
  assumes inv: "gw_inv X st" and dec: "decode X w = Ok (c, sig)"
    and le: "cl_cumulative_amount c \<le> mark (gw_view X st (cl_session c))"
  shows "\<exists>d b. verify_claim X now rid w st = (Err d, b) \<and> gw_view X b = gw_view X st"
proof -
  obtain res b where h: "verify_claim X now rid w st = (res, b)" by fastforce
  with inv show ?thesis
  proof (cases rule: verify_claim_cases)
    case (ran c' sig' r ares b')
    then have c: "c' = c" using dec by simp
    have le': "cl_cumulative_amount c' \<le> sr_cumulative_accepted r" using le ran(3) by (simp add: c mark_def)
    note n = not_admitted [OF inv ran(3) le' ran(5)]
    then have "\<nexists>resp. res = Ok resp" using ran(7) by blast
    then obtain d where "res = Err d" by (cases res) auto
    then show ?thesis using h n(2) ran(6) by auto
  qed (use h in auto)
qed

lemma buy_spent:
  assumes inv: "gw_inv X st" and dec: "decode_header X J raw = Some (c, sig)"
    and le: "cl_cumulative_amount c \<le> mark (gw_view X st (cl_session c))"
  shows "\<exists>d b us. buy X J W now instant rid uuid resource query (Some raw) st = (Err d, b, us)
    \<and> gw_view X b = gw_view X st \<and> set us \<subseteq> {url. \<exists>u. as_upstream st = Some u \<and> url = catalogue_url u}"
proof -
  obtain pres st1 urls1 where p: "buy_prepare X J W now instant rid uuid resource (Some raw) st = (pres, st1, urls1)"
    using prod_cases3 by blast
  have same: "gw_view X st1 = gw_view X st" "gw_inv X st1"
    using same_sessions_view [of st st1 X] buy_prepare_same [of st X J W now instant rid uuid resource "Some raw"] p inv
    by simp_all
  note us = buy_prepare_urls [OF p]
  show ?thesis
  proof (cases "\<exists>t. pres = Ok (Paying t)")
    case True
    then obtain t where t: "pres = Ok (Paying t)" by blast
    then have "buy_prepare X J W now instant rid uuid resource (Some raw) st = (Ok (Paying t), st1, urls1)" using p by simp
    then obtain u' r where ck: "buy_check_claim X J now rid raw (bt_price t) (st\<lparr>as_upstream := Some u'\<rparr>)
        = Ok (bt_claim t, bt_signature t, r)" by (rule buy_prepare_Paying) simp
    have i: "gw_inv X (st\<lparr>as_upstream := Some u'\<rparr>)" using inv by simp
    have c: "bt_claim t = c" using buy_check_claim_Ok(1) [OF i ck] dec by simp
    then have r: "gw_view X st1 (cl_session (bt_claim t)) = Some r" using buy_check_claim_Ok(3) [OF i ck] same(1) by simp
    then have le': "cl_cumulative_amount (bt_claim t) \<le> sr_cumulative_accepted r" using le c same(1) by (simp add: mark_def)
    obtain ares b where a: "store_admit_claim X (bt_claim t) (bt_signature t) now (as_store st1) = (ares, b)" by fastforce
    note n = not_admitted [OF same(2) r le' a]
    obtain fres st2 us2 where f: "buy_finish X J W now rid query t st1 = (fres, st2, us2)" using prod_cases3 by blast
    have "gw_view X st2 = gw_view X st1" using same_sessions_view [OF buy_finish_sessions [OF f], of X] n(2) a by simp
    moreover have "admitted X (bt_claim t) (bt_signature t) now st1 = []"
      using n(1) a by (auto simp: admitted_def split: sum.splits)
    then have "us2 = []" "\<exists>d. fres = Err d"
      using buy_finish_urls [OF f] buy_finish_Ok f by (auto, metis list.distinct(1) sum.exhaust)
    ultimately show ?thesis using p t f same(1) us by (auto simp: buy_def)
  next
    case False
    moreover have "pres \<noteq> Ok (Quote q)" for q
      using p unfolding buy_prepare_def Let_def by (simp split: option.splits sum.splits prod.splits) auto
    ultimately obtain d where "pres = Err d" by (cases pres) (auto, metis buy_step.exhaust)
    then show ?thesis using p same(1) us by (auto simp: buy_def)
  qed
qed

text \<open>
  Planning with a session's claim spends nothing. Answering the agent's planner leaves
  every session, agent and approval as it was; and the signed claim it accepted as proof is
  worthless as a payment afterwards: in that state and in every later one in which no mark
  went back, neither the claim endpoint nor a purchase accepts it, no session changes, and
  no provider is asked for more than its price list.
\<close>

theorem plan_pays_nothing:
  assumes "gw_inv X st" and "plan_for_session X W now instant rid req st = (Ok reply, st', urls)"
    and "decode X (sq_claim req) = Ok (c, sig)"
    and "gw_inv X st''" and "\<forall>k. mark (gw_view X st k) \<le> mark (gw_view X st'' k)"
  shows "as_store st' = as_store st
    \<and> (\<exists>d b. verify_claim X now' rid' (sq_claim req) st'' = (Err d, b) \<and> gw_view X b = gw_view X st'')
    \<and> (decode_header X J raw = Some (c, sig) \<longrightarrow>
        (\<exists>d b us. buy X J W' now' instant' rid' uuid resource query (Some raw) st'' = (Err d, b, us)
          \<and> gw_view X b = gw_view X st'' \<and> set us \<subseteq> {url. \<exists>u. as_upstream st'' = Some u \<and> url = catalogue_url u}))"
proof -
  obtain session r where p: "plan_check_claim X now rid req st = Ok (session, r)" "as_store st' = as_store st"
    using assms(2) by (rule plan_for_session_Ok)
  obtain c' sig' where c': "decode X (sq_claim req) = Ok (c', sig')" "cl_session c' = session"
    "gw_view X st session = Some r" "cl_cumulative_amount c' = sr_cumulative_accepted r"
    using assms(1) p(1) by (rule plan_check_claim_Ok)
  then have "cl_cumulative_amount c = mark (gw_view X st (cl_session c))" using assms(3) by (simp add: mark_def)
  then have le: "cl_cumulative_amount c \<le> mark (gw_view X st'' (cl_session c))" using assms(5) by simp
  show ?thesis using p(2) verify_claim_spent [OF assms(4,3) le] buy_spent [OF assms(4) _ le] by blast
qed

definition demo_question :: session_plan_request where
  "demo_question = \<lparr>sq_session = pk_show demo_externals 7, sq_resource = ''weather'', sq_calls = 5,
     sq_claim = demo_wire (demo_claim_of 0 0)\<rparr>"

lemma demo_question_fields:
  "sq_session demo_question = pk_show demo_externals 7" "sq_resource demo_question = ''weather''"
  "sq_calls demo_question = 5" "decode demo_externals (sq_claim demo_question) = Ok (demo_claim_of 0 0, 0)"
  using demo_decode [of "demo_claim_of 0 0"] by (simp_all add: demo_question_def demo_claim_of_def)

lemma demo_record_fields:
  "\<not> sr_is_settled demo_record" "sr_expires_at demo_record = 2000" "sr_cumulative_accepted demo_record = 0"
  "sr_last_nonce demo_record = None"
  by (simp_all add: demo_record_def session_record_new_def)

lemma demo_plan_check: "plan_check_claim demo_externals 1500 ''r'' demo_question demo_market = Ok (7, demo_record)"
proof -
  have "verify_claim_signature demo_externals a (demo_claim_of 0 0) 0 = Valid" for a
    using demo_signed [of a "demo_claim_of 0 0"] by (simp add: demo_claim_of_def)
  moreover have "pk_parse demo_externals (pk_show demo_externals 7) = Some 7"
    using demo_pk_text unfolding pk_text_law_def by blast
  moreover have "\<not> is_expired (demo_claim_of 0 0) 1500" by (simp add: is_expired_iff demo_claim_of_def)
  moreover have "store_get demo_externals 7 (as_store demo_market) = Ok demo_record"
    using demo_pg_get demo_market_facts(2) by (simp add: store_get_def)
  moreover have "cl_session (demo_claim_of 0 0) = 7" "cl_cumulative_amount (demo_claim_of 0 0) = 0"
    "cl_nonce (demo_claim_of 0 0) = 0" by (simp_all add: demo_claim_of_def)
  moreover have "checked_add_i64 2000 CLOCK_SKEW_TOLERANCE_SECS = Some 2030"
    by (simp add: checked_add_i64_def CLOCK_SKEW_TOLERANCE_SECS_def)
  ultimately show ?thesis
    by (simp add: plan_check_claim_def demo_question_fields demo_record_fields)
qed

theorem plan_pays_nothing_witness:
  "\<exists>reply st' urls d b. plan_for_session demo_externals demo_web 1500 5 ''r'' demo_question demo_market = (Ok reply, st', urls)
     \<and> as_store st' = as_store demo_market
     \<and> verify_claim demo_externals 1500 ''r'' (sq_claim demo_question) demo_market = (Err d, b)
     \<and> gw_view demo_externals b = gw_view demo_externals demo_market"
proof -
  obtain p rec un st' urls where o: "plan_options demo_web 5 demo_planned \<lparr>sp_spent = 0, sp_calls = 0\<rparr> ''/weather'' 5 demo_market
      = (([p], rec, un), st', urls)" using demo_market_options by blast
  obtain reply where r: "plan_for_session demo_externals demo_web 1500 5 ''r'' demo_question demo_market = (Ok reply, st', urls)"
    using o demo_market_facts(1) demo_governed_facts(5)
    by (simp add: plan_for_session_def demo_plan_check control_db_def demo_planned_read policy_normalise_weather
        demo_spend Let_def demo_question_fields)
  show ?thesis
    using plan_pays_nothing [OF demo_market_facts(3) r demo_question_fields(4) demo_market_facts(3)] r by blast
qed

subsection \<open>What is not scoped to a tenant\<close>

lemma find_append_new:
  "\<forall>x \<in> set xs. \<not> P x \<Longrightarrow> P y \<Longrightarrow> find P (xs @ [y]) = Some y"
  by (induction xs) auto

lemma create_operator_Ok:
  assumes "route_create_operator X rid uuid token label st = (Ok v, st')"
  obtains db cdb row where "as_db st = Some (db, cdb)" "as_db st' = Some (db, cdb\<lparr>cd_operators := cd_operators cdb @ [row]\<rparr>)"
    "ow_workspace_id row = None" "ow_enabled row" "ow_role row = ''operator''" "ow_token_hash row = token_hash X token"
    "co_token v = token" "cd_online cdb" "\<forall>r \<in> set (cd_operators cdb). ow_token_hash r \<noteq> token_hash X token"
proof -
  obtain db cdb where db: "as_db st = Some (db, cdb)" using assms
    by (auto simp: route_create_operator_def control_db_Ok split: sum.splits)
  show thesis
    by (rule that [OF db]) (use assms db in \<open>auto simp: route_create_operator_def control_db_def create_operator_def list_ex_iff
        split: if_splits\<close>)
qed

text \<open>
  C37. Minting an operator is not confined to a tenant. Whoever is let through to the
  handler, also an operator scoped to one workspace, receives a token that from the next
  request on passes the guard as an unscoped owner: the guard resolves it to an operator
  without a workspace, to whom every tenant's agents are listed.
\<close>

theorem operator_escalation:
  assumes "route_create_operator X rid uuid token label st = (Ok v, st')"
    and "presented_token req = Some (co_token v)"
  shows "\<exists>db cdb' op. as_db st' = Some (db, cdb') \<and> fst (require_admin X expected rid' req (Some cdb')) = Ok op
    \<and> op_workspace_id op = None \<and> is_owner op
    \<and> list_agents (op_workspace_id op) cdb'
      = traverse (agent_from_row cdb') (sort_key (\<lambda>r. - sint (aw_created_at r)) (cd_agents cdb'))"
proof -
  obtain db cdb row where c: "as_db st' = Some (db, cdb\<lparr>cd_operators := cd_operators cdb @ [row]\<rparr>)"
    "ow_workspace_id row = None" "ow_enabled row" "ow_role row = ''operator''" "ow_token_hash row = token_hash X token"
    "co_token v = token" "cd_online cdb" "\<forall>r \<in> set (cd_operators cdb). ow_token_hash r \<noteq> token_hash X token"
    using assms(1) by (rule create_operator_Ok)
  let ?cdb' = "cdb\<lparr>cd_operators := cd_operators cdb @ [row]\<rparr>"
  have "find (\<lambda>r. ow_token_hash r = token_hash X token \<and> ow_enabled r) (cd_operators cdb @ [row]) = Some row"
    using c(3,5,8) by (intro find_append_new) auto
  then have "operator_by_token_hash (token_hash X token) ?cdb' = Ok (Some (operator_from_row row))"
    using c(7) by (simp add: operator_by_token_hash_def)
  then have "\<exists>op. fst (require_admin X expected rid' req (Some ?cdb')) = Ok op \<and> op_workspace_id op = None \<and> is_owner op"
    using assms(2) c(2,4,6) by (auto simp: require_admin_def operator_from_row_def is_owner_def split: option.splits)
  then show ?thesis using c(1,7) by (auto simp: list_agents_def in_scope_def)
qed

theorem operator_escalation_witness:
  "\<exists>v st' db cdb' op. route_create_operator demo_externals ''r'' ''u'' ''tok'' ''Eve'' demo_governed = (Ok v, st')
     \<and> as_db st' = Some (db, cdb')
     \<and> fst (require_admin demo_externals (Some ''shared'') ''q'' \<lparr>rq_authorization = None, rq_admin_header = Some ''tok''\<rparr>
          (Some cdb')) = Ok op \<and> op_workspace_id op = None"
proof -
  obtain v st' where v: "route_create_operator demo_externals ''r'' ''u'' ''tok'' ''Eve'' demo_governed = (Ok v, st')" "co_token v = ''tok''"
    by (simp add: route_create_operator_def control_db_def demo_governed_facts create_operator_def demo_envelope_def
        demo_control_def trim_def trim_matches_def trim_end_matches_def trim_start_matches_def is_whitespace_def)
  have "presented_token \<lparr>rq_authorization = None, rq_admin_header = Some ''tok''\<rparr> = Some (co_token v)"
    by (simp add: presented_token_def v(2))
  from operator_escalation [OF v(1) this, of "Some ''shared''" "''q''"] v(1) show ?thesis by blast
qed

lemma register_provider_Ok:
  assumes "register_provider X rid op req st = (Ok ps, st')" and "as_db st = Some (db, cdb)"
  obtains rec cdb' where "pv_provider_id rec = trim (gq_provider_id req)" "pv_base_url rec = trim (gq_base_url req)"
    "pv_enabled rec = gq_enabled req" "upsert_provider rec (op_workspace_id op) cdb = (Ok (), cdb')"
    "st' = set_registry (registry_upsert rec (as_registry st)) (set_control cdb' st)"
proof -
  let ?rec = "\<lparr>pv_provider_id = trim (gq_provider_id req), pv_label = trim (gq_label req), pv_base_url = trim (gq_base_url req),
      pv_provider_pubkey = nonblank (gq_provider_pubkey req), pv_enabled = gq_enabled req\<rparr>"
  obtain cdb' where "upsert_provider ?rec (op_workspace_id op) cdb = (Ok (), cdb')"
    "st' = set_registry (registry_upsert ?rec (as_registry st)) (set_control cdb' st)"
    using assms unfolding register_provider_def Let_def
    by (auto simp: control_db_def split: if_splits sum.splits prod.splits)
  then show thesis by (intro that [of ?rec]) simp_all
qed

lemma as_db_set_registry [simp]: "as_db (set_registry reg st) = as_db st" "as_registry (set_registry reg st) = reg"
  by (simp_all add: as_db_def set_registry_def)

text \<open>
  C38. The registry is not confined to a tenant. An operator of one workspace who registers a
  provider under an id that another tenant owns is answered with success: the owner's row
  stays as it was, but the running registry now serves that id from the caller's URL. And
  deleting such an id is answered with not found, leaves the row, and removes the provider
  from the running registry all the same.
\<close>

theorem provider_hijack:
  assumes "as_db st = Some (db, cdb)" and "op_workspace_id op = Some w"
    and "row \<in> set (cd_providers cdb)" and "pv_provider_id (pw_record row) = pid"
    and "\<forall>r \<in> set (cd_providers cdb). pv_provider_id (pw_record r) = pid \<longrightarrow> pw_workspace_id r \<noteq> Some w"
    and "trim (gq_provider_id req) = pid" and "gq_enabled req" and "cd_online cdb"
  shows "(\<forall>ps st'. register_provider X rid op req st = (Ok ps, st') \<longrightarrow>
        (\<exists>cdb'. as_db st' = Some (db, cdb') \<and> row \<in> set (cd_providers cdb'))
      \<and> upstream_for pid (as_registry st') = Some (upstream_new (trim (gq_base_url req))))
    \<and> (\<exists>st'. route_delete_provider rid op pid st = (Err (denial_new ERR_PROVIDER_NOT_FOUND rid), st')
      \<and> (\<exists>cdb'. as_db st' = Some (db, cdb') \<and> row \<in> set (cd_providers cdb'))
      \<and> upstream_for pid (as_registry st') = None)"
proof (intro conjI allI impI)
  fix ps st' assume r: "register_provider X rid op req st = (Ok ps, st')"
  obtain rec cdb' where c: "pv_provider_id rec = pid" "pv_base_url rec = trim (gq_base_url req)" "pv_enabled rec"
    "upsert_provider rec (Some w) cdb = (Ok (), cdb')"
    "st' = set_registry (registry_upsert rec (as_registry st)) (set_control cdb' st)"
    using register_provider_Ok [OF r assms(1)] assms(2,6,7) by metis
  have "row \<in> set (cd_providers cdb')"
    using c(1,4) assms(3-5) by (auto simp: upsert_provider_def image_iff split: if_splits)
  then show "\<exists>cdb'. as_db st' = Some (db, cdb') \<and> row \<in> set (cd_providers cdb')"
    using c(5) assms(1) by auto
  show "upstream_for pid (as_registry st') = Some (upstream_new (trim (gq_base_url req)))"
    using reg.registered_is_served [of rec "as_registry st"] c by simp
next
  obtain cdb' where d: "delete_provider pid (Some w) cdb = (Ok False, cdb')" "row \<in> set (cd_providers cdb')"
    using assms(3-5,8) by (auto simp: delete_provider_def in_scope_def list_ex_iff Let_def)
  then show "\<exists>st'. route_delete_provider rid op pid st = (Err (denial_new ERR_PROVIDER_NOT_FOUND rid), st')
      \<and> (\<exists>cdb'. as_db st' = Some (db, cdb') \<and> row \<in> set (cd_providers cdb')) \<and> upstream_for pid (as_registry st') = None"
    using assms(1,2) reg.removed_is_not_served [of pid "as_registry st"]
    by (simp add: route_delete_provider_def control_db_def Let_def)
qed

definition demo_victim :: provider_row where
  "demo_victim = \<lparr>pw_record = demo_provider, pw_workspace_id = Some ''a''\<rparr>"

definition demo_tenants :: app_state where
  "demo_tenants = demo_app (Durable demo_db (demo_control\<lparr>cd_providers := [demo_victim]\<rparr>))"

definition demo_rival :: operator where
  "demo_rival = \<lparr>op_operator_id = ''op2'', op_label = ''Bob'', op_workspace_id = Some ''b'', op_role = ''operator''\<rparr>"

definition demo_registration :: register_provider_request where
  "demo_registration = \<lparr>gq_provider_id = ''d'', gq_label = ''D'', gq_base_url = ''http://evil'', gq_provider_pubkey = None,
     gq_enabled = True\<rparr>"

theorem provider_hijack_witness:
  "\<exists>ps st'. register_provider demo_externals ''r'' demo_rival demo_registration demo_tenants = (Ok ps, st')
     \<and> upstream_for ''d'' (as_registry st') = Some (upstream_new ''http://evil'')"
proof -
  have tx: "trim ''d'' = ''d''" "trim ''D'' = ''D''" "trim ''http://evil'' = ''http://evil''"
    by (simp_all add: trim_def trim_matches_def trim_end_matches_def trim_start_matches_def is_whitespace_def)
  obtain ps st' where r: "register_provider demo_externals ''r'' demo_rival demo_registration demo_tenants = (Ok ps, st')"
    by (simp add: register_provider_def control_db_def as_db_def demo_tenants_def demo_app_def demo_registration_def tx
        starts_with_def unreadable_key_def nonblank_def upsert_provider_def demo_control_def demo_victim_def demo_rival_def
        demo_provider_def fits_def Let_def)
  have db: "as_db demo_tenants = Some (demo_db, demo_control\<lparr>cd_providers := [demo_victim]\<rparr>)"
    by (simp add: demo_tenants_def as_db_def)
  show ?thesis
    using provider_hijack [OF db, of demo_rival "''b''" demo_victim "''d''" demo_registration demo_externals "''r''"] r
    by (simp add: demo_rival_def demo_victim_def demo_provider_def demo_registration_def tx demo_control_def)
qed

text \<open>
  Deciding an approval is not confined to a tenant either: the pending approval of any
  tenant's agent becomes approved for an operator of another workspace.
\<close>

theorem approval_decided_across_tenants:
  assumes "as_db st = Some (db, cdb)" and "cd_online cdb" and "v \<in> set (cd_approvals cdb)" and "vw_state v = ''pending''"
    and "length (op_operator_id op) \<le> 64" and "length (op_label op) \<le> 128"
  shows "\<exists>cdb'. as_db (snd (route_decide_approval rid op (vw_approval_id v) True reason st)) = Some (db, cdb')
    \<and> (\<exists>v' \<in> set (cd_approvals cdb'). vw_approval_id v' = vw_approval_id v \<and> vw_agent_id v' = vw_agent_id v
        \<and> vw_state v' = ''approved'')"
proof -
  let ?hit = "\<lambda>u. vw_approval_id u = vw_approval_id v \<and> vw_state u = ''pending''"
  let ?decided = "decided_row True reason (op_operator_id op) (op_label op) (cd_clock cdb)"
  let ?cdb' = "cdb\<lparr>cd_approvals := map (\<lambda>u. if ?hit u then ?decided u else u) (cd_approvals cdb)\<rparr>"
  have "list_ex ?hit (cd_approvals cdb)" using assms(3,4) by (auto simp: list_ex_iff)
  then have "decide_approval (vw_approval_id v) True reason (op_operator_id op) (op_label op) cdb = (Ok True, ?cdb')"
    using assms(2,5,6) by (simp add: decide_approval_def)
  moreover have "?decided v \<in> set (cd_approvals ?cdb')" using assms(3,4) by (auto simp: image_iff)
  moreover have "vw_approval_id (?decided v) = vw_approval_id v \<and> vw_agent_id (?decided v) = vw_agent_id v
      \<and> vw_state (?decided v) = ''approved''" by (simp add: decided_row_def)
  moreover have "as_db (snd (route_decide_approval rid op (vw_approval_id v) True reason st)) = Some (db, ?cdb')"
    using assms(1) calculation(1) by (simp add: route_decide_approval_def control_db_def)
  ultimately show ?thesis by blast
qed

text \<open>
  The planner looks at the status of an agent only through its policy: for a suspended agent
  without one it affords every requested call of every offer, while a purchase is refused.
\<close>

theorem plan_ignores_suspension:
  assumes "ar_status agent = Suspended" and "ar_policy agent = None" and "parse_amount (ce_price offer) = Some unit"
    and "as_db st = Some (db, cdb)" and "get_agent_by_pubkey (pk_show X key) cdb = Ok (Some agent)"
  shows "\<exists>p. plan_option_of agent spend calls offer = Some p \<and> po_sufficient p \<and> po_affordable_calls p = calls
      \<and> po_refused_by p = None
    \<and> fst (enforce_agent_policy X rid uuid key session (ce_resource offer) unit st) = Err (denial_new ERR_AGENT_SUSPENDED rid)"
  using assms enforce_suspended [OF assms(4,5)] by (simp add: plan_option_of_def plan_offer_def)

end
