(* ===== verification/Listings.thy ===== *)
theory Listings
  imports Gateway_Props
begin

section \<open>Reading sessions and decisions\<close>

text \<open>
  The read side of \<open>gateway/src/db.rs\<close> and \<open>gateway/src/routes.rs\<close>: the
  list of sessions with their marks and evidence counts, the feed of recent decisions, one
  session by its address, and the index. A scoped query joins the tables of the control
  plane on the agent's wallet, which is unique there. Of two rows of the same time the
  decision feed shows the one inserted later first; ties between sessions are broken by
  insertion order. Times are kept as the timestamps they are rendered from.
\<close>

subsection \<open>Queries\<close>

record session_summary =
  ss_session :: pubkey
  ss_agent :: pubkey
  ss_provider :: pubkey
  ss_mint :: pubkey
  ss_deposited_total :: u64
  ss_cumulative_accepted :: u64
  ss_last_nonce :: "u64 option"
  ss_expires_at :: i64
  ss_is_settled :: bool
  ss_chain_verified :: bool
  ss_evidence_count :: i64
  ss_created_at :: i64

record recent_decision =
  rd_session :: pubkey
  rd_sequence_id :: i64
  rd_decision :: string
  rd_cumulative_amount :: u64
  rd_nonce :: u64
  rd_entry_hash :: hash32
  rd_created_at :: i64

definition owned_by_workspace :: "string option \<Rightarrow> control \<Rightarrow> string \<Rightarrow> bool" where
  \<comment> \<open>\<open>JOIN agents ON agent_pubkey = .. AND workspace_id = $2\<close>, for a scoped caller\<close>
  "owned_by_workspace workspace cdb agent_pubkey = (case workspace of None \<Rightarrow> True
     | Some w \<Rightarrow> list_ex (\<lambda>a. aw_agent_pubkey a = agent_pubkey \<and> aw_workspace_id a = Some w) (cd_agents cdb))"

definition answers :: "string option \<Rightarrow> pg \<Rightarrow> control \<Rightarrow> bool" where
  \<comment> \<open>the query needs the second table only when it joins it\<close>
  "answers workspace db cdb \<longleftrightarrow> pg_online db \<and> (workspace = None \<or> cd_online cdb)"

definition summary_of :: "externals \<Rightarrow> pg \<Rightarrow> session_row \<Rightarrow> (session_summary, db_error) result" where
  "summary_of X db row =
     (let ticket = claim_row_of db (se_session_pubkey row);
          entries = length (filter (\<lambda>e. el_session_pubkey e = se_session_pubkey row) (pg_evidence db)) in
      case parse_pubkey X (se_session_pubkey row) of Err e \<Rightarrow> Err e | Ok session \<Rightarrow>
      case parse_pubkey X (se_agent_pubkey row) of Err e \<Rightarrow> Err e | Ok agent \<Rightarrow>
      case parse_pubkey X (se_provider_pubkey row) of Err e \<Rightarrow> Err e | Ok provider \<Rightarrow>
      case parse_pubkey X (se_mint_pubkey row) of Err e \<Rightarrow> Err e | Ok mint \<Rightarrow>
      case to_u64 (se_deposited_total row) ''deposited_total'' of Err e \<Rightarrow> Err e | Ok deposited \<Rightarrow>
      case to_u64 (case ticket of None \<Rightarrow> 0 | Some c \<Rightarrow> ct_cumulative_amount c) ''cumulative_accepted'' of
        Err e \<Rightarrow> Err e
      | Ok accepted \<Rightarrow>
      Ok \<lparr>ss_session = session, ss_agent = agent, ss_provider = provider, ss_mint = mint,
          ss_deposited_total = deposited, ss_cumulative_accepted = accepted,
          ss_last_nonce = map_option (\<lambda>c. if sint (ct_nonce c) < 0 then 0 else ct_nonce c) ticket,
          ss_expires_at = se_expires_at row, ss_is_settled = (se_settled_at row \<noteq> None),
          ss_chain_verified = se_chain_verified row, ss_evidence_count = of_nat entries,
          ss_created_at = se_created_at row\<rparr>)"

definition newest_sessions :: "nat \<Rightarrow> string option \<Rightarrow> pg \<Rightarrow> control \<Rightarrow> session_row list" where
  "newest_sessions limit workspace db cdb = take limit (sort_key (\<lambda>r. - sint (se_created_at r))
     (filter (\<lambda>r. owned_by_workspace workspace cdb (se_agent_pubkey r)) (pg_sessions db)))"

definition list_sessions ::
    "externals \<Rightarrow> nat \<Rightarrow> string option \<Rightarrow> pg \<Rightarrow> control \<Rightarrow> (session_summary list, db_error) result" where
  "list_sessions X limit workspace db cdb =
     (if \<not> answers workspace db cdb then Err Sqlx
      else traverse (summary_of X db) (newest_sessions limit workspace db cdb))"

definition feed_decision :: "externals \<Rightarrow> evidence_row \<Rightarrow> (recent_decision, db_error) result" where
  "feed_decision X r =
     (case parse_pubkey X (el_session_pubkey r) of Err e \<Rightarrow> Err e | Ok session \<Rightarrow>
      case to_u64 (el_cumulative_amount r) ''cumulative_amount'' of Err e \<Rightarrow> Err e | Ok amount \<Rightarrow>
      case to_u64 (el_nonce r) ''nonce'' of Err e \<Rightarrow> Err e | Ok nonce \<Rightarrow>
      case hash_of_bytes (el_entry_hash r) of Err e \<Rightarrow> Err e | Ok h \<Rightarrow>
      Ok \<lparr>rd_session = session, rd_sequence_id = el_sequence_id r, rd_decision = el_decision r,
          rd_cumulative_amount = amount, rd_nonce = nonce, rd_entry_hash = h, rd_created_at = el_created_at r\<rparr>)"

definition newest_decisions :: "nat \<Rightarrow> string option \<Rightarrow> pg \<Rightarrow> control \<Rightarrow> evidence_row list" where
  "newest_decisions limit workspace db cdb = take limit (sort_key (\<lambda>e. - sint (el_created_at e))
     (filter (\<lambda>e. workspace = None \<or> list_ex (\<lambda>s. se_session_pubkey s = el_session_pubkey e
        \<and> owned_by_workspace workspace cdb (se_agent_pubkey s)) (pg_sessions db)) (rev (pg_evidence db))))"

definition recent_decisions ::
    "externals \<Rightarrow> nat \<Rightarrow> string option \<Rightarrow> pg \<Rightarrow> control \<Rightarrow> (recent_decision list, db_error) result" where
  "recent_decisions X limit workspace db cdb =
     (if \<not> answers workspace db cdb then Err Sqlx
      else traverse (feed_decision X) (newest_decisions limit workspace db cdb))"

subsection \<open>Handlers\<close>

record session_summary_view =
  sy_session :: string
  sy_agent :: string
  sy_provider :: string
  sy_mint :: string
  sy_deposited_total :: string
  sy_cumulative_accepted :: string
  sy_remaining :: string
  sy_last_nonce :: "string option"
  sy_expires_at :: i64
  sy_is_settled :: bool
  sy_chain_verified :: bool
  sy_evidence_count :: i64
  sy_created_at :: i64

definition summary_view :: "externals \<Rightarrow> session_summary \<Rightarrow> session_summary_view" where
  "summary_view X s = \<lparr>sy_session = pk_show X (ss_session s), sy_agent = pk_show X (ss_agent s),
     sy_provider = pk_show X (ss_provider s), sy_mint = pk_show X (ss_mint s),
     sy_deposited_total = show_u64 (ss_deposited_total s),
     sy_cumulative_accepted = show_u64 (ss_cumulative_accepted s),
     sy_remaining = show_u64 (saturating_sub_u64 (ss_deposited_total s) (ss_cumulative_accepted s)),
     sy_last_nonce = map_option show_u64 (ss_last_nonce s), sy_expires_at = ss_expires_at s,
     sy_is_settled = ss_is_settled s, sy_chain_verified = ss_chain_verified s,
     sy_evidence_count = ss_evidence_count s, sy_created_at = ss_created_at s\<rparr>"

definition get_session :: "externals \<Rightarrow> string \<Rightarrow> string \<Rightarrow> app_state \<Rightarrow> (session_summary_view, denial) result" where
  "get_session X rid session st =
     (if pk_parse X session = None then Err (denial_new ERR_MALFORMED_REQUEST rid)
      else case as_db st of
        None \<Rightarrow> Err (denial_new ERR_EVIDENCE_UNAVAILABLE rid)
      | Some (db, cdb) \<Rightarrow>
      case list_sessions X 500 None db cdb of
        Err _ \<Rightarrow> Err (denial_new ERR_STORE_UNAVAILABLE rid)
      | Ok rows \<Rightarrow>
      case find (\<lambda>s. pk_show X (ss_session s) = session) rows of
        None \<Rightarrow> Err (denial_new ERR_SESSION_UNKNOWN rid)
      | Some s \<Rightarrow> Ok (summary_view X s))"

definition route_list_sessions ::
    "externals \<Rightarrow> string \<Rightarrow> operator \<Rightarrow> app_state \<Rightarrow> (session_summary_view list, denial) result" where
  "route_list_sessions X rid op st =
     (case as_db st of
        None \<Rightarrow> Err (denial_new ERR_EVIDENCE_UNAVAILABLE rid)
      | Some (db, cdb) \<Rightarrow>
      case list_sessions X 200 (op_workspace_id op) db cdb of
        Err _ \<Rightarrow> Err (denial_new ERR_STORE_UNAVAILABLE rid)
      | Ok rows \<Rightarrow> Ok (map (summary_view X) rows))"

record recent_decision_view =
  rv_session :: string
  rv_sequence_id :: i64
  rv_decision :: string
  rv_allowed :: bool
  rv_cumulative_amount :: string
  rv_nonce :: string
  rv_entry_hash :: string
  rv_created_at :: i64

definition decision_view :: "externals \<Rightarrow> recent_decision \<Rightarrow> recent_decision_view" where
  "decision_view X d = \<lparr>rv_session = pk_show X (rd_session d), rv_sequence_id = rd_sequence_id d,
     rv_decision = rd_decision d, rv_allowed = (rd_decision d = ''ALLOWED''),
     rv_cumulative_amount = show_u64 (rd_cumulative_amount d), rv_nonce = show_u64 (rd_nonce d),
     rv_entry_hash = hex32 (rd_entry_hash d), rv_created_at = rd_created_at d\<rparr>"

definition route_recent_decisions ::
    "externals \<Rightarrow> string \<Rightarrow> operator \<Rightarrow> app_state \<Rightarrow> (recent_decision_view list, denial) result" where
  "route_recent_decisions X rid op st =
     (case as_db st of
        None \<Rightarrow> Err (denial_new ERR_EVIDENCE_UNAVAILABLE rid)
      | Some (db, cdb) \<Rightarrow>
      case recent_decisions X 60 (op_workspace_id op) db cdb of
        Err _ \<Rightarrow> Err (denial_new ERR_EVIDENCE_UNAVAILABLE rid)
      | Ok rows \<Rightarrow> Ok (map (decision_view X) rows))"

subsection \<open>What is shown is what is stored\<close>

definition record_shown :: "externals \<Rightarrow> session_record \<Rightarrow> session_summary_view \<Rightarrow> bool" where
  "record_shown X r v \<longleftrightarrow> sy_session v = pk_show X (sr_key r) \<and> sy_agent v = pk_show X (sr_agent r)
     \<and> sy_provider v = pk_show X (sr_provider r) \<and> sy_mint v = pk_show X (sr_mint r)
     \<and> sy_deposited_total v = show_u64 (sr_deposited_total r)
     \<and> sy_cumulative_accepted v = show_u64 (sr_cumulative_accepted r)
     \<and> sy_remaining v = show_u64 (saturating_sub_u64 (sr_deposited_total r) (sr_cumulative_accepted r))
     \<and> sy_last_nonce v = map_option show_u64 (sr_last_nonce r) \<and> sy_expires_at v = sr_expires_at r
     \<and> sy_is_settled v = sr_is_settled r \<and> sy_chain_verified v = sr_chain_verified r"

lemma traverse_map: "(\<And>x. x \<in> set xs \<Longrightarrow> f x = Ok (g x)) \<Longrightarrow> traverse f xs = Ok (map g xs)"
  by (induction xs) auto

lemma find_map_key: "(\<And>x. x \<in> set xs \<Longrightarrow> P (g x) = Q x) \<Longrightarrow> find P (map g xs) = map_option g (find Q xs)"
  by (induction xs) auto

lemma find_unique: "distinct (map f xs) \<Longrightarrow> ys \<subseteq> set xs \<Longrightarrow> x \<in> ys \<Longrightarrow> y \<in> ys \<Longrightarrow> f x = f y \<Longrightarrow> x = y"
  by (meson distinct_map inj_onD subsetD)

lemma summary_shown:
  assumes inv: "pg_inv X db" and row: "row \<in> set (pg_sessions db)"
  obtains s k where "summary_of X db row = Ok s" "se_session_pubkey row = pk_show X k" "ss_session s = k"
    "record_shown X (decoded X k row (claim_row_of db (pk_show X k))) (summary_view X s)"
    "ss_evidence_count s = of_nat (length (rows_of X db k))" "pk_show X (ss_agent s) = se_agent_pubkey row"
proof -
  have tl: "pk_text_law X" by (rule pg_inv_text [OF inv])
  obtain k a p m where keys: "se_session_pubkey row = pk_show X k" "se_agent_pubkey row = pk_show X a"
    "se_provider_pubkey row = pk_show X p" "se_mint_pubkey row = pk_show X m" "0 < sint (se_deposited_total row)"
    using inv row unfolding pg_inv_def row_ok_def by blast
  have ct: "claim_row_of db (pk_show X k) = Some c \<Longrightarrow> 0 < sint (ct_cumulative_amount c) \<and> 0 \<le> sint (ct_nonce c)" for c
    using claim_row_ofD [OF inv] by (auto simp: claim_ok_def)
  show thesis
  proof (cases "claim_row_of db (pk_show X k)")
    case None
    then show thesis
      using that tl keys by (simp add: summary_of_def Let_def record_shown_def summary_view_def decoded_def mark_of_def rows_of_def)
  next
    case (Some c)
    then show thesis
      using that tl keys ct [OF Some]
      by (simp add: summary_of_def Let_def record_shown_def summary_view_def decoded_def mark_of_def rows_of_def)
  qed
qed

lemma newest_subset: "set (newest_sessions n ws db cdb) \<subseteq> set (pg_sessions db)"
  by (auto simp: newest_sessions_def dest: in_set_takeD)

lemma newest_all: "length (pg_sessions db) \<le> n \<Longrightarrow> set (newest_sessions n None db cdb) = set (pg_sessions db)"
  by (simp add: newest_sessions_def owned_by_workspace_def)

definition the_summary :: "externals \<Rightarrow> pg \<Rightarrow> session_row \<Rightarrow> session_summary" where
  "the_summary X db row = (case summary_of X db row of Ok s \<Rightarrow> s | Err _ \<Rightarrow> undefined)"

lemma list_sessions_Ok:
  assumes "pg_inv X db" and "answers ws db cdb"
  shows "list_sessions X n ws db cdb = Ok (map (the_summary X db) (newest_sessions n ws db cdb))"
proof -
  have "summary_of X db row = Ok (the_summary X db row)" if "row \<in> set (newest_sessions n ws db cdb)" for row
  proof -
    have "row \<in> set (pg_sessions db)" using that newest_subset by blast
    then show ?thesis by (rule summary_shown [OF assms(1)]) (simp add: the_summary_def)
  qed
  then show ?thesis using assms(2) by (simp add: list_sessions_def traverse_map)
qed

lemma find_newest:
  assumes "pg_inv X db" and "row \<in> set (newest_sessions n ws db cdb)" and "se_session_pubkey row = key"
  shows "find (\<lambda>r. se_session_pubkey r = key) (newest_sessions n ws db cdb) = Some row"
proof (cases "find (\<lambda>r. se_session_pubkey r = key) (newest_sessions n ws db cdb)")
  case (Some q)
  from find_SomeD [OF this] have "q \<in> set (newest_sessions n ws db cdb)" "se_session_pubkey q = key" by simp_all
  moreover have "distinct (map se_session_pubkey (pg_sessions db))" using assms(1) by (simp add: pg_inv_def)
  ultimately have "q = row"
    using find_unique [OF _ newest_subset, of se_session_pubkey db q n ws cdb row] assms(2,3) by simp
  then show ?thesis using Some by simp
qed (use assms(2,3) in \<open>auto simp: find_None_iff\<close>)

lemma get_session_row:
  assumes inv: "pg_inv X db" and db: "as_db st = Some (db, cdb)" and on: "pg_online db"
  shows "get_session X rid (pk_show X k) st =
    (case find (\<lambda>r. se_session_pubkey r = pk_show X k) (newest_sessions 500 None db cdb) of
       None \<Rightarrow> Err (denial_new ERR_SESSION_UNKNOWN rid)
     | Some row \<Rightarrow> Ok (summary_view X (the_summary X db row)))"
proof -
  have key: "(pk_show X (ss_session (the_summary X db row)) = pk_show X k) = (se_session_pubkey row = pk_show X k)"
    if "row \<in> set (newest_sessions 500 None db cdb)" for row
  proof -
    have "row \<in> set (pg_sessions db)" using that newest_subset by blast
    then show ?thesis by (rule summary_shown [OF inv]) (simp add: the_summary_def)
  qed
  have "answers None db cdb" using on by (simp add: answers_def)
  then show ?thesis
    using db pg_inv_text [OF inv] list_sessions_Ok [OF inv] find_map_key [of _ "\<lambda>s. pk_show X (ss_session s) = pk_show X k" "the_summary X db" "\<lambda>r. se_session_pubkey r = pk_show X k", OF key]
    by (simp add: get_session_def split: option.splits)
qed

lemma durable_facts:
  assumes "gw_inv X st" and "as_db st = Some (db, cdb)"
  shows "as_store st = Durable db cdb" and "pg_inv X db" and "gw_view X st = pg_view X db"
proof -
  show "as_store st = Durable db cdb" using assms(2) by (auto simp: as_db_def split: backend.splits)
  then show "pg_inv X db" "gw_view X st = pg_view X db" using assms(1) by (simp_all add: backend_inv_def backend_view_def)
qed

lemma session_row_mem:
  "session_row_of db key = Some row \<Longrightarrow> row \<in> set (pg_sessions db) \<and> se_session_pubkey row = key"
  unfolding session_row_of_def by (drule find_SomeD) simp

lemma unknown_session_row: "session_row_of db key = None \<Longrightarrow> find (\<lambda>r. se_session_pubkey r = key) (newest_sessions n ws db cdb) = None"
  using newest_subset unfolding session_row_of_def find_None_iff by blast

lemma old_session_row:
  assumes "pg_inv X db" and "session_row_of db key = Some row" and "row \<notin> set (newest_sessions n ws db cdb)"
  shows "find (\<lambda>r. se_session_pubkey r = key) (newest_sessions n ws db cdb) = None"
proof (cases "find (\<lambda>r. se_session_pubkey r = key) (newest_sessions n ws db cdb)")
  case (Some q)
  from find_SomeD [OF this] have q: "q \<in> set (newest_sessions n ws db cdb)" "se_session_pubkey q = key" by simp_all
  have "distinct (map se_session_pubkey (pg_sessions db))" using assms(1) by (simp add: pg_inv_def)
  then have "q = row"
    using find_unique [of se_session_pubkey "pg_sessions db" "set (pg_sessions db)" q row] q newest_subset [of n ws db cdb]
      session_row_mem [OF assms(2)] by auto
  then show ?thesis using q(1) assms(3) by simp
qed

lemma shown_session_row:
  assumes inv: "pg_inv X db" and row: "session_row_of db (pk_show X k) = Some row"
  shows "record_shown X (decoded X k row (claim_row_of db (pk_show X k))) (summary_view X (the_summary X db row))
    \<and> sy_evidence_count (summary_view X (the_summary X db row)) = of_nat (length (rows_of X db k))"
proof -
  note mem = session_row_mem [OF row]
  obtain s k' where s: "summary_of X db row = Ok s" "se_session_pubkey row = pk_show X k'"
    "record_shown X (decoded X k' row (claim_row_of db (pk_show X k'))) (summary_view X s)"
    "ss_evidence_count s = of_nat (length (rows_of X db k'))"
    by (rule summary_shown [OF inv conjunct1 [OF mem]]) blast
  have "Some k' = Some k" using s(2) mem pk_text_lawD [OF pg_inv_text [OF inv]] by metis
  then show ?thesis using s by (simp add: the_summary_def) (simp add: summary_view_def)
qed

text \<open>
  Reading one session tells the truth, as long as it is recent. While the database
  answers, an address nobody opened is unknown; with at most 500 sessions in the table a
  tracked session is shown exactly as the paid path keeps it, with its mark, its nonce, what
  remains, and the number of its recorded decisions. A session that is not among the 500
  newest is answered as unknown although the gateway still admits claims for it.
\<close>

theorem get_session_exact:
  assumes "gw_inv X st" and "as_db st = Some (db, cdb)" and "pg_online db"
  shows "(gw_view X st k = None \<longrightarrow> get_session X rid (pk_show X k) st = Err (denial_new ERR_SESSION_UNKNOWN rid))
    \<and> (\<forall>r. gw_view X st k = Some r \<longrightarrow> length (pg_sessions db) \<le> 500 \<longrightarrow>
        (\<exists>v. get_session X rid (pk_show X k) st = Ok v \<and> record_shown X r v
           \<and> sy_evidence_count v = of_nat (length (rows_of X db k))))
    \<and> (\<forall>row. session_row_of db (pk_show X k) = Some row \<longrightarrow> row \<notin> set (newest_sessions 500 None db cdb) \<longrightarrow>
        get_session X rid (pk_show X k) st = Err (denial_new ERR_SESSION_UNKNOWN rid)
        \<and> (\<exists>r. store_get X k (as_store st) = Ok r))"
proof (intro conjI allI impI)
  note store = durable_facts [OF assms(1,2)]
  note got = get_session_row [OF store(2) assms(2,3), of rid k] and view = pg_view_decoded [OF store(2)]
  { assume "gw_view X st k = None"
    then have "session_row_of db (pk_show X k) = None" using view store(3) by simp
    then show "get_session X rid (pk_show X k) st = Err (denial_new ERR_SESSION_UNKNOWN rid)"
      using got unknown_session_row by simp }
  { fix r assume "gw_view X st k = Some r" and few: "length (pg_sessions db) \<le> 500"
    then obtain row where row: "session_row_of db (pk_show X k) = Some row" "r = decoded X k row (claim_row_of db (pk_show X k))"
      using view store(3) by auto
    have "find (\<lambda>r. se_session_pubkey r = pk_show X k) (newest_sessions 500 None db cdb) = Some row"
      using find_newest [OF store(2), of row 500 None cdb] session_row_mem [OF row(1)] newest_all [OF few] by simp
    then show "\<exists>v. get_session X rid (pk_show X k) st = Ok v \<and> record_shown X r v
        \<and> sy_evidence_count v = of_nat (length (rows_of X db k))"
      using got shown_session_row [OF store(2) row(1)] row(2) by simp }
  { fix row assume row: "session_row_of db (pk_show X k) = Some row" and old: "row \<notin> set (newest_sessions 500 None db cdb)"
    show "get_session X rid (pk_show X k) st = Err (denial_new ERR_SESSION_UNKNOWN rid)"
      using got old_session_row [OF store(2) row old] by simp
    show "\<exists>r. store_get X k (as_store st) = Ok r"
      using row assms(3) store(1) row_to_record_decoded [OF pg_inv_text [OF store(2)], of row k "claim_row_of db (pk_show X k)"]
        session_row_ofD [OF store(2) row] claim_row_ofD [OF store(2)]
      by (simp add: store_get_def pg_get_def load_session_def) }
qed

lemma decision_session: "feed_decision X r = Ok d \<Longrightarrow> pk_parse X (el_session_pubkey r) = Some (rd_session d)"
  by (auto simp: feed_decision_def parse_pubkey_def split: sum.splits option.splits)

text \<open>
  A scoped listing shows one tenant only. Every session and every decision shown to an
  operator of a workspace is of an agent that workspace registered, at most 200 sessions and
  60 decisions; what belongs to no workspace, or to another, never surfaces.
\<close>

theorem listings_confined:
  assumes "gw_inv X st" and "as_db st = Some (db, cdb)" and "op_workspace_id op = Some w"
  shows "(\<forall>vs. route_list_sessions X rid op st = Ok vs \<longrightarrow> length vs \<le> 200
        \<and> (\<forall>v \<in> set vs. \<exists>a \<in> set (cd_agents cdb). aw_workspace_id a = Some w \<and> aw_agent_pubkey a = sy_agent v))
    \<and> (\<forall>ds. route_recent_decisions X rid op st = Ok ds \<longrightarrow> length ds \<le> 60
        \<and> (\<forall>d \<in> set ds. \<exists>k s. rv_session d = pk_show X k \<and> s \<in> set (pg_sessions db) \<and> pk_parse X (se_session_pubkey s) = Some k
             \<and> (\<exists>a \<in> set (cd_agents cdb). aw_workspace_id a = Some w \<and> aw_agent_pubkey a = se_agent_pubkey s)))"
proof (intro conjI allI impI)
  note store = durable_facts [OF assms(1,2)]
  { fix vs assume l: "route_list_sessions X rid op st = Ok vs"
    let ?rows = "newest_sessions 200 (Some w) db cdb"
    have on: "answers (Some w) db cdb"
      using l assms(2,3) by (auto simp: route_list_sessions_def list_sessions_def split: if_splits)
    then have vs: "vs = map (summary_view X \<circ> the_summary X db) ?rows"
      using l assms(2,3) list_sessions_Ok [OF store(2) on] by (simp add: route_list_sessions_def)
    show "length vs \<le> 200" using vs by (simp add: newest_sessions_def)
    show "\<forall>v \<in> set vs. \<exists>a \<in> set (cd_agents cdb). aw_workspace_id a = Some w \<and> aw_agent_pubkey a = sy_agent v"
    proof
      fix v assume "v \<in> set vs"
      then obtain row where row: "row \<in> set ?rows" "v = summary_view X (the_summary X db row)" using vs by auto
      then have "row \<in> set (pg_sessions db)" using newest_subset by blast
      then have "sy_agent v = se_agent_pubkey row"
        by (rule summary_shown [OF store(2)]) (simp add: row(2) the_summary_def summary_view_def)
      moreover have "owned_by_workspace (Some w) cdb (se_agent_pubkey row)"
        using row(1) by (auto simp: newest_sessions_def dest: in_set_takeD)
      ultimately show "\<exists>a \<in> set (cd_agents cdb). aw_workspace_id a = Some w \<and> aw_agent_pubkey a = sy_agent v"
        by (auto simp: owned_by_workspace_def list_ex_iff)
    qed }
  { fix ds assume l: "route_recent_decisions X rid op st = Ok ds"
    let ?rows = "newest_decisions 60 (Some w) db cdb"
    obtain rs where rs: "traverse (feed_decision X) ?rows = Ok rs" "ds = map (decision_view X) rs"
      using l assms(2,3) by (auto simp: route_recent_decisions_def recent_decisions_def split: if_splits sum.splits)
    show "length ds \<le> 60" using rs traverse_OkD(1) [OF rs(1)] by (simp add: newest_decisions_def)
    show "\<forall>d \<in> set ds. \<exists>k s. rv_session d = pk_show X k \<and> s \<in> set (pg_sessions db) \<and> pk_parse X (se_session_pubkey s) = Some k
        \<and> (\<exists>a \<in> set (cd_agents cdb). aw_workspace_id a = Some w \<and> aw_agent_pubkey a = se_agent_pubkey s)"
    proof
      fix d assume "d \<in> set ds"
      then obtain i where i: "i < length rs" "d = decision_view X (rs ! i)" using rs(2) by (auto simp: in_set_conv_nth)
      have e: "feed_decision X (?rows ! i) = Ok (rs ! i)" "i < length ?rows" using traverse_OkD [OF rs(1)] i(1) by simp_all
      have "?rows ! i \<in> set ?rows" using e(2) by simp
      then obtain s where s: "s \<in> set (pg_sessions db)" "se_session_pubkey s = el_session_pubkey (?rows ! i)"
        "owned_by_workspace (Some w) cdb (se_agent_pubkey s)"
        unfolding newest_decisions_def by (auto simp: list_ex_iff dest!: in_set_takeD)
      have "pk_parse X (se_session_pubkey s) = Some (rd_session (rs ! i))"
        using decision_session [OF e(1)] s(2) by simp
      moreover have "rv_session d = pk_show X (rd_session (rs ! i))" using i(2) by (simp add: decision_view_def)
      moreover have "\<exists>a \<in> set (cd_agents cdb). aw_workspace_id a = Some w \<and> aw_agent_pubkey a = se_agent_pubkey s"
        using s(3) by (auto simp: owned_by_workspace_def list_ex_iff)
      ultimately show "\<exists>k s. rv_session d = pk_show X k \<and> s \<in> set (pg_sessions db) \<and> pk_parse X (se_session_pubkey s) = Some k
          \<and> (\<exists>a \<in> set (cd_agents cdb). aw_workspace_id a = Some w \<and> aw_agent_pubkey a = se_agent_pubkey s)"
        using s(1) by blast
    qed }
qed

lemma demo_db_sessions: "pg_sessions demo_db = [new_row demo_externals demo_record (pg_empty 1000)]"
  using pg_open_cases [of demo_externals demo_record "pg_empty 1000" "Ok ()" demo_db] demo_pg_opened
  by (auto simp: demo_db_def prod_eq_iff pg_empty_def)

lemma demo_durable:
  "gw_inv demo_externals (demo_app (Durable demo_db demo_control))"
  "as_db (demo_app (Durable demo_db demo_control)) = Some (demo_db, demo_control)"
  "gw_view demo_externals (demo_app (Durable demo_db demo_control)) 7 = Some demo_record"
  using demo_db_facts by (simp_all add: demo_app_def as_db_def backend_inv_def backend_view_def)

theorem get_session_exact_witness:
  "\<exists>v. get_session demo_externals ''r'' (pk_show demo_externals 7) (demo_app (Durable demo_db demo_control)) = Ok v
     \<and> record_shown demo_externals demo_record v \<and> sy_evidence_count v = 0"
  using get_session_exact [OF demo_durable(1,2) demo_db_facts(2), of 7 "''r''"] demo_durable(3) demo_db_facts(4)
  by (simp add: demo_db_sessions)

definition demo_tenant :: operator where
  "demo_tenant = \<lparr>op_operator_id = ''op3'', op_label = ''Cleo'', op_workspace_id = Some ''b'', op_role = ''operator''\<rparr>"

theorem listings_confined_witness:
  "\<exists>vs. route_list_sessions demo_externals ''r'' demo_tenant (demo_app (Durable demo_db demo_control)) = Ok vs
     \<and> length vs = 1 \<and> sy_agent (hd vs) = pk_show demo_externals 1"
proof -
  have "newest_sessions 200 (Some ''b'') demo_db demo_control = pg_sessions demo_db"
    by (simp add: newest_sessions_def demo_db_sessions owned_by_workspace_def demo_control_def new_row_def
        demo_record_def session_record_new_def)
  moreover have "answers (Some ''b'') demo_db demo_control"
    using demo_db_facts(2) by (simp add: answers_def demo_control_def)
  ultimately obtain v where l: "route_list_sessions demo_externals ''r'' demo_tenant (demo_app (Durable demo_db demo_control)) = Ok [v]"
    using list_sessions_Ok [OF demo_db_facts(1)] demo_durable(2)
    by (simp add: route_list_sessions_def demo_tenant_def demo_db_sessions)
  have "op_workspace_id demo_tenant = Some ''b''" by (simp add: demo_tenant_def)
  from listings_confined [OF demo_durable(1,2) this, of "''r''"] l have "sy_agent v = pk_show demo_externals 1"
    by (auto simp: demo_control_def)
  then show ?thesis using l by simp
qed

end
