(* ===== verification/Router.thy ===== *)
theory Router
  imports Control Listings Server
begin

section \<open>The router\<close>

text \<open>
  \<open>build_router\<close> and \<open>control_plane\<close> of \<open>gateway/src/main.rs\<close>: every
  route with the handler behind it and the layers in front of it. The routes come in the
  three groups of the source: those that wait on the chain, the other open ones, and the
  control plane. A request is matched to its route by the framework; here it is already the
  route with the parts of it the handler reads. The deadlines are in theory \<open>Deadlines\<close>.
\<close>

record index_response =
  ix_service :: string
  ix_description :: string
  ix_note :: string
  ix_console :: string
  ix_program_id :: string
  ix_endpoints :: "string list"

definition index :: "externals \<Rightarrow> app_state \<Rightarrow> index_response" where
  "index X st = \<lparr>ix_service = ''agentpay-gateway'',
     ix_description = ''Enforcement and audit layer for agent payments on Solana.'',
     ix_note = ''This is a JSON API, not a web page. The operator console is a separate service.'',
     ix_console = ''http://localhost:3100'', ix_program_id = pk_show X (as_program_id st),
     ix_endpoints = [''GET  /health'', ''GET  /v1/session/{pubkey}'',
       ''GET  /v1/sessions          (operator token)'', ''GET  /v1/decisions/recent'',
       ''GET  /v1/session/{pubkey}/evidence'', ''POST /v1/session/open'', ''POST /v1/claim/verify'',
       ''POST /v1/session/settle'', ''POST /v1/session/reconcile'', ''GET  /v1/session/{pubkey}/settlement'',
       ''POST /v1/evidence/proof'', ''GET  /v1/agents            (control plane)'', ''POST /v1/agents'',
       ''POST /v1/agents/{id}/authorize'', ''POST /v1/agents/{id}/status'', ''GET  /v1/providers'',
       ''POST /v1/providers'', ''GET  /v1/catalogue         (registry, all providers)'',
       ''POST /v1/agent/plan        (selection + decision)'', ''GET  /v1/approvals'',
       ''POST /v1/approvals/{id}/decide'', ''GET  /v1/buy/{resource}   (402 without a claim)'']\<rparr>"

subsection \<open>Requests and replies\<close>

record call =
  cc_request :: http_request
  cc_admin :: admin_request
  cc_instant :: nat   \<comment> \<open>the monotonic clock of limiters and caches\<close>
  cc_now :: i64       \<comment> \<open>\<open>state.now()\<close>\<close>
  cc_rid :: string    \<comment> \<open>\<open>request_id()\<close>\<close>
  cc_uuid :: string   \<comment> \<open>a fresh id, where the handler draws one\<close>
  cc_token :: string  \<comment> \<open>a fresh token, where the handler draws one\<close>

datatype chain_route =
    PostSessionOpen open_session_request
  | PostSessionSettle string "string option"
  | PostSessionReconcile string
  | GetSessionSettlement string

datatype fast_route =
    GetIndex
  | GetHealth
  | PostClaimVerify claim_wire
  | GetBuy string string "string option"
  | GetSession string
  | GetSessionEvidence string
  | PostEvidenceProof string i64
  | GetCatalogue
  | PostSessionPlan session_plan_request

datatype control_route =
    GetSessions
  | GetDecisionsRecent
  | GetAgents
  | PostAgents create_agent_request
  | GetAgent string
  | PostAgentAuthorize string authorize_request
  | PostAgentStatus string agent_status
  | GetProviders
  | PostProviders register_provider_request
  | DeleteProvider string
  | PostAgentPlan string string u32
  | GetOperators
  | PostOperators string
  | PostOperatorStatus string bool
  | PostOperatorRotate
  | GetApprovals
  | PostApprovalDecide string bool "string option"

datatype route = Chain chain_route | Fast fast_route | ControlPlane control_route

datatype reply =
    RIndex index_response
  | RHealth health_response
  | ROpen open_session_response
  | RSettle settle_session_response
  | RReconcile reconcile_session_response
  | ROnChain on_chain_settlement_response
  | RVerify verify_claim_response
  | RBuy buy_reply
  | RSession session_summary_view
  | REvidence session_evidence_response
  | RProof evidence_proof_response
  | RCatalogue aggregate_catalogue
  | RSessionPlan session_plan_response
  | RSessions "session_summary_view list"
  | RDecisions "recent_decision_view list"
  | RAgents "agent_view list"
  | RAgent agent_view
  | RProviders "provider_record list"
  | RPlan plan_response
  | ROperators "operator_view list"
  | ROperator created_operator_view
  | RApprovals "approval_view list"

definition changing :: "('a \<Rightarrow> reply) \<Rightarrow> ('a, denial) result \<times> app_state \<Rightarrow> (reply, denial) result \<times> app_state" where
  "changing f r = (case r of (res, st) \<Rightarrow> (case res of Ok a \<Rightarrow> Ok (f a) | Err d \<Rightarrow> Err d, st))"

definition reading :: "('a \<Rightarrow> reply) \<Rightarrow> ('a, denial) result \<Rightarrow> app_state \<Rightarrow> (reply, denial) result \<times> app_state" where
  "reading f res st = changing f (res, st)"

definition calling :: "('a \<Rightarrow> reply) \<Rightarrow> ('a, denial) result \<times> app_state \<times> string list \<Rightarrow> (reply, denial) result \<times> app_state" where
  \<comment> \<open>a handler that also asks providers; the URLs are left out of the reply\<close>
  "calling f r = (case r of (res, st, urls) \<Rightarrow> changing f (res, st))"

subsection \<open>The groups of routes\<close>

fun chain_handler ::
    "externals \<Rightarrow> runtime \<Rightarrow> solana_ids \<Rightarrow> call \<Rightarrow> chain_route \<Rightarrow> app_state \<Rightarrow> (reply, denial) result \<times> app_state" where
  "chain_handler X R I cx (PostSessionOpen req) st = changing ROpen (route_open_session X (cc_rid cx) req st)"
| "chain_handler X R I cx (PostSessionSettle s mr) st = changing RSettle (route_settle_session X R I (cc_rid cx) s mr st)"
| "chain_handler X R I cx (PostSessionReconcile s) st = changing RReconcile (reconcile_session X (cc_rid cx) s st)"
| "chain_handler X R I cx (GetSessionSettlement s) st = reading ROnChain (on_chain_settlement X (cc_rid cx) s st) st"

fun fast_handler ::
    "externals \<Rightarrow> serde \<Rightarrow> web \<Rightarrow> call \<Rightarrow> fast_route \<Rightarrow> app_state \<Rightarrow> (reply, denial) result \<times> app_state" where
  "fast_handler X J W cx GetIndex st = (Ok (RIndex (index X st)), st)"
| "fast_handler X J W cx GetHealth st = (Ok (RHealth (health X st)), st)"
| "fast_handler X J W cx (PostClaimVerify w) st = changing RVerify (verify_claim X (cc_now cx) (cc_rid cx) w st)"
| "fast_handler X J W cx (GetBuy resource query header) st =
     calling RBuy (buy X J W (cc_now cx) (cc_instant cx) (cc_rid cx) (cc_uuid cx) resource query header st)"
| "fast_handler X J W cx (GetSession s) st = reading RSession (get_session X (cc_rid cx) s st) st"
| "fast_handler X J W cx (GetSessionEvidence s) st = reading REvidence (session_evidence X (cc_rid cx) s st) st"
| "fast_handler X J W cx (PostEvidenceProof s i) st = reading RProof (evidence_proof X (cc_rid cx) s i st) st"
| "fast_handler X J W cx GetCatalogue st = (case route_catalogue W (cc_instant cx) st of (ag, st', urls) \<Rightarrow> (Ok (RCatalogue ag), st'))"
| "fast_handler X J W cx (PostSessionPlan req) st =
     calling RSessionPlan (plan_for_session X W (cc_now cx) (cc_instant cx) (cc_rid cx) req st)"

fun control_handler ::
    "externals \<Rightarrow> web \<Rightarrow> call \<Rightarrow> control_route \<Rightarrow> operator \<Rightarrow> app_state \<Rightarrow> (reply, denial) result \<times> app_state" where
  "control_handler X W cx GetSessions op st = reading RSessions (route_list_sessions X (cc_rid cx) op st) st"
| "control_handler X W cx GetDecisionsRecent op st = reading RDecisions (route_recent_decisions X (cc_rid cx) op st) st"
| "control_handler X W cx GetAgents op st = reading RAgents (route_list_agents (cc_rid cx) op st) st"
| "control_handler X W cx (PostAgents req) op st = changing RAgent (route_create_agent X (cc_rid cx) (cc_uuid cx) op req st)"
| "control_handler X W cx (GetAgent i) op st = reading RAgent (route_get_agent (cc_rid cx) op i st) st"
| "control_handler X W cx (PostAgentAuthorize i req) op st = changing RAgent (authorize_agent (cc_rid cx) op i req st)"
| "control_handler X W cx (PostAgentStatus i s) op st = changing RAgent (route_set_agent_status (cc_rid cx) op i s st)"
| "control_handler X W cx GetProviders op st = (Ok (RProviders (route_list_providers op st)), st)"
| "control_handler X W cx (PostProviders req) op st = changing RProviders (register_provider X (cc_rid cx) op req st)"
| "control_handler X W cx (DeleteProvider i) op st = changing RProviders (route_delete_provider (cc_rid cx) op i st)"
| "control_handler X W cx (PostAgentPlan i resource calls) op st =
     calling RPlan (plan W (cc_instant cx) (cc_rid cx) op i resource calls st)"
| "control_handler X W cx GetOperators op st = reading ROperators (route_list_operators (cc_rid cx) st) st"
| "control_handler X W cx (PostOperators label) op st =
     changing ROperator (route_create_operator X (cc_rid cx) (cc_uuid cx) (cc_token cx) label st)"
| "control_handler X W cx (PostOperatorStatus i e) op st = changing ROperators (set_operator_status (cc_rid cx) i e st)"
| "control_handler X W cx PostOperatorRotate op st = changing ROperator (rotate_own_token X (cc_rid cx) op (cc_token cx) st)"
| "control_handler X W cx GetApprovals op st = reading RApprovals (route_list_approvals (cc_rid cx) op st) st"
| "control_handler X W cx (PostApprovalDecide i a r) op st = changing RApprovals (route_decide_approval (cc_rid cx) op i a r st)"

primrec is_open_route :: "chain_route \<Rightarrow> bool" where
  "is_open_route (PostSessionOpen req) = True"
| "is_open_route (PostSessionSettle s mr) = False"
| "is_open_route (PostSessionReconcile s) = False"
| "is_open_route (GetSessionSettlement s) = False"

definition control_plane :: "externals \<Rightarrow> web \<Rightarrow> call \<Rightarrow> control_route \<Rightarrow> reply handler" where
  "control_plane X W cx r = serve_control X (cc_admin cx) (cc_rid cx) (control_handler X W cx r)"

primrec build_router ::
    "externals \<Rightarrow> runtime \<Rightarrow> solana_ids \<Rightarrow> serde \<Rightarrow> web \<Rightarrow> call \<Rightarrow> route \<Rightarrow> reply handler" where
  "build_router X R I J W cx (Chain r) = limit_general (cc_request cx) (cc_instant cx) (cc_rid cx)
     (if is_open_route r
      then limit_open (cc_request cx) (cc_instant cx) (cc_rid cx) (with_app (chain_handler X R I cx r))
      else with_app (chain_handler X R I cx r))"
| "build_router X R I J W cx (Fast r) = limit_general (cc_request cx) (cc_instant cx) (cc_rid cx)
     (with_app (fast_handler X J W cx r))"
| "build_router X R I J W cx (ControlPlane r) = control_plane X W cx r"

definition serve_all ::
    "externals \<Rightarrow> runtime \<Rightarrow> solana_ids \<Rightarrow> serde \<Rightarrow> web \<Rightarrow> (call \<times> route) list \<Rightarrow> server \<Rightarrow> server" where
  "serve_all X R I J W = fold (\<lambda>(cx, r) sv. snd (build_router X R I J W cx r sv))"

definition demo_call :: call where
  "demo_call = \<lparr>cc_request = \<lparr>rq_peer = Some (V4 9), rq_forwarded_for = None\<rparr>,
     cc_admin = \<lparr>rq_authorization = None, rq_admin_header = None\<rparr>, cc_instant = 5, cc_now = 1500,
     cc_rid = ''r'', cc_uuid = ''u'', cc_token = ''t''\<rparr>"

subsection \<open>What a layer lets through\<close>

lemma snd_changing [simp]: "snd (changing f r) = snd r" "snd (reading f res st) = st" "snd (calling f r') = fst (snd r')"
  by (simp_all add: changing_def reading_def calling_def split: prod.splits)

lemma limited_app:
  assumes "P (sv_app sv)"
    and "\<And>sv'. sv_app sv' = sv_app sv \<Longrightarrow> P (sv_app (snd (next sv')))"
  shows "P (sv_app (snd (limit_general req now rid next sv)))" and "P (sv_app (snd (limit_open req now rid next sv)))"
  using assms by (auto simp: limit_general_def limit_open_def guard_def split: prod.splits limit_decision.splits)

lemma snd_with_app [simp]: "snd (with_app h sv) = sv\<lparr>sv_app := snd (h (sv_app sv))\<rparr>"
  by (simp add: with_app_def split: prod.splits)

lemma router_app:
  assumes app: "P (sv_app sv)"
    and chain: "\<And>c. r = Chain c \<Longrightarrow> P (snd (chain_handler X R I cx c (sv_app sv)))"
    and fast: "\<And>f. r = Fast f \<Longrightarrow> P (snd (fast_handler X J W cx f (sv_app sv)))"
    and ctl: "\<And>k. r = ControlPlane k \<Longrightarrow> P (sv_app (snd (control_plane X W cx k sv)))"
  shows "P (sv_app (snd (build_router X R I J W cx r sv)))"
proof (cases r)
  case (Chain c)
  have h: "P (sv_app (snd (with_app (chain_handler X R I cx c) sv')))" if "sv_app sv' = sv_app sv" for sv'
    using chain [OF Chain] that by simp
  have "P (sv_app (snd (limit_open req now rid (with_app (chain_handler X R I cx c)) sv')))"
    if "sv_app sv' = sv_app sv" for req now rid sv'
    using limited_app(2) [of P sv' "with_app (chain_handler X R I cx c)" req now rid] app h that by simp
  then have "P (sv_app (snd (limit_general req now rid (limit_open req' now' rid' (with_app (chain_handler X R I cx c))) sv)))"
    "P (sv_app (snd (limit_general req now rid (with_app (chain_handler X R I cx c)) sv)))" for req now rid req' now' rid'
    using h by (intro limited_app(1) [of P sv, OF app]; blast)+
  then show ?thesis by (simp add: Chain)
next
  case (Fast f)
  have "P (sv_app (snd (with_app (fast_handler X J W cx f) sv')))" if "sv_app sv' = sv_app sv" for sv'
    using fast [OF Fast] that by simp
  then have "P (sv_app (snd (limit_general req now rid (with_app (fast_handler X J W cx f)) sv)))" for req now rid
    by (intro limited_app(1) [of P sv, OF app]; blast)
  then show ?thesis by (simp add: Fast)
qed (simp add: ctl)

text \<open>
  What is true of the shared state and kept by every handler is kept by the whole server,
  whatever the layers in front do.
\<close>

locale router_invariant =
  fixes X :: externals and P :: "app_state \<Rightarrow> bool"
  assumes chain_keeps: "P st \<Longrightarrow> P (snd (chain_handler X R I cx c st))"
    and fast_keeps: "P st \<Longrightarrow> P (snd (fast_handler X J W cx f st))"
    and control_keeps: "P st \<Longrightarrow> P (snd (control_handler X W cx k op st))"
    and guard_keeps: "P st \<Longrightarrow> require_admin X (as_admin_token st) rid areq (map_option snd (as_db st)) = (res, Some cdb) \<Longrightarrow>
      P (set_control cdb st)"
begin

lemma control_plane_keeps: "P (sv_app sv) \<Longrightarrow> P (sv_app (snd (control_plane X W cx k sv)))"
proof -
  assume p: "P (sv_app sv)"
  obtain res c where g: "require_admin X (as_admin_token (sv_app sv)) (cc_rid cx) (cc_admin cx)
      (map_option snd (as_db (sv_app sv))) = (res, c)" by fastforce
  have "P (case c of None \<Rightarrow> sv_app sv | Some c \<Rightarrow> set_control c (sv_app sv))"
    using p guard_keeps g by (auto split: option.splits)
  then show ?thesis using g p control_keeps
    by (cases res) (simp_all add: control_plane_def serve_control_def)
qed

lemma step_keeps: "P (sv_app sv) \<Longrightarrow> P (sv_app (snd (build_router X R I J W cx r sv)))"
  by (rule router_app [where P = P])
    (assumption | rule chain_keeps | rule fast_keeps | rule control_plane_keeps)+

lemma serve_all_keeps: "P (sv_app sv) \<Longrightarrow> P (sv_app (serve_all X R I J W evs sv))"
proof (induction evs arbitrary: sv)
  case (Cons e evs)
  from step_keeps [OF Cons.prems] show ?case using Cons.IH by (simp add: serve_all_def case_prod_unfold)
qed (simp add: serve_all_def)

end

end
