(* ===== verification/Control_Tables.thy ===== *)
theory Control_Tables
  imports Control_Safety Router
begin

section \<open>The tables stay well-formed\<close>

text \<open>
  The rows the control plane writes are rows it can read: keys are unique, references
  resolve, the texts of modes, statuses and states are among those the readers know, and
  every amount is one the conversions accept. Every handler, the guard and the policy check
  of a purchase keep this, so that no reader of the control plane ever meets a corrupt row.
\<close>

definition agent_row_ok :: "agent_row \<Rightarrow> bool" where
  "agent_row_ok a \<longleftrightarrow> aw_mode a \<in> {''human'', ''autonomous''} \<and> aw_status a \<in> {''active'', ''suspended''}"

definition policy_row_ok :: "string set \<Rightarrow> policy_row \<Rightarrow> bool" where
  "policy_row_ok agents p \<longleftrightarrow> policies_check p \<and> pl_agent_id p \<in> agents"

definition approval_row_ok :: "string set \<Rightarrow> approval_row \<Rightarrow> bool" where
  "approval_row_ok agents v \<longleftrightarrow> vw_agent_id v \<in> agents \<and> 0 \<le> sint (vw_price v) \<and> 0 < sint (vw_calls v)
     \<and> vw_state v \<in> {''pending'', ''approved'', ''rejected'', ''consumed''}"

definition control_wf :: "control \<Rightarrow> bool" where
  "control_wf db \<longleftrightarrow> control_inv db \<and> operators_inv db
     \<and> distinct (map (pv_provider_id \<circ> pw_record) (cd_providers db))
     \<and> distinct (map pl_agent_id (cd_policies db))
     \<and> list_all agent_row_ok (cd_agents db)
     \<and> list_all (policy_row_ok (aw_agent_id ` set (cd_agents db))) (cd_policies db)
     \<and> list_all (approval_row_ok (aw_agent_id ` set (cd_agents db))) (cd_approvals db)"

lemmas control_wf_defs = control_wf_def control_inv_def operators_inv_def

lemma texts_known [simp]:
  "mode_as_str m \<in> {''human'', ''autonomous''}" "status_as_str s \<in> {''active'', ''suspended''}"
  by (cases m; simp) (cases s; simp)

subsection \<open>Every statement keeps them\<close>

lemma upsert_provider_wf: "control_wf db \<Longrightarrow> control_wf (snd (upsert_provider p ws db))"
proof -
  assume wf: "control_wf db"
  let ?rows = "map (\<lambda>r. if pv_provider_id (pw_record r) = pv_provider_id p \<and> pw_workspace_id r = ws
      then r\<lparr>pw_record := p\<rparr> else r) (cd_providers db)"
  have "map (pv_provider_id \<circ> pw_record) ?rows = map (pv_provider_id \<circ> pw_record) (cd_providers db)" by simp
  then show ?thesis using wf by (auto simp: upsert_provider_def control_wf_defs list_ex_iff simp del: map_map)
qed

lemma delete_provider_wf: "control_wf db \<Longrightarrow> control_wf (snd (delete_provider i ws db))"
  by (auto simp: delete_provider_def control_wf_defs Let_def distinct_map_filter)

lemma list_all_mono_set: "list_all P xs \<Longrightarrow> (\<And>x. x \<in> set xs \<Longrightarrow> P x \<Longrightarrow> Q x) \<Longrightarrow> list_all Q xs"
  by (simp add: list_all_iff)

lemma create_agent_wf: "control_wf db \<Longrightarrow> control_wf (snd (create_agent i l k ow m ws db))"
proof -
  assume wf: "control_wf db"
  let ?a = "\<lparr>aw_agent_id = i, aw_label = l, aw_agent_pubkey = k, aw_owner_pubkey = ow, aw_mode = mode_as_str m,
      aw_status = ''active'', aw_created_at = cd_clock db, aw_workspace_id = ws\<rparr>"
  have "agent_row_ok ?a" using texts_known(1) [of m] by (auto simp: agent_row_ok_def)
  moreover have "policy_row_ok A p \<Longrightarrow> policy_row_ok (insert i A) p" "approval_row_ok A v \<Longrightarrow> approval_row_ok (insert i A) v" for A p v
    by (auto simp: policy_row_ok_def approval_row_ok_def)
  ultimately show ?thesis using wf
    by (auto simp: create_agent_def control_wf_defs list_ex_iff list_all_iff)
qed

lemma update_agent_wf:
  assumes "control_wf db"
    and "\<And>r. aw_workspace_id (f r) = aw_workspace_id r \<and> aw_agent_id (f r) = aw_agent_id r \<and> aw_agent_pubkey (f r) = aw_agent_pubkey r"
    and "\<And>r. agent_row_ok r \<Longrightarrow> agent_row_ok (f r)"
  shows "control_wf (snd (update_agent i ws f db))"
proof -
  note rows = update_agent_rows(1,2) [OF assms(2), of i ws db]
  have "aw_agent_id ` set (cd_agents (snd (update_agent i ws f db))) = aw_agent_id ` set (cd_agents db)"
    using rows(1) by (metis set_map)
  moreover have "list_all agent_row_ok (cd_agents (snd (update_agent i ws f db)))"
    using assms(1,3) by (auto simp: update_agent_def Let_def control_wf_def list_all_iff)
  moreover have "cd_operators (snd (update_agent i ws f db)) = cd_operators db"
    by (simp add: update_agent_def Let_def)
  ultimately show ?thesis using assms(1) rows by (simp add: control_wf_defs)
qed

lemma set_agent_status_wf: "control_wf db \<Longrightarrow> control_wf (snd (set_agent_status i s ws db))"
  using texts_known(2) [of s] by (auto simp: set_agent_status_state agent_row_ok_def intro!: update_agent_wf)

lemma upsert_policy_wf:
  assumes "list_all P rows" and "P row" and "distinct (map pl_agent_id rows)"
  shows "list_all P (upsert_policy_row row rows) \<and> distinct (map pl_agent_id (upsert_policy_row row rows))"
proof -
  have "map pl_agent_id (map (\<lambda>p. if pl_agent_id p = pl_agent_id row then row else p) rows) = map pl_agent_id rows"
    by auto
  then show ?thesis using assms by (auto simp: upsert_policy_row_def list_all_iff list_ex_iff simp del: map_map)
qed

lemma set_policy_Ok:
  assumes "snd (set_policy i m p ws db) \<noteq> db"
  obtains row where "policies_check row" "pl_agent_id row = i"
    "i \<in> aw_agent_id ` set (cd_agents db)"
    "snd (set_policy i m p ws db) = (snd (update_agent i ws (\<lambda>r. r\<lparr>aw_mode := mode_as_str m\<rparr>) db))
       \<lparr>cd_policies := upsert_policy_row row (cd_policies db)\<rparr>"
proof -
  let ?f = "\<lambda>r. r\<lparr>aw_mode := mode_as_str m\<rparr>"
  obtain row where row: "policy_to_row i p = Ok row" "policies_check row" "cd_online db" "fst (update_agent i ws ?f db) \<noteq> 0"
    using assms by (auto simp: set_policy_def split: sum.splits if_splits prod.splits)
  then have "snd (set_policy i m p ws db) = (snd (update_agent i ws ?f db))\<lparr>cd_policies := upsert_policy_row row (cd_policies db)\<rparr>"
    using update_agent_frame(2) [of i ws ?f db] by (cases "update_agent i ws ?f db") (simp add: set_policy_def)
  moreover have "i \<in> aw_agent_id ` set (cd_agents db)"
    using row(4) by (auto simp: update_agent_def Let_def filter_empty_conv)
  ultimately show thesis using that row(2) policy_row_roundtrip(2) [OF row(1,2)] by blast
qed

lemma set_policy_wf: "control_wf db \<Longrightarrow> control_wf (snd (set_policy i m p ws db))"
proof (cases "snd (set_policy i m p ws db) = db")
  case False
  assume wf: "control_wf db"
  let ?u = "snd (update_agent i ws (\<lambda>r. r\<lparr>aw_mode := mode_as_str m\<rparr>) db)"
  have u: "control_wf ?u"
    using wf texts_known(1) [of m] by (auto simp: agent_row_ok_def intro!: update_agent_wf)
  obtain row where row: "policies_check row" "pl_agent_id row = i" "i \<in> aw_agent_id ` set (cd_agents db)"
    "snd (set_policy i m p ws db) = ?u\<lparr>cd_policies := upsert_policy_row row (cd_policies ?u)\<rparr>"
    using False by (rule set_policy_Ok) simp
  have "aw_agent_id ` set (cd_agents ?u) = aw_agent_id ` set (cd_agents db)"
    using update_agent_rows(1) [of "\<lambda>r. r\<lparr>aw_mode := mode_as_str m\<rparr>" i ws db] by (simp flip: set_map)
  then have "policy_row_ok (aw_agent_id ` set (cd_agents ?u)) row" using row by (simp add: policy_row_ok_def)
  with u have "list_all (policy_row_ok (aw_agent_id ` set (cd_agents ?u))) (upsert_policy_row row (cd_policies ?u))
      \<and> distinct (map pl_agent_id (upsert_policy_row row (cd_policies ?u)))"
    by (intro upsert_policy_wf) (simp_all add: control_wf_def)
  then show ?thesis unfolding row(4) using u by (simp add: control_wf_defs)
qed simp

lemma operators_wf:
  assumes "control_wf db" and "distinct (map ow_operator_id ops)" and "distinct (map ow_token_hash ops)"
  shows "control_wf (db\<lparr>cd_operators := ops\<rparr>)"
  using assms by (simp add: control_wf_defs)

lemma create_operator_wf: "control_wf db \<Longrightarrow> control_wf (snd (create_operator i l h db))"
  by (auto simp: create_operator_def list_ex_iff control_wf_defs)

lemma touched_operators_wf:
  assumes "control_wf db" and "\<And>r. ow_operator_id (f r) = ow_operator_id r \<and> ow_token_hash (f r) = ow_token_hash r"
  shows "control_wf (db\<lparr>cd_operators := map (\<lambda>r. if P r then f r else r) (cd_operators db)\<rparr>)"
proof (rule operators_wf [OF assms(1)])
  let ?rs = "map (\<lambda>r. if P r then f r else r) (cd_operators db)"
  have "map ow_operator_id ?rs = map ow_operator_id (cd_operators db)" "map ow_token_hash ?rs = map ow_token_hash (cd_operators db)"
    using assms(2) by simp_all
  then show "distinct (map ow_operator_id ?rs)" "distinct (map ow_token_hash ?rs)"
    using assms(1) by (simp_all add: control_wf_def operators_inv_def del: map_map)
qed

lemma set_operator_enabled_wf: "control_wf db \<Longrightarrow> control_wf (snd (set_operator_enabled i e db))"
  by (simp add: set_operator_enabled_def touched_operators_wf)

lemma touch_operator_wf: "control_wf db \<Longrightarrow> control_wf (snd (touch_operator i db))"
  by (simp add: touch_operator_def touched_operators_wf)

lemma rotated_hashes:
  assumes "distinct (map ow_operator_id rs)" and "distinct (map ow_token_hash rs)"
    and "\<forall>r \<in> set rs. ow_token_hash r = h \<longrightarrow> ow_operator_id r = i \<and> ow_enabled r"
  shows "distinct (map ow_token_hash (map (\<lambda>r. if ow_operator_id r = i \<and> ow_enabled r then r\<lparr>ow_token_hash := h\<rparr> else r) rs))"
  using assms
proof (induction rs)
  case (Cons x xs)
  let ?f = "\<lambda>r. if ow_operator_id r = i \<and> ow_enabled r then r\<lparr>ow_token_hash := h\<rparr> else r"
  have IH: "distinct (map ow_token_hash (map ?f xs))" using Cons by auto
  have "ow_token_hash (?f x) \<noteq> ow_token_hash (?f y)" if y: "y \<in> set xs" for y
  proof (cases "ow_operator_id x = i \<and> ow_enabled x")
    case True
    then have "ow_operator_id y \<noteq> i" using Cons.prems(1) y by (auto simp: image_iff)
    then show ?thesis using True Cons.prems(3) y by auto
  next
    case False
    then have "ow_token_hash x \<noteq> h" using Cons.prems(3) by auto
    moreover have "ow_token_hash x \<noteq> ow_token_hash y" using Cons.prems(2) y by auto
    ultimately show ?thesis using False by auto
  qed
  then have "ow_token_hash (?f x) \<notin> set (map ow_token_hash (map ?f xs))" by (simp only: set_map image_image image_iff) blast
  then show ?case using IH by (simp only: list.map distinct.simps simp_thms)
qed simp

lemma rotate_operator_token_wf: "control_wf db \<Longrightarrow> control_wf (snd (rotate_operator_token i h db))"
proof -
  assume wf: "control_wf db"
  let ?hit = "\<lambda>r. ow_operator_id r = i \<and> ow_enabled r"
  let ?rs = "map (\<lambda>r. if ?hit r then r\<lparr>ow_token_hash := h\<rparr> else r) (cd_operators db)"
  show ?thesis
  proof (cases "snd (rotate_operator_token i h db) = db")
    case False
    then have r: "snd (rotate_operator_token i h db) = db\<lparr>cd_operators := ?rs\<rparr>"
      and h: "\<not> list_ex (\<lambda>r. ow_token_hash r = h \<and> \<not> ?hit r) (cd_operators db)"
      unfolding rotate_operator_token_def Let_def by (simp_all split: if_splits)
    have "map ow_operator_id ?rs = map ow_operator_id (cd_operators db)" by simp
    then have "distinct (map ow_operator_id ?rs)" using wf by (simp add: control_wf_def operators_inv_def del: map_map)
    moreover have "distinct (map ow_token_hash ?rs)"
      using wf h by (intro rotated_hashes) (auto simp: control_wf_def operators_inv_def list_ex_iff)
    ultimately show ?thesis unfolding r by (rule operators_wf [OF wf])
  qed (use wf in simp)
qed

lemma approvals_wf:
  assumes "control_wf db" and "distinct (map vw_approval_id vs)"
    and "list_all (approval_row_ok (aw_agent_id ` set (cd_agents db))) vs"
  shows "control_wf (db\<lparr>cd_approvals := vs\<rparr>)"
  using assms by (simp add: control_wf_defs)

lemma updated_approvals_wf:
  assumes "control_wf db" and "\<And>v. vw_approval_id (f v) = vw_approval_id v"
    and "\<And>A v. approval_row_ok A v \<Longrightarrow> approval_row_ok A (f v)"
  shows "control_wf (db\<lparr>cd_approvals := map (\<lambda>v. if P v then f v else v) (cd_approvals db)\<rparr>)"
proof (rule approvals_wf [OF assms(1)])
  let ?vs = "map (\<lambda>v. if P v then f v else v) (cd_approvals db)"
  have "map vw_approval_id ?vs = map vw_approval_id (cd_approvals db)" using assms(2) by simp
  then show "distinct (map vw_approval_id ?vs)" using assms(1) by (simp add: control_wf_def control_inv_def del: map_map)
  show "list_all (approval_row_ok (aw_agent_id ` set (cd_agents db))) ?vs"
    using assms(1,3) by (auto simp: control_wf_def list_all_iff)
qed

lemma create_approval_wf: "control_wf db \<Longrightarrow> control_wf (snd (create_approval i a s r p c db))"
proof -
  assume wf: "control_wf db"
  have "0 \<le> sint v" if "to_i64 q f = Ok v" for q f v
    using that by (auto simp: to_i64_def sint_nonneg split: if_splits)
  then show ?thesis
    using wf by (auto simp: create_approval_def control_wf_defs list_ex_iff approval_row_ok_def split: sum.splits)
qed

lemma decide_approval_wf: "control_wf db \<Longrightarrow> control_wf (snd (decide_approval i a r d l db))"
  by (auto simp: decide_approval_def Let_def decided_row_def approval_row_ok_def intro!: updated_approvals_wf)

lemma consume_approval_wf: "control_wf db \<Longrightarrow> control_wf (snd (consume_approval a r p db))"
  by (auto simp: consume_approval_def approval_row_ok_def intro!: updated_approvals_wf split: sum.splits list.splits)

lemma usage_record_wf: "control_wf db \<Longrightarrow> usage_record e (Some db) = Some db' \<Longrightarrow> control_wf db'"
  by (auto simp: usage_record_def Let_def control_wf_defs split: if_splits)

subsection \<open>Every handler keeps them\<close>

definition db_wf :: "app_state \<Rightarrow> bool" where
  "db_wf st \<longleftrightarrow> (case as_db st of None \<Rightarrow> True | Some (db, cdb) \<Rightarrow> control_wf cdb)"

lemma db_wf_frame [simp]:
  "db_wf (set_registry reg st) = db_wf st" "db_wf (st\<lparr>as_upstream := u\<rparr>) = db_wf st"
  by (simp_all add: db_wf_def)

lemma db_wf_set: "control_wf cdb \<Longrightarrow> db_wf (set_control cdb st)"
  by (auto simp: db_wf_def set_control_def as_db_def split: backend.splits)

lemma wf_after:
  assumes "\<And>d. control_wf d \<Longrightarrow> control_wf (snd (f d))" and "db_wf st" and "control_db rid st = Ok (db, cdb)"
    and "f cdb = (r, cdb')"
  shows "db_wf (set_control cdb' st)"
  using assms(1) [of cdb] assms(2-4) by (auto simp: db_wf_def control_db_Ok intro!: db_wf_set)

lemma plan_options_wf: "db_wf st \<Longrightarrow> db_wf (fst (snd (plan_options W instant a sp wanted calls st)))"
  by (auto simp: plan_options_def Let_def split: prod.splits)

lemma plan_wf: "db_wf st \<Longrightarrow> db_wf (fst (snd (plan W instant rid op i resource calls st)))"
  using plan_options_wf [of st W instant]
  by (auto simp: plan_def Let_def split: sum.splits prod.splits) (metis fst_conv snd_conv)

lemma plan_for_session_wf: "db_wf st \<Longrightarrow> db_wf (fst (snd (plan_for_session X W now instant rid req st)))"
  using plan_options_wf [of st W instant]
  by (auto simp: plan_for_session_def Let_def split: sum.splits prod.splits option.splits) (metis fst_conv snd_conv)

lemma control_handler_wf:
  assumes "db_wf st" shows "db_wf (snd (control_handler X W cx r op st))"
proof (cases r)
  case (PostAgents req)
  then show ?thesis using assms
    by (auto simp: route_create_agent_def Let_def intro: wf_after [OF create_agent_wf] split: sum.splits prod.splits bool.splits)
next
  case (PostAgentAuthorize i req)
  then show ?thesis using assms
    by (auto simp: authorize_agent_def Let_def intro: wf_after [OF set_policy_wf] split: sum.splits prod.splits bool.splits option.splits)
next
  case (PostAgentStatus i s)
  then show ?thesis using assms
    by (auto simp: route_set_agent_status_def intro: wf_after [OF set_agent_status_wf] split: sum.splits prod.splits bool.splits)
next
  case (PostProviders req)
  then show ?thesis using assms
    by (auto simp: register_provider_def Let_def intro: wf_after [OF upsert_provider_wf] split: sum.splits prod.splits)
next
  case (DeleteProvider i)
  then show ?thesis using assms
    by (auto simp: route_delete_provider_def Let_def intro: wf_after [OF delete_provider_wf] split: sum.splits prod.splits)
next
  case (PostOperators label)
  then show ?thesis using assms
    by (auto simp: route_create_operator_def intro: wf_after [OF create_operator_wf] split: sum.splits prod.splits bool.splits)
next
  case PostOperatorRotate
  then show ?thesis using assms
    by (auto simp: rotate_own_token_def intro: wf_after [OF rotate_operator_token_wf] split: sum.splits prod.splits bool.splits)
next
  case (PostOperatorStatus i e)
  then show ?thesis using assms
    by (auto simp: set_operator_status_def intro: wf_after [OF set_operator_enabled_wf] split: sum.splits prod.splits bool.splits)
next
  case (PostApprovalDecide i a r)
  then show ?thesis using assms
    by (auto simp: route_decide_approval_def intro: wf_after [OF decide_approval_wf] split: sum.splits prod.splits bool.splits)
qed (use assms plan_wf in simp_all)

lemma require_admin_wf:
  assumes "require_admin X t rid areq (map_option snd (as_db st)) = (res, Some cdb)" and "db_wf st"
  shows "control_wf cdb"
  using assms touch_operator_wf
  by (auto simp: require_admin_def db_wf_def split: option.splits sum.splits if_splits prod.splits)

subsection \<open>So do purchases\<close>

lemma meter_wf: "db_wf st \<Longrightarrow> db_wf (meter X i s r p d st)"
  by (auto simp: meter_def db_wf_def [of st] split: option.splits prod.splits intro!: db_wf_set dest: usage_record_wf)
    (simp add: usage_record_def db_wf_def)

lemma raise_approval_wf: "control_wf cdb \<Longrightarrow> control_wf (raise_approval uuid a r p cdb)"
  using create_approval_wf by (auto simp: raise_approval_def split: sum.splits bool.splits)

lemma enforce_wf: "db_wf st \<Longrightarrow> db_wf (snd (enforce_agent_policy X rid uuid agent session resource price st))"
proof -
  assume wf: "db_wf st"
  have c: "db_wf (set_control cdb' st)" if "as_db st = Some (db, cdb)" "consume_approval i resource price cdb = (r, cdb')" for db cdb cdb' i r
    using wf that consume_approval_wf [of cdb i resource price] by (auto simp: db_wf_def intro!: db_wf_set)
  have a: "db_wf (set_control (raise_approval uuid i resource price cdb) st)" if "as_db st = Some (db, cdb)" for db cdb i
    using wf that by (auto simp: db_wf_def intro!: db_wf_set raise_approval_wf)
  show ?thesis
    unfolding enforce_agent_policy_def Let_def
    using wf by (auto intro: meter_wf a c split: option.splits sum.splits prod.splits policy_decision.splits bool.splits)
qed

lemma admit_wf: "db_wf st \<Longrightarrow> db_wf (st\<lparr>as_store := snd (store_admit_claim X c sig now (as_store st))\<rparr>)"
  by (auto simp: db_wf_def as_db_def store_admit_claim_def split: backend.splits prod.splits)

lemma buy_finish_wf: "db_wf st \<Longrightarrow> db_wf (fst (snd (buy_finish X J W now rid query t st)))"
  unfolding buy_finish_def Let_def
  using admit_wf [of st X "bt_claim t" "bt_signature t" now]
  by (auto intro: meter_wf split: option.splits sum.splits prod.splits)

lemma buy_prepare_wf: "db_wf st \<Longrightarrow> db_wf (fst (snd (buy_prepare X J W now instant rid uuid resource header st)))"
  unfolding buy_prepare_def Let_def
  by (auto split: option.splits sum.splits prod.splits) (metis db_wf_frame(2) enforce_wf snd_conv)+

lemma buy_wf: "db_wf st \<Longrightarrow> db_wf (fst (snd (buy X J W now instant rid uuid resource query header st)))"
  unfolding buy_def
  by (auto split: sum.splits prod.splits buy_step.splits) (metis buy_prepare_wf buy_finish_wf fst_conv snd_conv)+

subsection \<open>No reader meets a corrupt row\<close>

lemma policy_readable: "policies_check p \<Longrightarrow> \<exists>q. policy_from_row p = Ok q"
  by (auto simp: policy_from_row_def policies_check_def split: option.splits)

lemma agent_readable:
  assumes "control_wf cdb" shows "\<exists>a. agent_from_row cdb r = Ok a"
proof (cases "policy_row_of cdb (aw_agent_id r)")
  case (Some p)
  then have "p \<in> set (cd_policies cdb)" using find_SomeD by (force simp: policy_row_of_def)
  then have "policies_check p" using assms by (auto simp: control_wf_def list_all_iff policy_row_ok_def)
  then obtain q where "policy_from_row p = Ok q" using policy_readable by blast
  then show ?thesis using Some by (simp add: agent_from_row_def)
qed (simp add: agent_from_row_def)

lemma optional_agent_readable: "control_wf cdb \<Longrightarrow> cd_online cdb \<Longrightarrow> \<exists>a. optional_agent cdb P = Ok a"
  using agent_readable by (auto simp: optional_agent_def split: option.splits) (metis sum.case(2))

lemma list_agents_readable: "control_wf cdb \<Longrightarrow> cd_online cdb \<Longrightarrow> \<exists>as. list_agents ws cdb = Ok as"
  using agent_readable by (simp add: list_agents_def traverse_total)

lemma list_approvals_readable:
  assumes "control_wf cdb" and "cd_online cdb" shows "\<exists>vs. list_approvals n ws cdb = Ok vs"
proof -
  have "\<exists>y. approval_from_row v = Ok y" if "v \<in> set (cd_approvals cdb)" for v
    using that assms(1) by (auto simp: approval_from_row_def control_wf_def list_all_iff approval_row_ok_def)
  then show ?thesis using assms(2) by (auto simp: list_approvals_def intro!: traverse_total dest!: in_set_takeD)
qed

lemma store_wf:
  assumes "db_wf st"
  shows "db_wf (st\<lparr>as_store := snd (store_open X r (as_store st))\<rparr>)"
    and "db_wf (st\<lparr>as_store := snd (store_mark_settled X k (as_store st))\<rparr>)"
    and "db_wf (st\<lparr>as_store := snd (store_mark_chain_verified X k (as_store st))\<rparr>)"
  using assms
  by (auto simp: db_wf_def as_db_def store_open_def store_mark_settled_def store_mark_chain_verified_def
      split: backend.splits prod.splits)

lemma verify_claim_wf: "db_wf st \<Longrightarrow> db_wf (snd (verify_claim X now rid w st))"
  using admit_wf [of st X] unfolding verify_claim_def
  by (auto split: sum.splits prod.splits) (metis snd_conv)+

lemma chain_handler_wf: "db_wf st \<Longrightarrow> db_wf (snd (chain_handler X R I cx r st))"
proof (cases r)
  case (PostSessionOpen req)
  assume "db_wf st"
  then show ?thesis
    using store_wf(1) [of st X] unfolding PostSessionOpen chain_handler.simps snd_changing route_open_session_def Let_def
    by (auto split: option.splits sum.splits prod.splits if_splits) (metis snd_conv)+
next
  case (PostSessionSettle s mr)
  assume "db_wf st"
  then show ?thesis
    using store_wf(2) [of st X] unfolding PostSessionSettle chain_handler.simps snd_changing route_settle_session_def settle_mark_def
    by (auto split: option.splits sum.splits prod.splits if_splits)
next
  case (PostSessionReconcile s)
  assume "db_wf st"
  then show ?thesis
    using store_wf(3) [of st X] unfolding PostSessionReconcile chain_handler.simps snd_changing reconcile_session_def
    by (auto split: option.splits sum.splits prod.splits if_splits) (metis snd_conv)+
qed simp

lemma fast_handler_wf: "db_wf st \<Longrightarrow> db_wf (snd (fast_handler X J W cx r st))"
  by (cases r) (auto simp: verify_claim_wf buy_wf plan_for_session_wf route_catalogue_def split: prod.splits)

interpretation tables: router_invariant X db_wf for X
  using require_admin_wf by unfold_locales (auto intro: chain_handler_wf fast_handler_wf control_handler_wf db_wf_set)

lemma readable_tables:
  assumes "control_wf cdb"
  shows "control_wf cdb \<and> (cd_online cdb \<longrightarrow> (\<exists>as. list_agents ws cdb = Ok as) \<and> (\<exists>a. get_agent i ws cdb = Ok a)
    \<and> (\<exists>a. get_agent_by_pubkey k cdb = Ok a) \<and> (\<exists>vs. list_approvals n ws cdb = Ok vs))"
  using assms list_agents_readable optional_agent_readable list_approvals_readable
  by (auto simp: get_agent_def get_agent_by_pubkey_def)

text \<open>
  The tables of the control plane keep their shape. Starting from well-formed tables
  (unique keys, references that resolve, known modes, statuses and states, amounts in
  range), any sequence of requests to any route, let through or refused, leaves them
  well-formed; and on well-formed tables no reader fails on a row: while the database
  answers, every agent, every listing and every approval queue is readable.
\<close>

theorem control_tables_well_formed:
  assumes "db_wf (sv_app sv)" and "as_db (sv_app (serve_all X R I J W evs sv)) = Some (db, cdb)"
  shows "control_wf cdb \<and> (cd_online cdb \<longrightarrow> (\<exists>as. list_agents ws cdb = Ok as) \<and> (\<exists>a. get_agent i ws cdb = Ok a)
    \<and> (\<exists>a. get_agent_by_pubkey k cdb = Ok a) \<and> (\<exists>vs. list_approvals n ws cdb = Ok vs))"
proof -
  have "control_wf cdb" using tables.serve_all_keeps [OF assms(1), of X R I J W evs] assms(2) by (simp add: db_wf_def)
  then show ?thesis by (rule readable_tables)
qed

definition demo_served :: server where
  "demo_served = \<lparr>sv_app = demo_governed, sv_open_limiter = limiter_new (per_minute 2), sv_general_limiter = limiter_new (per_minute 9),
     sv_trusted_proxies = [], sv_chain_timeout = 20, sv_bind_addr = \<lparr>sock_ip = V4 0, sock_port = 8080\<rparr>\<rparr>"

lemma set_control_same_tables: "as_db st = Some (db, c) \<Longrightarrow> set_control c st = st"
  by (auto simp: as_db_def set_control_def split: backend.splits)

lemma demo_served_wf: "db_wf (sv_app demo_served)"
proof -
  have "as_db demo_governed = Some (demo_db, demo_envelope)" by (rule demo_governed_facts)
  then show ?thesis
    by (simp add: demo_served_def db_wf_def control_wf_defs demo_envelope_def demo_control_def agent_row_ok_def
        policy_row_ok_def policies_check_def)
qed

lemma demo_served_status:
  "\<exists>cdb. as_db (sv_app (serve_all demo_externals R I J W
      [(demo_call, ControlPlane (PostAgentStatus ''agt1'' Suspended))] demo_served)) = Some (demo_db, cdb) \<and> cd_online cdb"
proof -
  have db: "as_db demo_governed = Some (demo_db, demo_envelope)" by (rule demo_governed_facts)
  have tok: "as_admin_token demo_governed = None" by (simp add: demo_governed_def demo_app_def)
  show ?thesis
    by (simp add: serve_all_def control_plane_def serve_control_def require_admin_def tok db demo_served_def demo_call_def
        set_control_same_tables [OF db] route_set_agent_status_def control_db_def set_agent_status_def update_agent_def
        demo_envelope_def demo_control_def in_scope_def fetch_agent_def get_agent_def optional_agent_def
        agent_from_row_def policy_row_of_def policy_from_row_def to_u64_def)
qed

theorem control_tables_well_formed_witness:
  "\<forall>R I J W. \<exists>db cdb. as_db (sv_app (serve_all demo_externals R I J W
       [(demo_call, ControlPlane (PostAgentStatus ''agt1'' Suspended))] demo_served)) = Some (db, cdb)
     \<and> control_wf cdb \<and> (\<exists>as. list_agents None cdb = Ok as)"
proof (intro allI)
  fix R I J W
  obtain cdb where c: "as_db (sv_app (serve_all demo_externals R I J W
      [(demo_call, ControlPlane (PostAgentStatus ''agt1'' Suspended))] demo_served)) = Some (demo_db, cdb)" "cd_online cdb"
    using demo_served_status [of R I J W] by blast
  show "\<exists>db cdb. as_db (sv_app (serve_all demo_externals R I J W
       [(demo_call, ControlPlane (PostAgentStatus ''agt1'' Suspended))] demo_served)) = Some (db, cdb)
     \<and> control_wf cdb \<and> (\<exists>as. list_agents None cdb = Ok as)"
    using control_tables_well_formed [OF demo_served_wf c(1)] c by blast
qed

end
