(* ===== verification/Buy_Races.thy ===== *)
theory Buy_Races
  imports Buy_Props
begin

section \<open>Purchases that overlap across sessions\<close>

text \<open>
  The envelope of an agent is checked against its derived spend when a purchase is prepared,
  and the spend grows when the purchase is admitted. Between the two the gateway serves other
  requests, and the admission locks one session only. What each half does to the spend is
  stated here for the durable store, and then what two overlapping purchases of one agent on
  different sessions do to its authorized total.
\<close>

lemma get_agent_frame:
  assumes "cd_online cdb' = cd_online cdb" and "cd_agents cdb' = cd_agents cdb" and "cd_policies cdb' = cd_policies cdb"
  shows "get_agent_by_pubkey key cdb' = get_agent_by_pubkey key cdb"
proof -
  have row: "agent_from_row cdb' = agent_from_row cdb" using assms(3) by (simp add: fun_eq_iff agent_from_row_def policy_row_of_def)
  show ?thesis unfolding get_agent_by_pubkey_def optional_agent_def assms row ..
qed

lemma consume_keeps_agents:
  "get_agent_by_pubkey key (snd (consume_approval a r p cdb)) = get_agent_by_pubkey key cdb"
  by (rule get_agent_frame) (simp_all add: consume_approval_def split: sum.splits list.splits)

lemma enforce_keeps_agents:
  assumes "enforce_agent_policy X rid uuid agent session resource price st = (Ok identity, st')"
    and "as_store st = Durable db cdb"
  shows "\<exists>cdb'. as_store st' = Durable db cdb' \<and> get_agent_by_pubkey key cdb' = get_agent_by_pubkey key cdb"
proof -
  consider "st' = st" | a r p where "st' = set_control (snd (consume_approval a r p cdb)) st"
    using assms unfolding enforce_agent_policy_def Let_def as_db_def
    by (auto split: if_splits sum.splits option.splits policy_decision.splits prod.splits bool.splits) (metis snd_conv)+
  then show ?thesis using assms(2) consume_keeps_agents by cases (auto simp: set_control_def)
qed

lemma prepared_durable:
  assumes inv: "pg_inv X db" and st: "as_store st = Durable db cdb"
    and p: "buy_prepare X J W now i rid uuid resource header st = (Ok (Paying t), st', urls)"
    and r: "pg_view X db (cl_session (bt_claim t)) = Some r"
  shows "\<exists>cdb'. as_store st' = Durable db cdb'
      \<and> (\<forall>key. get_agent_by_pubkey key cdb' = get_agent_by_pubkey key cdb)"
    and "unat (cl_cumulative_amount (bt_claim t)) = unat (sr_cumulative_accepted r) + unat (bt_price t)"
    and "get_agent_by_pubkey (pk_show X (sr_agent r)) cdb = Ok (Some rec) \<Longrightarrow> ar_policy rec = Some pol \<Longrightarrow>
      \<exists>s. agent_spend (pk_show X (sr_agent r)) db = Ok s \<and> within_envelope pol (bt_resource t) (bt_price t) s"
proof -
  from p obtain u' raw q where
    c: "buy_check_claim X J now rid raw (bt_price t) (st\<lparr>as_upstream := Some u'\<rparr>) = Ok (bt_claim t, bt_signature t, q)"
    and e: "enforce_agent_policy X rid uuid (sr_agent q) (cl_session (bt_claim t)) (bt_resource t) (bt_price t)
       (st\<lparr>as_upstream := Some u'\<rparr>) = (Ok (bt_identity t), st')"
    by (auto elim: buy_prepare_Paying)
  have "gw_inv X (st\<lparr>as_upstream := Some u'\<rparr>)" using inv st by (simp add: backend_inv_def)
  note chk = buy_check_claim_Ok [OF this c]
  have [simp]: "q = r" using chk(3) r st by (simp add: backend_view_def)
  show "unat (cl_cumulative_amount (bt_claim t)) = unat (sr_cumulative_accepted r) + unat (bt_price t)" using chk(5) by simp
  have st': "as_store (st\<lparr>as_upstream := Some u'\<rparr>) = Durable db cdb" using st by simp
  show "\<exists>cdb'. as_store st' = Durable db cdb' \<and> (\<forall>key. get_agent_by_pubkey key cdb' = get_agent_by_pubkey key cdb)"
    using enforce_keeps_agents [OF e st'] by (metis backend.inject(2))
  have "as_db (st\<lparr>as_upstream := Some u'\<rparr>) = Some (db, cdb)" using st by (simp add: as_db_def)
  from enforce_Ok [OF e this]
  show "get_agent_by_pubkey (pk_show X (sr_agent r)) cdb = Ok (Some rec) \<Longrightarrow> ar_policy rec = Some pol \<Longrightarrow>
      \<exists>s. agent_spend (pk_show X (sr_agent r)) db = Ok s \<and> within_envelope pol (bt_resource t) (bt_price t) s" by auto
qed

lemma finished_durable:
  assumes inv: "pg_inv X db" and st: "as_store st = Durable db cdb"
    and f: "buy_finish X J W now rid query t st = (Ok reply, st', urls)"
    and r: "pg_view X db (cl_session (bt_claim t)) = Some r"
    and exact: "unat (cl_cumulative_amount (bt_claim t)) = unat (sr_cumulative_accepted r) + unat (bt_price t)"
    and s: "agent_spend (pk_show X (sr_agent r)) db = Ok s" and room: "unat (sp_spent s) + unat (bt_price t) < 2 ^ 63"
  shows "\<exists>db' cdb' s'. as_store st' = Durable db' cdb' \<and> pg_inv X db' \<and> urls \<noteq> []
    \<and> pg_view X db' = (pg_view X db)(cl_session (bt_claim t) \<mapsto> advance r (bt_claim t) (bt_signature t))
    \<and> agent_spend (pk_show X (sr_agent r)) db' = Ok s' \<and> unat (sp_spent s') = unat (sp_spent s) + unat (bt_price t)"
proof -
  from f st obtain a db' where adm: "pg_admit_claim X (bt_claim t) (bt_signature t) now db = (Ok (Ok a), db')"
    and u: "urls \<noteq> []"
    unfolding buy_finish_def
    by (auto simp: Let_def forward_def store_admit_claim_def split: sum.splits prod.splits option.splits)
  have v: "pg_view X db' = (pg_view X db)(cl_session (bt_claim t) \<mapsto> advance r (bt_claim t) (bt_signature t))"
    and ev: "evaluate_claim r (bt_claim t) now = Ok a"
    using pgs.admit_view [OF inv adm] r by auto
  have lt: "sr_cumulative_accepted r < cl_cumulative_amount (bt_claim t)"
    and d: "ca_delta a = cl_cumulative_amount (bt_claim t) - sr_cumulative_accepted r" using ev by (auto simp: evaluate_claim_Ok)
  have delta: "unat (ca_delta a) = unat (bt_price t)" using exact lt by (simp add: d unat_sub order_less_imp_le)
  have "pg_inv X db'" using pgs.admit_inv [OF inv, of "bt_claim t" "bt_signature t" now] adm by simp
  moreover have "\<exists>cdb'. as_store st' = Durable db' cdb'"
    using buy_finish_sessions [OF f] st adm by (auto simp: store_admit_claim_def same_sessions_def)
  ultimately show ?thesis using admit_spend [OF inv adm r s] delta room u v by auto
qed

text \<open>
  C17. The authorized total can be overspent. Take two purchases of one agent on two of its
  sessions, both prepared before either is admitted. Each is checked against the same spend
  and may use all that is left of the total, and the admission of one does not see the other:
  both are served, and the agent's spend grows by both prices, past the total whenever they
  exceed it together.
\<close>

theorem overlapping_purchases_overspend:
  assumes inv: "pg_inv X db" and st: "as_store st = Durable db cdb"
    and p\<^sub>1: "buy_prepare X J W now i\<^sub>1 rid\<^sub>1 uuid\<^sub>1 resource\<^sub>1 header\<^sub>1 st = (Ok (Paying t\<^sub>1), st\<^sub>1, urls\<^sub>1)"
    and p\<^sub>2: "buy_prepare X J W now i\<^sub>2 rid\<^sub>2 uuid\<^sub>2 resource\<^sub>2 header\<^sub>2 st\<^sub>1 = (Ok (Paying t\<^sub>2), st\<^sub>2, urls\<^sub>2)"
    and f\<^sub>1: "buy_finish X J W now rid\<^sub>1 query\<^sub>1 t\<^sub>1 st\<^sub>2 = (Ok reply\<^sub>1, st\<^sub>3, urls\<^sub>3)"
    and f\<^sub>2: "buy_finish X J W now rid\<^sub>2 query\<^sub>2 t\<^sub>2 st\<^sub>3 = (Ok reply\<^sub>2, st\<^sub>4, urls\<^sub>4)"
    and ks: "cl_session (bt_claim t\<^sub>1) \<noteq> cl_session (bt_claim t\<^sub>2)"
    and r\<^sub>1: "pg_view X db (cl_session (bt_claim t\<^sub>1)) = Some r\<^sub>1" and r\<^sub>2: "pg_view X db (cl_session (bt_claim t\<^sub>2)) = Some r\<^sub>2"
    and agent: "sr_agent r\<^sub>1 = agent" "sr_agent r\<^sub>2 = agent"
    and policy: "get_agent_by_pubkey (pk_show X agent) cdb = Ok (Some rec)" "ar_policy rec = Some p"
    and s: "agent_spend (pk_show X agent) db = Ok s"
    and over: "unat (ap_max_total p) < unat (sp_spent s) + unat (bt_price t\<^sub>1) + unat (bt_price t\<^sub>2)"
      "unat (sp_spent s) + unat (bt_price t\<^sub>1) + unat (bt_price t\<^sub>2) < 2 ^ 63"
  shows "within_envelope p (bt_resource t\<^sub>1) (bt_price t\<^sub>1) s \<and> within_envelope p (bt_resource t\<^sub>2) (bt_price t\<^sub>2) s
    \<and> urls\<^sub>3 \<noteq> [] \<and> urls\<^sub>4 \<noteq> []
    \<and> (\<exists>db' cdb' s'. as_store st\<^sub>4 = Durable db' cdb' \<and> agent_spend (pk_show X agent) db' = Ok s'
        \<and> unat (sp_spent s') = unat (sp_spent s) + unat (bt_price t\<^sub>1) + unat (bt_price t\<^sub>2) \<and> ap_max_total p < sp_spent s')"
proof -
  note q\<^sub>1 = prepared_durable [OF inv st p\<^sub>1 r\<^sub>1]
  obtain c\<^sub>1 where st\<^sub>1: "as_store st\<^sub>1 = Durable db c\<^sub>1" "\<And>key. get_agent_by_pubkey key c\<^sub>1 = get_agent_by_pubkey key cdb"
    using q\<^sub>1(1) by blast
  note q\<^sub>2 = prepared_durable [OF inv st\<^sub>1(1) p\<^sub>2 r\<^sub>2]
  obtain c\<^sub>2 where st\<^sub>2: "as_store st\<^sub>2 = Durable db c\<^sub>2" using q\<^sub>2(1) by blast
  have within: "within_envelope p (bt_resource t\<^sub>1) (bt_price t\<^sub>1) s" "within_envelope p (bt_resource t\<^sub>2) (bt_price t\<^sub>2) s"
    using q\<^sub>1(3) [of rec p] q\<^sub>2(3) [of rec p] policy s st\<^sub>1(2) agent by auto
  obtain d\<^sub>3 c\<^sub>3 s\<^sub>3 where st\<^sub>3: "as_store st\<^sub>3 = Durable d\<^sub>3 c\<^sub>3" "pg_inv X d\<^sub>3" "urls\<^sub>3 \<noteq> []"
    "pg_view X d\<^sub>3 = (pg_view X db)(cl_session (bt_claim t\<^sub>1) \<mapsto> advance r\<^sub>1 (bt_claim t\<^sub>1) (bt_signature t\<^sub>1))"
    "agent_spend (pk_show X agent) d\<^sub>3 = Ok s\<^sub>3" "unat (sp_spent s\<^sub>3) = unat (sp_spent s) + unat (bt_price t\<^sub>1)"
    using finished_durable [OF inv st\<^sub>2 f\<^sub>1 r\<^sub>1 q\<^sub>1(2)] s over(2) agent by auto
  have "pg_view X d\<^sub>3 (cl_session (bt_claim t\<^sub>2)) = Some r\<^sub>2" using st\<^sub>3(4) ks r\<^sub>2 by simp
  from finished_durable [OF st\<^sub>3(2,1) f\<^sub>2 this q\<^sub>2(2)] obtain d\<^sub>4 c\<^sub>4 s\<^sub>4 where
    "as_store st\<^sub>4 = Durable d\<^sub>4 c\<^sub>4" "urls\<^sub>4 \<noteq> []" "agent_spend (pk_show X agent) d\<^sub>4 = Ok s\<^sub>4"
    "unat (sp_spent s\<^sub>4) = unat (sp_spent s) + unat (bt_price t\<^sub>1) + unat (bt_price t\<^sub>2)"
    using st\<^sub>3(5,6) over(2) agent by auto
  then show ?thesis using within st\<^sub>3(3) over(1) by (auto simp: word_less_nat_alt)
qed

subsection \<open>Two sessions of one agent\<close>

text \<open>
  An agent with two sessions and an authorized total of 60 buys a resource for 40 on each.
\<close>

definition demo_second :: session_record where
  "demo_second = session_record_new 8 1 2 50 100 2000"

definition demo_pair :: pg where
  "demo_pair = snd (pg_open demo_externals demo_second demo_db)"

definition demo_tight :: control where
  "demo_tight = demo_envelope\<lparr>cd_policies := map (\<lambda>p. p\<lparr>pl_max_total := 60\<rparr>) (cd_policies demo_envelope)\<rparr>"

definition demo_claim_on :: "pubkey \<Rightarrow> claim" where
  "demo_claim_on k = (demo_claim_of 40 2)\<lparr>cl_session := k\<rparr>"

definition demo_race :: "pg \<Rightarrow> control \<Rightarrow> app_state" where
  "demo_race db cdb = (demo_app (Durable db cdb))\<lparr>as_upstream := Some demo_shop_upstream\<rparr>"

definition demo_race_ticket :: "pubkey \<Rightarrow> agent_identity \<Rightarrow> buy_ticket" where
  "demo_race_ticket k i = \<lparr>bt_claim = demo_claim_on k, bt_signature = 40, bt_resource = ''/weather'', bt_price = 40, bt_identity = i\<rparr>"

lemma demo_race_simps [simp]:
  "as_store (demo_race db cdb) = Durable db cdb" "as_upstream (demo_race db cdb) = Some demo_shop_upstream"
  "demo_race db cdb\<lparr>as_upstream := Some demo_shop_upstream\<rparr> = demo_race db cdb"
  "demo_race db cdb\<lparr>as_store := Durable db' cdb'\<rparr> = demo_race db' cdb'"
  "set_control cdb' (demo_race db cdb) = demo_race db cdb'" "as_db (demo_race db cdb) = Some (db, cdb)"
  by (simp_all add: demo_race_def demo_app_def set_control_def as_db_def)

lemma demo_claim_on_simps [simp]:
  "cl_session (demo_claim_on k) = k" "cl_cumulative_amount (demo_claim_on k) = 40" "cl_nonce (demo_claim_on k) = 2"
  "cl_expires_at (demo_claim_on k) = 2000"
  by (simp_all add: demo_claim_on_def demo_claim_of_def)

lemma demo_pair_opened: "pg_open demo_externals demo_second demo_db = (Ok (), demo_pair)"
proof -
  have rec: "demo_record = session_record_new 7 1 2 50 100 2000" by (rule demo_record_def)
  have "pg_view demo_externals demo_db 8 = None"
    using pg_open_view [OF pg_empty_inv [OF demo_pk_text, of 1000], of demo_record "Ok ()" demo_db] demo_fresh demo_pg_opened
    by (auto simp: demo_db_def prod_eq_iff rec session_record_new_def pg_view_def pg_empty_def session_row_of_def)
  then have none: "session_row_of demo_db (pk_show demo_externals 8) = None"
    using pg_view_decoded [OF demo_db_facts(1)] by (cases "session_row_of demo_db (pk_show demo_externals 8)") auto
  have "sessions_check (new_row demo_externals demo_second demo_db)"
    using demo_pk_text by (simp add: sessions_check_def new_row_def demo_second_def session_record_new_def)
  then have "fst (pg_open demo_externals demo_second demo_db) = Ok ()"
    using none demo_db_facts(2)
    by (simp add: pg_open_def save_session_def to_i64_def demo_second_def session_record_new_def new_row_def)
  then show ?thesis by (simp add: demo_pair_def prod_eq_iff)
qed

lemma demo_pair_facts:
  "pg_inv demo_externals demo_pair" "pg_online demo_pair" "rows_of demo_externals demo_pair k = []"
  "pg_view demo_externals demo_pair 7 = Some demo_record" "pg_view demo_externals demo_pair 8 = Some demo_second"
  "pg_claims demo_pair = []" "pg_evidence demo_pair = []"
proof -
  have p: "demo_pair = demo_db\<lparr>pg_sessions := pg_sessions demo_db @ [new_row demo_externals demo_second demo_db]\<rparr>"
    using pg_open_cases [OF demo_pair_opened] by blast
  have fr: "fresh_record demo_second" by (simp add: demo_second_def fresh_record_def session_record_new_def)
  show "pg_inv demo_externals demo_pair" using pg_open_inv [OF demo_db_facts(1) fr] demo_pair_opened by simp
  show "pg_view demo_externals demo_pair 7 = Some demo_record" "pg_view demo_externals demo_pair 8 = Some demo_second"
    using pg_open_view [OF demo_db_facts(1) fr demo_pair_opened] demo_db_facts(3)
    by (simp_all add: demo_second_def session_record_new_def)
  show "pg_online demo_pair" "rows_of demo_externals demo_pair k = []" "pg_claims demo_pair = []" "pg_evidence demo_pair = []"
    using demo_db_facts(2) demo_db_empty unfolding rows_of_def p by simp_all
qed

lemma demo_tight_agent:
  "\<exists>rec. get_agent_by_pubkey (pk_show demo_externals 1) demo_tight = Ok (Some rec) \<and> ar_status rec = Active
     \<and> ar_mode rec = Autonomous \<and> ar_policy rec = Some \<lparr>ap_max_total = 60, ap_max_per_call = 40,
       ap_approval_threshold = None, ap_allowed_resources = None, ap_max_calls = None\<rparr>"
  by (simp add: get_agent_by_pubkey_def optional_agent_def demo_tight_def demo_envelope_def demo_control_def agent_from_row_def
      policy_row_of_def policy_from_row_def to_u64_def from_str_or_human_def from_str_or_suspended_def)

lemma demo_pair_spend: "agent_spend a demo_pair = Ok \<lparr>sp_spent = 0, sp_calls = 0\<rparr>"
  using demo_pair_facts by (simp add: agent_spend_Ok committed_def allowed_calls_def)

lemma demo_pair_get: "pg_view demo_externals demo_pair k = Some r \<Longrightarrow> pg_get demo_externals k demo_pair = Ok r"
  using session_row_ofD [OF demo_pair_facts(1)] demo_pair_facts(2)
  by (auto simp: pg_view_def pg_get_def load_session_def split: option.splits sum.splits)

lemma demo_race_prepare:
  assumes "decode_header demo_externals J raw = Some (demo_claim_on k, 40)"
    and "pg_view demo_externals demo_pair k = Some r" and "sr_agent r = 1" and "sr_cumulative_accepted r = 0"
  shows "\<exists>i. buy_prepare demo_externals J demo_web 1500 6 ''r'' ''u'' ''weather'' (Some raw) (demo_race demo_pair demo_tight)
    = (Ok (Paying (demo_race_ticket k i)), demo_race demo_pair demo_tight, [])"
proof -
  obtain rec where "get_agent_by_pubkey (pk_show demo_externals 1) demo_tight = Ok (Some rec)" "ar_status rec = Active"
    "ar_mode rec = Autonomous" "ar_policy rec = Some \<lparr>ap_max_total = 60, ap_max_per_call = 40,
       ap_approval_threshold = None, ap_allowed_resources = None, ap_max_calls = None\<rparr>" using demo_tight_agent by blast
  then obtain i where enf: "enforce_agent_policy demo_externals ''r'' ''u'' 1 k ''/weather'' 40 (demo_race demo_pair demo_tight)
      = (Ok i, demo_race demo_pair demo_tight)"
    by (simp add: enforce_agent_policy_def Let_def demo_pair_spend evaluate_def checked_add_u64_def)
  have "buy_check_claim demo_externals J 1500 ''r'' raw 40 (demo_race demo_pair demo_tight) = Ok (demo_claim_on k, 40, r)"
    using assms(1,4) demo_signed [of _ "demo_claim_on k"] demo_pair_get [OF assms(2)]
    by (simp add: buy_check_claim_def is_expired_iff store_get_def checked_add_u64_def)
  then show ?thesis
    using enf demo_shop_prices(3) assms(3)
    by (simp add: buy_prepare_def Let_def normalise_weather demo_race_ticket_def)
qed

lemma demo_race_finish:
  assumes "pg_inv demo_externals db" and "pg_online db" and "rows_of demo_externals db k = []"
    and "pg_view demo_externals db k = Some r" and "evaluate_claim r (demo_claim_on k) 1500 = Ok a"
  shows "\<exists>reply db' cdb'. buy_finish demo_externals J demo_web 1500 ''r'' [] (demo_race_ticket k i) (demo_race db cdb)
      = (Ok reply, demo_race db' cdb', [forward_url demo_shop_upstream ''/weather'' []])
    \<and> pg_admit_claim demo_externals (demo_claim_on k) 40 1500 db = (Ok (Ok a), db')"
proof -
  obtain db' where adm: "pg_admit_claim demo_externals (demo_claim_on k) 40 1500 db = (Ok (Ok a), db')"
    using pg_admit_accepts [OF assms(1,2), of "demo_claim_on k" r 1500 a 40] assms(3-5) by auto
  have "\<exists>cdb'. meter demo_externals i s p q d (demo_race db' cdb) = demo_race db' cdb'" for s p q d
    by (auto simp: meter_def split: option.splits)
  moreover obtain f where "forward demo_web ''/weather'' [] demo_shop_upstream = (Ok f, [forward_url demo_shop_upstream ''/weather'' []])"
    using demo_forward by blast
  ultimately show ?thesis using adm by (simp add: buy_finish_def demo_race_ticket_def store_admit_claim_def)
qed

definition demo_race_serde :: serde where
  "demo_race_serde = \<lparr>serde_claim = (\<lambda>bs. Some (demo_wire (demo_claim_on (if bs = [] then 7 else 8)))),
     serde_is_json = (\<lambda>_. False)\<rparr>"

lemma demo_race_headers:
  "decode_header demo_externals demo_race_serde [] = Some (demo_claim_on 7, 40)"
  "decode_header demo_externals demo_race_serde ''AA'' = Some (demo_claim_on 8, 40)"
  using demo_decode [of "demo_claim_on 7"] demo_decode [of "demo_claim_on 8"]
  by (simp_all add: decode_header_def demo_b64 demo_race_serde_def)

lemma demo_race_evaluates:
  "\<exists>a. evaluate_claim demo_record (demo_claim_on 7) 1500 = Ok a" "\<exists>a. evaluate_claim demo_second (demo_claim_on 8) 1500 = Ok a"
  by (simp_all add: evaluate_claim_Ok demo_record_def demo_second_def session_record_new_def)

theorem overlapping_purchases_overspend_witness:
  "\<exists>i\<^sub>1 i\<^sub>2 reply\<^sub>1 reply\<^sub>2 st\<^sub>3 st\<^sub>4 urls\<^sub>3 urls\<^sub>4 db' cdb' s'.
     buy_finish demo_externals demo_race_serde demo_web 1500 ''r'' [] (demo_race_ticket 7 i\<^sub>1) (demo_race demo_pair demo_tight)
       = (Ok reply\<^sub>1, st\<^sub>3, urls\<^sub>3)
   \<and> buy_finish demo_externals demo_race_serde demo_web 1500 ''r'' [] (demo_race_ticket 8 i\<^sub>2) st\<^sub>3 = (Ok reply\<^sub>2, st\<^sub>4, urls\<^sub>4)
   \<and> as_store st\<^sub>4 = Durable db' cdb' \<and> agent_spend (pk_show demo_externals 1) db' = Ok s' \<and> unat (sp_spent s') = 80"
proof -
  have r: "sr_agent demo_record = 1" "sr_cumulative_accepted demo_record = 0"
    "sr_agent demo_second = 1" "sr_cumulative_accepted demo_second = 0"
    by (simp_all add: demo_record_def demo_second_def session_record_new_def)
  obtain i\<^sub>1 where p\<^sub>1: "buy_prepare demo_externals demo_race_serde demo_web 1500 6 ''r'' ''u'' ''weather'' (Some [])
      (demo_race demo_pair demo_tight) = (Ok (Paying (demo_race_ticket 7 i\<^sub>1)), demo_race demo_pair demo_tight, [])"
    using demo_race_prepare [OF demo_race_headers(1) demo_pair_facts(4) r(1,2)] by blast
  obtain i\<^sub>2 where p\<^sub>2: "buy_prepare demo_externals demo_race_serde demo_web 1500 6 ''r'' ''u'' ''weather'' (Some ''AA'')
      (demo_race demo_pair demo_tight) = (Ok (Paying (demo_race_ticket 8 i\<^sub>2)), demo_race demo_pair demo_tight, [])"
    using demo_race_prepare [OF demo_race_headers(2) demo_pair_facts(5) r(3,4)] by blast
  obtain a reply\<^sub>1 db\<^sub>3 cdb\<^sub>3 where f\<^sub>1: "buy_finish demo_externals demo_race_serde demo_web 1500 ''r'' [] (demo_race_ticket 7 i\<^sub>1)
      (demo_race demo_pair demo_tight) = (Ok reply\<^sub>1, demo_race db\<^sub>3 cdb\<^sub>3, [forward_url demo_shop_upstream ''/weather'' []])"
    and adm: "pg_admit_claim demo_externals (demo_claim_on 7) 40 1500 demo_pair = (Ok (Ok a), db\<^sub>3)"
    using demo_race_evaluates(1) demo_race_finish [OF demo_pair_facts(1,2,3,4)] by meson
  have v: "pg_view demo_externals db\<^sub>3 8 = Some demo_second"
    using pgs.admit_view [OF demo_pair_facts(1) adm] demo_pair_facts(5) by auto
  have t: "pg_inv demo_externals db\<^sub>3 \<and> pg_online db\<^sub>3 \<and> rows_of demo_externals db\<^sub>3 8 = []"
    by (rule admit_tables [OF demo_pair_facts(1) adm, where P = "\<lambda>_. True"])
      (use demo_pair_facts(7) in \<open>auto simp: rows_of_def pk_show_inject [OF demo_pk_text]\<close>)
  obtain b reply\<^sub>2 db\<^sub>4 cdb\<^sub>4 where f\<^sub>2: "buy_finish demo_externals demo_race_serde demo_web 1500 ''r'' [] (demo_race_ticket 8 i\<^sub>2)
      (demo_race db\<^sub>3 cdb\<^sub>3) = (Ok reply\<^sub>2, demo_race db\<^sub>4 cdb\<^sub>4, [forward_url demo_shop_upstream ''/weather'' []])"
    using demo_race_evaluates(2) demo_race_finish [of db\<^sub>3 8 demo_second] t v by meson
  obtain rec where pol: "get_agent_by_pubkey (pk_show demo_externals 1) demo_tight = Ok (Some rec)"
    "ar_policy rec = Some \<lparr>ap_max_total = 60, ap_max_per_call = 40,
       ap_approval_threshold = None, ap_allowed_resources = None, ap_max_calls = None\<rparr>" using demo_tight_agent by blast
  have "\<exists>db' cdb' s'. as_store (demo_race db\<^sub>4 cdb\<^sub>4) = Durable db' cdb' \<and> agent_spend (pk_show demo_externals 1) db' = Ok s'
      \<and> unat (sp_spent s') = 80"
    using overlapping_purchases_overspend [OF demo_pair_facts(1) demo_race_simps(1) p\<^sub>1 p\<^sub>2 f\<^sub>1 f\<^sub>2 _ _ _ r(1,3) pol demo_pair_spend]
      demo_pair_facts(4,5) by (auto simp: demo_race_ticket_def)
  then show ?thesis using f\<^sub>1 f\<^sub>2 by blast
qed

end
