(* ===== verification/Composition.thy ===== *)
theory Composition
  imports Escrow_Props Gateway_Props Account
begin

section \<open>The gateway and the chain together\<close>

text \<open>
  One state for both halves of AgentPay: the chain with its clock, the gateway, and the
  settlements that are confirmed and not yet marked. The gateway reads the accounts of this
  chain through its node, and a settlement the node confirmed has run on it. Between the
  steps of the gateway anyone can open, settle or refund sessions directly, and other
  programs can act. The node may fail to answer at any time; when it answers, it tells what
  the chain holds. The gateway is configured for this program, without a legacy one.
\<close>

subsection \<open>The joint state and its steps\<close>

definition account_of :: "session \<Rightarrow> session_account" where
  \<comment> \<open>the fields in the account of a session, as its parser names them\<close>
  "account_of s = \<lparr>acc_agent = ses_agent s, acc_provider = ses_provider s,
     acc_settlement_authority = Some (ses_settlement_authority s), acc_mint = ses_mint s,
     acc_vault = ses_vault s, acc_deposited_total = ses_deposited_total s,
     acc_cumulative_settled = ses_cumulative_settled s, acc_refunded_total = ses_refunded_total s,
     acc_expires_at = ses_expires_at s, acc_session_id = ses_session_id s, acc_bump = ses_bump s,
     acc_vault_bump = ses_vault_bump s, acc_is_settled = ses_is_settled s\<rparr>"

record joint =
  jt_chain :: chain
  jt_clock :: i64
  jt_gateway :: gw
  jt_settling :: "pending_settlement list"

abbreviation jt_view :: "externals \<Rightarrow> joint \<Rightarrow> pubkey \<rightharpoonup> session_record" where
  "jt_view X y \<equiv> gw_view X (gs_state (jt_gateway y))"

abbreviation jt_log :: "joint \<Rightarrow> (claim \<times> claim_accepted) list" where
  "jt_log y \<equiv> gs_log (jt_gateway y)"

definition reads_chain :: "runtime \<Rightarrow> chain \<Rightarrow> app_state \<Rightarrow> bool" where
  "reads_chain R c st \<longleftrightarrow> as_program_id st = rt_program_id R \<and> as_legacy_program_id st = None
     \<and> (\<exists>f. as_session_fetcher st = Some f \<and> (\<forall>k owner data. f k = Ok (Some (owner, data)) \<longrightarrow>
          owner = rt_program_id R \<longrightarrow> (\<exists>s. ch_sessions c k = Some s \<and> data = account_bytes (account_of s))))"

definition marks_none :: "externals \<Rightarrow> gw \<Rightarrow> gw \<Rightarrow> bool" where
  \<comment> \<open>no session is newly marked as settled\<close>
  "marks_none X g g' \<longleftrightarrow> (\<forall>k r'. gw_view X (gs_state g') k = Some r' \<longrightarrow> sr_is_settled r' \<longrightarrow>
     (\<exists>r. gw_view X (gs_state g) k = Some r \<and> sr_is_settled r))"

definition settlement_txn :: "externals \<Rightarrow> runtime \<Rightarrow> solana_ids \<Rightarrow> i64 \<Rightarrow> pending_settlement \<Rightarrow> txn" where
  \<comment> \<open>the transaction the gateway sent, about to execute its second instruction\<close>
  "settlement_txn X R I now p = \<lparr>tx_now = now, tx_signers = [ps_settler p],
     tx_instructions = settlement_instructions X R I (ps_program p) (ps_settler p) (sr_provider (ps_record p))
       (ps_session p) (sr_mint (ps_record p)) (so_token_program (ps_outcome p)) (sc_claim (ps_highest p))
       (sc_signature (ps_highest p)) (sr_agent (ps_record p)) (ps_merkle_root p),
     tx_current_index = 1\<rparr>"

inductive joint_step :: "externals \<Rightarrow> runtime \<Rightarrow> solana_ids \<Rightarrow> serde \<Rightarrow> web \<Rightarrow> joint \<Rightarrow> joint \<Rightarrow> bool"
  for X R I J W where
  jt_tick: "sint (jt_clock y) \<le> sint t \<Longrightarrow> joint_step X R I J W y (y\<lparr>jt_clock := t\<rparr>)"
| jt_open: "no_pda_signs (jt_chain y) tx \<Longrightarrow> tx_now tx = jt_clock y \<Longrightarrow>
     open_session X R (jt_chain y) tx a sid dep exp auth = Ok c' \<Longrightarrow> joint_step X R I J W y (y\<lparr>jt_chain := c'\<rparr>)"
| jt_settle: "tx_now tx = jt_clock y \<Longrightarrow> settle_session X R (jt_chain y) tx b amt nonce exp mroot = Ok c' \<Longrightarrow>
     joint_step X R I J W y (y\<lparr>jt_chain := c'\<rparr>)"
| jt_refund: "tx_now tx = jt_clock y \<Longrightarrow> refund_session X R (jt_chain y) tx r = Ok c' \<Longrightarrow>
     joint_step X R I J W y (y\<lparr>jt_chain := c'\<rparr>)"
| jt_others: "others (jt_chain y) c' \<Longrightarrow> joint_step X R I J W y (y\<lparr>jt_chain := c'\<rparr>)"
| jt_node: "joint_step X R I J W y (y\<lparr>jt_gateway := (jt_gateway y)\<lparr>gs_state := (gs_state (jt_gateway y))
       \<lparr>as_session_fetcher := f, as_rpc := rpc\<rparr>\<rparr>\<rparr>)"
     \<comment> \<open>what the node answers changes with the chain, and it may stop answering\<close>
| jt_serve: "reads_chain R (jt_chain y) (gs_state (jt_gateway y)) \<Longrightarrow> gw_step X R I J W (jt_gateway y) g' \<Longrightarrow>
     marks_none X (jt_gateway y) g' \<Longrightarrow> joint_step X R I J W y (y\<lparr>jt_gateway := g'\<rparr>)"
| jt_submit: "reads_chain R (jt_chain y) (gs_state (jt_gateway y)) \<Longrightarrow>
     settle_submit X R I rid s mr (gs_state (jt_gateway y)) = Ok p \<Longrightarrow>
     run_settle X R (jt_chain y) (settlement_txn X R I (jt_clock y) p) = Ok c' \<Longrightarrow>
     joint_step X R I J W y (y\<lparr>jt_chain := c', jt_settling := p # jt_settling y\<rparr>)"
| jt_mark: "p \<in> set (jt_settling y) \<Longrightarrow> joint_step X R I J W y (y\<lparr>jt_gateway := (jt_gateway y)
       \<lparr>gs_state := settle_mark X p (gs_state (jt_gateway y))\<rparr>, jt_settling := remove1 p (jt_settling y)\<rparr>)"

definition joint_start :: "externals \<Rightarrow> joint \<Rightarrow> bool" where
  "joint_start X y \<longleftrightarrow> genesis (jt_chain y) \<and> gw_start X (jt_gateway y) \<and> jt_settling y = []"

subsection \<open>What a transaction of the chain does to a session\<close>

definition untouched :: "i64 \<Rightarrow> session \<Rightarrow> bool" where
  \<comment> \<open>an unsettled session has paid nothing, and was refunded only after its expiry\<close>
  "untouched now s \<longleftrightarrow> (\<not> ses_is_settled s \<longrightarrow> ses_cumulative_settled s = 0)
     \<and> (ses_refunded_total s \<noteq> 0 \<longrightarrow> ses_is_settled s \<or> sint (ses_expires_at s) + 30 < sint now)"

definition carries_on :: "chain \<Rightarrow> chain \<Rightarrow> bool" where
  "carries_on c c' \<longleftrightarrow> (\<forall>k s. ch_sessions c k = Some s \<longrightarrow>
     (\<exists>s'. ch_sessions c' k = Some s' \<and> continues s s' \<and> (ses_is_settled s \<longrightarrow> ses_is_settled s')))"

definition all_untouched :: "i64 \<Rightarrow> chain \<Rightarrow> bool" where
  "all_untouched now c \<longleftrightarrow> (\<forall>k s. ch_sessions c k = Some s \<longrightarrow> untouched now s)"

lemma continues_refl [simp]: "continues s s"
  by (simp add: continues_def)

lemma settle_carries_on:
  assumes "settle_session X R c tx b amt nonce exp mroot = Ok c'"
  shows "carries_on c c'"
  unfolding carries_on_def
proof (intro allI impI)
  fix k s assume s: "ch_sessions c k = Some s"
  show "\<exists>s'. ch_sessions c' k = Some s' \<and> continues s s' \<and> (ses_is_settled s \<longrightarrow> ses_is_settled s')"
    using settle_session_at [OF assms s] by (auto simp: continues_def session_terms_def)
qed

lemma refund_carries_on:
  assumes "refund_session X R c tx a = Ok c'"
  shows "carries_on c c'"
  unfolding carries_on_def
proof (intro allI impI)
  fix k s assume s: "ch_sessions c k = Some s"
  show "\<exists>s'. ch_sessions c' k = Some s' \<and> continues s s' \<and> (ses_is_settled s \<longrightarrow> ses_is_settled s')"
    using refund_session_at [OF assms s] by (auto simp: continues_def session_terms_def)
qed

lemma open_carries_on: "open_session X R c tx a sid dep exp auth = Ok c' \<Longrightarrow> carries_on c c'"
  using open_session_at by (fastforce simp: carries_on_def)

lemma others_carries_on: "others c c' \<Longrightarrow> carries_on c c'"
  by (auto simp: carries_on_def others_def)

lemma untouched_upd:
  "all_untouched now c \<Longrightarrow> ch_sessions c' = (ch_sessions c)(k \<mapsto> s) \<Longrightarrow> untouched now s \<Longrightarrow> all_untouched now c'"
  by (simp add: all_untouched_def)

lemma open_untouched:
  assumes "open_session X R c tx a sid dep exp auth = Ok c'" and "all_untouched now c"
  shows "all_untouched now c'"
proof -
  obtain b vb where "ch_sessions c' = (ch_sessions c)(oa_session a \<mapsto> new_session a sid dep exp auth b vb)"
    using assms(1) by (auto simp: open_session_Ok)
  then show ?thesis by (rule untouched_upd [OF assms(2)]) (simp add: untouched_def new_session_def)
qed

lemma settle_untouched:
  assumes "settle_session X R c tx b amt nonce exp mroot = Ok c'" and "all_untouched now c"
  shows "all_untouched now c'"
proof -
  obtain s where "ch_sessions c' = (ch_sessions c)(sa_session b \<mapsto>
      s\<lparr>ses_cumulative_settled := amt, ses_is_settled := True\<rparr>)" using assms(1) by (auto simp: settle_session_Ok)
  then show ?thesis by (rule untouched_upd [OF assms(2)]) (simp add: untouched_def)
qed

lemma refund_untouched:
  assumes "refund_session X R c tx a = Ok c'" and "all_untouched (tx_now tx) c"
  shows "all_untouched (tx_now tx) c'"
proof -
  from assms(1) obtain s e r f where
    s: "refund_session_accounts X R c tx a = Ok s" and chk: "refund_checks tx (ra_caller a) s = Ok (e, r)"
    and c': "ch_sessions c' = (ch_sessions c)(ra_session a \<mapsto> s\<lparr>ses_refunded_total := f\<rparr>)"
    by (auto simp: refund_session_Ok)
  have at: "ch_sessions c (ra_session a) = Some s"
    using s by (auto simp: refund_session_accounts_Ok load_session_account_Ok)
  obtain l where l: "checked_add_i64 (ses_expires_at s) CLOCK_SKEW_TOLERANCE_SECS = Some l"
    "e \<longleftrightarrow> sint l < sint (tx_now tx)" "e \<or> ses_is_settled s" using chk by (auto simp: refund_checks_Ok)
  have "sint l = sint (ses_expires_at s) + 30"
    using checked_add_i64_sint [OF l(1)] by (simp add: CLOCK_SKEW_TOLERANCE_SECS_def)
  moreover have "untouched (tx_now tx) s" using assms(2) at by (simp add: all_untouched_def)
  ultimately have "untouched (tx_now tx) (s\<lparr>ses_refunded_total := f\<rparr>)" using l(2,3) by (auto simp: untouched_def)
  then show ?thesis by (rule untouched_upd [OF assms(2) c'])
qed

lemma others_untouched: "others c c' \<Longrightarrow> all_untouched now c \<Longrightarrow> all_untouched now c'"
  by (simp add: all_untouched_def others_def)

lemma later_untouched: "all_untouched now c \<Longrightarrow> sint now \<le> sint now' \<Longrightarrow> all_untouched now' c"
  by (fastforce simp: all_untouched_def untouched_def)

lemma run_settle_settles:
  assumes "run_settle X R c tx = Ok c'"
  obtains b amt nonce exp mroot where "settle_session X R c tx b amt nonce exp mroot = Ok c'"
  using assms by (auto simp: run_settle_def Let_def split: prod.splits if_splits)

lemma run_settlement_txn:
  assumes "run_settle X R c (settlement_txn X R I now p) = Ok c'"
  shows "\<exists>s. ch_sessions c' (ps_session p) = Some s \<and> ses_is_settled s
    \<and> ses_cumulative_settled s = cl_cumulative_amount (sc_claim (ps_highest p)) \<and> ses_cumulative_settled s \<noteq> 0"
proof -
  let ?cl = "sc_claim (ps_highest p)"
  define ix where "ix = tx_instructions (settlement_txn X R I now p) ! 1"
  then obtain vault pta record_key where ix: "ix = build_settle_instruction X R I (ps_program p) (ps_settler p) (ps_session p)
      record_key vault pta (sr_mint (ps_record p)) (so_token_program (ps_outcome p)) ?cl (ps_merkle_root p)"
    by (simp add: settlement_txn_def settlement_instructions_def Let_def)
  note dec = build_settle_instruction_decodes [OF ix]
  have cur: "tx_instructions (settlement_txn X R I now p) ! tx_current_index (settlement_txn X R I now p) = ix"
    by (simp add: ix_def settlement_txn_def)
  have "settle_session X R c (settlement_txn X R I now p) (settle_accounts_of ix) (cl_cumulative_amount ?cl)
      (cl_nonce ?cl) (cl_expires_at ?cl) (ps_merkle_root p) = Ok c'"
    using assms dec(2) unfolding run_settle_def Let_def cur by (simp split: if_splits)
  then show ?thesis
    using dec(1) by (auto simp: settle_session_Ok settle_checks_Ok)
qed

subsection \<open>The link between the two\<close>

definition agrees :: "session_record \<Rightarrow> session \<Rightarrow> bool" where
  "agrees r s \<longleftrightarrow> sr_agent r = ses_agent s \<and> sr_provider r = ses_provider s \<and> sr_mint r = ses_mint s
     \<and> sr_deposited_total r = ses_deposited_total s \<and> sr_expires_at r = ses_expires_at s"

definition paid_claim :: "pubkey \<Rightarrow> (claim \<times> claim_accepted) list \<Rightarrow> session \<Rightarrow> bool" where
  \<comment> \<open>the chain has paid a claim the gateway accepted\<close>
  "paid_claim k log s \<longleftrightarrow> ses_is_settled s
     \<and> (\<exists>e \<in> set (log_of k log). cl_cumulative_amount (fst e) \<le> ses_cumulative_settled s)"

definition linked :: "chain \<Rightarrow> (pubkey \<rightharpoonup> session_record) \<Rightarrow> (claim \<times> claim_accepted) list \<Rightarrow> bool" where
  "linked c v log \<longleftrightarrow> (\<forall>k r. v k = Some r \<longrightarrow> (\<exists>s. ch_sessions c k = Some s \<and> agrees r s
     \<and> (sr_is_settled r \<longrightarrow> paid_claim k log s)))"

definition paid_on :: "chain \<Rightarrow> (claim \<times> claim_accepted) list \<Rightarrow> pubkey \<Rightarrow> bool" where
  "paid_on c log k \<longleftrightarrow> (\<exists>s. ch_sessions c k = Some s \<and> paid_claim k log s)"

definition joint_inv :: "externals \<Rightarrow> joint \<Rightarrow> bool" where
  "joint_inv X y \<longleftrightarrow> gw_ok X (jt_gateway y) \<and> linked (jt_chain y) (jt_view X y) (jt_log y)
     \<and> all_untouched (jt_clock y) (jt_chain y)
     \<and> (\<forall>p \<in> set (jt_settling y). paid_on (jt_chain y) (jt_log y) (ps_session p))"

lemma linkedD: "linked c v log \<Longrightarrow> v k = Some r \<Longrightarrow> ch_sessions c k = Some s \<Longrightarrow>
    agrees r s \<and> (sr_is_settled r \<longrightarrow> paid_claim k log s)"
  unfolding linked_def by (metis option.inject)

lemma paid_claim_later: "continues s s' \<Longrightarrow> (ses_is_settled s \<longrightarrow> ses_is_settled s') \<Longrightarrow> paid_claim k log s \<Longrightarrow> paid_claim k log s'"
  by (auto simp: paid_claim_def continues_def) (metis fst_conv order.trans)

lemma paid_on_later:
  assumes "carries_on c c'" and "paid_on c log k"
  shows "paid_on c' log k"
proof -
  obtain s where s: "ch_sessions c k = Some s" "paid_claim k log s" using assms(2) by (auto simp: paid_on_def)
  obtain s' where "ch_sessions c' k = Some s'" "continues s s'" "ses_is_settled s \<longrightarrow> ses_is_settled s'"
    using assms(1) s(1) by (auto simp: carries_on_def)
  then show ?thesis using paid_claim_later s(2) by (auto simp: paid_on_def)
qed

lemma linked_later:
  assumes "carries_on c c'" and "linked c v log"
  shows "linked c' v log"
  unfolding linked_def
proof (intro allI impI)
  fix k r assume "v k = Some r"
  then obtain s where s: "ch_sessions c k = Some s" "agrees r s" "sr_is_settled r \<longrightarrow> paid_claim k log s"
    using assms(2) by (auto simp: linked_def)
  obtain s' where s': "ch_sessions c' k = Some s'" "continues s s'" "ses_is_settled s \<longrightarrow> ses_is_settled s'"
    using assms(1) s(1) by (auto simp: carries_on_def)
  have "agrees r s'" using s(2) s'(2) by (auto simp: agrees_def continues_def session_terms_def)
  then show "\<exists>s. ch_sessions c' k = Some s \<and> agrees r s \<and> (sr_is_settled r \<longrightarrow> paid_claim k log s)"
    using s(3) s' paid_claim_later by blast
qed

lemma chain_keeps_joint:
  assumes "joint_inv X y" and "carries_on (jt_chain y) c'" and "all_untouched (jt_clock y) c'"
  shows "joint_inv X (y\<lparr>jt_chain := c'\<rparr>)"
  using assms paid_on_later [OF assms(2)] linked_later [OF assms(2)] by (simp add: joint_inv_def)

lemma log_of_grows: "set (log_of k log) \<subseteq> set (log_of k (log @ l))"
  by (simp add: log_of_def)

lemma paid_claim_grows: "paid_claim k log s \<Longrightarrow> paid_claim k (log @ l) s"
  using log_of_grows [of k log l] by (auto simp: paid_claim_def)

subsection \<open>Only opening adds a session\<close>

lemma admit_keeps_dom:
  assumes "gw_inv X st" and "store_admit_claim X c sig now (as_store st) = (ares, b)"
  shows "dom (backend_view X b) = dom (gw_view X st)"
  using gws.admit_view [OF assms] by (auto split: sum.splits if_splits)

lemma gw_step_adds:
  assumes "gw_step X R I J W g g'" and ok: "gw_ok X g"
    and "gw_view X (gs_state g) k = None" and "gw_view X (gs_state g') k = Some r"
  obtains rid req res where "route_open_session X rid req (gs_state g) = (res, gs_state g')"
proof -
  have inv: "gw_inv X (gs_state g)" using ok by (simp add: gw_ok_def)
  have new: "dom (gw_view X (gs_state g')) \<noteq> dom (gw_view X (gs_state g))" using assms(3,4) by (metis domIff option.distinct(1))
  have marked: "dom (gw_view X (settle_mark X p (gs_state g))) = dom (gw_view X (gs_state g))" for p
    using gws.settled_view [OF inv prod.collapse [symmetric], of "ps_session p"] by (auto simp: settle_mark_def split: if_splits)
  show thesis
    using assms(1)
  proof cases
    case gw_open
    then show thesis using that by simp
  next
    case (gw_verify now rid w res st')
    from inv gw_verify(2) have "dom (gw_view X st') = dom (gw_view X (gs_state g))"
      by (cases rule: verify_claim_cases) (simp_all add: admit_keeps_dom [OF inv])
    then show thesis using new gw_verify(1) by simp
  next
    case (gw_reconcile rid s res st')
    then have "dom (gw_view X st') = dom (gw_view X (gs_state g))"
    proof (cases rule: reconcile_session_cases [OF gw_reconcile(2)])
      case (2 q)
      then show ?thesis using gws.verified_view [OF inv prod.collapse [symmetric], of q]
        by (auto split: if_splits)
    qed simp
    then show thesis using new gw_reconcile(1) by simp
  next
    case (gw_settle rid s mr res st')
    consider "st' = gs_state g" | p where "st' = settle_mark X p (gs_state g)"
      using gw_settle(2) by (auto simp: route_settle_session_def split: sum.splits)
    then show thesis using new gw_settle(1) marked by cases simp_all
  next
    case (gw_mark p)
    then show thesis using new marked by simp
  next
    case (gw_prepare now instant rid uuid resource header res st' urls)
    then have "gw_view X st' = gw_view X (gs_state g)"
      using same_sessions_view [OF buy_prepare_same] by (metis fst_conv snd_conv)
    then show thesis using new gw_prepare(1) by simp
  next
    case (gw_finish t now rid query res st' urls)
    have "dom (gw_view X st') = dom (gw_view X (gs_state g))"
      using same_sessions_view [OF buy_finish_sessions [OF gw_finish(3)], of X]
        admit_keeps_dom [OF inv prod.collapse [symmetric], of "bt_claim t" "bt_signature t" now] by simp
    then show thesis using new gw_finish(1) by simp
  next
    case gw_env
    then show thesis using new by simp
  qed
qed

text \<open>
  The guard \<open>marks_none\<close> excludes the settlements only, which the joint steps give in two
  parts: no other request marks a session.
\<close>

lemma gw_step_marks:
  assumes "gw_step X R I J W g g'" and ok: "gw_ok X g"
  shows "marks_none X g g' \<or> (\<exists>p. gs_state g' = settle_mark X p (gs_state g))"
proof -
  have inv: "gw_inv X (gs_state g)" using ok by (simp add: gw_ok_def)
  have same: "marks_none X g g'" if "gw_view X (gs_state g') = gw_view X (gs_state g)"
    using that by (simp add: marks_none_def)
  have admit: "marks_none X g g'" if "gw_view X (gs_state g') = backend_view X (snd (store_admit_claim X c sig now (as_store (gs_state g))))"
    for c sig now
    using gws.admit_view [OF inv prod.collapse [symmetric], of c sig now] that
    by (fastforce simp: marks_none_def advance_def split: sum.splits if_splits)
  show ?thesis
    using assms(1)
  proof cases
    case (gw_open rid req res st')
    consider "st' = gs_state g"
      | r where "fresh_record r" "st' = gs_state g\<lparr>as_store := snd (store_open X r (as_store (gs_state g)))\<rparr>"
      using route_open_session_cases [OF gw_open(2)] by (metis snd_conv)
    then show ?thesis
    proof cases
      case (2 r)
      then show ?thesis using gws.opn_view [OF inv 2(1) prod.collapse [symmetric]] gw_open(1)
        by (auto simp: marks_none_def fresh_record_def split: if_splits)
    qed (use gw_open(1) same in simp)
  next
    case (gw_verify now rid w res st')
    from inv gw_verify(2) show ?thesis
    proof (cases rule: verify_claim_cases)
      case (ran c sig r ares b)
      then show ?thesis using gw_verify(1) admit [of c sig now] by simp
    qed (use gw_verify(1) same in simp)
  next
    case (gw_reconcile rid s res st')
    then show ?thesis
    proof (cases rule: reconcile_session_cases [OF gw_reconcile(2)])
      case (2 q)
      then show ?thesis using gws.verified_view [OF inv prod.collapse [symmetric], of q] gw_reconcile(1)
        by (auto simp: marks_none_def split: if_splits)
    qed (use gw_reconcile(1) same in simp)
  next
    case (gw_settle rid s mr res st')
    then show ?thesis using same by (auto simp: route_settle_session_def split: sum.splits)
  next
    case (gw_mark p)
    then show ?thesis by auto
  next
    case (gw_prepare now instant rid uuid resource header res st' urls)
    then have "gw_view X st' = gw_view X (gs_state g)"
      using same_sessions_view [OF buy_prepare_same] by (metis fst_conv snd_conv)
    then show ?thesis using same gw_prepare(1) by simp
  next
    case (gw_finish t now rid query res st' urls)
    then show ?thesis
      using same_sessions_view [OF buy_finish_sessions [OF gw_finish(3)], of X]
        admit [of "bt_claim t" "bt_signature t" now] by simp
  next
    case gw_env
    then show ?thesis using same by simp
  qed
qed

lemma opened_account:
  assumes "reads_chain R c st" and "as_session_fetcher st = Some f" and "f k = Ok (Some (owner, data))"
    and "owner = as_program_id st \<or> as_legacy_program_id st = Some owner" and "parse data = Ok acc"
  shows "\<exists>s. ch_sessions c k = Some s \<and> acc = account_of s"
proof -
  have "owner = rt_program_id R" using assms(1,4) by (auto simp: reads_chain_def)
  then obtain s where "ch_sessions c k = Some s" "data = account_bytes (account_of s)"
    using assms(1-3) by (auto simp: reads_chain_def)
  then show ?thesis using assms(5) by (simp add: parse_account_bytes)
qed

lemma serve_linked:
  assumes ok: "gw_ok X g" and reads: "reads_chain R c (gs_state g)" and step: "gw_step X R I J W g g'"
    and none: "marks_none X g g'" and linked: "linked c (gw_view X (gs_state g)) (gs_log g)"
  shows "linked c (gw_view X (gs_state g')) (gs_log g')"
  unfolding linked_def
proof (intro allI impI)
  fix k r' assume r': "gw_view X (gs_state g') k = Some r'"
  obtain log where ev: "evolves X (gw_view X (gs_state g)) (gw_view X (gs_state g')) log" "gs_log g' = gs_log g @ log"
    using gw_step_evolves [OF step ok] by blast
  show "\<exists>s. ch_sessions c k = Some s \<and> agrees r' s \<and> (sr_is_settled r' \<longrightarrow> paid_claim k (gs_log g') s)"
  proof (cases "gw_view X (gs_state g) k")
    case (Some r)
    then have "record_ok k r" using ok by (simp add: gw_ok_def)
    moreover have "progress k (Some r) (Some r') (log_of k log)" using ev(1) Some r' by (metis evolves_def)
    ultimately have t: "record_terms r' = record_terms r" using progress_terms by blast
    obtain s where s: "ch_sessions c k = Some s" "agrees r s" "sr_is_settled r \<longrightarrow> paid_claim k (gs_log g) s"
      using linked Some by (auto simp: linked_def)
    moreover have "sr_is_settled r' \<longrightarrow> sr_is_settled r" using none r' Some unfolding marks_none_def by (metis option.inject)
    ultimately show ?thesis
      using t paid_claim_grows [of k "gs_log g" _ log] by (auto simp: ev(2) agrees_def record_terms_def)
  next
    case None
    then obtain rid req res where o: "route_open_session X rid req (gs_state g) = (res, gs_state g')"
      using gw_step_adds [OF step ok _ r'] by blast
    obtain f where f: "as_session_fetcher (gs_state g) = Some f" using reads by (auto simp: reads_chain_def)
    have inv: "gw_inv X (gs_state g)" using ok by (simp add: gw_ok_def)
    note b = opened_backed [OF inv f o]
    then obtain resp where "res = Ok resp" using None r' by (cases res) auto
    then obtain q r owner data acc where q: "gw_view X (gs_state g') = (gw_view X (gs_state g))(q \<mapsto> r)"
      "f q = Ok (Some (owner, data))" "owner = as_program_id (gs_state g) \<or> as_legacy_program_id (gs_state g) = Some owner"
      "parse data = Ok acc" "acc_agent acc = sr_agent r" "acc_provider acc = sr_provider r" "acc_mint acc = sr_mint r"
      "acc_deposited_total acc = sr_deposited_total r" "acc_expires_at acc = sr_expires_at r"
      using b by auto
    have "q = k" "r = r'" using None r' q(1) by (auto split: if_splits)
    moreover obtain s where "ch_sessions c q = Some s" "acc = account_of s"
      using opened_account [OF reads f q(2,3,4)] by blast
    moreover have "\<not> sr_is_settled r'" using none r' None unfolding marks_none_def by (metis option.distinct(1))
    ultimately show ?thesis using q(5-9) by (auto simp: agrees_def account_of_def)
  qed
qed

subsection \<open>A settlement pays an accepted claim\<close>

lemma ladder_top: "ladder a n log a' n' \<Longrightarrow> a \<noteq> a' \<Longrightarrow> \<exists>e \<in> set log. cl_cumulative_amount (fst e) = a'"
proof (induction a n log a' n' rule: ladder.induct)
  case (2 a n c acc log a' n')
  then show ?case by (cases "cl_cumulative_amount c = a'") auto
qed simp

lemma ladder_le: "ladder a n log a' n' \<Longrightarrow> a \<le> a'"
  by (induction a n log a' n' rule: ladder.induct) (auto intro: order.trans order_less_imp_le)

lemma ladder_up:
  assumes "ladder a None log a' (Some m)"
  shows "a < a'"
proof (cases log)
  case (Cons e rest)
  then obtain c acc where "e = (c, acc)" "a < cl_cumulative_amount c"
    "ladder (cl_cumulative_amount c) (Some (cl_nonce c)) rest a' (Some m)" using assms by (cases e) auto
  then show ?thesis using ladder_le order_less_le_trans by blast
qed (use assms in simp)

lemma kept_claim_accepted:
  assumes ok: "gw_ok X g" and r: "gw_view X (gs_state g) k = Some r" "sr_highest_claim r = Some sc"
  shows "cl_session (sc_claim sc) = k" and "cl_cumulative_amount (sc_claim sc) = sr_cumulative_accepted r"
    and "signed_by X (sr_agent r) sc" and "sr_cumulative_accepted r \<le> sr_deposited_total r"
    and "total_delta (log_of k (gs_log g)) = unat (sr_cumulative_accepted r)" and "sr_cumulative_accepted r \<noteq> 0"
proof -
  have rk: "record_ok k r" "record_signed X r" using ok r(1) by (auto simp: gw_ok_def)
  then show "cl_session (sc_claim sc) = k" "cl_cumulative_amount (sc_claim sc) = sr_cumulative_accepted r"
    "signed_by X (sr_agent r) sc" "sr_cumulative_accepted r \<le> sr_deposited_total r"
    using r(2) by (simp_all add: record_ok_def record_signed_def)
  have p: "progress k None (Some r) (log_of k (gs_log g))" using ok r(1) by (metis gw_ok_def)
  then show "total_delta (log_of k (gs_log g)) = unat (sr_cumulative_accepted r)"
    using progress_NoneD ladder_total by fastforce
  have "sr_last_nonce r = Some (cl_nonce (sc_claim sc))" using rk(1) r(2) by (simp add: record_ok_def)
  then show "sr_cumulative_accepted r \<noteq> 0" using progress_NoneD [OF p] ladder_up by fastforce
qed

lemma accepted_in_log:
  assumes ok: "gw_ok X g" and r: "gw_view X (gs_state g) k = Some r" and pos: "sr_cumulative_accepted r \<noteq> 0"
  shows "\<exists>e \<in> set (log_of k (gs_log g)). cl_cumulative_amount (fst e) = sr_cumulative_accepted r"
proof -
  have "progress k None (Some r) (log_of k (gs_log g))" using ok r by (metis gw_ok_def)
  then show ?thesis using progress_NoneD ladder_top pos by metis
qed

lemma submitted_paid:
  assumes ok: "gw_ok X g" and sub: "settle_submit X R I rid s mr (gs_state g) = Ok p"
    and run: "run_settle X R c (settlement_txn X R I now p) = Ok c'"
  shows "paid_on c' (gs_log g) (ps_session p)"
proof -
  have inv: "gw_inv X (gs_state g)" using ok by (simp add: gw_ok_def)
  have r: "gw_view X (gs_state g) (ps_session p) = Some (ps_record p)" "sr_highest_claim (ps_record p) = Some (ps_highest p)"
    using sub gws.get_view [OF inv] by (auto elim!: settle_submit_Ok)
  obtain s' where s': "ch_sessions c' (ps_session p) = Some s'" "ses_is_settled s'"
    "ses_cumulative_settled s' = cl_cumulative_amount (sc_claim (ps_highest p))" "ses_cumulative_settled s' \<noteq> 0"
    using run_settlement_txn [OF run] by blast
  have "ses_cumulative_settled s' = sr_cumulative_accepted (ps_record p)" using s'(3) kept_claim_accepted(2) [OF ok r] by simp
  then obtain e where "e \<in> set (log_of (ps_session p) (gs_log g))" "cl_cumulative_amount (fst e) = ses_cumulative_settled s'"
    using accepted_in_log [OF ok r(1)] s'(4) by auto
  then show ?thesis using s'(1,2) by (auto simp: paid_on_def paid_claim_def intro: bexI [of _ e])
qed

lemma mark_linked:
  assumes inv: "gw_inv X st" and l: "linked c (gw_view X st) log" and p: "paid_on c log (ps_session p)"
  shows "linked c (gw_view X (settle_mark X p st)) log"
  using gws.settled_view [OF inv prod.collapse [symmetric], of "ps_session p"]
proof
  assume "\<exists>r. gw_view X st (ps_session p) = Some r
    \<and> backend_view X (snd (store_mark_settled X (ps_session p) (as_store st)))
      = (gw_view X st)(ps_session p \<mapsto> r\<lparr>sr_is_settled := True\<rparr>)"
  then obtain r where r: "gw_view X st (ps_session p) = Some r"
    "gw_view X (settle_mark X p st) = (gw_view X st)(ps_session p \<mapsto> r\<lparr>sr_is_settled := True\<rparr>)"
    by (auto simp: settle_mark_def)
  obtain s where s: "ch_sessions c (ps_session p) = Some s" "paid_claim (ps_session p) log s"
    using p by (auto simp: paid_on_def)
  have "agrees r s" using linkedD [OF l r(1) s(1)] by simp
  then show ?thesis using l s by (auto simp: linked_def r(2) agrees_def)
qed (use l in \<open>simp add: settle_mark_def\<close>)

lemma joint_step_inv:
  assumes "joint_step X R I J W y y'" and inv: "joint_inv X y"
  shows "joint_inv X y'"
proof -
  have un: "all_untouched (jt_clock y) (jt_chain y)" and ok: "gw_ok X (jt_gateway y)"
    and li: "linked (jt_chain y) (jt_view X y) (jt_log y)" using inv by (simp_all add: joint_inv_def)
  then have gi: "gw_inv X (gs_state (jt_gateway y))" by (simp add: gw_ok_def)
  show ?thesis
    using assms(1)
  proof cases
    case (jt_tick t)
    then show ?thesis using inv later_untouched [OF un] by (simp add: joint_inv_def)
  next
    case (jt_open tx a sid dep exp auth c')
    then show ?thesis
      using chain_keeps_joint [OF inv open_carries_on open_untouched [OF _ un]] by blast
  next
    case (jt_settle tx b amt nonce exp mroot c')
    then show ?thesis
      using chain_keeps_joint [OF inv settle_carries_on settle_untouched [OF _ un]] by blast
  next
    case (jt_refund tx r c')
    then show ?thesis
      using chain_keeps_joint [OF inv refund_carries_on [OF jt_refund(3)]] refund_untouched [OF jt_refund(3)] un by simp
  next
    case (jt_others c')
    then show ?thesis using chain_keeps_joint [OF inv others_carries_on others_untouched [OF _ un]] by blast
  next
    case (jt_node rpc f)
    let ?g = "(jt_gateway y)\<lparr>gs_state := (gs_state (jt_gateway y))\<lparr>as_session_fetcher := f, as_rpc := rpc\<rparr>\<rparr>"
    have "gw_step X R I J W (jt_gateway y) ?g" by (rule gw_step.gw_env) (use gi in simp_all)
    then show ?thesis using inv gw_ok_step [OF _ ok] jt_node by (simp add: joint_inv_def)
  next
    case (jt_serve g')
    obtain log where log: "gs_log g' = gs_log (jt_gateway y) @ log" using gw_step_evolves [OF jt_serve(3) ok] by blast
    have "paid_on c (gs_log g') k" if "paid_on c (jt_log y) k" for c k
      using that paid_claim_grows [of k "jt_log y" _ log] by (auto simp: paid_on_def log)
    then show ?thesis
      using inv gw_ok_step [OF jt_serve(3) ok] serve_linked [OF ok jt_serve(2,3,4) li] jt_serve(1)
      by (simp add: joint_inv_def)
  next
    case (jt_submit rid s mr p c')
    obtain b amt nonce exp mroot where st: "settle_session X R (jt_chain y) (settlement_txn X R I (jt_clock y) p) b amt nonce exp mroot = Ok c'"
      using jt_submit(4) by (rule run_settle_settles)
    have "joint_inv X (y\<lparr>jt_chain := c'\<rparr>)"
      by (rule chain_keeps_joint [OF inv settle_carries_on [OF st] settle_untouched [OF st un]])
    then show ?thesis
      using submitted_paid [OF ok jt_submit(3,4)] jt_submit(1) by (simp add: joint_inv_def)
  next
    case (jt_mark p)
    let ?g = "(jt_gateway y)\<lparr>gs_state := settle_mark X p (gs_state (jt_gateway y))\<rparr>"
    have "gw_ok X ?g" by (rule gw_ok_step [OF _ ok, of R I J W]) (rule gw_step.gw_mark)
    moreover have "paid_on (jt_chain y) (jt_log y) (ps_session p)" using inv jt_mark(2) by (simp add: joint_inv_def)
    ultimately show ?thesis
      using inv mark_linked [OF gi li] set_remove1_subset [of p "jt_settling y"] jt_mark(1)
      by (auto simp: joint_inv_def)
  qed
qed

interpretation joint: preserved "joint_step X R I J W" "joint_inv X" for X R I J W
  by unfold_locales (rule joint_step_inv)

lemma joint_reachable:
  assumes "joint_start X y\<^sub>0" and "(joint_step X R I J W)\<^sup>*\<^sup>* y\<^sub>0 y"
  shows "joint_inv X y"
proof (rule joint.reach_keeps [OF assms(2)])
  have "gw_ok X (jt_gateway y\<^sub>0)"
    using assms(1) gw_ok_reachable [OF _ rtranclp.rtrancl_refl] by (auto simp: joint_start_def)
  then show "joint_inv X y\<^sub>0"
    using assms(1) by (auto simp: joint_inv_def joint_start_def genesis_def gw_start_def linked_def all_untouched_def)
qed

lemma joint_chain:
  assumes "(joint_step X R I J W)\<^sup>*\<^sup>* y\<^sub>0 y"
  shows "(chain_step X R)\<^sup>*\<^sup>* (jt_chain y\<^sub>0) (jt_chain y)"
  using assms
proof (induction rule: rtranclp_induct)
  case (step y z)
  have "chain_step X R (jt_chain y) (jt_chain z) \<or> jt_chain z = jt_chain y"
    using step(2) by cases (auto intro: chain_step.intros elim: run_settle_settles)
  then show ?case using step(3) by auto
qed simp

end
