(* ===== verification/Composition_Props.thy ===== *)
theory Composition_Props
  imports Composition
begin

section \<open>From an accepted claim to the provider's account\<close>

text \<open>
  The theorems about the joint system of theory \<open>Composition\<close>: everything the gateway
  accepted for a session can be collected into the provider's token account while the session
  is unsettled and unexpired on chain and the accounts involved are usable; a session the
  gateway reports as settled has been paid on chain; and a claim accepted while a settlement
  is in flight is left behind by it.
\<close>

lemma kept_claim_runs:
  assumes "joint_start X y\<^sub>0" and "(joint_step X R I J W)\<^sup>*\<^sup>* y\<^sub>0 y"
    and "spl_effect_law R" and "spl_progress_law R" and "pda_law X"
    and r: "jt_view X y k = Some r" "sr_highest_claim r = Some sc"
    and s: "ch_sessions (jt_chain y) k = Some s" "\<not> ses_is_settled s"
    and tx: "tx_instructions tx = settlement_instructions X R I (rt_program_id R) settler (sr_provider r) k
        (sr_mint r) token_program (sc_claim sc) (sc_signature sc) (sr_agent r) mroot"
      "tx_current_index tx = 1" "settler \<in> set (tx_signers tx)" "tx_now tx = jt_clock y"
    and who: "settler = ses_settlement_authority s \<or> settler = ses_provider s"
    and live: "sint (sr_expires_at r) + 30 < 2 ^ 63" "sint (jt_clock y) \<le> sint (sr_expires_at r) + 30"
      "sint (cl_expires_at (sc_claim sc)) + 30 < 2 ^ 63"
      "sint (jt_clock y) \<le> sint (cl_expires_at (sc_claim sc)) + 30"
    and receipt: "receipt_usable R (ch_records (jt_chain y) (receipt_key X R k)) settler k"
    and payee: "transfer_ready (jt_chain y) (ses_vault s)
      (derive_associated_token_account X I (sr_provider r) token_program (sr_mint r)) (sr_provider r)
      (unat (sr_cumulative_accepted r))"
  shows "\<exists>c' v p. run_settle X R (jt_chain y) tx = Ok c'
    \<and> unat (sr_cumulative_accepted r) = total_delta (log_of k (jt_log y))
    \<and> ch_sessions c' = (ch_sessions (jt_chain y))
        (k \<mapsto> s\<lparr>ses_cumulative_settled := sr_cumulative_accepted r, ses_is_settled := True\<rparr>)
    \<and> ch_tokens (jt_chain y) (ses_vault s) = Some v \<and> unat (sr_cumulative_accepted r) \<le> unat (ta_amount v)
    \<and> ch_tokens (jt_chain y) (derive_associated_token_account X I (sr_provider r) token_program (sr_mint r)) = Some p
    \<and> ta_owner p = sr_provider r \<and> unat (ta_amount p) + unat (sr_cumulative_accepted r) < 2 ^ 64
    \<and> ch_tokens c' = (ch_tokens (jt_chain y))
        (ses_vault s \<mapsto> v\<lparr>ta_amount := ta_amount v - sr_cumulative_accepted r\<rparr>,
         derive_associated_token_account X I (sr_provider r) token_program (sr_mint r)
           \<mapsto> p\<lparr>ta_amount := ta_amount p + sr_cumulative_accepted r\<rparr>)"
proof -
  have inv: "joint_inv X y" by (rule joint_reachable [OF assms(1,2)])
  then have ok: "gw_ok X (jt_gateway y)" and un: "untouched (jt_clock y) s" and ag: "agrees r s"
    using r(1) s(1) linkedD by (auto simp: joint_inv_def all_untouched_def)
  note kept = kept_claim_accepted [OF ok r]
  have none: "ses_cumulative_settled s = 0" "ses_refunded_total s = 0"
    using un s(2) live(2) ag by (auto simp: untouched_def agrees_def)
  have gen: "genesis (jt_chain y\<^sub>0)" using assms(1) by (simp add: joint_start_def)
  note same = ag [unfolded agrees_def, THEN conjunct1] ag [unfolded agrees_def]
  have "\<exists>c' b. run_settle X R (jt_chain y) tx = Ok c'
    \<and> settle_session X R (jt_chain y) tx b (cl_cumulative_amount (sc_claim sc)) (cl_nonce (sc_claim sc))
        (cl_expires_at (sc_claim sc)) mroot = Ok c'
    \<and> sa_session b = cl_session (sc_claim sc)
    \<and> sa_provider_token_account b = derive_associated_token_account X I (ses_provider s) token_program (ses_mint s)
    \<and> ch_sessions c' (cl_session (sc_claim sc))
      = Some (s\<lparr>ses_cumulative_settled := cl_cumulative_amount (sc_claim sc), ses_is_settled := True\<rparr>)"
  proof (rule built_settlement_runs [OF gen assms(3) joint_chain [OF assms(2)] assms(4,5)])
    show "ch_sessions (jt_chain y) (cl_session (sc_claim sc)) = Some s" using s(1) kept(1) by simp
    show "tx_instructions tx = settlement_instructions X R I (rt_program_id R) settler (ses_provider s)
        (cl_session (sc_claim sc)) (ses_mint s) token_program (sc_claim sc) (sc_signature sc) (ses_agent s) mroot"
      using tx(1) same kept(1) by simp
    show "unat (cl_cumulative_amount (sc_claim sc)) + unat (ses_refunded_total s) \<le> unat (ses_deposited_total s)"
      using kept(2,4) same none by (simp add: word_le_nat_alt)
    show "transfer_ready (jt_chain y) (ses_vault s)
        (derive_associated_token_account X I (ses_provider s) token_program (ses_mint s)) (ses_provider s)
        (unat (cl_cumulative_amount (sc_claim sc)) - unat (ses_cumulative_settled s))"
      using payee same none kept(2) by simp
  qed (use tx who live same kept receipt none in \<open>simp_all add: word_neq_0_conv\<close>)
  then obtain c' b where c': "run_settle X R (jt_chain y) tx = Ok c'"
    "settle_session X R (jt_chain y) tx b (sr_cumulative_accepted r) (cl_nonce (sc_claim sc)) (cl_expires_at (sc_claim sc)) mroot = Ok c'"
    "sa_session b = k" "sa_provider_token_account b = derive_associated_token_account X I (sr_provider r) token_program (sr_mint r)"
    using kept(1,2) same by auto
  have "ses_vault s \<noteq> sa_provider_token_account b" using payee c'(4) by (simp add: transfer_ready_def)
  from settle_moves [OF assms(3) c'(2) _ this] show ?thesis
    using c'(1,3,4) s(1) none(1) same kept(2,5) by auto
qed

text \<open>
  C5. What was accepted can be collected, under the conditions the chain sets. Take any state
  the gateway and the chain can reach together and a session the gateway tracks, with the
  claim it keeps. Suppose that on chain the session is not settled; that neither the session
  nor the claim has expired by more than the tolerance, and neither expiry is so large that
  adding the tolerance overflows; that the transaction the gateway builds for that claim is
  signed by the session's settlement authority or its provider; that the receipt's account
  can be created or advanced; and that the provider's associated token account exists,
  belongs to the provider, is of the vault's mint, is not frozen, nor is the vault, and has
  room for the amount. Then the transaction runs: the vault is debited and that account of
  the provider credited by exactly the sum of all deltas the gateway accepted for the
  session, no other token account and no other session changes, and the session is settled
  at that amount. In particular the deposit always covers it, whatever the agent, other
  programs or other requests did before.
\<close>

theorem accepted_is_collectable:
  assumes "joint_start X y\<^sub>0" and "(joint_step X R I J W)\<^sup>*\<^sup>* y\<^sub>0 y"
    and "spl_effect_law R" and "spl_progress_law R" and "pda_law X"
    and r: "jt_view X y k = Some r" "sr_highest_claim r = Some sc"
    and s: "ch_sessions (jt_chain y) k = Some s" "\<not> ses_is_settled s"
    and tx: "tx_instructions tx = settlement_instructions X R I (rt_program_id R) settler (sr_provider r) k
        (sr_mint r) token_program (sc_claim sc) (sc_signature sc) (sr_agent r) mroot"
      "tx_current_index tx = 1" "settler \<in> set (tx_signers tx)" "tx_now tx = jt_clock y"
    and who: "settler = ses_settlement_authority s \<or> settler = ses_provider s"
    and live: "sint (sr_expires_at r) + 30 < 2 ^ 63" "sint (jt_clock y) \<le> sint (sr_expires_at r) + 30"
      "sint (cl_expires_at (sc_claim sc)) + 30 < 2 ^ 63"
      "sint (jt_clock y) \<le> sint (cl_expires_at (sc_claim sc)) + 30"
    and receipt: "receipt_usable R (ch_records (jt_chain y) (receipt_key X R k)) settler k"
    and payee: "transfer_ready (jt_chain y) (ses_vault s)
      (derive_associated_token_account X I (sr_provider r) token_program (sr_mint r)) (sr_provider r)
      (unat (sr_cumulative_accepted r))"
  shows "\<exists>c' v p. run_settle X R (jt_chain y) tx = Ok c'
    \<and> unat (sr_cumulative_accepted r) = total_delta (log_of k (jt_log y))
    \<and> ch_sessions c' = (ch_sessions (jt_chain y))
        (k \<mapsto> s\<lparr>ses_cumulative_settled := sr_cumulative_accepted r, ses_is_settled := True\<rparr>)
    \<and> ch_tokens (jt_chain y) (ses_vault s) = Some v \<and> unat (sr_cumulative_accepted r) \<le> unat (ta_amount v)
    \<and> ch_tokens (jt_chain y) (derive_associated_token_account X I (sr_provider r) token_program (sr_mint r)) = Some p
    \<and> ta_owner p = sr_provider r \<and> unat (ta_amount p) + unat (sr_cumulative_accepted r) < 2 ^ 64
    \<and> ch_tokens c' = (ch_tokens (jt_chain y))
        (ses_vault s \<mapsto> v\<lparr>ta_amount := ta_amount v - sr_cumulative_accepted r\<rparr>,
         derive_associated_token_account X I (sr_provider r) token_program (sr_mint r)
           \<mapsto> p\<lparr>ta_amount := ta_amount p + sr_cumulative_accepted r\<rparr>)"
  by (rule kept_claim_runs [OF assms])

subsection \<open>What a settled session means\<close>

text \<open>
  C6. A settled session is a paid session. In every state the gateway and the chain can reach
  together, a session the gateway tracks is an account of the program with the same agent,
  provider, mint, deposit and expiry; and when the gateway shows it as settled, the chain has
  paid its provider at least the amount of a claim the gateway accepted for it, and the
  events of the program account for what was paid.
\<close>

theorem settled_is_paid:
  assumes "joint_start X y\<^sub>0" and "(joint_step X R I J W)\<^sup>*\<^sup>* y\<^sub>0 y" and "jt_view X y k = Some r"
  shows "\<exists>s. ch_sessions (jt_chain y) k = Some s \<and> agrees r s
    \<and> unat (ses_cumulative_settled s) = paid_out k (ch_events (jt_chain y))
    \<and> (sr_is_settled r \<longrightarrow> ses_is_settled s
        \<and> (\<exists>e \<in> set (log_of k (jt_log y)). cl_cumulative_amount (fst e) \<le> ses_cumulative_settled s))"
proof -
  have inv: "joint_inv X y" by (rule joint_reachable [OF assms(1,2)])
  then obtain s where s: "ch_sessions (jt_chain y) k = Some s" "agrees r s" "sr_is_settled r \<longrightarrow> paid_claim k (jt_log y) s"
    using assms(3) unfolding joint_inv_def linked_def by blast
  have "ledger_agrees (jt_chain y)"
    by (rule reachable_ledger [OF _ joint_chain [OF assms(2)]]) (use assms(1) in \<open>simp add: joint_start_def\<close>)
  then have "paid_out k (ch_events (jt_chain y)) = unat (ses_cumulative_settled s)"
    using s(1) by (simp add: ledger_agrees_def split: option.splits)
  then show ?thesis using s by (auto simp: paid_claim_def)
qed

subsection \<open>What a settlement leaves behind\<close>

definition closed_at :: "externals \<Rightarrow> pubkey \<Rightarrow> u64 \<Rightarrow> joint \<Rightarrow> bool" where
  "closed_at X k m y \<longleftrightarrow> joint_inv X y
     \<and> (\<exists>r. jt_view X y k = Some r \<and> sr_is_settled r \<and> sr_cumulative_accepted r = m)"

lemma settled_stays:
  assumes "gw_step X R I J W g g'" and "gw_ok X g" and "gw_view X (gs_state g) k = Some r" and "sr_is_settled r"
  shows "\<exists>r'. gw_view X (gs_state g') k = Some r' \<and> sr_is_settled r' \<and> sr_cumulative_accepted r' = sr_cumulative_accepted r"
proof -
  obtain log where "evolves X (gw_view X (gs_state g)) (gw_view X (gs_state g')) log"
    using gw_step_evolves [OF assms(1,2)] by blast
  then have "progress k (Some r) (gw_view X (gs_state g') k) (log_of k log)" using assms(3) by (metis evolves_def)
  moreover have "record_ok k r" using assms(2,3) by (simp add: gw_ok_def)
  ultimately show ?thesis using assms(4) by (auto simp: progress_def mark_def)
qed

interpretation closed_joint: preserved "joint_step X R I J W" "closed_at X k m" for X R I J W k m
proof (unfold_locales, unfold closed_at_def, elim conjE exE)
  fix y y' r assume step: "joint_step X R I J W y y'" and inv: "joint_inv X y"
    and r: "jt_view X y k = Some r" "sr_is_settled r" "sr_cumulative_accepted r = m"
  have ok: "gw_ok X (jt_gateway y)" using inv by (simp add: joint_inv_def)
  have "jt_gateway y' = jt_gateway y \<or> gw_step X R I J W (jt_gateway y) (jt_gateway y')"
    using step ok by cases (auto intro!: gw_step.gw_env gw_step.gw_mark simp: gw_ok_def)
  then show "joint_inv X y' \<and> (\<exists>r. jt_view X y' k = Some r \<and> sr_is_settled r \<and> sr_cumulative_accepted r = m)"
    using joint_step_inv [OF step inv] settled_stays [OF _ ok r(1,2)] r by auto
qed

lemma closed_refuses:
  assumes "closed_at X k m y" and "pk_parse X text = Some k"
  shows "\<exists>d. settle_submit X R I rid text mr (gs_state (jt_gateway y)) = Err d"
proof (cases "settle_submit X R I rid text mr (gs_state (jt_gateway y))")
  case (Inr p)
  then show ?thesis
  proof (rule settle_submit_Ok)
    assume p: "pk_parse X text = Some (ps_session p)" "\<not> sr_is_settled (ps_record p)"
      "store_get X (ps_session p) (as_store (gs_state (jt_gateway y))) = Ok (ps_record p)"
    have "gw_inv X (gs_state (jt_gateway y))" using assms(1) by (simp add: closed_at_def joint_inv_def gw_ok_def)
    from gws.get_view [OF this p(3)] show ?thesis using p(1,2) assms by (auto simp: closed_at_def)
  qed
qed simp

text \<open>
  C16. A settlement leaves behind what was accepted during it. Between the confirmation of a
  settlement and its mark, the gateway still accepts claims of the session. If it accepted
  one, then once the mark is written the session is settled for the gateway although the
  settlement paid less than the mark: from then on, whatever happens, the gateway refuses
  every settlement of the session, and the amount it accepted stays above what it collected.
\<close>

theorem settlement_strands_claims:
  assumes "joint_start X y\<^sub>0" and "(joint_step X R I J W)\<^sup>*\<^sup>* y\<^sub>0 y" and "p \<in> set (jt_settling y)"
    and "jt_view X y (ps_session p) = Some r"
    and "cl_cumulative_amount (sc_claim (ps_highest p)) < sr_cumulative_accepted r"
    and "y' = y\<lparr>jt_gateway := (jt_gateway y)\<lparr>gs_state := settle_mark X p (gs_state (jt_gateway y))\<rparr>,
      jt_settling := remove1 p (jt_settling y)\<rparr>"
    and "jt_view X y' (ps_session p) = Some (r\<lparr>sr_is_settled := True\<rparr>)"
    and "(joint_step X R I J W)\<^sup>*\<^sup>* y' y''" and "pk_parse X text = Some (ps_session p)"
  shows "joint_step X R I J W y y'
    \<and> (\<exists>r''. jt_view X y'' (ps_session p) = Some r'' \<and> sr_is_settled r''
        \<and> cl_cumulative_amount (sc_claim (ps_highest p)) < sr_cumulative_accepted r'')
    \<and> (\<exists>d. route_settle_session X R I rid text mr (gs_state (jt_gateway y'')) = (Err d, gs_state (jt_gateway y'')))"
proof -
  have step: "joint_step X R I J W y y'" unfolding assms(6) by (rule jt_mark [OF assms(3)])
  have "joint_inv X y'" using joint_reachable [OF assms(1)] step assms(2) by (meson rtranclp.rtrancl_into_rtrancl)
  then have "closed_at X (ps_session p) (sr_cumulative_accepted r) y'" using assms(7) by (simp add: closed_at_def)
  from closed_joint.reach_keeps [OF assms(8) this] have c: "closed_at X (ps_session p) (sr_cumulative_accepted r) y''" .
  obtain d where "settle_submit X R I rid text mr (gs_state (jt_gateway y'')) = Err d"
    using closed_refuses [OF c assms(9)] by blast
  then show ?thesis using step c assms(5) by (auto simp: closed_at_def route_settle_session_def)
qed

subsection \<open>A run of both\<close>

text \<open>
  The agent opens a session on chain, the gateway tracks it, accepts a claim over 40 and
  submits its settlement, accepts another over 70 while the settlement is in flight, and
  then marks the session.
\<close>

definition demo_node :: "session \<Rightarrow> app_state \<Rightarrow> app_state" where
  "demo_node s st = st\<lparr>as_program_id := 100,
     as_session_fetcher := Some (\<lambda>k. if k = 7 then Ok (Some (100, account_bytes (account_of s))) else Ok None),
     as_rpc := Some \<lparr>rpc_mint_owner = (\<lambda>_. Some 200), rpc_latest_blockhash = Ok 1,
       rpc_send_and_confirm = (\<lambda>_ _ _. Ok ''confirmed'')\<rparr>\<rparr>"

definition demo_app_of :: "mem_store \<Rightarrow> app_state" where
  "demo_app_of m = demo_node demo_session (demo_app (Ephemeral m))"

definition demo_tracked :: session_record where
  "demo_tracked = demo_record\<lparr>sr_chain_verified := True\<rparr>"

lemma demo_app_of_simps [simp]:
  "as_store (demo_app_of m) = Ephemeral m" "as_program_id (demo_app_of m) = 100" "as_legacy_program_id (demo_app_of m) = None"
  "as_session_fetcher (demo_app_of m)
     = Some (\<lambda>k. if k = 7 then Ok (Some (100, account_bytes (account_of demo_session))) else Ok None)"
  "as_settlement_authority (demo_app_of m) = Some 3"
  "as_rpc (demo_app_of m) = Some \<lparr>rpc_mint_owner = (\<lambda>_. Some 200), rpc_latest_blockhash = Ok 1,
     rpc_send_and_confirm = (\<lambda>_ _ _. Ok ''confirmed'')\<rparr>"
  "(demo_app_of m)\<lparr>as_store := Ephemeral m'\<rparr> = demo_app_of m'"
  by (simp_all add: demo_app_of_def demo_node_def demo_app_def)

lemma view_mem_with [simp]: "backend_view X (Ephemeral (mem_with r)) = [sr_key r \<mapsto> r]"
  by (simp add: backend_view_def mem_with_def)

lemma inv_mem_with [simp]: "backend_inv X (Ephemeral m)"
  by (simp add: backend_inv_def)

lemma demo_reads: "reads_chain demo_runtime demo_chain\<^sub>1 (demo_app_of m)"
  by (simp add: reads_chain_def demo_runtime_def demo_chain\<^sub>1_def)

lemma demo_tracked_opened:
  "\<exists>resp. route_open_session demo_externals ''r'' Gateway_Props.demo_open (demo_app_of mem_new)
     = (Ok resp, demo_app_of (mem_with demo_tracked))"
  using demo_pk_text
  by (simp add: route_open_session_def Gateway_Props.demo_open_def verify_on_chain_session_def parse_account_bytes
      Let_def store_open_def mem_open_def mem_new_def account_of_def demo_session_def
      mem_with_def demo_tracked_def demo_record_def session_record_new_def)

lemma mem_verify:
  assumes "as_store st = Ephemeral (mem_with r)" and "sr_key r = cl_session c" and "\<not> is_expired c now"
    and "decode X w = Ok (c, sig)" and "verify_claim_signature X (sr_agent r) c sig = Valid"
    and "evaluate_claim r c now = Ok a"
  shows "\<exists>resp. verify_claim X now rid w st = (Ok resp, st\<lparr>as_store := Ephemeral (mem_with (advance r c sig))\<rparr>)"
proof -
  have "ca_cumulative_amount a = cl_cumulative_amount c" "ca_nonce a = cl_nonce c" using assms(6) by (simp_all add: evaluate_claim_Ok)
  then show ?thesis
    using assms
    by (simp add: verify_claim_def store_get_def mem_get_def store_admit_claim_def mem_admit_claim_def mem_with_def advance_def)
qed

definition demo_gw :: "session_record option \<Rightarrow> (claim \<times> claim_accepted) list \<Rightarrow> gw" where
  "demo_gw r log = \<lparr>gs_state = demo_app_of (case r of None \<Rightarrow> mem_new | Some r \<Rightarrow> mem_with r), gs_tickets = [], gs_log = log\<rparr>"

definition demo_joint\<^sub>0 :: joint where
  "demo_joint\<^sub>0 = \<lparr>jt_chain = demo_chain\<^sub>0, jt_clock = 1000, jt_gateway = demo_gw None [], jt_settling = []\<rparr>"

definition demo_first :: "claim \<times> claim_accepted" where
  "demo_first = (demo_claim_of 40 2, \<lparr>ca_cumulative_amount = 40, ca_previous_cumulative = 0, ca_delta = 40, ca_nonce = 2\<rparr>)"

definition demo_kept :: session_record where
  "demo_kept = advance demo_tracked (demo_claim_of 40 2) 40"

definition demo_joint\<^sub>1 :: joint where
  "demo_joint\<^sub>1 = \<lparr>jt_chain = demo_chain\<^sub>1, jt_clock = 1500, jt_gateway = demo_gw (Some demo_kept) [demo_first], jt_settling = []\<rparr>"

lemma demo_joint_start: "joint_start demo_externals demo_joint\<^sub>0"
  by (simp add: joint_start_def demo_joint\<^sub>0_def demo_genesis gw_start_def demo_gw_def backend_view_def mem_new_def)

lemma demo_claim_ok:
  assumes "r = demo_tracked \<and> amount = 40 \<and> nonce = 2 \<or> r = demo_kept \<and> amount = 70 \<and> nonce = 3"
  shows "\<exists>a. evaluate_claim r (demo_claim_of amount nonce) 1500 = Ok a \<and> ca_cumulative_amount a = amount
    \<and> ca_previous_cumulative a = sr_cumulative_accepted r \<and> ca_delta a = amount - sr_cumulative_accepted r \<and> ca_nonce a = nonce"
  using assms
  by (elim disjE conjE) (simp_all add: evaluate_claim_Ok demo_kept_def demo_tracked_def demo_record_def session_record_new_def
    demo_claim_of_def advance_def)

lemma demo_accepts:
  assumes "as_store st = Ephemeral (mem_with r)"
    and "r = demo_tracked \<and> amount = 40 \<and> nonce = 2 \<or> r = demo_kept \<and> amount = 70 \<and> nonce = 3"
  shows "\<exists>resp a. verify_claim demo_externals 1500 ''r'' (demo_wire (demo_claim_of amount nonce)) st
      = (Ok resp, st\<lparr>as_store := Ephemeral (mem_with (advance r (demo_claim_of amount nonce) (ucast amount)))\<rparr>)
    \<and> verify_log demo_externals 1500 (demo_wire (demo_claim_of amount nonce)) (Ok resp :: (verify_claim_response, denial) result) st
      = [(demo_claim_of amount nonce, a)]
    \<and> ca_cumulative_amount a = amount \<and> ca_previous_cumulative a = sr_cumulative_accepted r
    \<and> ca_delta a = amount - sr_cumulative_accepted r \<and> ca_nonce a = nonce"
proof -
  let ?c = "demo_claim_of amount nonce"
  obtain a where a: "evaluate_claim r ?c 1500 = Ok a" "ca_cumulative_amount a = amount" "ca_nonce a = nonce"
    "ca_previous_cumulative a = sr_cumulative_accepted r" "ca_delta a = amount - sr_cumulative_accepted r"
    using demo_claim_ok [OF assms(2)] by blast
  have k: "sr_key r = cl_session ?c" using assms(2) by (auto simp: demo_kept_def demo_tracked_def demo_record_def
      session_record_new_def demo_claim_of_def advance_def)
  have d: "decode demo_externals (demo_wire ?c) = Ok (?c, ucast amount)" using demo_decode [of ?c] by (simp add: demo_claim_of_def)
  have e: "\<not> is_expired ?c 1500" by (simp add: is_expired_iff demo_claim_of_def)
  have v: "verify_claim_signature demo_externals (sr_agent r) ?c (ucast amount) = Valid"
    using demo_signed [of "sr_agent r" ?c] by (simp add: demo_claim_of_def)
  have "fst (store_admit_claim demo_externals ?c (ucast amount) 1500 (as_store st)) = Ok (Ok a)"
    using assms(1) k a(1) by (simp add: store_admit_claim_def mem_admit_claim_def mem_with_def)
  then show ?thesis
    using mem_verify [OF assms(1) k e d v a(1), of "''r''"] d a by (auto simp: verify_log_def admitted_def)
qed

lemma demo_joint_run\<^sub>1: "(joint_step demo_externals demo_runtime demo_ids J W)\<^sup>*\<^sup>* demo_joint\<^sub>0 demo_joint\<^sub>1"
proof -
  let ?step = "joint_step demo_externals demo_runtime demo_ids J W"
  let ?y = "\<lambda>t r l. \<lparr>jt_chain = demo_chain\<^sub>1, jt_clock = t, jt_gateway = demo_gw r l, jt_settling = []\<rparr>"
  have "?step demo_joint\<^sub>0 (?y 1000 None [])"
    using jt_open [where y = demo_joint\<^sub>0 and tx = "demo_txn 1000 1" and X = demo_externals and R = demo_runtime] demo_opened
    by (simp add: demo_joint\<^sub>0_def no_pda_signs_def demo_chain\<^sub>0_def demo_txn_def)
  moreover have "?step (?y 1000 None []) (?y 1000 (Some demo_tracked) [])"
  proof -
    obtain resp where o: "route_open_session demo_externals ''r'' Gateway_Props.demo_open (demo_app_of mem_new)
        = (Ok resp, demo_app_of (mem_with demo_tracked))" using demo_tracked_opened by blast
    have "gw_step demo_externals demo_runtime demo_ids J W (demo_gw None []) (demo_gw (Some demo_tracked) [])"
      using gw_step.gw_open [of demo_externals "''r''" Gateway_Props.demo_open "demo_gw None []"] o by (simp add: demo_gw_def)
    moreover have "marks_none demo_externals (demo_gw None []) (demo_gw (Some demo_tracked) [])"
      by (simp add: marks_none_def demo_gw_def demo_tracked_def demo_record_def session_record_new_def)
    ultimately show ?thesis using jt_serve [of demo_runtime "?y 1000 None []"] demo_reads by (simp add: demo_gw_def)
  qed
  moreover have "?step (?y 1000 (Some demo_tracked) []) (?y 1500 (Some demo_tracked) [])"
    using jt_tick [of "?y 1000 (Some demo_tracked) []" 1500] by simp
  moreover have "?step (?y 1500 (Some demo_tracked) []) demo_joint\<^sub>1"
  proof -
    let ?w = "demo_wire (demo_claim_of 40 2)"
    obtain resp a where v: "verify_claim demo_externals 1500 ''r'' ?w (demo_app_of (mem_with demo_tracked))
        = (Ok resp, demo_app_of (mem_with demo_kept))"
      "verify_log demo_externals 1500 ?w (Ok resp :: (verify_claim_response, denial) result)
        (demo_app_of (mem_with demo_tracked)) = [(demo_claim_of 40 2, a)]"
      "ca_cumulative_amount a = 40" "ca_previous_cumulative a = 0" "ca_delta a = 40" "ca_nonce a = 2"
      using demo_accepts [of "demo_app_of (mem_with demo_tracked)" demo_tracked 40 2]
      by (auto simp: demo_kept_def demo_tracked_def demo_record_def session_record_new_def)
    have "gw_step demo_externals demo_runtime demo_ids J W (demo_gw (Some demo_tracked) []) (demo_gw (Some demo_kept) [demo_first])"
      using gw_step.gw_verify [of demo_externals 1500 "''r''" ?w "demo_gw (Some demo_tracked) []" "Ok resp"] v
      by (cases a) (simp add: demo_gw_def demo_first_def)
    moreover have "marks_none demo_externals (demo_gw (Some demo_tracked) []) (demo_gw (Some demo_kept) [demo_first])"
      by (simp add: marks_none_def demo_gw_def demo_kept_def demo_tracked_def demo_record_def session_record_new_def advance_def)
    ultimately show ?thesis
      using jt_serve [of demo_runtime "?y 1500 (Some demo_tracked) []"] demo_reads by (simp add: demo_gw_def demo_joint\<^sub>1_def)
  qed
  ultimately show ?thesis by (meson converse_rtranclp_into_rtranclp rtranclp.rtrancl_refl)
qed

definition demo_payment :: txn where
  "demo_payment = \<lparr>tx_now = 1500, tx_signers = [3],
     tx_instructions = settlement_instructions demo_externals demo_runtime demo_ids 100 3 2 7 50 200 (demo_claim_of 40 2) 40 1 0,
     tx_current_index = 1\<rparr>"

lemma demo_kept_simps [simp]:
  "sr_key demo_kept = 7" "sr_agent demo_kept = 1" "sr_provider demo_kept = 2" "sr_mint demo_kept = 50"
  "sr_deposited_total demo_kept = 100" "sr_expires_at demo_kept = 2000" "\<not> sr_is_settled demo_kept"
  "sr_cumulative_accepted demo_kept = 40"
  "sr_highest_claim demo_kept = Some \<lparr>sc_claim = demo_claim_of 40 2, sc_signature = 40\<rparr>"
  by (simp_all add: demo_kept_def demo_tracked_def demo_record_def session_record_new_def advance_def demo_claim_of_def)

lemma demo_joint\<^sub>1_simps [simp]:
  "jt_chain demo_joint\<^sub>1 = demo_chain\<^sub>1" "jt_clock demo_joint\<^sub>1 = 1500" "jt_view X demo_joint\<^sub>1 = [7 \<mapsto> demo_kept]"
  "gs_log (jt_gateway demo_joint\<^sub>1) = [demo_first]" "jt_settling demo_joint\<^sub>1 = []"
  "gs_state (jt_gateway demo_joint\<^sub>1) = demo_app_of (mem_with demo_kept)" "gs_tickets (jt_gateway demo_joint\<^sub>1) = []"
  by (simp_all add: demo_joint\<^sub>1_def demo_gw_def)

lemma demo_payment_conditions:
  "tx_instructions demo_payment = settlement_instructions demo_externals demo_runtime demo_ids (rt_program_id demo_runtime)
     3 (sr_provider demo_kept) 7 (sr_mint demo_kept) 200 (demo_claim_of 40 2) 40 (sr_agent demo_kept) 0"
  "tx_current_index demo_payment = 1" "3 \<in> set (tx_signers demo_payment)" "tx_now demo_payment = jt_clock demo_joint\<^sub>1"
  "3 = ses_settlement_authority demo_session \<or> 3 = ses_provider demo_session"
  "receipt_usable demo_runtime (ch_records (jt_chain demo_joint\<^sub>1) (receipt_key demo_externals demo_runtime 7)) 3 7"
  "transfer_ready (jt_chain demo_joint\<^sub>1) (ses_vault demo_session)
     (derive_associated_token_account demo_externals demo_ids (sr_provider demo_kept) 200 (sr_mint demo_kept))
     (sr_provider demo_kept) (unat (sr_cumulative_accepted demo_kept))"
  using demo_run_conditions(12,13)
  by (simp_all add: demo_payment_def demo_runtime_def demo_session_def demo_claim_def)

lemma demo_delta: "total_delta (log_of 7 (gs_log (jt_gateway demo_joint\<^sub>1))) = 40"
  by (simp add: demo_first_def log_of_def total_delta_def demo_claim_of_def)

theorem accepted_is_collectable_witness:
  "\<forall>J W. \<exists>y c' v p. (joint_step demo_externals demo_runtime demo_ids J W)\<^sup>*\<^sup>* demo_joint\<^sub>0 y
     \<and> run_settle demo_externals demo_runtime (jt_chain y) demo_payment = Ok c'
     \<and> ch_tokens (jt_chain y) 5 = Some v \<and> ch_tokens (jt_chain y) 32 = Some p \<and> ta_owner p = 2
     \<and> ch_tokens c' = (ch_tokens (jt_chain y))
         (5 \<mapsto> v\<lparr>ta_amount := ta_amount v - 40\<rparr>, 32 \<mapsto> p\<lparr>ta_amount := ta_amount p + 40\<rparr>)"
proof (intro allI)
  fix J W
  note cond = demo_payment_conditions
  note collect = accepted_is_collectable [OF demo_joint_start demo_joint_run\<^sub>1 [of J W] demo_laws(1,2) demo_pda, where s = demo_session
      and settler = 3 and r = demo_kept and sc = "\<lparr>sc_claim = demo_claim_of 40 2, sc_signature = 40\<rparr>" and k = 7
      and tx = demo_payment and token_program = 200 and mroot = 0]
  have ids: "derive_associated_token_account demo_externals demo_ids (sr_provider demo_kept) 200 (sr_mint demo_kept) = 32"
    "derive_associated_token_account demo_externals demo_ids 2 200 50 = 32"
    "ses_vault demo_session = 5" "sr_provider demo_kept = 2" "sr_cumulative_accepted demo_kept = 40"
    by (simp_all add: derive_associated_token_account_def demo_externals_def demo_session_def demo_kept_def demo_tracked_def
        demo_record_def session_record_new_def advance_def demo_claim_of_def)
  have "\<exists>c' v p. run_settle demo_externals demo_runtime (jt_chain demo_joint\<^sub>1) demo_payment = Ok c'
     \<and> ch_tokens (jt_chain demo_joint\<^sub>1) 5 = Some v \<and> ch_tokens (jt_chain demo_joint\<^sub>1) 32 = Some p \<and> ta_owner p = 2
     \<and> ch_tokens c' = (ch_tokens (jt_chain demo_joint\<^sub>1))
         (5 \<mapsto> v\<lparr>ta_amount := ta_amount v - 40\<rparr>, 32 \<mapsto> p\<lparr>ta_amount := ta_amount p + 40\<rparr>)"
    using collect [unfolded ids] cond demo_chain\<^sub>1_session demo_delta by (simp add: demo_session_def demo_claim_of_def ids) blast
  then show "\<exists>y c' v p. (joint_step demo_externals demo_runtime demo_ids J W)\<^sup>*\<^sup>* demo_joint\<^sub>0 y
     \<and> run_settle demo_externals demo_runtime (jt_chain y) demo_payment = Ok c'
     \<and> ch_tokens (jt_chain y) 5 = Some v \<and> ch_tokens (jt_chain y) 32 = Some p \<and> ta_owner p = 2
     \<and> ch_tokens c' = (ch_tokens (jt_chain y))
         (5 \<mapsto> v\<lparr>ta_amount := ta_amount v - 40\<rparr>, 32 \<mapsto> p\<lparr>ta_amount := ta_amount p + 40\<rparr>)"
    using demo_joint_run\<^sub>1 [of J W] by blast
qed

lemma demo_paid: "\<exists>c'. run_settle demo_externals demo_runtime demo_chain\<^sub>1 demo_payment = Ok c'"
proof -
  note cond = demo_payment_conditions
  note run = kept_claim_runs [OF demo_joint_start demo_joint_run\<^sub>1 demo_laws(1,2) demo_pda, where s = demo_session
      and settler = 3 and r = demo_kept and sc = "\<lparr>sc_claim = demo_claim_of 40 2, sc_signature = 40\<rparr>" and k = 7
      and tx = demo_payment and token_program = 200 and mroot = 0]
  have "\<exists>c'. run_settle demo_externals demo_runtime (jt_chain demo_joint\<^sub>1) demo_payment = Ok c'"
    using run cond demo_chain\<^sub>1_session by (simp add: demo_session_def demo_claim_of_def) blast
  then show ?thesis by auto
qed

lemma demo_submitted:
  "\<exists>p. settle_submit demo_externals demo_runtime demo_ids ''r'' (pk_show demo_externals 7) None (demo_app_of (mem_with demo_kept)) = Ok p
    \<and> ps_session p = 7 \<and> ps_highest p = \<lparr>sc_claim = demo_claim_of 40 2, sc_signature = 40\<rparr>
    \<and> settlement_txn demo_externals demo_runtime demo_ids 1500 p = demo_payment"
proof -
  have len: "length (account_bytes (account_of demo_session)) = SESSION_ACCOUNT_LEN_V2"
    by (simp add: account_bytes_def account_of_def SESSION_ACCOUNT_LEN_V2_def)
  have get: "store_get demo_externals 7 (Ephemeral (mem_with demo_kept)) = Ok demo_kept"
    by (simp add: store_get_def mem_get_def mem_with_def)
  have root: "settle_root demo_externals ''r'' 7 None (demo_app_of (mem_with demo_kept)) = Ok (0, 0)"
    by (simp add: settle_root_def as_db_def parse_merkle_root_def)
  show ?thesis
    using demo_pk_text get root len
    by (simp add: settle_submit_def choose_settler_def submit_settlement_def settlement_txn_def demo_payment_def)
qed

text \<open>The settlement in flight, another claim accepted, and the mark.\<close>

definition demo_later :: "chain \<Rightarrow> pending_settlement \<Rightarrow> session_record \<Rightarrow> (claim \<times> claim_accepted) list \<Rightarrow> joint" where
  "demo_later c p r log = \<lparr>jt_chain = c, jt_clock = 1500, jt_gateway = \<lparr>gs_state = (demo_app_of (mem_with r))
     \<lparr>as_session_fetcher := Some (\<lambda>_. Err ()), as_rpc := None\<rparr>, gs_tickets = [], gs_log = log\<rparr>, jt_settling = [p]\<rparr>"

lemma demo_joint_run\<^sub>2:
  "\<exists>c p l. (joint_step demo_externals demo_runtime demo_ids J W)\<^sup>*\<^sup>* demo_joint\<^sub>0
       (demo_later c p (advance demo_kept (demo_claim_of 70 3) 70) l)
     \<and> ps_session p = 7 \<and> sc_claim (ps_highest p) = demo_claim_of 40 2"
proof -
  let ?step = "joint_step demo_externals demo_runtime demo_ids J W"
  obtain c where c: "run_settle demo_externals demo_runtime demo_chain\<^sub>1 demo_payment = Ok c" using demo_paid by blast
  obtain p where p: "settle_submit demo_externals demo_runtime demo_ids ''r'' (pk_show demo_externals 7) None
      (demo_app_of (mem_with demo_kept)) = Ok p" "ps_session p = 7"
    "ps_highest p = \<lparr>sc_claim = demo_claim_of 40 2, sc_signature = 40\<rparr>"
    "settlement_txn demo_externals demo_runtime demo_ids 1500 p = demo_payment" using demo_submitted by blast
  let ?y = "demo_joint\<^sub>1\<lparr>jt_chain := c, jt_settling := [p]\<rparr>"
  have "?step demo_joint\<^sub>1 ?y"
    using jt_submit [of demo_runtime demo_joint\<^sub>1 demo_externals demo_ids "''r''" "pk_show demo_externals 7" None p c J W]
      demo_reads p c by simp
  moreover have "?step ?y (demo_later c p demo_kept [demo_first])"
    using jt_node [of demo_externals demo_runtime demo_ids J W ?y None "Some (\<lambda>_. Err ())"]
    by (simp add: demo_later_def demo_joint\<^sub>1_def demo_gw_def)
  moreover obtain l where "?step (demo_later c p demo_kept [demo_first]) (demo_later c p (advance demo_kept (demo_claim_of 70 3) 70) l)"
  proof -
    let ?w = "demo_wire (demo_claim_of 70 3)" and ?st = "gs_state (jt_gateway (demo_later c p demo_kept [demo_first]))"
    let ?r = "advance demo_kept (demo_claim_of 70 3) 70"
    have "as_store ?st = Ephemeral (mem_with demo_kept)" by (simp add: demo_later_def)
    from demo_accepts [OF this, of 70 3] obtain resp a where v:
      "verify_claim demo_externals 1500 ''r'' ?w ?st = (Ok resp, ?st\<lparr>as_store := Ephemeral (mem_with ?r)\<rparr>)" by auto
    let ?l = "[demo_first] @ verify_log demo_externals 1500 ?w (Ok resp :: (verify_claim_response, denial) result) ?st"
    have g: "(jt_gateway (demo_later c p demo_kept [demo_first]))\<lparr>gs_state := ?st\<lparr>as_store := Ephemeral (mem_with ?r)\<rparr>, gs_log := ?l\<rparr>
        = jt_gateway (demo_later c p ?r ?l)" by (simp add: demo_later_def demo_app_of_def demo_node_def demo_app_def)
    have "gw_step demo_externals demo_runtime demo_ids J W (jt_gateway (demo_later c p demo_kept [demo_first]))
        (jt_gateway (demo_later c p ?r ?l))"
      using gw_step.gw_verify [OF v, of demo_runtime demo_ids J W] g by (simp add: demo_later_def)
    moreover have "marks_none demo_externals (jt_gateway (demo_later c p demo_kept [demo_first])) (jt_gateway (demo_later c p ?r ?l))"
      by (simp add: marks_none_def demo_later_def advance_def)
    moreover have "reads_chain demo_runtime c ?st" by (simp add: reads_chain_def demo_later_def demo_runtime_def)
    ultimately have "?step (demo_later c p demo_kept [demo_first]) (demo_later c p ?r ?l)"
      using jt_serve [of demo_runtime "demo_later c p demo_kept [demo_first]"] by (simp add: demo_later_def)
    then show thesis by (rule that)
  qed
  ultimately show ?thesis
    using demo_joint_run\<^sub>1 [of J W] p(2,3)
    by (metis (no_types, lifting) rtranclp.rtrancl_into_rtrancl signed_claim.select_convs(1))
qed

definition demo_marked_joint :: "pending_settlement \<Rightarrow> joint \<Rightarrow> joint" where
  "demo_marked_joint p y = y\<lparr>jt_gateway := (jt_gateway y)\<lparr>gs_state := settle_mark demo_externals p (gs_state (jt_gateway y))\<rparr>,
     jt_settling := remove1 p (jt_settling y)\<rparr>"

lemma demo_marked_view:
  assumes "ps_session p = 7" and "sr_key r = 7"
  shows "jt_view demo_externals (demo_marked_joint p (demo_later c p r l)) 7 = Some (r\<lparr>sr_is_settled := True\<rparr>)"
    and "jt_view demo_externals (demo_later c p r l) 7 = Some r"
  using assms
  by (simp_all add: demo_marked_joint_def demo_later_def settle_mark_def store_mark_settled_def mem_mark_settled_def
      mem_with_def backend_view_def)

lemma demo_key [simp]: "sr_key (advance demo_kept c sig) = 7" "sr_cumulative_accepted (advance r c sig) = cl_cumulative_amount c"
  "cl_cumulative_amount (demo_claim_of a n) = a"
  by (simp_all add: advance_def demo_kept_def demo_tracked_def demo_record_def session_record_new_def demo_claim_of_def)

theorem settlement_strands_claims_witness:
  "\<forall>J W. \<exists>y r d. (joint_step demo_externals demo_runtime demo_ids J W)\<^sup>*\<^sup>* demo_joint\<^sub>0 y
     \<and> jt_view demo_externals y 7 = Some r \<and> sr_is_settled r \<and> 40 < sr_cumulative_accepted r
     \<and> route_settle_session demo_externals demo_runtime demo_ids ''r'' (pk_show demo_externals 7) None
         (gs_state (jt_gateway y)) = (Err d, gs_state (jt_gateway y))"
proof (intro allI)
  fix J W
  let ?step = "joint_step demo_externals demo_runtime demo_ids J W"
  let ?r = "advance demo_kept (demo_claim_of 70 3) 70"
  obtain c p l where y: "?step\<^sup>*\<^sup>* demo_joint\<^sub>0 (demo_later c p ?r l)" "ps_session p = 7"
    "sc_claim (ps_highest p) = demo_claim_of 40 2" using demo_joint_run\<^sub>2 [of J W] by blast
  let ?y = "demo_later c p ?r l"
  have view: "jt_view demo_externals ?y (ps_session p) = Some ?r"
    "jt_view demo_externals (demo_marked_joint p ?y) (ps_session p) = Some (?r\<lparr>sr_is_settled := True\<rparr>)"
    using demo_marked_view [of p ?r c l] y(2) by simp_all
  have "p \<in> set (jt_settling ?y)" by (simp add: demo_later_def)
  moreover have "cl_cumulative_amount (sc_claim (ps_highest p)) < sr_cumulative_accepted ?r" using y(3) by simp
  moreover have "pk_parse demo_externals (pk_show demo_externals 7) = Some (ps_session p)" using demo_pk_text y(2) by simp
  ultimately obtain r'' d where z: "?step ?y (demo_marked_joint p ?y)"
      "jt_view demo_externals (demo_marked_joint p ?y) (ps_session p) = Some r''" "sr_is_settled r''"
      "cl_cumulative_amount (sc_claim (ps_highest p)) < sr_cumulative_accepted r''"
      "route_settle_session demo_externals demo_runtime demo_ids ''r'' (pk_show demo_externals 7) None
           (gs_state (jt_gateway (demo_marked_joint p ?y))) = (Err d, gs_state (jt_gateway (demo_marked_joint p ?y)))"
    using settlement_strands_claims [OF demo_joint_start y(1) _ view(1) _ demo_marked_joint_def view(2) rtranclp.rtrancl_refl,
        of "pk_show demo_externals 7" "''r''" None] by blast
  show "\<exists>y r d. ?step\<^sup>*\<^sup>* demo_joint\<^sub>0 y \<and> jt_view demo_externals y 7 = Some r \<and> sr_is_settled r
     \<and> 40 < sr_cumulative_accepted r
     \<and> route_settle_session demo_externals demo_runtime demo_ids ''r'' (pk_show demo_externals 7) None
         (gs_state (jt_gateway y)) = (Err d, gs_state (jt_gateway y))"
    using rtranclp.rtrancl_into_rtrancl [OF y(1) z(1)] z(2-5) y(2,3)
    by (intro exI [of _ "demo_marked_joint p ?y"] exI [of _ r''] exI [of _ d] conjI) simp_all
qed

theorem settled_is_paid_witness:
  "\<forall>J W. \<exists>y r s. (joint_step demo_externals demo_runtime demo_ids J W)\<^sup>*\<^sup>* demo_joint\<^sub>0 y
     \<and> jt_view demo_externals y 7 = Some r \<and> sr_is_settled r
     \<and> ch_sessions (jt_chain y) 7 = Some s \<and> ses_is_settled s \<and> agrees r s"
proof (intro allI)
  fix J W
  let ?step = "joint_step demo_externals demo_runtime demo_ids J W"
  let ?r = "advance demo_kept (demo_claim_of 70 3) 70"
  obtain c p l where y: "?step\<^sup>*\<^sup>* demo_joint\<^sub>0 (demo_later c p ?r l)" "ps_session p = 7" using demo_joint_run\<^sub>2 [of J W] by blast
  let ?y = "demo_marked_joint p (demo_later c p ?r l)"
  have "?step (demo_later c p ?r l) ?y"
    unfolding demo_marked_joint_def by (rule jt_mark) (simp add: demo_later_def)
  then have run: "?step\<^sup>*\<^sup>* demo_joint\<^sub>0 ?y" using y(1) by (rule rtranclp.rtrancl_into_rtrancl [rotated])
  have view: "jt_view demo_externals ?y 7 = Some (?r\<lparr>sr_is_settled := True\<rparr>)" by (rule demo_marked_view) (simp_all add: y(2))
  obtain s where "ch_sessions (jt_chain ?y) 7 = Some s" "ses_is_settled s" "agrees (?r\<lparr>sr_is_settled := True\<rparr>) s"
    using settled_is_paid [OF demo_joint_start run view] by auto
  with run view show "\<exists>y r s. ?step\<^sup>*\<^sup>* demo_joint\<^sub>0 y \<and> jt_view demo_externals y 7 = Some r \<and> sr_is_settled r
     \<and> ch_sessions (jt_chain y) 7 = Some s \<and> ses_is_settled s \<and> agrees r s"
    by (intro exI [of _ ?y] exI [of _ "?r\<lparr>sr_is_settled := True\<rparr>"] exI [of _ s] conjI) simp_all
qed

end
