(* ===== verification/Deadlines.thy ===== *)
theory Deadlines
  imports Router
begin

section \<open>Requests that are cut off\<close>

text \<open>
  The \<open>TimeoutLayer\<close>s of \<open>build_router\<close> in \<open>gateway/src/main.rs\<close>. When a deadline
  passes, the handler is dropped where it waits and the client gets an empty 504. What the
  handler wrote before stays. For every handler the states it passes through are listed, one
  after each of its writes: a statement of the database that was under way when the handler
  was dropped has happened or not. The routes that wait on the chain have the configured
  deadline, all others \<open>GENERAL_TIMEOUT\<close>. The general limit is in front of the deadlines, the
  guard of the control plane is behind its own. The limit on opening stands inside its
  deadline in the source and outside it here: it does not wait, so no deadline passes in it.
\<close>

subsection \<open>The states a handler passes through\<close>

definition one_write :: "(app_state \<Rightarrow> 'a \<times> app_state) \<Rightarrow> app_state \<Rightarrow> app_state list" where
  \<comment> \<open>a handler that writes once, or not at all\<close>
  "one_write h st = [st, snd (h st)]"

definition refresh_states :: "web \<Rightarrow> nat \<Rightarrow> app_state \<Rightarrow> app_state list" where
  \<comment> \<open>\<open>Registry::aggregate\<close> renews the price lists one provider after the other\<close>
  "refresh_states W instant st = (let reg = as_registry st in
     map (\<lambda>n. set_registry (refresh W instant (take n reg) @ drop n reg) st) [0..<Suc (length reg)])"

definition provider_states :: "(app_state \<Rightarrow> 'a \<times> app_state) \<Rightarrow> app_state \<Rightarrow> app_state list" where
  \<comment> \<open>the table first, then the running registry\<close>
  "provider_states h st = (let st' = snd (h st) in [st, st'\<lparr>as_registry := as_registry st\<rparr>, st'])"

definition enforce_states ::
    "externals \<Rightarrow> string \<Rightarrow> string \<Rightarrow> pubkey \<Rightarrow> pubkey \<Rightarrow> string \<Rightarrow> u64 \<Rightarrow> app_state \<Rightarrow> app_state list" where
  \<comment> \<open>a proposal is written before the refusal is metered; every other branch writes once\<close>
  "enforce_states X rid uuid agent session resource price st =
     (case as_db st of None \<Rightarrow> [] | Some (db, cdb) \<Rightarrow>
      case get_agent_by_pubkey (pk_show X agent) cdb of Err _ \<Rightarrow> [] | Ok None \<Rightarrow> [] | Ok (Some rec) \<Rightarrow>
      case (ar_status rec, ar_policy rec, agent_spend (pk_show X agent) db) of
        (Active, Some policy, Ok spend) \<Rightarrow>
          if evaluate Active (ar_mode rec) policy resource price spend = NeedsApproval
             \<and> fst (consume_approval (ar_agent_id rec) resource price cdb) = Ok False
          then [set_control (raise_approval uuid (ar_agent_id rec) resource price cdb) st]
          else []
      | _ \<Rightarrow> [])
     @ [snd (enforce_agent_policy X rid uuid agent session resource price st)]"

definition prepare_states ::
    "externals \<Rightarrow> serde \<Rightarrow> web \<Rightarrow> i64 \<Rightarrow> nat \<Rightarrow> string \<Rightarrow> string \<Rightarrow> string \<Rightarrow> string option \<Rightarrow> app_state \<Rightarrow> app_state list" where
  "prepare_states X J W now instant rid uuid resource header st = st #
     (case as_upstream st of None \<Rightarrow> [] | Some u \<Rightarrow>
      let resource_path = normalise_resource resource in
      case price_of W instant resource_path u of (price, u', urls) \<Rightarrow>
      let st\<^sub>1 = st\<lparr>as_upstream := Some u'\<rparr> in st\<^sub>1 #
      (case (price, header) of
         (Ok price, Some raw) \<Rightarrow>
           (case buy_check_claim X J now rid raw price st\<^sub>1 of
              Err _ \<Rightarrow> []
            | Ok (c, sig, rec) \<Rightarrow> enforce_states X rid uuid (sr_agent rec) (cl_session c) resource_path price st\<^sub>1)
       | _ \<Rightarrow> []))"

definition finish_states ::
    "externals \<Rightarrow> serde \<Rightarrow> web \<Rightarrow> i64 \<Rightarrow> string \<Rightarrow> string \<Rightarrow> buy_ticket \<Rightarrow> app_state \<Rightarrow> app_state list" where
  \<comment> \<open>the admission, then the meter; the provider is asked last\<close>
  "finish_states X J W now rid query t st =
     [st\<lparr>as_store := snd (store_admit_claim X (bt_claim t) (bt_signature t) now (as_store st))\<rparr>,
      fst (snd (buy_finish X J W now rid query t st))]"

definition buy_states ::
    "externals \<Rightarrow> serde \<Rightarrow> web \<Rightarrow> i64 \<Rightarrow> nat \<Rightarrow> string \<Rightarrow> string \<Rightarrow> string \<Rightarrow> string \<Rightarrow> string option \<Rightarrow> app_state
      \<Rightarrow> app_state list" where
  "buy_states X J W now instant rid uuid resource query header st =
     prepare_states X J W now instant rid uuid resource header st @
     (case buy_prepare X J W now instant rid uuid resource header st of
        (Ok (Paying t), st', urls) \<Rightarrow> finish_states X J W now rid query t st'
      | _ \<Rightarrow> [])"

fun fast_states :: "externals \<Rightarrow> serde \<Rightarrow> web \<Rightarrow> call \<Rightarrow> fast_route \<Rightarrow> app_state \<Rightarrow> app_state list" where
  "fast_states X J W cx (GetBuy resource query header) st =
     buy_states X J W (cc_now cx) (cc_instant cx) (cc_rid cx) (cc_uuid cx) resource query header st"
| "fast_states X J W cx GetCatalogue st = refresh_states W (cc_instant cx) st"
| "fast_states X J W cx (PostSessionPlan req) st =
     (case fst (plan_for_session X W (cc_now cx) (cc_instant cx) (cc_rid cx) req st) of
        Ok _ \<Rightarrow> refresh_states W (cc_instant cx) st | Err _ \<Rightarrow> [st])"
| "fast_states X J W cx f st = one_write (fast_handler X J W cx f) st"

fun control_states :: "externals \<Rightarrow> web \<Rightarrow> call \<Rightarrow> control_route \<Rightarrow> operator \<Rightarrow> app_state \<Rightarrow> app_state list" where
  "control_states X W cx (PostProviders req) op st = provider_states (register_provider X (cc_rid cx) op req) st"
| "control_states X W cx (DeleteProvider i) op st = provider_states (route_delete_provider (cc_rid cx) op i) st"
| "control_states X W cx (PostAgentPlan i resource calls) op st =
     (case fst (plan W (cc_instant cx) (cc_rid cx) op i resource calls st) of
        Ok _ \<Rightarrow> refresh_states W (cc_instant cx) st | Err _ \<Rightarrow> [st])"
| "control_states X W cx k op st = one_write (control_handler X W cx k op) st"

subsection \<open>The deadlines\<close>

record pace =
  \<comment> \<open>milliseconds after which each write of a request is done, and its answer is ready\<close>
  pc_writes :: "nat list"
  pc_answer :: nat

definition in_time :: "u64 \<Rightarrow> pace \<Rightarrow> bool" where
  "in_time secs p \<longleftrightarrow> pc_answer p \<le> 1000 * unat secs"

definition writes_done :: "u64 \<Rightarrow> pace \<Rightarrow> nat" where
  "writes_done secs p = length (takeWhile (\<lambda>t. t \<le> 1000 * unat secs) (pc_writes p))"

definition timeout_layer ::
    "u64 \<Rightarrow> pace \<Rightarrow> (app_state \<Rightarrow> app_state list) \<Rightarrow> (app_state \<Rightarrow> (reply, denial) result \<times> app_state)
      \<Rightarrow> app_state \<Rightarrow> (reply option, denial) result \<times> app_state" where
  \<comment> \<open>the answer of the handler, or nothing and the state it had reached\<close>
  "timeout_layer secs p states h st =
     (if in_time secs p then (case h st of (res, st') \<Rightarrow> (map_sum id Some res, st'))
      else (Ok None, states st ! min (writes_done secs p) (length (states st) - 1)))"

primrec timed_router ::
    "externals \<Rightarrow> runtime \<Rightarrow> solana_ids \<Rightarrow> serde \<Rightarrow> web \<Rightarrow> call \<Rightarrow> pace \<Rightarrow> route \<Rightarrow> reply option handler" where
  "timed_router X R I J W cx p (Chain r) = limit_general (cc_request cx) (cc_instant cx) (cc_rid cx) (\<lambda>sv.
     (if is_open_route r then limit_open (cc_request cx) (cc_instant cx) (cc_rid cx) else id)
       (with_app (timeout_layer (sv_chain_timeout sv) p (one_write (chain_handler X R I cx r))
          (chain_handler X R I cx r))) sv)"
| "timed_router X R I J W cx p (Fast r) = limit_general (cc_request cx) (cc_instant cx) (cc_rid cx)
     (with_app (timeout_layer GENERAL_TIMEOUT p (fast_states X J W cx r) (fast_handler X J W cx r)))"
| "timed_router X R I J W cx p (ControlPlane r) = (\<lambda>sv.
     if in_time GENERAL_TIMEOUT p \<or> writes_done GENERAL_TIMEOUT p \<noteq> 0
     then serve_control X (cc_admin cx) (cc_rid cx) (\<lambda>op. timeout_layer GENERAL_TIMEOUT (p\<lparr>pc_writes := tl (pc_writes p)\<rparr>)
       (control_states X W cx r op) (control_handler X W cx r op)) sv
     else (Ok None, sv))"
  \<comment> \<open>the first write of a control-plane request is the guard's\<close>

definition serve_timed ::
    "externals \<Rightarrow> runtime \<Rightarrow> solana_ids \<Rightarrow> serde \<Rightarrow> web \<Rightarrow> (call \<times> pace \<times> route) list \<Rightarrow> server \<Rightarrow> server" where
  "serve_timed X R I J W = fold (\<lambda>(cx, p, r) sv. snd (timed_router X R I J W cx p r sv))"

subsection \<open>Every state is on the way of the handler\<close>

lemma one_write_ends [simp]: "one_write h st \<noteq> []" "hd (one_write h st) = st" "last (one_write h st) = snd (h st)"
  by (simp_all add: one_write_def)

lemma provider_states_ends [simp]:
  "provider_states h st \<noteq> []" "hd (provider_states h st) = st" "last (provider_states h st) = snd (h st)"
  by (simp_all add: provider_states_def Let_def)

lemma set_registry_id [simp]: "set_registry (as_registry st) st = st"
  by (simp add: set_registry_def)

lemma refresh_states_ends [simp]:
  "refresh_states W i st \<noteq> []" "hd (refresh_states W i st) = st"
  "last (refresh_states W i st) = set_registry (refresh W i (as_registry st)) st"
  by (simp_all add: refresh_states_def Let_def hd_map last_map refresh_def del: upt_Suc)

lemma plan_reached:
  "plan W i rid op a resource calls st = (Ok v, st', urls) \<Longrightarrow> st' = set_registry (refresh W i (as_registry st)) st"
  "plan_for_session X W now i rid req st = (Ok v', st', urls) \<Longrightarrow> st' = set_registry (refresh W i (as_registry st)) st"
  "plan W i rid op a resource calls st = (Err d, st', urls) \<Longrightarrow> st' = st"
  "plan_for_session X W now i rid req st = (Err d, st', urls) \<Longrightarrow> st' = st"
  by (auto simp: plan_def plan_for_session_def plan_options_def aggregate_def Let_def
      split: sum.splits option.splits prod.splits if_splits)

lemma enforce_states_ends [simp]:
  "enforce_states X rid uuid a k resource price st \<noteq> []"
  "last (enforce_states X rid uuid a k resource price st) = snd (enforce_agent_policy X rid uuid a k resource price st)"
  by (simp_all add: enforce_states_def)

lemma prepare_states_ends [simp]:
  "prepare_states X J W now i rid uuid resource header st \<noteq> []"
  "hd (prepare_states X J W now i rid uuid resource header st) = st"
  "last (prepare_states X J W now i rid uuid resource header st) = fst (snd (buy_prepare X J W now i rid uuid resource header st))"
  by (auto simp: prepare_states_def buy_prepare_def Let_def split: option.splits sum.splits prod.splits)

lemma buy_states_ends [simp]:
  "buy_states X J W now i rid uuid resource query header st \<noteq> []"
  "hd (buy_states X J W now i rid uuid resource query header st) = st"
  "last (buy_states X J W now i rid uuid resource query header st) = fst (snd (buy X J W now i rid uuid resource query header st))"
  by (auto simp: buy_states_def finish_states_def buy_def split: sum.splits prod.splits buy_step.splits)

text \<open>
  Each list begins with the state the request found and ends with the state its handler
  leaves.
\<close>

definition passes :: "app_state list \<Rightarrow> app_state \<Rightarrow> app_state \<Rightarrow> bool" where
  "passes ss st st' \<longleftrightarrow> ss \<noteq> [] \<and> hd ss = st \<and> last ss = st'"

lemma fast_states_pass: "passes (fast_states X J W cx f st) st (snd (fast_handler X J W cx f st))"
proof (cases f)
  case (PostSessionPlan req)
  obtain res st' urls where p: "plan_for_session X W (cc_now cx) (cc_instant cx) (cc_rid cx) req st = (res, st', urls)"
    using prod_cases3 by blast
  then show ?thesis using PostSessionPlan by (cases res) (auto simp: passes_def dest!: plan_reached(2,4))
qed (simp_all add: passes_def route_catalogue_def aggregate_def split: prod.splits)

lemma control_states_pass: "passes (control_states X W cx k op st) st (snd (control_handler X W cx k op st))"
proof (cases k)
  case (PostAgentPlan i resource calls)
  obtain res st' urls where p: "plan W (cc_instant cx) (cc_rid cx) op i resource calls st = (res, st', urls)"
    using prod_cases3 by blast
  then show ?thesis using PostAgentPlan by (cases res) (auto simp: passes_def dest!: plan_reached(1,3))
qed (simp_all add: passes_def)

lemma one_write_pass: "passes (one_write h st) st (snd (h st))"
  by (simp add: passes_def)

lemma timeout_state:
  assumes "passes (states st) st\<^sub>0 (snd (h st))"
  shows "snd (timeout_layer secs p states h st) \<in> set (states st)"
proof (cases "in_time secs p")
  case True
  then show ?thesis using assms last_in_set [of "states st"] by (auto simp: timeout_layer_def passes_def split: prod.splits)
next
  case False
  have "0 < length (states st)" using assms by (simp add: passes_def)
  then have "min (writes_done secs p) (length (states st) - 1) < length (states st)" by linarith
  then show ?thesis using False by (simp add: timeout_layer_def)
qed

lemma timed_states:
  "snd (timeout_layer secs p (one_write h) h st) \<in> {st, snd (h st)}"
  "snd (timeout_layer secs p (fast_states X J W cx f) (fast_handler X J W cx f) st) \<in> set (fast_states X J W cx f st)"
  "snd (timeout_layer secs p (control_states X W cx k op) (control_handler X W cx k op) st) \<in> set (control_states X W cx k op st)"
  using timeout_state [where states = "one_write h" and h = h and st = st, OF one_write_pass]
    timeout_state [where states = "fast_states X J W cx f" and h = "fast_handler X J W cx f" and st = st, OF fast_states_pass]
    timeout_state [where states = "control_states X W cx k op" and h = "control_handler X W cx k op" and st = st, OF control_states_pass]
  by (simp_all add: one_write_def)

lemma timed_app:
  assumes app: "P (sv_app sv)"
    and chain: "\<And>c secs. r = Chain c \<Longrightarrow> P (snd (timeout_layer secs p (one_write (chain_handler X R I cx c)) (chain_handler X R I cx c) (sv_app sv)))"
    and fast: "\<And>f. r = Fast f \<Longrightarrow> P (snd (timeout_layer GENERAL_TIMEOUT p (fast_states X J W cx f) (fast_handler X J W cx f) (sv_app sv)))"
    and ctl: "\<And>k op st q. r = ControlPlane k \<Longrightarrow> P st \<Longrightarrow>
      P (snd (timeout_layer GENERAL_TIMEOUT q (control_states X W cx k op) (control_handler X W cx k op) st))"
    and touch: "\<And>res cdb. require_admin X (as_admin_token (sv_app sv)) (cc_rid cx) (cc_admin cx) (map_option snd (as_db (sv_app sv)))
      = (res, Some cdb) \<Longrightarrow> P (set_control cdb (sv_app sv))"
  shows "P (sv_app (snd (timed_router X R I J W cx p r sv)))"
proof (cases r)
  case (Chain c)
  let ?h = "\<lambda>secs. with_app (timeout_layer secs p (one_write (chain_handler X R I cx c)) (chain_handler X R I cx c))"
  have h: "P (sv_app (snd (?h secs sv')))" if "sv_app sv' = sv_app sv" for secs sv' using chain [OF Chain] that by simp
  have "P (sv_app (snd (limit_open req now rid (?h secs) sv')))" if "sv_app sv' = sv_app sv" for req now rid secs sv'
    using limited_app(2) [of P sv' "?h secs" req now rid] app h that by simp
  then show ?thesis
    using h unfolding Chain timed_router.simps by (intro limited_app(1) [of P sv, OF app]) simp
next
  case (Fast f)
  show ?thesis
    unfolding Fast timed_router.simps by (rule limited_app(1) [of P sv, OF app]) (use fast [OF Fast] in simp)
next
  case (ControlPlane k)
  obtain res c where g: "require_admin X (as_admin_token (sv_app sv)) (cc_rid cx) (cc_admin cx)
      (map_option snd (as_db (sv_app sv))) = (res, c)" by fastforce
  have "P (case c of None \<Rightarrow> sv_app sv | Some c \<Rightarrow> set_control c (sv_app sv))"
    using app touch g by (auto split: option.splits)
  then show ?thesis using g app ctl [OF ControlPlane]
    by (cases res) (simp_all add: ControlPlane serve_control_def)
qed

subsection \<open>What every state keeps\<close>

locale deadline_invariant = router_invariant +
  assumes fast_states_keep: "P st \<Longrightarrow> s \<in> set (fast_states X J W cx f st) \<Longrightarrow> P s"
    and control_states_keep: "P st \<Longrightarrow> s \<in> set (control_states X W cx k op st) \<Longrightarrow> P s"
begin

lemma timed_keeps: "P (sv_app sv) \<Longrightarrow> P (sv_app (snd (timed_router X R I J W cx p r sv)))"
proof (rule timed_app [where P = P])
  assume p: "P (sv_app sv)"
  show "P (snd (timeout_layer secs p (one_write (chain_handler X R I cx c)) (chain_handler X R I cx c) (sv_app sv)))" for secs c
    using timed_states(1) [of secs p "chain_handler X R I cx c" "sv_app sv"] chain_keeps [OF p] p by auto
  show "P (snd (timeout_layer GENERAL_TIMEOUT p (fast_states X J W cx f) (fast_handler X J W cx f) (sv_app sv)))" for f
    by (rule fast_states_keep [OF p timed_states(2)])
  show "P (snd (timeout_layer GENERAL_TIMEOUT q (control_states X W cx k op) (control_handler X W cx k op) st))"
    if "P st" for k op st q by (rule control_states_keep [OF that timed_states(3)])
qed (use guard_keeps in blast)+

lemma serve_timed_keeps: "P (sv_app sv) \<Longrightarrow> P (sv_app (serve_timed X R I J W evs sv))"
proof (induction evs arbitrary: sv)
  case (Cons e evs)
  from timed_keeps [OF Cons.prems] show ?case using Cons.IH by (simp add: serve_timed_def case_prod_unfold)
qed (simp add: serve_timed_def)

end

end
