(* ===== verification/Router_Props.thy ===== *)
theory Router_Props
  imports Router Server_Props
begin

section \<open>The server implements the gateway\<close>

text \<open>
  Every request the router serves, with all the layers in front of its handler, is a
  sequence of steps of the gateway of theory \<open>Gateway_Safety\<close>: what was proved of all
  interleavings of those steps holds of the process that \<open>main\<close> starts.
\<close>

subsection \<open>The control plane does not touch sessions\<close>

lemma set_registry_same [simp]: "same_sessions st (set_registry reg st)"
  by (auto simp: same_sessions_def set_registry_def split: backend.splits)

lemma set_registry_same_after [simp]: "same_sessions st (set_registry reg (set_control cdb st))"
  by (rule same_sessions_trans [OF set_control_same set_registry_same])

lemma plan_options_same: "same_sessions st (fst (snd (plan_options W instant a sp wanted calls st)))"
  by (auto simp: plan_options_def Let_def split: prod.splits)

lemma plans_same:
  "same_sessions st (fst (snd (plan W instant rid op i resource calls st)))"
  "same_sessions st (fst (snd (plan_for_session X W now instant rid req st)))"
  using plan_options_same [of st W instant]
  by (auto simp: plan_def plan_for_session_def Let_def split: sum.splits prod.splits option.splits) (metis fst_conv snd_conv)+

lemma control_handler_same: "same_sessions st (snd (control_handler X W cx k op st))"
  by (cases k)
    (auto simp: route_create_agent_def authorize_agent_def route_set_agent_status_def register_provider_def
      route_delete_provider_def route_create_operator_def rotate_own_token_def set_operator_status_def
      route_decide_approval_def plans_same Let_def split: sum.splits prod.splits bool.splits option.splits)

lemma control_plane_same: "same_sessions (sv_app sv) (sv_app (snd (control_plane X W cx k sv)))"
proof -
  obtain res c where g: "require_admin X (as_admin_token (sv_app sv)) (cc_rid cx) (cc_admin cx)
      (map_option snd (as_db (sv_app sv))) = (res, c)" by fastforce
  have "same_sessions (sv_app sv) (case c of None \<Rightarrow> sv_app sv | Some c \<Rightarrow> set_control c (sv_app sv))"
    by (simp split: option.splits)
  then show ?thesis
    using g same_sessions_trans [OF _ control_handler_same]
    by (cases res) (simp_all add: control_plane_def serve_control_def)
qed

subsection \<open>Steps of the gateway\<close>

abbreviation gw_at :: "app_state \<Rightarrow> buy_ticket list \<Rightarrow> (claim \<times> claim_accepted) list \<Rightarrow> gw" where
  "gw_at st ts l \<equiv> \<lparr>gs_state = st, gs_tickets = ts, gs_log = l\<rparr>"

lemma env_step:
  assumes "gw_inv X st" and "same_sessions st st'"
  shows "(gw_step X R I J W)\<^sup>*\<^sup>* (gw_at st ts l) (gw_at st' ts (l @ []))"
  using gw_env [of X st' "gw_at st ts l" R I J W] same_sessions_view [OF assms(2), of X] assms(1)
  by (simp add: r_into_rtranclp)

lemma open_step: "(gw_step X R I J W)\<^sup>*\<^sup>* (gw_at st ts l) (gw_at (snd (route_open_session X rid req st)) ts (l @ []))"
  using gw_open [of X rid req "gw_at st ts l"] by (cases "route_open_session X rid req st") (simp add: r_into_rtranclp)

lemma settle_step: "(gw_step X R I J W)\<^sup>*\<^sup>* (gw_at st ts l) (gw_at (snd (route_settle_session X R I rid s mr st)) ts (l @ []))"
  using gw_settle [of X R I rid s mr "gw_at st ts l"] by (cases "route_settle_session X R I rid s mr st") (simp add: r_into_rtranclp)

lemma reconcile_step: "(gw_step X R I J W)\<^sup>*\<^sup>* (gw_at st ts l) (gw_at (snd (reconcile_session X rid s st)) ts (l @ []))"
  using gw_reconcile [of X rid s "gw_at st ts l"] by (cases "reconcile_session X rid s st") (simp add: r_into_rtranclp)

lemma verify_step: "(gw_step X R I J W)\<^sup>*\<^sup>* (gw_at st ts l) (gw_at (snd (verify_claim X now rid w st)) ts
    (l @ verify_log X now w (fst (verify_claim X now rid w st)) st))"
  using gw_verify [of X now rid w "gw_at st ts l"] by (cases "verify_claim X now rid w st") (simp add: r_into_rtranclp)

definition bought ::
    "externals \<Rightarrow> serde \<Rightarrow> web \<Rightarrow> i64 \<Rightarrow> nat \<Rightarrow> string \<Rightarrow> string \<Rightarrow> string \<Rightarrow> string option \<Rightarrow> app_state
      \<Rightarrow> (claim \<times> claim_accepted) list" where
  \<comment> \<open>the claim a purchase admits\<close>
  "bought X J W now instant rid uuid resource header st =
     (case buy_prepare X J W now instant rid uuid resource header st of
        (Ok (Paying t), st', urls) \<Rightarrow> admitted X (bt_claim t) (bt_signature t) now st'
      | _ \<Rightarrow> [])"

lemma buy_step:
  "(gw_step X R I J W)\<^sup>*\<^sup>* (gw_at st ts l)
     (gw_at (fst (snd (buy X J W now instant rid uuid resource query header st))) ts
       (l @ bought X J W now instant rid uuid resource header st))"
proof -
  obtain res st' urls where p: "buy_prepare X J W now instant rid uuid resource header st = (res, st', urls)"
    using prod_cases3 by blast
  have s: "gw_step X R I J W (gw_at st ts l) (gw_at st' (new_tickets res @ ts) l)"
    using gw_prepare [of X J W now instant rid uuid resource header "gw_at st ts l"] p by simp
  show ?thesis
  proof (cases "\<exists>t. res = Ok (Paying t)")
    case True
    then obtain t where t: "res = Ok (Paying t)" by blast
    obtain fres st'' urls' where f: "buy_finish X J W now rid query t st' = (fres, st'', urls')"
      using prod_cases3 by blast
    have "gw_step X R I J W (gw_at st' (t # ts) l) (gw_at st'' ts (l @ admitted X (bt_claim t) (bt_signature t) now st'))"
      using gw_finish [of t "gw_at st' (t # ts) l" X J W now rid query] f by simp
    with s t show ?thesis using p f
      by (simp add: new_tickets_def buy_def bought_def converse_rtranclp_into_rtranclp r_into_rtranclp)
  next
    case False
    then have "new_tickets res = []" "fst (snd (buy X J W now instant rid uuid resource query header st)) = st'"
      "bought X J W now instant rid uuid resource header st = []"
      using p by (auto simp: new_tickets_def buy_def bought_def split: sum.splits buy_step.splits)
    then show ?thesis using s by (simp add: r_into_rtranclp)
  qed
qed

subsection \<open>Every request\<close>

definition admissions :: "route \<Rightarrow> nat" where
  \<comment> \<open>how many claims a request can get admitted: one for a claim or a purchase, else none\<close>
  "admissions r = (case r of Fast (PostClaimVerify w) \<Rightarrow> 1 | Fast (GetBuy resource query header) \<Rightarrow> 1 | _ \<Rightarrow> 0)"

lemma chain_steps:
  "gw_inv X st \<Longrightarrow> (gw_step X R I J W)\<^sup>*\<^sup>* (gw_at st ts l) (gw_at (snd (chain_handler X R I cx c st)) ts (l @ []))"
  using open_step settle_step reconcile_step env_step [OF _ same_sessions_refl] by (cases c) simp_all

lemma fast_steps:
  assumes "gw_inv X st"
  shows "\<exists>log. (gw_step X R I J W)\<^sup>*\<^sup>* (gw_at st ts l) (gw_at (snd (fast_handler X J W cx f st)) ts (l @ log))
    \<and> length log \<le> admissions (Fast f)"
proof (cases f)
  case (PostClaimVerify w)
  have "length (verify_log X now w res st) \<le> 1" for now and res :: "(verify_claim_response, denial) result"
    by (auto simp: verify_log_def admitted_def split: sum.splits)
  then show ?thesis
    using PostClaimVerify verify_step [of X R I J W st ts l] by (simp add: admissions_def) blast
next
  case (GetBuy resource query header)
  have "length (bought X J W now instant rid uuid resource header st) \<le> 1" for now instant rid uuid
    by (auto simp: bought_def admitted_def split: sum.splits prod.splits buy_step.splits)
  then show ?thesis
    using GetBuy buy_step [of X R I J W st ts l] by (simp add: admissions_def) blast
next
  case (PostSessionPlan req)
  then show ?thesis using env_step [OF assms plans_same(2)] by (intro exI [of _ "[]"]) simp
next
  case GetCatalogue
  then show ?thesis
    using env_step [OF assms set_registry_same]
    by (intro exI [of _ "[]"]) (simp add: route_catalogue_def split: prod.splits)
qed (use env_step [OF assms same_sessions_refl, of R I J W ts l] in \<open>auto intro!: exI [of _ "[]"]\<close>)

lemma request_steps:
  assumes "gw_inv X (sv_app sv)"
  shows "\<exists>log. (gw_step X R I J W)\<^sup>*\<^sup>* (gw_at (sv_app sv) ts l) (gw_at (sv_app (snd (build_router X R I J W cx r sv))) ts (l @ log))
    \<and> length log \<le> admissions r"
proof (rule router_app [where P = "\<lambda>st'. \<exists>log. (gw_step X R I J W)\<^sup>*\<^sup>* (gw_at (sv_app sv) ts l) (gw_at st' ts (l @ log))
    \<and> length log \<le> admissions r"])
  show "\<exists>log. (gw_step X R I J W)\<^sup>*\<^sup>* (gw_at (sv_app sv) ts l) (gw_at (sv_app sv) ts (l @ log)) \<and> length log \<le> admissions r"
    by (intro exI [of _ "[]"]) simp
next
  fix c
  show "\<exists>log. (gw_step X R I J W)\<^sup>*\<^sup>* (gw_at (sv_app sv) ts l) (gw_at (snd (chain_handler X R I cx c (sv_app sv))) ts (l @ log))
      \<and> length log \<le> admissions r"
    using chain_steps [OF assms, of R I J W ts l cx c] by (intro exI [of _ "[]"]) simp
next
  fix f assume "r = Fast f"
  then show "\<exists>log. (gw_step X R I J W)\<^sup>*\<^sup>* (gw_at (sv_app sv) ts l) (gw_at (snd (fast_handler X J W cx f (sv_app sv))) ts (l @ log))
      \<and> length log \<le> admissions r"
    using fast_steps [OF assms] by simp
next
  fix k
  show "\<exists>log. (gw_step X R I J W)\<^sup>*\<^sup>* (gw_at (sv_app sv) ts l) (gw_at (sv_app (snd (control_plane X W cx k sv))) ts (l @ log))
      \<and> length log \<le> admissions r"
    using env_step [OF assms control_plane_same, of R I J W ts l] by (intro exI [of _ "[]"]) simp
qed

lemma buy_inv: "gw_inv X st \<Longrightarrow> gw_inv X (fst (snd (buy X J W now instant rid uuid resource query header st)))"
proof -
  assume inv: "gw_inv X st"
  obtain res st' urls where p: "buy_prepare X J W now instant rid uuid resource header st = (res, st', urls)"
    using prod_cases3 by blast
  have inv': "gw_inv X st'"
    using same_sessions_view [of st st' X] buy_prepare_same [of st X J W now instant rid uuid resource header] p inv by simp
  show ?thesis
  proof (cases "\<exists>t. res = Ok (Paying t)")
    case True
    then obtain t where t: "res = Ok (Paying t)" by blast
    obtain fres st'' urls' where f: "buy_finish X J W now rid query t st' = (fres, st'', urls')" using prod_cases3 by blast
    have "gw_inv X st''"
      using same_sessions_view [OF buy_finish_sessions [OF f], of X] gws.admit_inv [OF inv', of "bt_claim t" "bt_signature t" now]
      by simp
    then show ?thesis using p t f by (simp add: buy_def)
  next
    case False
    then show ?thesis using p inv' by (auto simp: buy_def split: sum.splits buy_step.splits)
  qed
qed

lemma session_handlers_inv:
  assumes "gw_inv X st"
  shows "gw_inv X (snd (route_open_session X rid req st))" and "gw_inv X (snd (route_settle_session X R I rid s mr st))"
    and "gw_inv X (snd (reconcile_session X rid s st))" and "gw_inv X (snd (verify_claim X now rid w st))"
  using route_open_session_evolves [OF assms prod.collapse [symmetric], of rid req]
    route_settle_session_evolves [OF assms prod.collapse [symmetric], of R I rid s mr]
    reconcile_session_evolves [OF assms prod.collapse [symmetric], of rid s]
    verify_claim_evolves [OF assms prod.collapse [symmetric], of now rid w] by simp_all

interpretation sessions: router_invariant X "\<lambda>st. gw_inv X st" for X
proof (unfold_locales, goal_cases)
  case (1 st R I cx c)
  then show ?case using session_handlers_inv(1-3) by (cases c) simp_all
next
  case (2 st J W cx f)
  then show ?case
    using session_handlers_inv(4) buy_inv same_sessions_view [OF plans_same(2)] same_sessions_view [OF set_registry_same]
    by (cases f) (simp_all add: route_catalogue_def split: prod.splits)
next
  case (3 st W cx k op)
  then show ?case using same_sessions_view [OF control_handler_same] by blast
next
  case (4 st rid areq res cdb)
  then show ?case using same_sessions_view [OF set_control_same] by blast
qed

lemma serve_all_steps:
  assumes "gw_inv X (sv_app sv)"
  shows "\<exists>log. (gw_step X R I J W)\<^sup>*\<^sup>* (gw_at (sv_app sv) ts l) (gw_at (sv_app (serve_all X R I J W evs sv)) ts (l @ log))
    \<and> length log \<le> sum_list (map (\<lambda>e. admissions (snd e)) evs)"
  using assms
proof (induction evs arbitrary: sv l)
  case (Cons e evs)
  let ?sv = "snd (build_router X R I J W (fst e) (snd e) sv)"
  obtain log1 where 1: "(gw_step X R I J W)\<^sup>*\<^sup>* (gw_at (sv_app sv) ts l) (gw_at (sv_app ?sv) ts (l @ log1))"
    "length log1 \<le> admissions (snd e)" using request_steps [OF Cons.prems] by blast
  have "gw_inv X (sv_app ?sv)" by (rule sessions.step_keeps [OF Cons.prems])
  from Cons.IH [OF this, of "l @ log1"] obtain log2 where 2:
    "(gw_step X R I J W)\<^sup>*\<^sup>* (gw_at (sv_app ?sv) ts (l @ log1)) (gw_at (sv_app (serve_all X R I J W evs ?sv)) ts ((l @ log1) @ log2))"
    "length log2 \<le> sum_list (map (\<lambda>e. admissions (snd e)) evs)" by blast
  have "serve_all X R I J W (e # evs) sv = serve_all X R I J W evs ?sv" by (simp add: serve_all_def case_prod_unfold)
  then show ?case using rtranclp_trans [OF 1(1) 2(1)] 1(2) 2(2) by (intro exI [of _ "log1 @ log2"]) simp
qed (auto simp: serve_all_def intro!: exI [of _ "[]"])

text \<open>
  The server refines the gateway. Any sequence of requests to any of its routes, served
  or refused by the limiters, by the guard or by the handlers, is a run of the gateway's
  step relation, with whatever purchases are pending at the time left pending; and the run
  admits at most one claim for each request to the claim endpoint or the paid path, and none
  for any other request.
\<close>

theorem server_refines_gateway:
  assumes "gw_inv X (sv_app sv)"
  shows "\<exists>log. (gw_step X R I J W)\<^sup>*\<^sup>* (gw_at (sv_app sv) ts l) (gw_at (sv_app (serve_all X R I J W evs sv)) ts (l @ log))
    \<and> length log \<le> sum_list (map (\<lambda>e. admissions (snd e)) evs)"
  by (rule serve_all_steps [OF assms])

theorem server_refines_gateway_witness:
  "\<forall>R I J W. \<exists>sv log. boot demo_externals (demo_world demo_db) demo_env = Ok sv
     \<and> (gw_step demo_externals R I J W)\<^sup>*\<^sup>* (gw_at (sv_app sv) [] [])
        (gw_at (sv_app (serve_all demo_externals R I J W [(demo_call, Fast (PostClaimVerify (demo_wire (demo_claim_of 40 2)))),
           (demo_call, ControlPlane GetOperators)] sv)) [] log) \<and> length log \<le> 1"
proof (intro allI)
  fix R I J W
  obtain sv where sv: "boot demo_externals (demo_world demo_db) demo_env = Ok sv" "as_store (sv_app sv) = Durable demo_db demo_control"
    using demo_boot [OF demo_db_facts(1,2)] by blast
  have "gw_inv demo_externals (sv_app sv)" using sv(2) demo_db_facts(1) by (simp add: backend_inv_def)
  from server_refines_gateway [OF this, of R I J W "[]" "[]" "[(demo_call, Fast (PostClaimVerify (demo_wire (demo_claim_of 40 2)))),
      (demo_call, ControlPlane GetOperators)]"] sv(1)
  show "\<exists>sv log. boot demo_externals (demo_world demo_db) demo_env = Ok sv
     \<and> (gw_step demo_externals R I J W)\<^sup>*\<^sup>* (gw_at (sv_app sv) [] [])
        (gw_at (sv_app (serve_all demo_externals R I J W [(demo_call, Fast (PostClaimVerify (demo_wire (demo_claim_of 40 2)))),
           (demo_call, ControlPlane GetOperators)] sv)) [] log) \<and> length log \<le> 1"
    by (auto simp: admissions_def)
qed

subsection \<open>From the environment to the books\<close>

lemma fresh_progress: "record_ok k r \<Longrightarrow> sr_cumulative_accepted r = 0 \<Longrightarrow> sr_last_nonce r = None \<Longrightarrow> progress k None (Some r) []"
  by (simp add: progress_def mark_def mark_nonce_def)

lemma boot_ok:
  assumes "boot X V env = Ok sv" and "\<forall>url db cdb. wd_connect V url = Some (db, cdb) \<longrightarrow> pg_inv X db \<and> pg_claims db = []"
  shows "gw_ok X (gw_at (sv_app sv) [] [])"
proof (cases "optional_env env ''DATABASE_URL''")
  case None
  then show ?thesis using boot_ephemeral [OF assms(1) None]
    by (simp add: gw_ok_def backend_inv_def backend_view_def mem_new_def log_of_def progress_refl)
next
  case (Some url)
  obtain cf b where "from_env X env = Ok cf" "open_backend X V cf = Ok b" by (rule boot_Ok [OF assms(1)])
  then obtain db cdb where c: "wd_connect V url = Some (db, cdb)"
    using Some from_env_Ok(6) [of X env cf] by (auto simp: open_backend_def split: option.splits)
  then obtain cdb' where s: "as_store (sv_app sv) = Durable db cdb'" using boot_durable [OF assms(1) Some] by blast
  have inv: "pg_inv X db" and none: "pg_claims db = []" using assms(2) c by blast+
  have r: "record_ok k r \<and> record_signed X r \<and> progress k None (Some r) []" if "pg_view X db k = Some r" for k r
  proof -
    have "map_option (\<lambda>row. decoded X k row None) (session_row_of db (pk_show X k)) = Some r"
      using pg_view_decoded [OF inv, of k] that none by (simp add: claim_row_of_def)
    then obtain row where row: "r = decoded X k row None" by blast
    then have "record_ok k r" "record_signed X r" by (auto simp: record_ok_def record_signed_def decoded_def mark_of_def)
    then show ?thesis using fresh_progress row by (simp add: decoded_def mark_of_def)
  qed
  have "progress k None (pg_view X db k) []" for k using r by (cases "pg_view X db k") (auto simp: progress_refl)
  then show ?thesis using s inv r by (simp add: gw_ok_def backend_inv_def backend_view_def log_of_def)
qed

lemma run_books:
  assumes start: "gw_ok X (gw_at st [] [])" and run: "(gw_step X R I J W)\<^sup>*\<^sup>* (gw_at st [] []) (gw_at st' [] lg)"
    and r: "gw_view X st' k = Some r"
  shows "total_delta (log_of k lg) = unat (sr_cumulative_accepted r) \<and> sr_cumulative_accepted r \<le> sr_deposited_total r
    \<and> (\<forall>sc. sr_highest_claim r = Some sc \<longrightarrow> cl_session (sc_claim sc) = k
        \<and> cl_cumulative_amount (sc_claim sc) = sr_cumulative_accepted r
        \<and> verify_claim_signature X (sr_agent r) (sc_claim sc) (sc_signature sc) = Valid)"
proof -
  from run start have ok: "gw_ok X (gw_at st' [] lg)" by (induction rule: rtranclp_induct) (auto intro: gw_ok_step)
  then have "progress k None (gw_view X st' k) (log_of k lg)" by (simp add: gw_ok_def)
  then have "progress k None (Some r) (log_of k lg)" unfolding r .
  then have l: "ladder 0 None (log_of k lg) (sr_cumulative_accepted r) (sr_last_nonce r)" and rok: "record_ok k r"
    using progress_NoneD by blast+
  have "record_signed X r" using ok r by (simp add: gw_ok_def)
  then show ?thesis using ladder_total [OF l] rok by (auto simp: record_ok_def record_signed_def)
qed

text \<open>
  The whole process keeps its books. From a start without a database, or on one whose
  sessions have no accepted claim yet, and after any sequence of requests to any route, each
  session's high-water mark is the sum of the deltas of the claims admitted for it, at most
  one per claim or purchase request, stays within its deposit, and the claim kept for
  settlement is signed by the session's agent for exactly that amount: nothing the limiters,
  the guard, the control plane, the planner or the listings do moves money.
\<close>

theorem served_books:
  assumes "boot X V env = Ok sv" and "\<forall>url db cdb. wd_connect V url = Some (db, cdb) \<longrightarrow> pg_inv X db \<and> pg_claims db = []"
    and "gw_view X (sv_app (serve_all X R I J W evs sv)) k = Some r"
  shows "\<exists>log. (gw_step X R I J W)\<^sup>*\<^sup>* (gw_at (sv_app sv) [] []) (gw_at (sv_app (serve_all X R I J W evs sv)) [] log)
    \<and> length log \<le> sum_list (map (\<lambda>e. admissions (snd e)) evs)
    \<and> total_delta (log_of k log) = unat (sr_cumulative_accepted r) \<and> sr_cumulative_accepted r \<le> sr_deposited_total r
    \<and> (\<forall>sc. sr_highest_claim r = Some sc \<longrightarrow> cl_session (sc_claim sc) = k
        \<and> cl_cumulative_amount (sc_claim sc) = sr_cumulative_accepted r
        \<and> verify_claim_signature X (sr_agent r) (sc_claim sc) (sc_signature sc) = Valid)"
proof -
  note start = boot_ok [OF assms(1,2)]
  then have "gw_inv X (sv_app sv)" by (simp add: gw_ok_def)
  from serve_all_steps [OF this, of R I J W "[]" "[]" evs] obtain log where
    log: "(gw_step X R I J W)\<^sup>*\<^sup>* (gw_at (sv_app sv) [] []) (gw_at (sv_app (serve_all X R I J W evs sv)) [] log)"
    "length log \<le> sum_list (map (\<lambda>e. admissions (snd e)) evs)" by auto
  show ?thesis using log run_books [OF start log(1) assms(3)] by blast
qed

lemma fresh_limiter_allows: "\<exists>l. check_at key now (limiter_new q) = (LimAllow, l)"
  by (simp add: check_at_def limiter_new_def evict_idle_def MAX_BUCKETS_def)

lemma demo_db_claims: "pg_claims demo_db = []"
  using pg_open_cases [of demo_externals demo_record "pg_empty 1000" "Ok ()" demo_db] demo_pg_opened
  by (auto simp: demo_db_def prod_eq_iff pg_empty_def)

lemma demo_claim_served:
  assumes "as_store (sv_app sv) = Durable demo_db demo_control" and "sv_general_limiter sv = limiter_new q"
  shows "as_store (sv_app (serve_all demo_externals R I J W
    [(demo_call, Fast (PostClaimVerify (demo_wire (demo_claim_of 40 2))))] sv)) = Durable demo_db\<^sub>1 demo_control"
proof -
  let ?ip = "client_ip_with (cc_request demo_call) (sv_trusted_proxies sv)"
  obtain l where l: "check_at ?ip (cc_instant demo_call) (limiter_new q) = (LimAllow, l)"
    using fresh_limiter_allows by blast
  have c: "cc_now demo_call = 1500" "cc_rid demo_call = ''r''" by (simp_all add: demo_call_def)
  obtain res where v: "verify_claim demo_externals 1500 ''r'' (demo_wire (demo_claim_of 40 2)) (sv_app sv)
      = (res, (sv_app sv)\<lparr>as_store := Durable demo_db\<^sub>1 demo_control\<rparr>)"
    using demo_durable_verified [OF assms(1)] by blast
  show ?thesis using l assms(2) v by (simp add: serve_all_def limit_general_def guard_def c)
qed

theorem served_books_witness:
  "\<forall>R I J W. \<exists>sv r log. boot demo_externals (demo_world demo_db) demo_env = Ok sv
     \<and> gw_view demo_externals (sv_app (serve_all demo_externals R I J W
         [(demo_call, Fast (PostClaimVerify (demo_wire (demo_claim_of 40 2))))] sv)) 7 = Some r
     \<and> total_delta (log_of 7 log) = unat (sr_cumulative_accepted r) \<and> sr_cumulative_accepted r = 40 \<and> length log \<le> 1"
proof (intro allI)
  fix R I J W
  let ?evs = "[(demo_call, Fast (PostClaimVerify (demo_wire (demo_claim_of 40 2))))]"
  obtain sv where sv: "boot demo_externals (demo_world demo_db) demo_env = Ok sv"
    "as_store (sv_app sv) = Durable demo_db demo_control" "sv_general_limiter sv = limiter_new (per_minute 600)"
    using demo_boot [OF demo_db_facts(1,2)] by blast
  have w: "\<forall>url db cdb. wd_connect (demo_world demo_db) url = Some (db, cdb) \<longrightarrow> pg_inv demo_externals db \<and> pg_claims db = []"
    using demo_db_facts(1) demo_db_claims by (simp add: demo_world_def)
  have view: "gw_view demo_externals (sv_app (serve_all demo_externals R I J W ?evs sv)) 7 = Some demo_marked"
    using demo_claim_served [OF sv(2,3)] demo_db\<^sub>1_facts(2) by (simp add: backend_view_def)
  have "sr_cumulative_accepted demo_marked = 40" by (simp add: demo_marked_def advance_def demo_claim_of_def)
  moreover have "\<exists>log. total_delta (log_of 7 log) = unat (sr_cumulative_accepted demo_marked) \<and> length log \<le> 1"
    using served_books [OF sv(1) w view] by (auto simp: admissions_def)
  ultimately show "\<exists>sv r log. boot demo_externals (demo_world demo_db) demo_env = Ok sv
     \<and> gw_view demo_externals (sv_app (serve_all demo_externals R I J W ?evs sv)) 7 = Some r
     \<and> total_delta (log_of 7 log) = unat (sr_cumulative_accepted r) \<and> sr_cumulative_accepted r = 40 \<and> length log \<le> 1"
    using sv(1) view by blast
qed

end
