(* ===== verification/Deadlines_Props.thy ===== *)
theory Deadlines_Props
  imports Deadlines Router_Props Control_Tables
begin

section \<open>The server with its deadlines\<close>

text \<open>
  A request that is cut off wherever it waits is still a run of the gateway's step relation,
  so everything proved of all interleavings holds of the server with its deadlines too: the
  books balance and the tables of the control plane keep their shape. A purchase cut off
  after its admission is paid for and not delivered.
\<close>

subsection \<open>A cut request is a run of the gateway\<close>

lemma same_sessions_sym: "same_sessions st st' \<Longrightarrow> same_sessions st' st"
  by (auto simp: same_sessions_def split: backend.splits)

lemma refresh_states_same: "s \<in> set (refresh_states W i st) \<Longrightarrow> same_sessions st s"
  by (auto simp: refresh_states_def Let_def)

lemma enforce_states_same: "s \<in> set (enforce_states X rid uuid a k resource price st) \<Longrightarrow> same_sessions st s"
  using enforce_same [of st X rid uuid a k resource price]
  by (auto simp: enforce_states_def split: option.splits sum.splits prod.splits agent_status.splits if_splits)

lemma prepare_states_same: "s \<in> set (prepare_states X J W now i rid uuid resource header st) \<Longrightarrow> same_sessions st s"
  using same_sessions_trans [OF upstream_same enforce_states_same]
  by (auto simp: prepare_states_def Let_def split: option.splits sum.splits prod.splits)

lemma provider_states_same:
  assumes "same_sessions st (snd (h st))" and "s \<in> set (provider_states h st)"
  shows "same_sessions st s"
  using assms by (auto simp: provider_states_def Let_def same_sessions_def split: backend.splits)

lemma control_states_same: "s \<in> set (control_states X W cx k op st) \<Longrightarrow> same_sessions st s"
proof (cases k)
  case (PostProviders req)
  then show "s \<in> set (control_states X W cx k op st) \<Longrightarrow> ?thesis"
    using provider_states_same [of st "register_provider X (cc_rid cx) op req" s] control_handler_same [of st X W cx k op] by simp
next
  case (DeleteProvider i)
  then show "s \<in> set (control_states X W cx k op st) \<Longrightarrow> ?thesis"
    using provider_states_same [of st "route_delete_provider (cc_rid cx) op i" s] control_handler_same [of st X W cx k op] by simp
next
  case (PostAgentPlan i resource calls)
  then show "s \<in> set (control_states X W cx k op st) \<Longrightarrow> ?thesis"
    using refresh_states_same by (auto split: sum.splits)
qed (use control_handler_same [of st X W cx k op] in \<open>auto simp: one_write_def\<close>)

lemma buy_states_late:
  assumes "s \<in> set (buy_states X J W now i rid uuid resource query header st)"
    and "s \<notin> set (prepare_states X J W now i rid uuid resource header st)"
  shows "same_sessions (fst (snd (buy X J W now i rid uuid resource query header st))) s"
proof -
  obtain step st' urls where p: "buy_prepare X J W now i rid uuid resource header st = (step, st', urls)" using prod_cases3 by blast
  then obtain t where t: "step = Ok (Paying t)" and s: "s \<in> set (finish_states X J W now rid query t st')"
    using assms by (auto simp: buy_states_def split: sum.splits buy_step.splits)
  obtain res st'' urls' where f: "buy_finish X J W now rid query t st' = (res, st'', urls')" using prod_cases3 by blast
  show ?thesis using s p t f same_sessions_sym [OF buy_finish_sessions [OF f]] by (auto simp: finish_states_def buy_def)
qed

lemma buy_states_steps:
  assumes inv: "gw_inv X st" and s: "s \<in> set (buy_states X J W now i rid uuid resource query header st)"
  shows "\<exists>log. (gw_step X R I J W)\<^sup>*\<^sup>* (gw_at st ts l) (gw_at s ts (l @ log)) \<and> length log \<le> 1"
proof (cases "s \<in> set (prepare_states X J W now i rid uuid resource header st)")
  case True
  then show ?thesis using env_step [OF inv prepare_states_same] by (intro exI [of _ "[]"]) simp
next
  case False
  then have "same_sessions (fst (snd (buy X J W now i rid uuid resource query header st))) s" using buy_states_late s by blast
  from env_step [OF buy_inv [OF inv] this]
  have "(gw_step X R I J W)\<^sup>*\<^sup>* (gw_at st ts l) (gw_at s ts (l @ bought X J W now i rid uuid resource header st))"
    using buy_step [of X R I J W st ts l now i rid uuid resource query header] by (simp add: rtranclp_trans)
  moreover have "length (bought X J W now i rid uuid resource header st) \<le> 1"
    by (auto simp: bought_def admitted_def split: sum.splits prod.splits buy_step.splits)
  ultimately show ?thesis by blast
qed

lemma buy_states_inv:
  assumes inv: "gw_inv X st" and s: "s \<in> set (buy_states X J W now i rid uuid resource query header st)"
  shows "gw_inv X s"
proof (cases "s \<in> set (prepare_states X J W now i rid uuid resource header st)")
  case True
  then show ?thesis using same_sessions_view [OF prepare_states_same] inv by blast
next
  case False
  then show ?thesis using buy_states_late [OF s] same_sessions_view buy_inv [OF inv] by blast
qed

lemma fast_states_steps:
  assumes inv: "gw_inv X st" and s: "s \<in> set (fast_states X J W cx f st)"
  shows "\<exists>log. (gw_step X R I J W)\<^sup>*\<^sup>* (gw_at st ts l) (gw_at s ts (l @ log)) \<and> length log \<le> admissions (Fast f)"
proof -
  have env: "?thesis" if "same_sessions st s" using env_step [OF inv that] by (intro exI [of _ "[]"]) simp
  have one: "?thesis" if "s \<in> set (one_write (fast_handler X J W cx f) st)"
    using that env fast_steps [OF inv, of R I J W ts l cx f] by (auto simp: one_write_def)
  show ?thesis
  proof (cases f)
    case (GetBuy resource query header)
    then show ?thesis using buy_states_steps [OF inv, of s] s by (simp add: admissions_def)
  next
    case (PostSessionPlan req)
    then have "same_sessions st s" using s refresh_states_same by (auto split: sum.splits)
    then show ?thesis by (rule env)
  next
    case GetCatalogue
    then show ?thesis using env refresh_states_same s by simp
  qed (use one s in simp_all)
qed

interpretation timed_sessions: deadline_invariant X "\<lambda>st. gw_inv X st" for X
proof (unfold_locales, goal_cases)
  case (1 st s J W cx f)
  then show ?case
  proof (cases f)
    case (GetBuy resource query header)
    then show ?thesis using 1 buy_states_inv by simp
  next
    case (PostSessionPlan req)
    then show ?thesis using 1 same_sessions_view [OF refresh_states_same] by (auto split: sum.splits)
  next
    case GetCatalogue
    then show ?thesis using 1 same_sessions_view [OF refresh_states_same] by auto
  qed (use 1 session_handlers_inv(4) in \<open>auto simp: one_write_def\<close>)
next
  case (2 st s W cx k op)
  then show ?case using same_sessions_view [OF control_states_same] by blast
qed

lemma enforce_states_wf:
  assumes "db_wf st" and "s \<in> set (enforce_states X rid uuid a k resource price st)"
  shows "db_wf s"
proof -
  have "db_wf (set_control (raise_approval uuid i resource price cdb) st)" if "Some (db, cdb) = as_db st" for db cdb i
    using assms(1) that by (auto simp: db_wf_def intro!: db_wf_set raise_approval_wf split: option.splits)
  then show ?thesis
    using assms(2) enforce_wf [OF assms(1), of X rid uuid a k resource price]
    by (auto simp: enforce_states_def split: option.splits sum.splits prod.splits agent_status.splits if_splits)
qed

lemma buy_states_wf:
  assumes "db_wf st" and "s \<in> set (buy_states X J W now i rid uuid resource query header st)"
  shows "db_wf s"
proof -
  obtain step st' urls where p: "buy_prepare X J W now i rid uuid resource header st = (step, st', urls)" using prod_cases3 by blast
  have "db_wf st'" using buy_prepare_wf [OF assms(1), of X J W now i rid uuid resource header] p by simp
  then have "db_wf s" if "s \<in> set (finish_states X J W now rid query t st')" for t
    using that admit_wf buy_finish_wf by (auto simp: finish_states_def)
  moreover have "db_wf s" if "s \<in> set (prepare_states X J W now i rid uuid resource header st)"
    using that assms(1) enforce_states_wf [of "st\<lparr>as_upstream := u\<rparr>" s for u]
    by (auto simp: prepare_states_def Let_def split: option.splits sum.splits prod.splits)
  ultimately show ?thesis using assms(2) p by (auto simp: buy_states_def split: sum.splits buy_step.splits)
qed

lemma refresh_states_wf: "db_wf st \<Longrightarrow> s \<in> set (refresh_states W i st) \<Longrightarrow> db_wf s"
  by (auto simp: refresh_states_def Let_def)

lemma provider_states_wf: "db_wf st \<Longrightarrow> db_wf (snd (h st)) \<Longrightarrow> s \<in> set (provider_states h st) \<Longrightarrow> db_wf s"
  using db_wf_frame(1) by (auto simp: provider_states_def Let_def set_registry_def)

interpretation timed_tables: deadline_invariant X db_wf for X
proof (unfold_locales, goal_cases)
  case (1 st s J W cx f)
  then show ?case
  proof (cases f)
    case (GetBuy resource query header)
    then show ?thesis using 1 buy_states_wf by simp
  next
    case (PostSessionPlan req)
    then show ?thesis using 1 refresh_states_wf by (auto split: sum.splits)
  next
    case GetCatalogue
    then show ?thesis using 1 refresh_states_wf by auto
  qed (use 1 verify_claim_wf in \<open>auto simp: one_write_def\<close>)
next
  case (2 st s W cx k op)
  note wf = control_handler_wf [OF 2(1), of X W cx k op]
  show ?case
  proof (cases k)
    case (PostProviders req)
    then show ?thesis using 2 wf provider_states_wf [OF 2(1), of "register_provider X (cc_rid cx) op req"] by simp
  next
    case (DeleteProvider i)
    then show ?thesis using 2 wf provider_states_wf [OF 2(1), of "route_delete_provider (cc_rid cx) op i"] by simp
  next
    case (PostAgentPlan i resource calls)
    then show ?thesis using 2 refresh_states_wf by (auto split: sum.splits)
  qed (use 2 wf in \<open>auto simp: one_write_def\<close>)
qed

subsection \<open>The server refines the gateway\<close>

lemma timed_request_steps:
  assumes inv: "gw_inv X (sv_app sv)"
  shows "\<exists>log. (gw_step X R I J W)\<^sup>*\<^sup>* (gw_at (sv_app sv) ts l) (gw_at (sv_app (snd (timed_router X R I J W cx p r sv))) ts (l @ log))
    \<and> length log \<le> admissions r"
proof -
  let ?P = "\<lambda>st'. \<exists>log. (gw_step X R I J W)\<^sup>*\<^sup>* (gw_at (sv_app sv) ts l) (gw_at st' ts (l @ log)) \<and> length log \<le> admissions r"
  let ?Q = "\<lambda>st'. ?P st' \<and> (\<forall>k. r = ControlPlane k \<longrightarrow> same_sessions (sv_app sv) st')"
  have env: "?Q st'" if "same_sessions (sv_app sv) st'" for st'
    using env_step [OF inv that, of R I J W ts l] that by (intro conjI exI [of _ "[]"]) auto
  have "?Q (sv_app (snd (timed_router X R I J W cx p r sv)))"
  proof (rule timed_app [where P = ?Q])
    show "?Q (sv_app sv)" by (rule env) simp
  next
    fix c secs assume r: "r = Chain c"
    have "?P (snd (chain_handler X R I cx c (sv_app sv)))"
      using chain_steps [OF inv, of R I J W ts l cx c] by (intro exI [of _ "[]"]) simp
    then show "?Q (snd (timeout_layer secs p (one_write (chain_handler X R I cx c)) (chain_handler X R I cx c) (sv_app sv)))"
      using timed_states(1) [of secs p "chain_handler X R I cx c" "sv_app sv"] env [of "sv_app sv"] r by auto
  next
    fix f assume "r = Fast f"
    then show "?Q (snd (timeout_layer GENERAL_TIMEOUT p (fast_states X J W cx f) (fast_handler X J W cx f) (sv_app sv)))"
      using fast_states_steps [OF inv timed_states(2)] by simp
  next
    fix k op st q assume "r = ControlPlane k" and "?Q st"
    then show "?Q (snd (timeout_layer GENERAL_TIMEOUT q (control_states X W cx k op) (control_handler X W cx k op) st))"
      using env same_sessions_trans [OF _ control_states_same [OF timed_states(3)]] by blast
  next
    fix res cdb
    show "?Q (set_control cdb (sv_app sv))" by (rule env) simp
  qed
  then show ?thesis by blast
qed

lemma serve_timed_steps:
  assumes "gw_inv X (sv_app sv)"
  shows "\<exists>log. (gw_step X R I J W)\<^sup>*\<^sup>* (gw_at (sv_app sv) ts l) (gw_at (sv_app (serve_timed X R I J W evs sv)) ts (l @ log))
    \<and> length log \<le> sum_list (map (\<lambda>e. admissions (snd (snd e))) evs)"
  using assms
proof (induction evs arbitrary: sv l)
  case (Cons e evs)
  let ?sv = "snd (timed_router X R I J W (fst e) (fst (snd e)) (snd (snd e)) sv)"
  obtain log1 where 1: "(gw_step X R I J W)\<^sup>*\<^sup>* (gw_at (sv_app sv) ts l) (gw_at (sv_app ?sv) ts (l @ log1))"
    "length log1 \<le> admissions (snd (snd e))" using timed_request_steps [OF Cons.prems] by blast
  have "gw_inv X (sv_app ?sv)" by (rule timed_sessions.timed_keeps [OF Cons.prems])
  from Cons.IH [OF this, of "l @ log1"] obtain log2 where 2:
    "(gw_step X R I J W)\<^sup>*\<^sup>* (gw_at (sv_app ?sv) ts (l @ log1)) (gw_at (sv_app (serve_timed X R I J W evs ?sv)) ts ((l @ log1) @ log2))"
    "length log2 \<le> sum_list (map (\<lambda>e. admissions (snd (snd e))) evs)" by blast
  have "serve_timed X R I J W (e # evs) sv = serve_timed X R I J W evs ?sv" by (simp add: serve_timed_def case_prod_unfold)
  then show ?case using rtranclp_trans [OF 1(1) 2(1)] 1(2) 2(2) by (intro exI [of _ "log1 @ log2"]) simp
qed (auto simp: serve_timed_def intro!: exI [of _ "[]"])

lemma timed_router_in_time:
  assumes "in_time GENERAL_TIMEOUT p" and "in_time (sv_chain_timeout sv) p"
  shows "timed_router X R I J W cx p r sv = apfst (map_sum id Some) (build_router X R I J W cx r sv)"
proof -
  have t: "timeout_layer secs q ss h st = apfst (map_sum id Some) (h st)" if "in_time secs q" for secs q ss h st
    using that by (simp add: timeout_layer_def apfst_def map_prod_def split: prod.splits)
  have tl: "in_time GENERAL_TIMEOUT (p\<lparr>pc_writes := ws\<rparr>)" for ws using assms(1) by (simp add: in_time_def)
  show ?thesis
    using assms(1)
    by (cases r) (simp_all add: t [OF assms(1)] t [OF assms(2)] t [OF tl] limit_general_def limit_open_def guard_def control_plane_def
        serve_control_def with_app_def split: prod.splits limit_decision.splits sum.splits)
qed

text \<open>
  C9. The server refines the gateway, deadlines included. Any sequence of requests to any of
  its routes, at any pace, whether served, refused by a limiter, the guard or the handler, or
  cut off by a deadline at any of its writes, is a run of the gateway's step relation; the
  run admits at most one claim for each request to the claim endpoint or the paid path, and
  none for any other. Requests that are answered in time are served exactly as without
  deadlines.
\<close>

theorem deadlines_refine_gateway:
  assumes "gw_inv X (sv_app sv)"
  shows "(\<exists>log. (gw_step X R I J W)\<^sup>*\<^sup>* (gw_at (sv_app sv) ts l) (gw_at (sv_app (serve_timed X R I J W evs sv)) ts (l @ log))
      \<and> length log \<le> sum_list (map (\<lambda>e. admissions (snd (snd e))) evs))
    \<and> (in_time GENERAL_TIMEOUT p \<longrightarrow> in_time (sv_chain_timeout sv) p \<longrightarrow>
        timed_router X R I J W cx p r sv = apfst (map_sum id Some) (build_router X R I J W cx r sv))"
  using serve_timed_steps [OF assms] timed_router_in_time by blast

definition demo_late :: pace where
  \<comment> \<open>the writes are done in time, the answer is not\<close>
  "demo_late = \<lparr>pc_writes = [10, 20, 30, 9000], pc_answer = 20000\<rparr>"

lemma demo_late_simps [simp]:
  "\<not> in_time GENERAL_TIMEOUT demo_late" "writes_done GENERAL_TIMEOUT demo_late = 4"
  by (simp_all add: in_time_def writes_done_def demo_late_def GENERAL_TIMEOUT_def)

abbreviation demo_cut_claim :: "(call \<times> pace \<times> route) list" where
  "demo_cut_claim \<equiv> [(demo_call, demo_late, Fast (PostClaimVerify (demo_wire (demo_claim_of 40 2))))]"

lemma demo_claim_cut:
  assumes "as_store (sv_app sv) = Durable demo_db demo_control" and "sv_general_limiter sv = limiter_new q"
  shows "as_store (sv_app (serve_timed demo_externals R I J W demo_cut_claim sv)) = Durable demo_db\<^sub>1 demo_control"
proof -
  let ?ip = "client_ip_with (cc_request demo_call) (sv_trusted_proxies sv)"
  obtain l where l: "check_at ?ip (cc_instant demo_call) (limiter_new q) = (LimAllow, l)"
    using fresh_limiter_allows by blast
  have c: "cc_now demo_call = 1500" "cc_rid demo_call = ''r''" by (simp_all add: demo_call_def)
  obtain res where v: "verify_claim demo_externals 1500 ''r'' (demo_wire (demo_claim_of 40 2)) (sv_app sv)
      = (res, (sv_app sv)\<lparr>as_store := Durable demo_db\<^sub>1 demo_control\<rparr>)"
    using demo_durable_verified [OF assms(1)] by blast
  show ?thesis
    using l assms(2) v by (simp add: serve_timed_def limit_general_def guard_def c timeout_layer_def one_write_def)
qed

theorem deadlines_refine_gateway_witness:
  "\<forall>R I J W. \<exists>sv log. boot demo_externals (demo_world demo_db) demo_env = Ok sv
     \<and> (gw_step demo_externals R I J W)\<^sup>*\<^sup>* (gw_at (sv_app sv) [] [])
        (gw_at (sv_app (serve_timed demo_externals R I J W demo_cut_claim sv)) [] log) \<and> length log \<le> 1"
proof (intro allI)
  fix R I J W
  obtain sv where sv: "boot demo_externals (demo_world demo_db) demo_env = Ok sv" "as_store (sv_app sv) = Durable demo_db demo_control"
    using demo_boot [OF demo_db_facts(1,2)] by blast
  have "gw_inv demo_externals (sv_app sv)" using sv(2) demo_db_facts(1) by (simp add: backend_inv_def)
  from deadlines_refine_gateway [OF this, of R I J W "[]" "[]" demo_cut_claim] sv(1)
  show "\<exists>sv log. boot demo_externals (demo_world demo_db) demo_env = Ok sv
     \<and> (gw_step demo_externals R I J W)\<^sup>*\<^sup>* (gw_at (sv_app sv) [] [])
        (gw_at (sv_app (serve_timed demo_externals R I J W demo_cut_claim sv)) [] log) \<and> length log \<le> 1"
    by (auto simp: admissions_def)
qed

text \<open>
  C8. The whole process keeps its books, deadlines included. From a start without a database,
  or on one whose sessions have no accepted claim yet, and after any sequence of requests to
  any route at any pace, each session's high-water mark is the sum of the deltas of the claims
  admitted for it, at most one per claim or purchase request, stays within its deposit, and
  the claim kept for settlement is signed by the session's agent for exactly that amount:
  nothing the limiters, the guard, the control plane, the planner, the listings or a cut-off
  request do moves money.
\<close>

theorem deadline_books:
  assumes "boot X V env = Ok sv" and "\<forall>url db cdb. wd_connect V url = Some (db, cdb) \<longrightarrow> pg_inv X db \<and> pg_claims db = []"
    and "gw_view X (sv_app (serve_timed X R I J W evs sv)) k = Some r"
  shows "\<exists>log. (gw_step X R I J W)\<^sup>*\<^sup>* (gw_at (sv_app sv) [] []) (gw_at (sv_app (serve_timed X R I J W evs sv)) [] log)
    \<and> length log \<le> sum_list (map (\<lambda>e. admissions (snd (snd e))) evs)
    \<and> total_delta (log_of k log) = unat (sr_cumulative_accepted r) \<and> sr_cumulative_accepted r \<le> sr_deposited_total r
    \<and> (\<forall>sc. sr_highest_claim r = Some sc \<longrightarrow> cl_session (sc_claim sc) = k
        \<and> cl_cumulative_amount (sc_claim sc) = sr_cumulative_accepted r
        \<and> verify_claim_signature X (sr_agent r) (sc_claim sc) (sc_signature sc) = Valid)"
proof -
  note start = boot_ok [OF assms(1,2)]
  then have "gw_inv X (sv_app sv)" by (simp add: gw_ok_def)
  from serve_timed_steps [OF this, of R I J W "[]" "[]" evs] obtain log where
    log: "(gw_step X R I J W)\<^sup>*\<^sup>* (gw_at (sv_app sv) [] []) (gw_at (sv_app (serve_timed X R I J W evs sv)) [] log)"
    "length log \<le> sum_list (map (\<lambda>e. admissions (snd (snd e))) evs)" by auto
  show ?thesis using log run_books [OF start log(1) assms(3)] by blast
qed

theorem deadline_books_witness:
  "\<forall>R I J W. \<exists>sv r log. boot demo_externals (demo_world demo_db) demo_env = Ok sv
     \<and> gw_view demo_externals (sv_app (serve_timed demo_externals R I J W demo_cut_claim sv)) 7 = Some r
     \<and> total_delta (log_of 7 log) = unat (sr_cumulative_accepted r) \<and> sr_cumulative_accepted r = 40 \<and> length log \<le> 1"
proof (intro allI)
  fix R I J W
  obtain sv where sv: "boot demo_externals (demo_world demo_db) demo_env = Ok sv"
    "as_store (sv_app sv) = Durable demo_db demo_control" "sv_general_limiter sv = limiter_new (per_minute 600)"
    using demo_boot [OF demo_db_facts(1,2)] by blast
  have w: "\<forall>url db cdb. wd_connect (demo_world demo_db) url = Some (db, cdb) \<longrightarrow> pg_inv demo_externals db \<and> pg_claims db = []"
    using demo_db_facts(1) demo_db_claims by (simp add: demo_world_def)
  have view: "gw_view demo_externals (sv_app (serve_timed demo_externals R I J W demo_cut_claim sv)) 7 = Some demo_marked"
    using demo_claim_cut [OF sv(2,3)] demo_db\<^sub>1_facts(2) by (simp add: backend_view_def)
  have "sr_cumulative_accepted demo_marked = 40" by (simp add: demo_marked_def advance_def demo_claim_of_def)
  moreover have "\<exists>log. total_delta (log_of 7 log) = unat (sr_cumulative_accepted demo_marked) \<and> length log \<le> 1"
    using deadline_books [OF sv(1) w view] by (auto simp: admissions_def)
  ultimately show "\<exists>sv r log. boot demo_externals (demo_world demo_db) demo_env = Ok sv
     \<and> gw_view demo_externals (sv_app (serve_timed demo_externals R I J W demo_cut_claim sv)) 7 = Some r
     \<and> total_delta (log_of 7 log) = unat (sr_cumulative_accepted r) \<and> sr_cumulative_accepted r = 40 \<and> length log \<le> 1"
    using sv(1) view by blast
qed

subsection \<open>The tables behind a cut request\<close>

text \<open>
  C26. The tables of the control plane keep their shape. Starting from well-formed tables
  (unique keys, references that resolve, known modes, statuses and states, amounts in
  range), any sequence of requests to any route, let through, refused or cut off between two
  of its writes, leaves them well-formed; and on well-formed tables no reader fails on a row:
  while the database answers, every agent, every listing and every approval queue is readable.
\<close>

theorem deadlines_keep_tables:
  assumes "db_wf (sv_app sv)" and "as_db (sv_app (serve_timed X R I J W evs sv)) = Some (db, cdb)"
  shows "control_wf cdb \<and> (cd_online cdb \<longrightarrow> (\<exists>as. list_agents ws cdb = Ok as) \<and> (\<exists>a. get_agent i ws cdb = Ok a)
    \<and> (\<exists>a. get_agent_by_pubkey k cdb = Ok a) \<and> (\<exists>vs. list_approvals n ws cdb = Ok vs))"
proof -
  have "control_wf cdb" using timed_tables.serve_timed_keeps [OF assms(1), of X R I J W evs] assms(2) by (simp add: db_wf_def)
  then show ?thesis by (rule readable_tables)
qed

theorem deadlines_keep_tables_witness:
  "\<forall>R I J W. \<exists>db cdb. as_db (sv_app (serve_timed demo_externals R I J W
       [(demo_call, demo_late, ControlPlane (PostAgentStatus ''agt1'' Suspended))] demo_served)) = Some (db, cdb)
     \<and> control_wf cdb \<and> (\<exists>as. list_agents None cdb = Ok as)"
proof (intro allI)
  fix R I J W
  let ?evs = "[(demo_call, demo_late, ControlPlane (PostAgentStatus ''agt1'' Suspended))]"
  obtain cdb where c: "as_db (sv_app (serve_all demo_externals R I J W
      [(demo_call, ControlPlane (PostAgentStatus ''agt1'' Suspended))] demo_served)) = Some (demo_db, cdb)" "cd_online cdb"
    using demo_served_status [of R I J W] by blast
  have l: "\<not> in_time GENERAL_TIMEOUT (demo_late\<lparr>pc_writes := tl (pc_writes demo_late)\<rparr>)"
    "writes_done GENERAL_TIMEOUT (demo_late\<lparr>pc_writes := tl (pc_writes demo_late)\<rparr>) = 3"
    by (simp_all add: in_time_def writes_done_def demo_late_def GENERAL_TIMEOUT_def)
  have "serve_timed demo_externals R I J W ?evs demo_served = serve_all demo_externals R I J W
      [(demo_call, ControlPlane (PostAgentStatus ''agt1'' Suspended))] demo_served"
    by (simp add: serve_timed_def serve_all_def control_plane_def serve_control_def timeout_layer_def l one_write_def
        split: prod.splits sum.splits)
  then have c': "as_db (sv_app (serve_timed demo_externals R I J W ?evs demo_served)) = Some (demo_db, cdb)" using c(1) by simp
  show "\<exists>db cdb. as_db (sv_app (serve_timed demo_externals R I J W ?evs demo_served)) = Some (db, cdb)
     \<and> control_wf cdb \<and> (\<exists>as. list_agents None cdb = Ok as)"
    using deadlines_keep_tables [OF demo_served_wf c'] c' c(2) by blast
qed

subsection \<open>A purchase that is cut off\<close>

lemma cut_among_last:
  assumes "\<not> in_time secs p" and "states st = before @ after" and "after \<noteq> []" and "length before \<le> writes_done secs p"
    and "timeout_layer secs p states h st = (res, st')"
  shows "res = Ok None" and "st' \<in> set after"
proof -
  define n where "n = min (writes_done secs p) (length (states st) - 1)"
  have n: "length before \<le> n" "n - length before < length after"
    using assms(2-4) unfolding n_def by (cases after; simp)+
  show "res = Ok None" using assms(1,5) by (simp add: timeout_layer_def)
  have "st' = (before @ after) ! n" using assms(1,2,5) by (simp add: timeout_layer_def n_def)
  then show "st' \<in> set after" using n by (simp add: nth_append)
qed

text \<open>
  C18. A purchase cut off after its admission is paid for and not delivered. If the deadline
  passes once a purchase has been admitted, while the provider is still asked, the client
  gets an empty answer, and the session is charged the listed price. The claim is spent: in
  that state and in every later one in which no mark went back, presenting it again for the
  same or another resource is refused, and no session changes.
\<close>

theorem cut_purchase_charged:
  assumes inv: "gw_inv X st"
    and p: "buy_prepare X J W (cc_now cx) (cc_instant cx) (cc_rid cx) (cc_uuid cx) resource (Some raw) st = (Ok (Paying t), st\<^sub>1, urls)"
    and a: "admitted X (bt_claim t) (bt_signature t) (cc_now cx) st\<^sub>1 = [(bt_claim t, a)]"
    and late: "\<not> in_time GENERAL_TIMEOUT pc"
      "length (prepare_states X J W (cc_now cx) (cc_instant cx) (cc_rid cx) (cc_uuid cx) resource (Some raw) st)
         \<le> writes_done GENERAL_TIMEOUT pc"
    and cut: "timeout_layer GENERAL_TIMEOUT pc (fast_states X J W cx (GetBuy resource query (Some raw)))
      (fast_handler X J W cx (GetBuy resource query (Some raw))) st = (res, st')"
    and later: "gw_inv X st''" "\<forall>k. mark (gw_view X st' k) \<le> mark (gw_view X st'' k)"
  shows "res = Ok None
    \<and> (\<exists>r. gw_view X st (cl_session (bt_claim t)) = Some r
        \<and> gw_view X st' = (gw_view X st)(cl_session (bt_claim t) \<mapsto> advance r (bt_claim t) (bt_signature t))
        \<and> unat (cl_cumulative_amount (bt_claim t)) = unat (sr_cumulative_accepted r) + unat (bt_price t))
    \<and> (\<exists>d b us. buy X J W' now' instant' rid' uuid' resource' query' (Some raw) st'' = (Err d, b, us)
        \<and> gw_view X b = gw_view X st'')"
proof -
  let ?k = "cl_session (bt_claim t)" and ?S = "prepare_states X J W (cc_now cx) (cc_instant cx) (cc_rid cx) (cc_uuid cx) resource (Some raw) st"
    and ?F = "finish_states X J W (cc_now cx) (cc_rid cx) query t st\<^sub>1"
  from p obtain u' r where c: "buy_check_claim X J (cc_now cx) (cc_rid cx) raw (bt_price t) (st\<lparr>as_upstream := Some u'\<rparr>)
      = Ok (bt_claim t, bt_signature t, r)" by (auto elim: buy_prepare_Paying)
  have "gw_inv X (st\<lparr>as_upstream := Some u'\<rparr>)" using inv by simp
  note chk = buy_check_claim_Ok [OF this c]
  have same: "gw_view X st\<^sub>1 = gw_view X st" "gw_inv X st\<^sub>1"
    using same_sessions_view [OF buy_prepare_same [of st X J W "cc_now cx" "cc_instant cx" "cc_rid cx" "cc_uuid cx" resource "Some raw"], of X]
      p inv by simp_all
  obtain ares b where adm: "store_admit_claim X (bt_claim t) (bt_signature t) (cc_now cx) (as_store st\<^sub>1) = (ares, b)" by fastforce
  then have "ares = Ok (Ok a)" using a by (auto simp: admitted_def split: sum.splits)
  then have bv: "backend_view X b = (gw_view X st)(?k \<mapsto> advance r (bt_claim t) (bt_signature t))"
    using gws.admit_view [OF same(2) adm] same(1) chk(3) by auto
  have states: "fast_states X J W cx (GetBuy resource query (Some raw)) st = ?S @ ?F" using p by (simp add: buy_states_def)
  have res: "res = Ok None" and st': "st' \<in> set ?F"
    using cut_among_last [OF late(1) states _ late(2) cut] by (simp_all add: finish_states_def)
  obtain fres st\<^sub>2 urls' where f: "buy_finish X J W (cc_now cx) (cc_rid cx) query t st\<^sub>1 = (fres, st\<^sub>2, urls')" using prod_cases3 by blast
  have v: "gw_view X st' = backend_view X b"
    using st' adm f same_sessions_view [OF buy_finish_sessions [OF f], of X] by (auto simp: finish_states_def)
  have "cl_cumulative_amount (bt_claim t) \<le> mark (gw_view X st'' ?k)"
    using later(2) [rule_format, of ?k] by (simp add: v bv mark_def advance_def)
  from buy_spent [OF later(1) chk(1) this]
  have "\<exists>d b us. buy X J W' now' instant' rid' uuid' resource' query' (Some raw) st'' = (Err d, b, us) \<and> gw_view X b = gw_view X st''"
    by blast
  moreover have "gw_view X st (cl_session (bt_claim t)) = Some r" using chk(3) by simp
  ultimately show ?thesis using res v bv chk(5) by auto
qed

theorem cut_purchase_charged_witness:
  "\<exists>st'. timeout_layer GENERAL_TIMEOUT demo_late
       (fast_states demo_externals (demo_serde (demo_wire (demo_claim_of 40 2))) demo_web demo_call (GetBuy ''weather'' [] (Some [])))
       (fast_handler demo_externals (demo_serde (demo_wire (demo_claim_of 40 2))) demo_web demo_call (GetBuy ''weather'' [] (Some [])))
       (demo_app (Ephemeral (mem_with demo_record))) = (Ok None, st')
     \<and> gw_view demo_externals st' 7 = Some demo_marked
     \<and> (\<exists>d b us. buy demo_externals (demo_serde (demo_wire (demo_claim_of 40 2))) demo_web 1500 5 ''r'' ''u'' ''weather'' []
          (Some []) st' = (Err d, b, us))"
proof -
  let ?st = "demo_app (Ephemeral (mem_with demo_record))" and ?J = "demo_serde (demo_wire (demo_claim_of 40 2))"
  let ?u = "demo_upstream\<lparr>up_cached := Some (demo_catalogue, 5)\<rparr>"
  let ?st\<^sub>1 = "?st\<lparr>as_upstream := Some ?u\<rparr>"
  let ?t = "\<lparr>bt_claim = demo_claim_of 40 2, bt_signature = 40, bt_resource = ''/weather'', bt_price = 40, bt_identity = agent_identity_default\<rparr>"
  let ?T = "timeout_layer GENERAL_TIMEOUT demo_late (fast_states demo_externals ?J demo_web demo_call (GetBuy ''weather'' [] (Some [])))
    (fast_handler demo_externals ?J demo_web demo_call (GetBuy ''weather'' [] (Some []))) ?st"
  have cx [simp]: "cc_now demo_call = 1500" "cc_instant demo_call = 5" "cc_rid demo_call = ''r''" "cc_uuid demo_call = ''u''"
    by (simp_all add: demo_call_def)
  have get: "store_get demo_externals 7 (Ephemeral (mem_with demo_record)) = Ok demo_record"
    by (simp add: store_get_def mem_get_def mem_with_def demo_record_def session_record_new_def)
  have up: "as_upstream ?st = Some demo_upstream" by (simp add: demo_app_def)
  have db: "as_db ?st = None" by (simp add: as_db_def)
  have enf: "enforce_agent_policy demo_externals ''r'' ''u'' a k p q ?st\<^sub>1 = (Ok agent_identity_default, ?st\<^sub>1)" for a k p q
    by (simp add: enforce_agent_policy_def as_db_def demo_app_def)
  have p: "buy_prepare demo_externals ?J demo_web 1500 5 ''r'' ''u'' ''weather'' (Some []) ?st = (Ok (Paying ?t), ?st\<^sub>1, [''http://p/_catalogue''])"
    using demo_check [OF get, of "''r''"] by (simp add: buy_prepare_def up normalise_weather demo_price_path enf Let_def)
  have n: "length (prepare_states demo_externals ?J demo_web 1500 5 ''r'' ''u'' ''weather'' (Some []) ?st) = 3"
    using demo_check [OF get, of "''r''"]
    by (simp add: prepare_states_def up normalise_weather demo_price_path Let_def enforce_states_def db)
  have a: "admitted demo_externals (bt_claim ?t) (bt_signature ?t) 1500 ?st\<^sub>1 = [(bt_claim ?t,
      \<lparr>ca_cumulative_amount = 40, ca_previous_cumulative = 0, ca_delta = 40, ca_nonce = 2\<rparr>)]"
    using demo_admit by (simp add: admitted_def)
  have inv: "gw_inv demo_externals ?st" by (simp add: backend_inv_def)
  obtain res st' where cut: "?T = (res, st')" by fastforce
  have "gw_inv demo_externals (snd ?T)"
    by (rule timed_sessions.fast_states_keep [OF inv timed_states(2)])
  then have inv': "gw_inv demo_externals st'" using cut by simp
  from cut_purchase_charged [where cx = demo_call, unfolded cx, OF inv p a demo_late_simps(1) _ cut inv', of demo_web 1500 5 "''r''" "''u''" "''weather''" "[]"]
  obtain r where "res = Ok None" "gw_view demo_externals ?st 7 = Some r"
    "gw_view demo_externals st' = (gw_view demo_externals ?st)(7 \<mapsto> advance r (demo_claim_of 40 2) 40)"
    "\<exists>d b us. buy demo_externals ?J demo_web 1500 5 ''r'' ''u'' ''weather'' [] (Some []) st' = (Err d, b, us)"
    using n by (auto simp: demo_claim_of_def)
  then show ?thesis using cut by (auto simp: backend_view_def mem_with_def demo_marked_def demo_record_def session_record_new_def)
qed

end
