(* ===== verification/Spec2Isabelle.thy ===== *)
theory Spec2Isabelle
  imports Escrow_Props Pg_Props Account Errors Control_Props Auth Buy_Props Base64_Props Server_Props
    Plan_Props Control_Safety Control_Tables Buy_Races Composition_Props Deadlines_Props
begin

text \<open>
  AgentPay: a payment gateway for software agents, and the Solana escrow it settles on.

  An agent deposits tokens into an escrow session of the on-chain program and pays for calls
  with signed claims, each for the cumulative amount owed so far. The gateway admits claims
  under ordering rules, records every decision in a hash chain, forwards paid calls to
  providers, and settles the highest claim of a session on chain, together with the Merkle
  root of the session's evidence. Operators bound agents by policies, approve spends and
  register providers through the control plane.

  \<^bold>\<open>Parts and theories.\<close> Paths are below \<open>src/\<close>; \<open>gateway/src/\<close> is left out.
  \<^item> \<open>Prelude\<close>: words, results, checked arithmetic, byte encodings, text functions, the
    record \<open>externals\<close> of foreign functions, and the locale \<open>preserved\<close>.
  \<^item> \<open>Claim\<close>: \<open>claim.rs\<close> and \<open>verify.rs\<close>. \<open>Errors\<close>: \<open>error.rs\<close>.
  \<^item> \<open>Escrow\<close>: \<open>programs/agentpay/src/lib.rs\<close>, with the account constraints of each
    instruction; the chain is a record of accounts, receipts, mints, tokens and events.
    \<open>Escrow_Safety\<close> and \<open>Escrow_Props\<close>: its step relation, in which other programs act
    too, its invariants and theorems.
  \<^item> \<open>Settle\<close>: \<open>settle.rs\<close>. \<open>Account\<close>: \<open>chain.rs\<close>.
  \<^item> \<open>Evidence\<close>: \<open>evidence.rs\<close>, the hash chain and the Merkle tree.
  \<^item> \<open>Session_Store\<close>: \<open>state.rs\<close>, the ordering rules, the in-memory store, and the
    trait as the locale \<open>session_store\<close>. \<open>Pg_Store\<close>: the transactions of \<open>db.rs\<close>;
    \<open>Pg_Refinement\<close> and \<open>Pg_Props\<close> make it an instance of the locale.
  \<^item> \<open>Policy\<close>: \<open>policy.rs\<close>. \<open>Control_Store\<close>: \<open>control_db.rs\<close> and
    \<open>usage.rs\<close>. \<open>Control_Props\<close>: tenants and the ledger of approvals.
  \<^item> \<open>Upstream\<close>: \<open>buy.rs\<close>. \<open>Registry\<close>: \<open>registry.rs\<close>, with the locale
    \<open>provider_map\<close>. \<open>Auth\<close>: \<open>auth.rs\<close>.
  \<^item> \<open>Gateway\<close>: the session routes of \<open>routes.rs\<close> over the shared \<open>AppState\<close>, with
    either store. \<open>Gateway_Safety\<close>: the handlers as steps of a state machine in which
    purchases interleave. \<open>Gateway_Props\<close>: the theorems about it.
  \<^item> \<open>Buy\<close> and \<open>Buy_Props\<close>: the paid path of \<open>routes.rs\<close>. \<open>Buy_Races\<close>: purchases
    that overlap across sessions. \<open>Base64_Props\<close>: the decoder of its claim header.
  \<^item> \<open>Composition\<close>: the gateway and the chain as one system. \<open>Composition_Props\<close>: the
    theorems about it.
  \<^item> \<open>Control\<close>: \<open>control.rs\<close>. \<open>Plan_Props\<close>: the loop of the planner.
    \<open>Control_Safety\<close>: the handlers against the paid path. \<open>Control_Tables\<close>: the shape
    of the tables.
  \<^item> \<open>Listings\<close>: the read side of \<open>db.rs\<close> and \<open>routes.rs\<close>.
  \<^item> \<open>Float64\<close>, \<open>Net_Addr\<close>, \<open>Ratelimit\<close>, \<open>Ratelimit_Props\<close>:
    \<open>ratelimit.rs\<close>, over double-precision arithmetic and the address parser of the
    standard library.
  \<^item> \<open>Config\<close>: \<open>config.rs\<close>. \<open>Server\<close> and \<open>Server_Props\<close>: how \<open>main.rs\<close> starts.
    \<open>Router\<close>: \<open>build_router\<close> with every route, its handler and its layers.
    \<open>Deadlines\<close>: its timeouts, and the states in which they can leave a request.
    \<open>Router_Props\<close> and \<open>Deadlines_Props\<close>: the whole server refines the state machine
    of \<open>Gateway_Safety\<close>.

  \<^bold>\<open>How the parts meet.\<close> A handler is a function from the request and the shared state to
  an answer and the new state. \<open>boot\<close> builds the state, \<open>build_router\<close> puts the layers
  in front of a handler, \<open>timed_router\<close> adds the deadlines, and \<open>serve_all\<close> and
  \<open>serve_timed\<close> serve a sequence of requests. A purchase is
  also given in two halves, \<open>buy_prepare\<close> and \<open>buy_finish\<close>, because other requests
  can be served between its price check and its admission, and so is a settlement,
  \<open>settle_submit\<close> and \<open>settle_mark\<close>; \<open>gw_step\<close> interleaves the halves with all
  other requests, the passing of time, and any change of the database's availability and of
  the chain the gateway reads. \<open>joint_step\<close> puts that machine beside the chain: the node
  answers what the chain holds or nothing, a confirmed settlement has run, and anyone can use
  the program without the gateway.

  \<^bold>\<open>What is shown.\<close>
  \<^item> On chain: solvency, exact payouts, the agent's signature on what is paid, no replay,
    refunds to the agent only, and events that add up.
  \<^item> Across the boundary: the bytes the gateway writes are the bytes the program accepts;
    the parser returns an account exactly for its layout; a session is trusted only when a
    matching escrow exists. In the joint system, what the gateway accepted for a session can
    be collected to the last delta, into the provider's account, as long as the session is
    unsettled, session and claim are unexpired on chain, an authorised settler signs, and the
    receipt and the provider's token account are usable; and a session it shows as settled
    was paid.
  \<^item> In the gateway: the books balance over every interleaving, both stores, a restart, and
    the whole router, cut-off requests included; goods only for an admitted payment of the listed price, within the
    policy and with an approval consumed where one is needed; a settlement commits the published root
    of a chain that verifies.
  \<^item> In the control plane: tenant isolation of the tables, approvals used once, what is
    granted is what is enforced, down to the approval that is used or asked for, suspension
    and revocation at once, plans that are exact, move nothing and agree with what a purchase
    of an agent with an envelope meets, tables that stay readable.
  \<^item> In front of it: a start that fails closed, the guard, and the rate a client can reach.
  \<^item> Where the code does less than it means to, a theorem says exactly what happens:
    purchases that overlap on one session or on two, a purchase that is cut off once it is
    charged, claims accepted during a settlement,
    the prefunded receipt, claims that cannot be settled, operators and registry entries that
    cross tenants, a plan for a suspended agent without an envelope, the sessions beyond the
    newest 500.

  \<^bold>\<open>Interfaces.\<close> \<open>session_store\<close> is interpreted by the in-memory store, the
  database and the sum of both; \<open>provider_map\<close> by the registry; \<open>allowance_spec\<close> by the
  limiter; \<open>router_invariant\<close> and its extension \<open>deadline_invariant\<close> by the session
  invariant and the shape of the control tables; \<open>preserved\<close> by the invariants of the chain and of the joint system.

  \<^bold>\<open>Parameters.\<close> What is not in the repository is an argument of the definitions:
  \<open>externals\<close> (SHA-256, Ed25519, base58, program addresses), \<open>runtime\<close> and
  \<open>solana_ids\<close> (token program, system program, rent, well-known addresses), \<open>serde\<close>
  and \<open>web\<close> (JSON and HTTP), \<open>rpc_node\<close> and \<open>world\<close> (the Solana node, key files,
  the database that answers at a URL). What the theorems use of them is named:
  \<open>pk_text_law\<close> (base58 text of a key parses back), \<open>pda_law\<close>,
  \<open>spl_effect_law\<close>, \<open>spl_progress_law\<close>, \<open>create_account_law\<close>, \<open>precompile_law\<close>,
  and \<open>collision_free\<close> on the finite set of hashed preimages. Each is shown to hold of a
  concrete instance by the witnesses.

  \<^bold>\<open>Bounds and termination.\<close> No definition has fuel: every loop of the source is a
  recursion with a measure (levels of the tree, calls left to plan, characters left to
  parse). Integers keep their width and wrap or fail where Rust does; the columns of the
  database are signed 64-bit words. The limits of the source are used as they are: 50000
  tracked clients, 200 and 60 rows of a listing, 500 sessions searched by
  \<open>get_session\<close>, and a skew of 30 seconds. The rate bounds carry the rounding error of
  the double-precision bucket explicitly.

  \<^bold>\<open>Not modelled.\<close> Log lines, the listener and the shutdown signal: they keep no state.
  Requests interleave at the halves of a purchase and of a settlement; every other handler is
  one step, or is cut off at one of its writes. Path matching and body extraction belong to
  the framework, and a request arrives as the route it matched. Strings hold code points up to
  U+00FF. Times in listings stay timestamps. Poisoning of a lock is a flag of the in-memory
  store; in the limiter it is left out, as nothing panics under that lock. Each transaction
  of the database is one step, as its row locks make it. In the joint system the gateway has
  no legacy program, and what its node answers is what the chain holds at that moment. Of the
  account structs of the program the \<open>mut\<close> flags are checked where the gateway's
  instruction is decoded (\<open>run_settle\<close>), together with the program, the discriminator and
  the signer; the token and system program accounts are left to the runtime, and when several
  constraints fail at once the first error may differ. A settlement reads the evidence and
  the session's record at one moment, where the handler awaits in between. The
  test modules of the crates, the TypeScript SDK, scripts and tests, the console and the
  deployment files are not part of the model; the migrations are, as the constraints of the
  tables.
\<close>

section \<open>Settlement and acceptance\<close>

text \<open>What the program asks of the expiry of a claim, and what the gateway keeps of a claim it accepted.\<close>

lemma settled_in_time:
  assumes "settle_session X R ch tx a amount nonce expiry mroot = Ok ch'"
  shows "sint expiry + 30 < 2 ^ 63" and "sint (tx_now tx) \<le> sint expiry + 30"
proof -
  obtain l where l: "checked_add_i64 expiry CLOCK_SKEW_TOLERANCE_SECS = Some l" "sint (tx_now tx) \<le> sint l"
    using assms by (auto simp: settle_session_Ok settle_checks_Ok)
  have "sint l = sint expiry + 30" using checked_add_i64_sint [OF l(1)] by (simp add: CLOCK_SKEW_TOLERANCE_SECS_def)
  then show "sint expiry + 30 < 2 ^ 63" "sint (tx_now tx) \<le> sint expiry + 30" using l(2) i64_range [of l] by auto
qed

lemma accepted_claim_kept:
  assumes inv: "gw_inv X st" and v: "verify_claim X now rid wire st = (Ok resp, st')" and d: "decode X wire = Ok (c, sig)"
  shows "\<exists>r. gw_view X st' (cl_session c) = Some r \<and> sr_highest_claim r = Some \<lparr>sc_claim = c, sc_signature = sig\<rparr>"
  using inv v
proof (cases rule: verify_claim_cases)
  case (ran c' sig' r ares b)
  then obtain acc where "ares = Ok (Ok acc)" by blast
  then show ?thesis using gws.admit_view [OF inv ran(5)] ran(1,6) d by (auto simp: advance_def)
qed simp

text \<open>
  C19. The gateway accepts claims that cannot be settled. The expiry of a claim is the agent's
  choice: when it is so large that adding the clock skew overflows, or small enough to pass
  before the settlement, a claim endpoint that accepted the claim keeps it as the one to
  settle, and every settlement of it fails on chain, in every state of the chain and
  with any accounts.
\<close>

theorem accepted_claim_unsettleable:
  assumes "gw_inv X st" and "decode X wire = Ok (c, sig)" and "verify_claim X now rid wire st = (Ok resp, st')"
    and "2 ^ 63 \<le> sint (cl_expires_at c) + 30 \<or> sint (cl_expires_at c) + 30 < sint (tx_now tx)"
  shows "(\<exists>r. gw_view X st' (cl_session c) = Some r \<and> sr_highest_claim r = Some \<lparr>sc_claim = c, sc_signature = sig\<rparr>)
    \<and> (\<exists>e. settle_session X R ch tx a (cl_cumulative_amount c) (cl_nonce c) (cl_expires_at c) mroot = Err e)"
proof (intro conjI)
  show "\<exists>r. gw_view X st' (cl_session c) = Some r \<and> sr_highest_claim r = Some \<lparr>sc_claim = c, sc_signature = sig\<rparr>"
    by (rule accepted_claim_kept [OF assms(1,3,2)])
  show "\<exists>e. settle_session X R ch tx a (cl_cumulative_amount c) (cl_nonce c) (cl_expires_at c) mroot = Err e"
    using settled_in_time [of X R ch tx a "cl_cumulative_amount c" "cl_nonce c" "cl_expires_at c" mroot] assms(4)
    by (cases "settle_session X R ch tx a (cl_cumulative_amount c) (cl_nonce c) (cl_expires_at c) mroot") force+
qed

definition demo_forever :: claim where
  "demo_forever = (demo_claim_of 40 2)\<lparr>cl_expires_at := i64_max\<rparr>"

lemma demo_forever_accepted:
  "\<exists>resp st'. verify_claim demo_externals 1500 ''r'' (demo_wire demo_forever) (demo_app (Ephemeral (mem_with demo_record))) = (Ok resp, st')"
proof -
  have "\<not> is_expired demo_forever 1500" by (simp add: is_expired_iff demo_forever_def i64_max_def)
  moreover have "ucast (40 :: u64) = (40 :: sig64)" by simp
  moreover note demo_decode [of demo_forever] demo_signed [of _ demo_forever]
  moreover have "evaluate_claim demo_record demo_forever 1500 =
      Ok \<lparr>ca_cumulative_amount = 40, ca_previous_cumulative = 0, ca_delta = 40, ca_nonce = 2\<rparr>"
    by (simp add: evaluate_claim_Ok demo_record_def session_record_new_def demo_forever_def demo_claim_of_def)
  ultimately show ?thesis
    by (simp add: verify_claim_def demo_app_def store_get_def mem_get_def store_admit_claim_def
        mem_admit_claim_def mem_with_def advance_def demo_forever_def demo_claim_of_def demo_record_def session_record_new_def)
qed

theorem accepted_claim_unsettleable_witness:
  "\<forall>R ch tx a mroot. \<exists>resp st' r e.
     verify_claim demo_externals 1500 ''r'' (demo_wire demo_forever) (demo_app (Ephemeral (mem_with demo_record))) = (Ok resp, st')
   \<and> gw_view demo_externals st' 7 = Some r \<and> map_option sc_claim (sr_highest_claim r) = Some demo_forever
   \<and> settle_session demo_externals R ch tx a 40 2 i64_max mroot = Err e"
proof (intro allI)
  fix R ch tx a mroot
  obtain resp st' where v: "verify_claim demo_externals 1500 ''r'' (demo_wire demo_forever)
      (demo_app (Ephemeral (mem_with demo_record))) = (Ok resp, st')" using demo_forever_accepted by blast
  have inv: "gw_inv demo_externals (demo_app (Ephemeral (mem_with demo_record)))"
    by (simp add: demo_app_def backend_inv_def mem_with_def demo_record_def session_record_new_def record_ok_def)
  have far: "2 ^ 63 \<le> sint (cl_expires_at demo_forever) + 30" by (simp add: demo_forever_def i64_max_def)
  from accepted_claim_unsettleable [OF inv demo_decode v, of tx R ch a mroot] far v
  show "\<exists>resp st' r e. verify_claim demo_externals 1500 ''r'' (demo_wire demo_forever)
      (demo_app (Ephemeral (mem_with demo_record))) = (Ok resp, st')
   \<and> gw_view demo_externals st' 7 = Some r \<and> map_option sc_claim (sr_highest_claim r) = Some demo_forever
   \<and> settle_session demo_externals R ch tx a 40 2 i64_max mroot = Err e"
    by (auto simp: demo_forever_def demo_claim_of_def)
qed

end
